(* ===== verification/Prelude.thy ===== *)
theory Prelude
  imports Main "HOL-Library.Word" "HOL-Library.Char_ord" "HOL-Library.List_Lexorder"
    "HOL-Library.AList" "HOL-Library.Multiset"
begin

text \<open>
  Shared ground of the development: the types that stand for Go's built-in ones, the
  operations of Go's \<open>strings\<close>, \<open>strconv\<close> and \<open>maps\<close> packages that the sources use, and
  the lemmas about them that the component theories rely on.

  \<^item> A Go \<open>string\<close> is a sequence of bytes: \<open>string\<close> here, ordered bytewise and
    lexicographically, as Go's \<open><\<close> is.
  \<^item> \<open>[]byte\<close> is a list of \<open>8 word\<close>.
  \<^item> An \<open>int64\<close> whose overflow matters is an \<open>int\<close> with the wrap-around of \<open>wrap64\<close>
    written out; other widths are \<open>word\<close>s.
  \<^item> A Go map is an association list with distinct keys (\<open>gm_wf\<close>). Its order stands for
    the order in which the runtime happens to iterate the map, so a statement about every
    such list is a statement about every iteration order.
\<close>

named_theorems go_string_simps \<open>facts about the modelled string functions\<close>
named_theorems gomap_simps \<open>facts about the modelled map operations\<close>

type_synonym byte = "8 word"
type_synonym bytes = "byte list"
type_synonym ('k, 'v) gomap = "('k \<times> 'v) list"

subsection \<open>Machine integers\<close>

definition wrap64 :: "int \<Rightarrow> int" where
  "wrap64 x = (x + 2 ^ 63) mod 2 ^ 64 - 2 ^ 63"

definition is_int64 :: "int \<Rightarrow> bool" where
  "is_int64 x \<longleftrightarrow> - (2 ^ 63) \<le> x \<and> x < 2 ^ 63"

text \<open>Go's integer division truncates towards zero.\<close>

definition go_quot :: "int \<Rightarrow> int \<Rightarrow> int" where
  "go_quot a b = sgn a * sgn b * (\<bar>a\<bar> div \<bar>b\<bar>)"

lemma go_quot_nonneg: "0 \<le> a \<Longrightarrow> 0 < b \<Longrightarrow> go_quot a b = a div b"
  by (cases "a = 0") (simp_all add: go_quot_def)

lemma wrap64_id [simp]: "is_int64 x \<Longrightarrow> wrap64 x = x"
  by (simp add: wrap64_def is_int64_def)

lemma is_int64_wrap64 [simp]: "is_int64 (wrap64 x)"
proof -
  have "0 \<le> (x + 2 ^ 63) mod 2 ^ 64" and "(x + 2 ^ 63) mod 2 ^ 64 < 2 ^ 64"
    by simp_all
  then show ?thesis
    unfolding wrap64_def is_int64_def by simp
qed

lemma wrap64_overflow:
  "2 ^ 63 \<le> x \<Longrightarrow> x < 2 ^ 64 + 2 ^ 63 \<Longrightarrow> wrap64 x = x - 2 ^ 64"
proof -
  assume "2 ^ 63 \<le> x" and "x < 2 ^ 64 + 2 ^ 63"
  then have "(x + 2 ^ 63 - 2 ^ 64) mod 2 ^ 64 = x + 2 ^ 63 - 2 ^ 64"
    by (intro mod_pos_pos_trivial) simp_all
  then have "(x + 2 ^ 63) mod 2 ^ 64 = x + 2 ^ 63 - 2 ^ 64"
    by (metis minus_mod_self2)
  then show ?thesis by (simp add: wrap64_def)
qed

subsection \<open>Strings\<close>

text \<open>\<open>strings.HasPrefix\<close>, \<open>strings.HasSuffix\<close>, \<open>strings.TrimPrefix\<close>,
  \<open>strings.TrimSuffix\<close>.\<close>

definition HasPrefix :: "string \<Rightarrow> string \<Rightarrow> bool" where
  "HasPrefix s p \<longleftrightarrow> take (length p) s = p"

definition HasSuffix :: "string \<Rightarrow> string \<Rightarrow> bool" where
  "HasSuffix s p \<longleftrightarrow> length p \<le> length s \<and> drop (length s - length p) s = p"

definition TrimPrefix :: "string \<Rightarrow> string \<Rightarrow> string" where
  "TrimPrefix s p = (if HasPrefix s p then drop (length p) s else s)"

definition TrimSuffix :: "string \<Rightarrow> string \<Rightarrow> string" where
  "TrimSuffix s p = (if HasSuffix s p then take (length s - length p) s else s)"

lemma HasPrefix_append [go_string_simps, simp]: "HasPrefix (p @ s) p"
  by (simp add: HasPrefix_def)

lemma HasPrefix_iff: "HasPrefix s p \<longleftrightarrow> (\<exists>t. s = p @ t)"
  by (metis HasPrefix_append HasPrefix_def append_take_drop_id)

lemma HasSuffix_append [go_string_simps, simp]: "HasSuffix (s @ p) p"
  by (simp add: HasSuffix_def)

lemma HasSuffix_iff: "HasSuffix s p \<longleftrightarrow> (\<exists>t. s = t @ p)"
  by (metis HasSuffix_append HasSuffix_def append_take_drop_id)

lemma TrimPrefix_append [go_string_simps, simp]: "TrimPrefix (p @ s) p = s"
  by (simp add: TrimPrefix_def)

lemma TrimSuffix_append [go_string_simps, simp]: "TrimSuffix (s @ p) p = s"
  by (simp add: TrimSuffix_def)

text \<open>\<open>strings.Split(s, sep)\<close> for a one-byte separator and \<open>strings.Join\<close>.\<close>

fun Split :: "char \<Rightarrow> string \<Rightarrow> string list" where
  "Split c [] = [[]]"
| "Split c (x # xs) =
     (if x = c then [] # Split c xs
      else (case Split c xs of [] \<Rightarrow> [[x]] | y # ys \<Rightarrow> (x # y) # ys))"

fun Join :: "string list \<Rightarrow> string \<Rightarrow> string" where
  "Join [] sep = []"
| "Join [x] sep = x"
| "Join (x # y # ys) sep = x @ sep @ Join (y # ys) sep"

lemma Split_not_Nil [simp]: "Split c s \<noteq> []"
  by (cases s) (auto split: list.splits)

lemma Join_Cons: "ys \<noteq> [] \<Longrightarrow> Join (y # ys) sep = y @ sep @ Join ys sep"
  by (cases ys) auto

lemma Join_append:
  "xs \<noteq> [] \<Longrightarrow> ys \<noteq> [] \<Longrightarrow> Join (xs @ ys) sep = Join xs sep @ sep @ Join ys sep"
  by (induction xs sep rule: Join.induct) (auto simp: Join_Cons)

lemma Join_Split [go_string_simps, simp]: "Join (Split c s) [c] = s"
proof (induction s)
  case Nil
  show ?case by simp
next
  case (Cons x xs)
  obtain y ys where s: "Split c xs = y # ys"
    using Split_not_Nil by (meson list.exhaust)
  with Cons.IH show ?case by (cases ys) (auto simp: Join_Cons)
qed

lemma Split_sep_free: "p \<in> set (Split c s) \<Longrightarrow> c \<notin> set p"
  by (induction s arbitrary: p) (auto split: if_splits list.splits)

lemma Split_no_sep [go_string_simps]: "c \<notin> set s \<Longrightarrow> Split c s = [s]"
  by (induction s) auto

lemma Split_sep [go_string_simps]: "c \<notin> set s \<Longrightarrow> Split c (s @ c # t) = s # Split c t"
  by (induction s) auto

lemma Split_Join [go_string_simps]:
  "ps \<noteq> [] \<Longrightarrow> \<forall>p \<in> set ps. c \<notin> set p \<Longrightarrow> Split c (Join ps [c]) = ps"
  by (induction ps "[c]" rule: Join.induct) (auto simp: Split_no_sep Split_sep)

lemma Split_append_sep: "Split c (a @ c # b) = Split c a @ Split c b"
  by (induction a) (auto split: list.splits)

lemma Split_inj: "Split c s = Split c t \<Longrightarrow> s = t"
  by (metis Join_Split)

subsection \<open>Decimal and hexadecimal formatting\<close>

text \<open>\<open>strconv.FormatUint(n, 10)\<close> and the verb \<open>%d\<close>.\<close>

definition digit_char :: "nat \<Rightarrow> char" where
  "digit_char d = char_of (if d < 10 then 48 + d else 87 + d)"

fun FormatNat :: "nat \<Rightarrow> string" where
  "FormatNat n =
     (if n < 10 then [digit_char n] else FormatNat (n div 10) @ [digit_char (n mod 10)])"

declare FormatNat.simps [simp del]

definition FormatInt :: "int \<Rightarrow> string" where
  "FormatInt i = (if i < 0 then CHR ''-'' # FormatNat (nat (- i)) else FormatNat (nat i))"

definition FormatUint :: "64 word \<Rightarrow> string" where
  "FormatUint w = FormatNat (unat w)"

text \<open>The verb \<open>%08x\<close> on a \<open>uint32\<close>: eight lower-case hexadecimal digits.\<close>

fun hex_digits :: "nat \<Rightarrow> nat \<Rightarrow> string" where
  "hex_digits 0 n = []"
| "hex_digits (Suc k) n = hex_digits k (n div 16) @ [digit_char (n mod 16)]"

definition FormatHex32 :: "32 word \<Rightarrow> string" where
  "FormatHex32 w = hex_digits 8 (unat w)"

definition is_dec_digit :: "char \<Rightarrow> bool" where
  "is_dec_digit c \<longleftrightarrow> CHR ''0'' \<le> c \<and> c \<le> CHR ''9''"

definition is_hex_digit :: "char \<Rightarrow> bool" where
  "is_hex_digit c \<longleftrightarrow> (CHR ''0'' \<le> c \<and> c \<le> CHR ''9'') \<or> (CHR ''a'' \<le> c \<and> c \<le> CHR ''f'')"

lemma of_char_digit_char: "d < 16 \<Longrightarrow> of_char (digit_char d) = (if d < 10 then 48 + d else 87 + d)"
  by (simp add: digit_char_def)

lemma digit_char_inj: "d < 16 \<Longrightarrow> e < 16 \<Longrightarrow> digit_char d = digit_char e \<Longrightarrow> d = e"
  by (drule arg_cong [of _ _ "of_char :: char \<Rightarrow> nat"])
    (auto simp: of_char_digit_char split: if_splits)

lemma is_dec_digit_char [simp]: "d < 10 \<Longrightarrow> is_dec_digit (digit_char d)"
  by (simp add: is_dec_digit_def less_eq_char_def of_char_digit_char)

lemma is_hex_digit_char [simp]: "d < 16 \<Longrightarrow> is_hex_digit (digit_char d)"
  by (auto simp: is_hex_digit_def less_eq_char_def of_char_digit_char)

lemma FormatNat_nonempty [simp]: "FormatNat n \<noteq> []" "[] \<noteq> FormatNat n"
  by (subst FormatNat.simps, simp)+

lemma FormatNat_digits: "c \<in> set (FormatNat n) \<Longrightarrow> is_dec_digit c"
proof (induction n rule: FormatNat.induct)
  case (1 n)
  then show ?case
    by (cases "n < 10") (auto simp: FormatNat.simps [of n])
qed

lemma FormatNat_inj: "FormatNat m = FormatNat n \<Longrightarrow> m = n"
proof (induction m arbitrary: n rule: FormatNat.induct)
  case (1 m)
  show ?case
  proof (cases "m < 10")
    case True
    with "1.prems" show ?thesis
      by (cases "n < 10")
        (auto simp: FormatNat.simps [of m] FormatNat.simps [of n] dest: digit_char_inj [rotated 2])
  next
    case False
    with "1.prems" have n: "\<not> n < 10"
      by (auto simp: FormatNat.simps [of m] FormatNat.simps [of n])
    from "1.prems" False n have "FormatNat (m div 10) = FormatNat (n div 10)"
      and "digit_char (m mod 10) = digit_char (n mod 10)"
      by (simp_all add: FormatNat.simps [of m] FormatNat.simps [of n])
    with "1.IH" [OF False] have "m div 10 = n div 10" and "m mod 10 = n mod 10"
      by (auto dest: digit_char_inj [rotated 2])
    then show ?thesis by (metis div_mult_mod_eq)
  qed
qed

lemma FormatUint_inj: "FormatUint v = FormatUint w \<Longrightarrow> v = w"
  by (auto simp: FormatUint_def word_unat_eq_iff dest: FormatNat_inj)

lemma minus_not_digit: "\<not> is_dec_digit CHR ''-''"
  by (simp add: is_dec_digit_def less_eq_char_def)

lemma FormatInt_inj: "FormatInt i = FormatInt j \<Longrightarrow> i = j"
proof -
  assume eq: "FormatInt i = FormatInt j"
  have minus: "FormatNat n \<noteq> CHR ''-'' # s" for n s
    using FormatNat_digits [of "CHR ''-''" n] minus_not_digit by auto
  from eq minus minus [symmetric] show ?thesis
    by (auto simp: FormatInt_def eq_nat_nat_iff split: if_splits dest!: FormatNat_inj)
qed

lemma FormatInt_nonempty [simp]: "FormatInt i \<noteq> []"
  by (simp add: FormatInt_def)

lemma length_hex_digits [simp]: "length (hex_digits k n) = k"
  by (induction k arbitrary: n) auto

lemma hex_digits_hex: "c \<in> set (hex_digits k n) \<Longrightarrow> is_hex_digit c"
  by (induction k arbitrary: n) auto

lemma hex_digits_inj:
  "hex_digits k m = hex_digits k n \<Longrightarrow> m < 16 ^ k \<Longrightarrow> n < 16 ^ k \<Longrightarrow> m = n"
proof (induction k arbitrary: m n)
  case 0
  then show ?case by simp
next
  case (Suc k)
  from Suc.prems have "m div 16 < 16 ^ k" and "n div 16 < 16 ^ k"
    by (simp_all add: less_mult_imp_div_less mult.commute)
  with Suc have "m div 16 = n div 16" by simp
  moreover from Suc.prems have "m mod 16 = n mod 16"
    by (auto dest: digit_char_inj [rotated 2])
  ultimately show ?case by (metis div_mult_mod_eq)
qed

lemma length_FormatHex32 [simp]: "length (FormatHex32 w) = 8"
  by (simp add: FormatHex32_def)

lemma FormatHex32_inj: "FormatHex32 v = FormatHex32 w \<Longrightarrow> v = w"
proof -
  assume "FormatHex32 v = FormatHex32 w"
  moreover have "unat x < 16 ^ 8" for x :: "32 word"
    using unsigned_less [of x] by simp
  ultimately show ?thesis
    by (auto simp: FormatHex32_def word_unat_eq_iff dest!: hex_digits_inj)
qed

subsection \<open>Maps\<close>

definition gm_wf :: "('k, 'v) gomap \<Rightarrow> bool" where
  "gm_wf m \<longleftrightarrow> distinct (map fst m)"

abbreviation gm_get :: "('k, 'v) gomap \<Rightarrow> 'k \<Rightarrow> 'v option" where
  "gm_get \<equiv> map_of"

abbreviation gm_put :: "'k \<Rightarrow> 'v \<Rightarrow> ('k, 'v) gomap \<Rightarrow> ('k, 'v) gomap" where
  "gm_put \<equiv> AList.update"

abbreviation gm_del :: "'k \<Rightarrow> ('k, 'v) gomap \<Rightarrow> ('k, 'v) gomap" where
  "gm_del \<equiv> AList.delete"

abbreviation gm_has :: "('k, 'v) gomap \<Rightarrow> 'k \<Rightarrow> bool" where
  "gm_has m k \<equiv> map_of m k \<noteq> None"

lemma gm_put_new: "k \<notin> set (map fst xs) \<Longrightarrow> gm_put k v xs = xs @ [(k, v)]"
  by (induction xs) auto

text \<open>\<open>maps.Copy(dst, src)\<close>.\<close>

fun gm_copy :: "('k, 'v) gomap \<Rightarrow> ('k, 'v) gomap \<Rightarrow> ('k, 'v) gomap" where
  "gm_copy dst [] = dst"
| "gm_copy dst ((k, v) # src) = gm_copy (gm_put k v dst) src"

lemma gm_wf_Nil [simp]: "gm_wf []"
  by (simp add: gm_wf_def)

lemma gm_wf_put [simp]: "gm_wf m \<Longrightarrow> gm_wf (gm_put k v m)"
  by (simp add: gm_wf_def distinct_update)

lemma gm_wf_del [simp]: "gm_wf m \<Longrightarrow> gm_wf (gm_del k m)"
  by (simp add: gm_wf_def distinct_delete)

lemma gm_wf_filter [simp]: "gm_wf m \<Longrightarrow> gm_wf (filter P m)"
  by (induction m) (auto simp: gm_wf_def)

lemma gm_wf_copy [simp]: "gm_wf d \<Longrightarrow> gm_wf (gm_copy d s)"
  by (induction d s rule: gm_copy.induct) auto

lemma gm_get_put [gomap_simps]: "gm_get (gm_put k v m) = (gm_get m)(k \<mapsto> v)"
  by (rule update_conv')

lemma gm_get_del [gomap_simps]: "gm_get (gm_del k m) = (gm_get m)(k := None)"
  by (rule delete_conv')

lemma gm_get_in_set: "gm_wf m \<Longrightarrow> gm_get m k = Some v \<longleftrightarrow> (k, v) \<in> set m"
  by (auto simp: gm_wf_def)

lemma gm_wf_unique: "gm_wf m \<Longrightarrow> (k, v) \<in> set m \<Longrightarrow> (k, v') \<in> set m \<Longrightarrow> v = v'"
  by (metis gm_get_in_set option.inject)

lemma gm_get_copy [gomap_simps]: "gm_wf s \<Longrightarrow> gm_get (gm_copy d s) = gm_get d ++ gm_get s"
proof (induction d s rule: gm_copy.induct)
  case (1 d)
  then show ?case by simp
next
  case (2 d k v s)
  then have "gm_get s k = None"
    by (auto simp: gm_wf_def map_of_eq_None_iff)
  with 2 show ?case
    by (auto simp: gm_wf_def gm_get_put map_add_def fun_eq_iff split: option.splits)
qed

lemma gm_get_filter [gomap_simps]:
  "gm_wf m \<Longrightarrow>
     gm_get (filter (\<lambda>(k, v). P k) m) = (\<lambda>k. if P k then gm_get m k else None)"
  by (induction m) (auto simp: gm_wf_def fun_eq_iff map_of_eq_None_iff)

lemma gm_put_mem: "x \<in> set (gm_put k v m) \<Longrightarrow> x = (k, v) \<or> x \<in> set m"
  by (induction m) (auto split: if_splits)

lemma list_all_gm_put: "list_all P m \<Longrightarrow> P (k, v) \<Longrightarrow> list_all P (gm_put k v m)"
  by (auto simp: list_all_iff dest: gm_put_mem)

lemma list_all_gm_get: "list_all P m \<Longrightarrow> gm_get m k = Some v \<Longrightarrow> P (k, v)"
  by (auto simp: list_all_iff dest: map_of_SomeD)

lemma gm_get_None_iff: "gm_get m k = None \<longleftrightarrow> k \<notin> fst ` set m"
  by (rule map_of_eq_None_iff)

lemma gm_get_SomeD: "gm_get m k = Some v \<Longrightarrow> (k, v) \<in> set m"
  by (rule map_of_SomeD)

text \<open>Two lists that are the same map, iterated in different orders.\<close>

definition gm_same :: "('k, 'v) gomap \<Rightarrow> ('k, 'v) gomap \<Rightarrow> bool" where
  "gm_same m n \<longleftrightarrow> gm_get m = gm_get n"

lemma gm_same_refl [simp]: "gm_same m m"
  by (simp add: gm_same_def)

lemma gm_same_sym: "gm_same m n \<Longrightarrow> gm_same n m"
  by (simp add: gm_same_def)

lemma gm_same_set: "gm_wf m \<Longrightarrow> gm_wf n \<Longrightarrow> gm_same m n \<longleftrightarrow> set m = set n"
  by (metis gm_same_def gm_wf_def map_of_inject_set)

subsection \<open>Sorting by a key\<close>

text \<open>
  \<open>sort.Slice\<close> is not stable. With pairwise different keys the sorted list is unique, so
  which of the correct sorting algorithms runs does not matter; the model sorts with the
  library's \<open>sort_key\<close>.
\<close>

lemma sort_key_unique:
  assumes "set xs = set ys" and "distinct (map f xs)" and "distinct (map f ys)"
  shows "sort_key f xs = sort_key f ys"
proof -
  have "mset xs = mset ys"
    using assms by (simp add: distinct_map set_eq_iff_mset_eq_distinct)
  then have "sort_key f ys = sort_key f xs"
  proof (intro properties_for_sort_key)
    show "mset (sort_key f xs) = mset ys" if "mset xs = mset ys"
      using that by simp
    show "filter (\<lambda>y. f k = f y) (sort_key f xs) = filter (\<lambda>y. f k = f y) ys"
      if "k \<in> set (sort_key f xs)" for k
    proof -
      from that have "k \<in> set xs" by simp
      have single: "filter (\<lambda>y. f k = f y) zs = [k]"
        if "k \<in> set zs" and "distinct (map f zs)" for zs
        using that by (induction zs) (auto simp: filter_empty_conv image_iff)
      have "distinct (map f (sort_key f xs))"
        using assms(2) by (metis distinct_map distinct_sort set_sort)
      with \<open>k \<in> set xs\<close> assms show ?thesis
        by (simp add: single)
    qed
    show "sorted (map f (sort_key f xs))" by simp
  qed
  then show ?thesis by simp
qed

lemma sort_key_strict:
  assumes "distinct (map f xs)"
  shows "sorted_wrt (<) (map f (sort_key f xs))"
proof -
  have "distinct (map f (sort_key f xs))"
    using assms by (metis distinct_map distinct_sort set_sort)
  then show ?thesis
    by (simp add: strict_sorted_iff)
qed

section \<open>Updating one element\<close>

lemma filter_all_length: "length (filter P xs) = length xs \<Longrightarrow> x \<in> set xs \<Longrightarrow> P x"
  using length_filter_less [of x xs P] by fastforce

lemma sum_list_update:
  "i < length xs \<Longrightarrow> sum_list (map f (xs[i := x])) + f (xs ! i) = sum_list (map f xs) + (f x :: nat)"
  by (induction xs arbitrary: i) (auto split: nat.splits simp: nth_Cons')

lemma mset_concat_update:
  "i < length xs \<Longrightarrow> mset (concat (map f (xs[i := x]))) + mset (f (xs ! i)) = mset (concat (map f xs)) + mset (f x)"
  by (induction xs arbitrary: i) (auto split: nat.splits simp: nth_Cons')

end
