(* ===== verification/Errors.thy ===== *)
theory Errors
  imports Prelude
begin

text \<open>
  Go errors as values (\<open>src/tsync/errors.go\<close>, \<open>src/storage_clients/errors.go\<close>). An error is
  a tree: sentinels and foreign errors at the leaves, \<open>fmt.Errorf\<close> with \<open>%w\<close> verbs and
  \<open>errors.Join\<close> as inner nodes (message texts are dropped, the chain is kept), and the
  package's own error types with their \<open>Is\<close> and \<open>Unwrap\<close> methods. \<open>errors.Is\<close> and
  \<open>errors.As\<close> walk that tree.
\<close>

named_theorems err_simps \<open>evaluation of the error predicates\<close>

datatype sentinel =
    ErrNotFound | ErrUploadNotFound | ErrUnsupportedProvider | ErrInvalidConfig
  | ErrInvalidRange | ErrInvalidResponse | ErrAttemptTimeout
  | ErrTimestampEqualsLatest | ErrTimestampBeforeLatest | ErrTimestampInFuture
  | ErrVersionIDExists | ErrVersionNotFound
  | ErrStoreNotInitialized | ErrCorruptMetadata | ErrUnsupportedSchema
  | ErrInvalidOptions | ErrKeyNotFound | ErrInvalidName | ErrPathCollision | ErrUnsafePath
  | ErrPrivateKeyRequired | ErrDecryptionFailed | ErrCorruptPart | ErrSourceChanged
  | ErrNotZip | ErrCorruptZip | ErrUnsupportedEncryption | ErrUnsupportedMethod
  | ErrInsufficientDiskSpace | ErrWriterClosed | ErrIncompleteRun
  | Canceled | DeadlineExceeded
  | EOF | ErrUnexpectedEOF | ErrNotExist | ErrPassword | ErrChecksum

text \<open>
  \<open>Foreign\<close> is an error value made outside the module (operating system, network,
  provider SDK) with no chain of its own; \<open>TransportTimeout\<close> is a network timeout, which
  matches \<open>context.DeadlineExceeded\<close> through its \<open>Is\<close> method without being it.
  \<open>Errorf\<close> holds the errors wrapped by the \<open>%w\<close> verbs, in order. \<open>StatusError\<close> holds
  \<open>StatusCode\<close>, \<open>Err\<close> and \<open>RetryAfter\<close>.
\<close>

datatype err =
    Sentinel sentinel
  | Foreign string
  | TransportTimeout
  | Errorf "err list"
  | StatusError int "err option" int
  | PermanentError err
  | UnsupportedSchemaError "32 word"

type_synonym 'a result = "err + 'a"

text \<open>\<open>errors.Is(err, target)\<close> for the sentinel targets the sources test.\<close>

fun errIs :: "err \<Rightarrow> sentinel \<Rightarrow> bool" where
  "errIs (Sentinel s) t = (s = t)"
| "errIs (Foreign m) t = False"
| "errIs TransportTimeout t = (t = DeadlineExceeded)"
| "errIs (Errorf es) t = list_ex (\<lambda>e. errIs e t) es"
| "errIs (StatusError code e ra) t =
     ((t = ErrNotFound \<and> code = 404) \<or> (case e of None \<Rightarrow> False | Some e' \<Rightarrow> errIs e' t))"
| "errIs (PermanentError e) t = errIs e t"
| "errIs (UnsupportedSchemaError v) t = (t = ErrUnsupportedSchema)"

text \<open>\<open>errors.As(err, &se)\<close> for \<open>se *StatusError\<close>: the first one in the chain, as its
  status code and \<open>RetryAfter\<close>.\<close>

fun asStatusError :: "err \<Rightarrow> (int \<times> int) option" where
  "asStatusError (StatusError code e ra) = Some (code, ra)"
| "asStatusError (Errorf es) =
     foldr (\<lambda>x r. case x of None \<Rightarrow> r | Some y \<Rightarrow> Some y) (map asStatusError es) None"
| "asStatusError (PermanentError e) = asStatusError e"
| "asStatusError _ = None"

text \<open>\<open>(e *StatusError) Retryable()\<close>.\<close>

definition Retryable :: "int \<Rightarrow> bool" where
  "Retryable code \<longleftrightarrow> code = 408 \<or> code = 429 \<or> 500 \<le> code"

text \<open>\<open>chainHasContextSentinel\<close>: the context sentinels themselves, by identity.\<close>

fun chainHasContextSentinel :: "err \<Rightarrow> bool" where
  "chainHasContextSentinel (Sentinel s) = (s = Canceled \<or> s = DeadlineExceeded)"
| "chainHasContextSentinel (Foreign m) = False"
| "chainHasContextSentinel TransportTimeout = False"
| "chainHasContextSentinel (Errorf es) = list_ex chainHasContextSentinel es"
| "chainHasContextSentinel (StatusError code e ra) =
     (case e of None \<Rightarrow> False | Some e' \<Rightarrow> chainHasContextSentinel e')"
| "chainHasContextSentinel (PermanentError e) = chainHasContextSentinel e"
| "chainHasContextSentinel (UnsupportedSchemaError v) = False"

definition IsRetryable :: "err option \<Rightarrow> bool" where
  "IsRetryable oe =
     (case oe of
        None \<Rightarrow> False
      | Some e \<Rightarrow>
          if chainHasContextSentinel e then False
          else if errIs e ErrNotFound \<or> errIs e ErrUploadNotFound \<or>
                  errIs e ErrInvalidRange \<or> errIs e ErrInvalidConfig then False
          else (case asStatusError e of
                  Some (code, ra) \<Rightarrow> Retryable code
                | None \<Rightarrow> True))"

text \<open>\<open>Permanent\<close> and \<open>isPermanent\<close> of \<open>src/storage_clients/retry.go\<close>.\<close>

definition Permanent :: "err option \<Rightarrow> err option" where
  "Permanent oe = (case oe of None \<Rightarrow> None | Some e \<Rightarrow> Some (PermanentError e))"

fun isPermanent :: "err \<Rightarrow> bool" where
  "isPermanent (PermanentError e) = True"
| "isPermanent (Errorf es) = list_ex isPermanent es"
| "isPermanent (StatusError code e ra) =
     (case e of None \<Rightarrow> False | Some e' \<Rightarrow> isPermanent e')"
| "isPermanent _ = False"

text \<open>\<open>errors.Join(a, b)\<close>: nil arguments are dropped, all nil gives nil.\<close>

definition joinErr :: "err option \<Rightarrow> err option \<Rightarrow> err option" where
  "joinErr a b =
     (case (a, b) of
        (None, None) \<Rightarrow> None
      | (Some x, None) \<Rightarrow> Some (Errorf [x])
      | (None, Some y) \<Rightarrow> Some (Errorf [y])
      | (Some x, Some y) \<Rightarrow> Some (Errorf [x, y]))"

subsection \<open>Wrapping is transparent\<close>

lemma errIs_Errorf [err_simps, simp]: "errIs (Errorf es) t \<longleftrightarrow> (\<exists>e \<in> set es. errIs e t)"
  by (simp add: list_ex_iff)

declare errIs.simps(4) [simp del]

lemma errIs_joinErr [err_simps]:
  "joinErr (Some a) b = Some e \<Longrightarrow>
     errIs e t \<longleftrightarrow> errIs a t \<or> (\<exists>y. b = Some y \<and> errIs y t)"
  by (auto simp: joinErr_def split: option.splits)

lemma asStatusError_wrap [err_simps, simp]: "asStatusError (Errorf [e]) = asStatusError e"
  by (cases "asStatusError e") auto

declare asStatusError.simps(2) [simp del]

lemma IsRetryable_wrap [err_simps]: "IsRetryable (Some (Errorf [e])) = IsRetryable (Some e)"
  by (simp add: IsRetryable_def)

lemma IsRetryable_permanent [err_simps]:
  "IsRetryable (Some (PermanentError e)) = IsRetryable (Some e)"
  by (simp add: IsRetryable_def)

text \<open>A status that the retry layer repeats is never also a "not found" answer.\<close>

lemma Retryable_not_404: "Retryable code \<Longrightarrow> code \<noteq> 404"
  by (auto simp: Retryable_def)

lemma IsRetryable_not_found:
  "errIs e ErrNotFound \<or> errIs e ErrUploadNotFound \<or> errIs e ErrInvalidRange \<or>
   errIs e ErrInvalidConfig \<Longrightarrow> \<not> IsRetryable (Some e)"
  by (auto simp: IsRetryable_def)

end
