(* ===== verification/FileKeys.thy ===== *)
theory FileKeys
  imports Errors
begin

text \<open>
  Names and content keys of \<open>src/tsync/backup.go\<close> and \<open>src/tsync/client.go\<close>: the name rule
  of tree entries, the key \<open>crc32hex_size\<close> of a file part, the storage path of a part, the
  two regular expressions the client uses to recognise keys, and the compression option.
\<close>

subsection \<open>Names\<close>

definition validateName :: "string \<Rightarrow> err option" where
  "validateName name =
     (if length name = 0 then Some (Errorf [Sentinel ErrInvalidName])
      else if 255 < length name then Some (Errorf [Sentinel ErrInvalidName])
      else if list_ex (\<lambda>c. c = CHR ''/'' \<or> c = CHR 0x00) name
        then Some (Errorf [Sentinel ErrInvalidName])
      else if name = ''.'' \<or> name = ''..'' then Some (Errorf [Sentinel ErrInvalidName])
      else None)"

definition valid_name :: "string \<Rightarrow> bool" where
  "valid_name name \<longleftrightarrow> validateName name = None"

lemma valid_name_iff:
  "valid_name n \<longleftrightarrow> n \<noteq> [] \<and> length n \<le> 255 \<and> CHR ''/'' \<notin> set n \<and> CHR 0x00 \<notin> set n \<and>
     n \<noteq> ''.'' \<and> n \<noteq> ''..''"
  by (auto simp: valid_name_def validateName_def list_ex_iff)

lemma validateName_error: "validateName n = Some e \<Longrightarrow> errIs e ErrInvalidName"
  by (auto simp: validateName_def split: if_splits)

lemma valid_name_slash_free: "valid_name n \<Longrightarrow> CHR ''/'' \<notin> set n"
  by (simp add: valid_name_iff)

lemma valid_name_nonempty: "valid_name n \<Longrightarrow> n \<noteq> []"
  by (simp add: valid_name_iff)

subsection \<open>File keys\<close>

definition fileKeyFor :: "32 word \<Rightarrow> int \<Rightarrow> string" where
  "fileKeyFor crc sz = FormatHex32 crc @ ''_'' @ FormatInt sz"

text \<open>\<open>k[i]\<close> with \<open>i\<close> in range: the checks before each access guarantee it.\<close>

definition isValidFileKey :: "string \<Rightarrow> bool" where
  "isValidFileKey k =
     (if length k < 10 \<or> k ! 8 \<noteq> CHR ''_'' then False
      else if list_ex (\<lambda>c. \<not> ((CHR ''0'' \<le> c \<and> c \<le> CHR ''9'') \<or> (CHR ''a'' \<le> c \<and> c \<le> CHR ''f'')))
                (take 8 k) then False
      else if list_ex (\<lambda>c. c < CHR ''0'' \<or> CHR ''9'' < c) (drop 9 k) then False
      else True)"

definition partKeyFor :: "string \<Rightarrow> string" where
  "partKeyFor fileKey = take 2 fileKey @ ''/'' @ fileKey"

lemma isValidFileKey_scan:
  "isValidFileKey k \<longleftrightarrow>
     10 \<le> length k \<and> k ! 8 = CHR ''_'' \<and> list_all is_hex_digit (take 8 k) \<and>
     list_all is_dec_digit (drop 9 k)"
proof -
  have "(c < CHR ''0'' \<or> CHR ''9'' < c) \<longleftrightarrow> \<not> is_dec_digit c" for c
    by (auto simp: is_dec_digit_def not_le)
  then show ?thesis
    by (auto simp: isValidFileKey_def list_ex_iff list_all_iff is_hex_digit_def not_less)
qed

lemma isValidFileKey_iff:
  "isValidFileKey k \<longleftrightarrow>
     (\<exists>h d. k = h @ CHR ''_'' # d \<and> length h = 8 \<and> list_all is_hex_digit h \<and>
            d \<noteq> [] \<and> list_all is_dec_digit d)" (is "?L \<longleftrightarrow> ?R")
proof
  assume ?L
  then have len: "10 \<le> length k" and sep: "k ! 8 = CHR ''_''"
    and hex: "list_all is_hex_digit (take 8 k)" and dec: "list_all is_dec_digit (drop 9 k)"
    by (simp_all add: isValidFileKey_scan)
  have "k = take 8 k @ k ! 8 # drop 9 k"
    using len id_take_nth_drop [of 8 k] by simp
  with len sep hex dec show ?R
    by (intro exI [of _ "take 8 k"] exI [of _ "drop 9 k"]) auto
next
  assume ?R
  then show ?L
    by (auto simp: isValidFileKey_scan nth_append Suc_le_eq)
qed

lemma fileKeyFor_inj: "fileKeyFor c s = fileKeyFor c' s' \<Longrightarrow> c = c' \<and> s = s'"
  by (auto simp: fileKeyFor_def dest: FormatHex32_inj FormatInt_inj)

lemma FormatInt_digits: "list_all is_dec_digit (FormatInt i) \<longleftrightarrow> 0 \<le> i"
  using FormatNat_digits minus_not_digit by (auto simp: FormatInt_def list_all_iff)

lemma isValidFileKey_fileKeyFor: "isValidFileKey (fileKeyFor crc sz) \<longleftrightarrow> 0 \<le> sz"
proof -
  have "list_all is_hex_digit (FormatHex32 crc)"
    by (auto simp: FormatHex32_def list_all_iff hex_digits_hex)
  moreover have "fileKeyFor crc sz = h @ CHR ''_'' # d \<and> length h = 8 \<longleftrightarrow>
      h = FormatHex32 crc \<and> d = FormatInt sz" for h d
    by (auto simp: fileKeyFor_def dest: append_eq_append_conv [THEN iffD1, rotated])
  ultimately show ?thesis
    unfolding isValidFileKey_iff using FormatInt_digits FormatInt_nonempty by metis
qed

lemma partKeyFor_inj: "length k = length k' \<or> 2 \<le> length k \<and> 2 \<le> length k' \<Longrightarrow>
  partKeyFor k = partKeyFor k' \<Longrightarrow> k = k'"
  by (auto simp: partKeyFor_def min_def dest: append_eq_append_conv [THEN iffD1, rotated] split: if_splits)

subsection \<open>Regular expressions\<close>

text \<open>
  The fragment of RE2 syntax the client's two patterns use: an anchored sequence of
  character classes, each repeated exactly \<open>n\<close> times (\<open>{n}\<close>) or at least \<open>n\<close> times
  (\<open>+\<close> is at least once).
\<close>

datatype rx_item = RxItem (rx_class: "char \<Rightarrow> bool") (rx_min: nat) (rx_more: bool)

fun rx_match :: "rx_item list \<Rightarrow> string \<Rightarrow> bool" where
  "rx_match [] s = (s = [])"
| "rx_match (RxItem c (Suc n) m # is) [] = False"
| "rx_match (RxItem c (Suc n) m # is) (x # xs) = (c x \<and> rx_match (RxItem c n m # is) xs)"
| "rx_match (RxItem c 0 False # is) s = rx_match is s"
| "rx_match (RxItem c 0 True # is) [] = rx_match is []"
| "rx_match (RxItem c 0 True # is) (x # xs) =
     (rx_match is (x # xs) \<or> (c x \<and> rx_match (RxItem c 0 True # is) xs))"

definition fileKeyRegex :: "rx_item list" where
  "fileKeyRegex = [RxItem is_hex_digit 8 False, RxItem (\<lambda>c. c = CHR ''_'') 1 False,
                   RxItem is_dec_digit 1 True]"

definition partKeyRegex :: "rx_item list" where
  "partKeyRegex = [RxItem is_hex_digit 2 False, RxItem (\<lambda>c. c = CHR ''/'') 1 False,
                   RxItem is_hex_digit 8 False, RxItem (\<lambda>c. c = CHR ''_'') 1 False,
                   RxItem is_dec_digit 1 True]"

lemma rx_match_take:
  "rx_match (RxItem c n False # is) s \<longleftrightarrow>
     n \<le> length s \<and> list_all c (take n s) \<and> rx_match is (drop n s)"
proof (induction n arbitrary: s)
  case 0
  then show ?case by simp
next
  case (Suc n)
  then show ?case by (cases s) auto
qed

lemma rx_match_exact:
  "rx_match (RxItem c n False # is) s \<longleftrightarrow>
     (\<exists>u v. s = u @ v \<and> length u = n \<and> list_all c u \<and> rx_match is v)"
proof
  assume "rx_match (RxItem c n False # is) s"
  then show "\<exists>u v. s = u @ v \<and> length u = n \<and> list_all c u \<and> rx_match is v"
    by (intro exI [of _ "take n s"] exI [of _ "drop n s"]) (auto simp: rx_match_take)
qed (auto simp: rx_match_take)

lemma rx_match_star_last: "rx_match [RxItem c 0 True] s \<longleftrightarrow> list_all c s"
  by (induction s) auto

lemma rx_match_plus_last: "rx_match [RxItem c (Suc 0) True] s \<longleftrightarrow> s \<noteq> [] \<and> list_all c s"
  by (cases s) (auto simp: rx_match_star_last)

lemma rx_match_char:
  "rx_match (RxItem (\<lambda>c. c = x) (Suc 0) False # is) s \<longleftrightarrow> (\<exists>v. s = x # v \<and> rx_match is v)"
  by (cases s) auto

lemma fileKeyRegex_iff: "rx_match fileKeyRegex k \<longleftrightarrow> isValidFileKey k"
  by (auto simp: fileKeyRegex_def rx_match_exact [of _ 8] rx_match_char rx_match_plus_last
      isValidFileKey_iff)

lemma partKeyRegex_iff:
  "rx_match partKeyRegex p \<longleftrightarrow>
     (\<exists>s k. p = s @ ''/'' @ k \<and> length s = 2 \<and> list_all is_hex_digit s \<and> isValidFileKey k)"
  by (auto simp: partKeyRegex_def rx_match_exact [of _ 2] rx_match_char
      fileKeyRegex_iff [symmetric, unfolded fileKeyRegex_def])

lemma partKeyFor_matches: "isValidFileKey k \<Longrightarrow> rx_match partKeyRegex (partKeyFor k)"
proof -
  assume k: "isValidFileKey k"
  then obtain h d where h: "k = h @ CHR ''_'' # d" "length h = 8" "list_all is_hex_digit h"
    by (auto simp: isValidFileKey_iff)
  have "length (take 2 k) = 2" and "list_all is_hex_digit (take 2 k)"
    using h by (auto simp: list_all_iff dest: in_set_takeD)
  with k show ?thesis
    unfolding partKeyRegex_iff partKeyFor_def by blast
qed

subsection \<open>\<open>path.Base\<close>\<close>

definition pathBase :: "string \<Rightarrow> string" where
  "pathBase p =
     (if p = [] then ''.''
      else let t = rev (dropWhile (\<lambda>c. c = CHR ''/'') (rev p))
           in if t = [] then ''/'' else last (Split CHR ''/'' t))"

lemma is_dec_digit_neq_slash: "is_dec_digit c \<Longrightarrow> c \<noteq> CHR ''/''"
  by (auto simp: is_dec_digit_def less_eq_char_def)

lemma is_hex_digit_neq_slash: "is_hex_digit c \<Longrightarrow> c \<noteq> CHR ''/''"
  by (auto simp: is_hex_digit_def less_eq_char_def)

lemma pathBase_snoc:
  assumes "k \<noteq> []" and "CHR ''/'' \<notin> set k" and "CHR ''/'' \<notin> set s"
  shows "pathBase (s @ ''/'' @ k) = k"
proof -
  from assms(1) obtain k' c where k: "k = k' @ [c]" by (metis rev_exhaust)
  with assms(2) have "dropWhile (\<lambda>c. c = CHR ''/'') (rev (s @ ''/'' @ k)) = rev (s @ ''/'' @ k)"
    by auto
  with assms show ?thesis
    by (simp add: pathBase_def Split_sep Split_no_sep)
qed

lemma isValidFileKey_slash_free: "isValidFileKey k \<Longrightarrow> CHR ''/'' \<notin> set k"
  by (auto simp: isValidFileKey_iff list_all_iff
      dest!: bspec [of _ _ "CHR ''/''"] dest: is_dec_digit_neq_slash is_hex_digit_neq_slash)

lemma isValidFileKey_nonempty: "isValidFileKey k \<Longrightarrow> k \<noteq> []"
  by (auto simp: isValidFileKey_def)

text \<open>The garbage collector reads the key back from the path a part is stored at.\<close>

lemma pathBase_partKeyFor: "isValidFileKey k \<Longrightarrow> pathBase (partKeyFor k) = k"
  unfolding partKeyFor_def
  by (rule pathBase_snoc)
    (auto dest: isValidFileKey_slash_free isValidFileKey_nonempty in_set_takeD)

subsection \<open>Compression levels\<close>

definition Store :: nat where "Store = 0"
definition Deflate :: nat where "Deflate = 8"

definition resolveCompression :: "int \<Rightarrow> (nat \<times> int) result" where
  "resolveCompression lvl =
     (if lvl = 0 then Inr (Store, 0)
      else if -1 \<le> lvl \<and> lvl \<le> 9 then Inr (Deflate, lvl)
      else Inl (Errorf [Sentinel ErrInvalidOptions]))"

lemma resolveCompression_cases:
  "(\<exists>m l. resolveCompression lvl = Inr (m, l) \<and> (m = Store \<and> l = 0 \<or> m = Deflate \<and> l \<noteq> 0)) \<longleftrightarrow>
     -1 \<le> lvl \<and> lvl \<le> 9"
  by (auto simp: resolveCompression_def)

end
