(* ===== verification/Digest.thy ===== *)
theory Digest
  imports Prelude
begin

unbundle bit_operations_syntax

text \<open>
  The digests the sources compute: SHA-256 of serialized tree nodes (\<open>crypto/sha256\<close>,
  printed by \<open>encoding/hex\<close>), the IEEE CRC-32 of file contents (\<open>hash/crc32\<close>) and the
  FNV-1a hash of \<open>hashStringToUint64\<close> in \<open>src/tsync/client.go\<close>. All three are executable.
  The round constants of SHA-256 are written in decimal.
\<close>

subsection \<open>SHA-256\<close>

definition sha256_K :: "32 word list" where
  "sha256_K =
     [1116352408, 1899447441, 3049323471, 3921009573, 961987163, 1508970993,
      2453635748, 2870763221, 3624381080, 310598401, 607225278, 1426881987,
      1925078388, 2162078206, 2614888103, 3248222580, 3835390401, 4022224774,
      264347078, 604807628, 770255983, 1249150122, 1555081692, 1996064986,
      2554220882, 2821834349, 2952996808, 3210313671, 3336571891, 3584528711,
      113926993, 338241895, 666307205, 773529912, 1294757372, 1396182291,
      1695183700, 1986661051, 2177026350, 2456956037, 2730485921, 2820302411,
      3259730800, 3345764771, 3516065817, 3600352804, 4094571909, 275423344,
      430227734, 506948616, 659060556, 883997877, 958139571, 1322822218,
      1537002063, 1747873779, 1955562222, 2024104815, 2227730452, 2361852424,
      2428436474, 2756734187, 3204031479, 3329325298]"

definition sha256_H0 :: "32 word list" where
  "sha256_H0 = [1779033703, 3144134277, 1013904242, 2773480762,
                1359893119, 2600822924, 528734635, 1541459225]"

definition rotr32 :: "nat \<Rightarrow> 32 word \<Rightarrow> 32 word" where
  "rotr32 n w = drop_bit n w OR push_bit (32 - n) w"

definition be_word :: "bytes \<Rightarrow> 32 word" where
  "be_word bs = foldl (\<lambda>acc b. push_bit 8 acc OR ucast b) 0 bs"

fun be_words :: "bytes \<Rightarrow> 32 word list" where
  "be_words (a # b # c # d # bs) = be_word [a, b, c, d] # be_words bs"
| "be_words _ = []"

definition be_bytes32 :: "32 word \<Rightarrow> bytes" where
  "be_bytes32 w = map (\<lambda>i. ucast (drop_bit (8 * i) w)) [3, 2, 1, 0]"

definition be_bytes64 :: "nat \<Rightarrow> bytes" where
  "be_bytes64 n = map (\<lambda>i. ucast (drop_bit (8 * i) (word_of_nat n :: 64 word))) [7, 6, 5, 4, 3, 2, 1, 0]"

definition sha256_pad :: "bytes \<Rightarrow> bytes" where
  "sha256_pad m =
     m @ [0x80] @ replicate ((119 - length m mod 64) mod 64) 0 @ be_bytes64 (8 * length m)"

text \<open>The message schedule, most recent word first.\<close>

fun sha256_schedule :: "nat \<Rightarrow> 32 word list \<Rightarrow> 32 word list" where
  "sha256_schedule 0 ws = ws"
| "sha256_schedule (Suc k) ws =
     (let w15 = ws ! 14; w2 = ws ! 1;
          s0 = rotr32 7 w15 XOR rotr32 18 w15 XOR drop_bit 3 w15;
          s1 = rotr32 17 w2 XOR rotr32 19 w2 XOR drop_bit 10 w2
      in sha256_schedule k ((ws ! 15 + s0 + ws ! 6 + s1) # ws))"

fun sha256_round :: "32 word list \<Rightarrow> 32 word \<times> 32 word \<Rightarrow> 32 word list" where
  "sha256_round [a, b, c, d, e, f, g, h] (k, w) =
     (let S1 = rotr32 6 e XOR rotr32 11 e XOR rotr32 25 e;
          ch = (e AND f) XOR (NOT e AND g);
          t1 = h + S1 + ch + k + w;
          S0 = rotr32 2 a XOR rotr32 13 a XOR rotr32 22 a;
          maj = (a AND b) XOR (a AND c) XOR (b AND c);
          t2 = S0 + maj
      in [t1 + t2, a, b, c, d + t1, e, f, g])"
| "sha256_round hs kw = hs"

definition sha256_block :: "32 word list \<Rightarrow> 32 word list \<Rightarrow> 32 word list" where
  "sha256_block hs blk =
     map2 (+) hs (foldl sha256_round hs (zip sha256_K (rev (sha256_schedule 48 (rev blk)))))"

fun sha256_blocks :: "32 word list \<Rightarrow> nat \<Rightarrow> 32 word list \<Rightarrow> 32 word list" where
  "sha256_blocks hs 0 ws = hs"
| "sha256_blocks hs (Suc n) ws = sha256_blocks (sha256_block hs (take 16 ws)) n (drop 16 ws)"

definition sha256 :: "bytes \<Rightarrow> bytes" where
  "sha256 m =
     (let ws = be_words (sha256_pad m)
      in concat (map be_bytes32 (sha256_blocks sha256_H0 (length ws div 16) ws)))"

text \<open>\<open>hex.EncodeToString\<close>.\<close>

definition EncodeToString :: "bytes \<Rightarrow> string" where
  "EncodeToString bs = concat (map (\<lambda>b. hex_digits 2 (unat b)) bs)"

definition sha256_hex :: "bytes \<Rightarrow> string" where
  "sha256_hex m = EncodeToString (sha256 m)"

subsection \<open>CRC-32\<close>

definition crc32_bit :: "32 word \<Rightarrow> 32 word" where
  "crc32_bit c = (if c AND 1 = 1 then drop_bit 1 c XOR 0xEDB88320 else drop_bit 1 c)"

definition crc32_byte :: "32 word \<Rightarrow> byte \<Rightarrow> 32 word" where
  "crc32_byte c b = (crc32_bit ^^ 8) (c XOR ucast b)"

text \<open>\<open>crc32.NewIEEE()\<close>, \<open>Write\<close> and \<open>Sum32\<close>.\<close>

definition crc32_update :: "32 word \<Rightarrow> bytes \<Rightarrow> 32 word" where
  "crc32_update c bs = NOT (foldl crc32_byte (NOT c) bs)"

definition crc32 :: "bytes \<Rightarrow> 32 word" where
  "crc32 bs = crc32_update 0 bs"

lemma crc32_update_append:
  "crc32_update (crc32_update c xs) ys = crc32_update c (xs @ ys)"
  by (simp add: crc32_update_def)

lemma crc32_Nil [simp]: "crc32 [] = 0"
  by (simp add: crc32_def crc32_update_def)

subsection \<open>FNV-1a\<close>

definition hashStringToUint64 :: "string \<Rightarrow> 64 word" where
  "hashStringToUint64 s =
     foldl (\<lambda>h c. (h XOR of_char c) * 1099511628211) 14695981039346656037 s"

end
