(* ===== verification/Metadata.thy ===== *)
theory Metadata
  imports FileKeys Digest
begin

unbundle bit_operations_syntax

text \<open>
  The messages of the metadata file \<open>.tsync\<close> (\<open>src/gen/go/.../v2\<close>) and the queries on them:
  the decoding in \<open>loadMetadata\<close> (\<open>src/tsync/client.go\<close>),
  \<open>latestVersion\<close> and \<open>generateVersionID\<close> of \<open>src/tsync/backup.go\<close>. A time is the number of
  nanoseconds since the Unix epoch; a \<open>*timestamppb.Timestamp\<close> is an optional time (nil is
  \<open>None\<close>). The protobuf runtime is not part of the sources: its functions are arguments.
\<close>

record FileLeaf =
  fl_Crc32 :: "32 word"
  fl_UncompressedSize :: int

datatype TreeEntry_Node =
    TreeEntry_File "FileLeaf option"
  | TreeEntry_SubtreeHash string
  | TreeEntry_Unset

record TreeEntry =
  te_Name :: string
  te_Node :: TreeEntry_Node

record TreeNode =
  tn_Entries :: "TreeEntry list"

record FileRecord =
  EphemeralPublicKey :: bytes
  EncryptedZipPassword :: bytes
  KeyId :: "string option"
  fr_Crc32 :: "32 word"
  fr_CompressedSize :: int
  fr_UncompressedSize :: int
  fr_LastModified :: "int option"

record Version =
  SnowflakeId :: "64 word"
  BackupTimestamp :: "int option"
  RootTreeHash :: string
  PrecedingVersionId :: "64 word"
  Label :: string

record BackupMetadata =
  Versions :: "(string, Version) gomap"
  Trees :: "(string, TreeNode) gomap"
  Files :: "(string, FileRecord) gomap"
  PublicKeys :: "(string, bytes) gomap"
  SchemaVersion :: "32 word"
  StoreLabel :: "string option"
  LastUpdated :: "int option"

type_synonym md_marshal = "BackupMetadata \<Rightarrow> bytes option"
type_synonym md_unmarshal = "bytes \<Rightarrow> BackupMetadata option"
type_synonym tree_marshal = "TreeNode \<Rightarrow> bytes option"

definition md_wf :: "BackupMetadata \<Rightarrow> bool" where
  "md_wf md \<longleftrightarrow> gm_wf (Versions md) \<and> gm_wf (Trees md) \<and> gm_wf (Files md) \<and> gm_wf (PublicKeys md)"

text \<open>The same metadata, with its maps iterated in another order.\<close>

definition md_same :: "BackupMetadata \<Rightarrow> BackupMetadata \<Rightarrow> bool" where
  "md_same a b \<longleftrightarrow> gm_same (Versions a) (Versions b) \<and> gm_same (Trees a) (Trees b) \<and>
     gm_same (Files a) (Files b) \<and> gm_same (PublicKeys a) (PublicKeys b) \<and>
     SchemaVersion a = SchemaVersion b \<and> StoreLabel a = StoreLabel b \<and>
     LastUpdated a = LastUpdated b"

text \<open>\<open>(*timestamppb.Timestamp).AsTime\<close>: a nil timestamp is the epoch.\<close>

definition AsTime :: "int option \<Rightarrow> int" where
  "AsTime t = (case t of None \<Rightarrow> 0 | Some x \<Rightarrow> x)"

text \<open>The zero \<open>time.Time\<close>: 1 January of year 1, UTC.\<close>

definition zeroTime :: int where
  "zeroTime = -62135596800 * 1000000000"

text \<open>The part of \<open>loadMetadata\<close> after its read, on the result \<open>rd\<close> of the read.\<close>

definition parseMetadata :: "md_unmarshal \<Rightarrow> bytes result \<Rightarrow> BackupMetadata result" where
  "parseMetadata unmarshal rd =
     (case rd of
        Inl e \<Rightarrow> Inl (Errorf [e])
      | Inr pbBytes \<Rightarrow>
          (case unmarshal pbBytes of
             None \<Rightarrow> Inl (Errorf [Sentinel ErrCorruptMetadata, Foreign ''proto''])
           | Some metadata \<Rightarrow>
               if SchemaVersion metadata \<noteq> 2
               then Inl (UnsupportedSchemaError (SchemaVersion metadata))
               else Inr metadata))"

lemma parseMetadata_ok:
  "parseMetadata u rd = Inr md \<longleftrightarrow>
     (\<exists>b. rd = Inr b \<and> u b = Some md \<and> SchemaVersion md = 2)"
  by (auto simp: parseMetadata_def split: sum.splits option.splits if_splits)

text \<open>A failed load says which of the three failures it was.\<close>

lemma parseMetadata_not_found:
  "parseMetadata u rd = Inl e \<Longrightarrow> errIs e ErrNotFound \<Longrightarrow>
     \<exists>e'. rd = Inl e' \<and> errIs e' ErrNotFound"
  by (auto simp: parseMetadata_def split: sum.splits option.splits if_splits)

subsection \<open>The latest version\<close>

definition version_later :: "Version \<Rightarrow> Version \<Rightarrow> bool" where
  "version_later v l \<longleftrightarrow>
     AsTime (BackupTimestamp l) < AsTime (BackupTimestamp v) \<or>
     (AsTime (BackupTimestamp v) = AsTime (BackupTimestamp l) \<and> SnowflakeId l < SnowflakeId v)"

definition latestVersion :: "BackupMetadata \<Rightarrow> Version option" where
  "latestVersion md =
     foldl (\<lambda>latest (k, v).
              case latest of
                None \<Rightarrow> Some v
              | Some l \<Rightarrow> if version_later v l then Some v else Some l)
           None (Versions md)"

lemma version_later_trans: "version_later a b \<Longrightarrow> version_later b c \<Longrightarrow> version_later a c"
  by (auto simp: version_later_def)

lemma version_later_total:
  "\<not> version_later a b \<Longrightarrow> version_later b a \<or> AsTime (BackupTimestamp a) = AsTime (BackupTimestamp b) \<and>
     SnowflakeId a = SnowflakeId b"
  by (auto simp: version_later_def)

lemma not_version_later_trans:
  "\<not> version_later a b \<Longrightarrow> version_later c b \<Longrightarrow> \<not> version_later a c"
  by (auto simp: version_later_def)

lemma latest_fold:
  fixes vs :: "(string, Version) gomap"
  defines "step \<equiv> \<lambda>latest (k, v). case latest of None \<Rightarrow> Some v
                     | Some l \<Rightarrow> if version_later v l then Some v else Some l"
  shows "foldl step (Some l) vs = Some r \<Longrightarrow>
    (r = l \<or> r \<in> snd ` set vs) \<and> \<not> version_later l r \<and> (\<forall>v \<in> snd ` set vs. \<not> version_later v r)"
proof (induction vs arbitrary: l)
  case Nil
  then show ?case by (auto simp: version_later_def)
next
  case (Cons x vs)
  obtain k v where x: "x = (k, v)" by (cases x)
  show ?case
  proof (cases "version_later v l")
    case True
    with Cons.prems have "foldl step (Some v) vs = Some r" by (simp add: x step_def)
    from Cons.IH [OF this] True show ?thesis
      by (auto simp: x dest: version_later_trans not_version_later_trans)
  next
    case False
    with Cons.prems have "foldl step (Some l) vs = Some r" by (simp add: x step_def)
    from Cons.IH [OF this] False show ?thesis
      by (auto simp: x) (auto simp: version_later_def)
  qed
qed

lemma latest_fold_Some:
  "\<exists>r. foldl (\<lambda>latest (k, v). case latest of None \<Rightarrow> Some v
          | Some l \<Rightarrow> if version_later v l then Some v else Some l) (Some l) vs = Some r"
  by (induction vs arbitrary: l) auto

lemma latestVersion_None_iff: "latestVersion md = None \<longleftrightarrow> Versions md = []"
proof (cases "Versions md")
  case Nil
  then show ?thesis by (simp add: latestVersion_def)
next
  case (Cons x vs)
  with latest_fold_Some [of "snd x" vs] show ?thesis
    by (auto simp: latestVersion_def split: prod.splits)
qed

lemma latestVersion_max:
  assumes "latestVersion md = Some r"
  shows "r \<in> snd ` set (Versions md)" and "v \<in> snd ` set (Versions md) \<Longrightarrow> \<not> version_later v r"
proof -
  obtain k l vs where vs: "Versions md = (k, l) # vs"
    using assms by (cases "Versions md") (auto simp: latestVersion_def)
  with assms latest_fold [of l vs r] show "r \<in> snd ` set (Versions md)"
    and "v \<in> snd ` set (Versions md) \<Longrightarrow> \<not> version_later v r"
    by (auto simp: latestVersion_def)
qed

subsection \<open>Fresh version identifiers\<close>

definition id_mask :: "64 word" where "id_mask = push_bit 63 1"

text \<open>
  \<open>clock i\<close> is the value of the \<open>i\<close>-th \<open>time.Now().UnixNano()\<close> call, \<open>seq\<close> the counter
  \<open>globalVersionSeq\<close>, which the loop increments atomically.
\<close>

definition versionCandidate :: "int \<Rightarrow> 64 word \<Rightarrow> 64 word" where
  "versionCandidate now seq =
     hashStringToUint64 (FormatInt now @ ''-'' @ FormatUint seq) AND NOT id_mask"

partial_function (option) generateVersionID_loop ::
  "(string, Version) gomap \<Rightarrow> (nat \<Rightarrow> int) \<Rightarrow> nat \<Rightarrow> 64 word \<Rightarrow> 64 word \<Rightarrow>
     (64 word \<times> 64 word) option" where
  "generateVersionID_loop existing clock i seq vid =
     (if vid = 0 \<or> gm_has existing (FormatUint vid)
      then generateVersionID_loop existing clock (Suc i) (seq + 1)
             (versionCandidate (clock i) (seq + 1))
      else Some (vid, seq))"

definition generateVersionID ::
  "(string, Version) gomap \<Rightarrow> (nat \<Rightarrow> int) \<Rightarrow> 64 word \<Rightarrow> (64 word \<times> 64 word) option" where
  "generateVersionID existing clock seq =
     generateVersionID_loop existing clock 1 seq
       (hashStringToUint64 (FormatInt (clock 0)) AND NOT id_mask)"

definition fresh_id :: "(string, Version) gomap \<Rightarrow> 64 word \<Rightarrow> bool" where
  "fresh_id existing vid \<longleftrightarrow> vid \<noteq> 0 \<and> \<not> gm_has existing (FormatUint vid)"

lemma bit_id_mask: "bit id_mask n \<longleftrightarrow> n = 63"
  unfolding id_mask_def bit_push_bit_iff by (auto simp: bit_1_iff)

lemma masked_le_MaxInt64: "unat (w AND NOT id_mask) < 2 ^ 63"
proof -
  have "w AND NOT id_mask = take_bit 63 w"
    by (rule bit_word_eqI) (auto simp: bit_id_mask bit_simps)
  then show ?thesis
    using take_bit_nat_less_exp [of 63 "unat w"] by (simp add: unsigned_take_bit_eq)
qed

lemma generateVersionID_loop_sound:
  assumes "generateVersionID_loop existing clock i seq vid = Some (r, seq')"
  shows "fresh_id existing r \<and> (r = vid \<or> (\<exists>w. r = w AND NOT id_mask))"
proof -
  let ?P = "\<lambda>existing clock i seq vid rs.
    fresh_id existing (fst rs) \<and> (fst rs = vid \<or> (\<exists>w. fst rs = w AND NOT id_mask))"
  have "?P existing clock i seq vid (r, seq')"
    by (rule generateVersionID_loop.raw_induct [where P = ?P, OF _ assms])
      (auto simp: fresh_id_def versionCandidate_def split: if_splits, blast+)
  then show ?thesis by simp
qed

lemma generateVersionID_loop_returns:
  "fresh_id existing (versionCandidate (clock (i + n)) (seq + of_nat (Suc n))) \<Longrightarrow>
   \<exists>r. generateVersionID_loop existing clock i seq vid = Some r"
proof (induction n arbitrary: i seq vid)
  case 0
  then show ?case
    by (subst generateVersionID_loop.simps, subst generateVersionID_loop.simps)
      (auto simp: fresh_id_def)
next
  case (Suc n)
  from Suc.prems have
    "fresh_id existing (versionCandidate (clock (Suc i + n)) ((seq + 1) + of_nat (Suc n)))"
    by (simp add: algebra_simps)
  then obtain r where "generateVersionID_loop existing clock (Suc i) (seq + 1)
      (versionCandidate (clock i) (seq + 1)) = Some r"
    using Suc.IH [of "Suc i" "seq + 1" "versionCandidate (clock i) (seq + 1)"] by auto
  then show ?case
    by (subst generateVersionID_loop.simps) auto
qed

end
