(* ===== verification/Tree.thy ===== *)
theory Tree
  imports Metadata
begin

text \<open>
  Directory trees: building them from the entries of a backup (\<open>tempDirNode\<close>,
  \<open>buildAndHash\<close> and steps 1 and 2 of the tree phase of \<open>RunBackup\<close> in
  \<open>src/tsync/backup.go\<close>) and walking them again (\<open>walkTree\<close>, \<open>ResolveVersionTree\<close> in
  \<open>src/tsync/restore.go\<close>). The deterministic protobuf encoder of a \<open>TreeNode\<close> is the argument
  \<open>mar\<close>; \<open>None\<close> is a marshalling error.
\<close>

named_theorems tree_simps \<open>lookup laws of directory nodes\<close>

subsection \<open>Directories under construction\<close>

datatype tempDirNode =
  TempDirNode (dn_files: "(string \<times> FileLeaf) list") (dn_subdirs: "(string \<times> tempDirNode) list")

definition newTempDirNode :: tempDirNode where
  "newTempDirNode = TempDirNode [] []"

definition fileEntry :: "string \<times> FileLeaf \<Rightarrow> TreeEntry" where
  "fileEntry nl = \<lparr>te_Name = fst nl, te_Node = TreeEntry_File (Some (snd nl))\<rparr>"

definition subtreeEntry :: "string \<Rightarrow> string \<Rightarrow> TreeEntry" where
  "subtreeEntry name h = \<lparr>te_Name = name, te_Node = TreeEntry_SubtreeHash h\<rparr>"

fun buildAndHash ::
  "tree_marshal \<Rightarrow> tempDirNode \<Rightarrow> (string, TreeNode) gomap \<Rightarrow>
     (string \<times> (string, TreeNode) gomap) result"
and buildSubdirs ::
  "tree_marshal \<Rightarrow> (string \<times> tempDirNode) list \<Rightarrow> (string, TreeNode) gomap \<Rightarrow>
     (TreeEntry list \<times> (string, TreeNode) gomap) result" where
  "buildAndHash mar (TempDirNode fs ds) trees =
     (case buildSubdirs mar ds trees of
        Inl e \<Rightarrow> Inl e
      | Inr (subs, trees') \<Rightarrow>
          let treeNode = \<lparr>tn_Entries = sort_key te_Name (map fileEntry fs @ subs)\<rparr>
          in case mar treeNode of
               None \<Rightarrow> Inl (Errorf [Foreign ''proto''])
             | Some marshaled \<Rightarrow>
                 let hashHex = sha256_hex marshaled
                 in Inr (hashHex, gm_put hashHex treeNode trees'))"
| "buildSubdirs mar [] trees = Inr ([], trees)"
| "buildSubdirs mar ((name, d) # ds) trees =
     (case buildAndHash mar d trees of
        Inl e \<Rightarrow> Inl e
      | Inr (subHash, trees1) \<Rightarrow>
          (case buildSubdirs mar ds trees1 of
             Inl e \<Rightarrow> Inl e
           | Inr (subs, trees2) \<Rightarrow> Inr (subtreeEntry name subHash # subs, trees2)))"

text \<open>Step 1 of the tree phase: one directory path, one component at a time.\<close>

fun addDir :: "string list \<Rightarrow> tempDirNode \<Rightarrow> tempDirNode" where
  "addDir [] n = n"
| "addDir (part # parts) (TempDirNode fs ds) =
     TempDirNode fs
       (gm_put part
         (addDir parts (case gm_get ds part of Some subdir \<Rightarrow> subdir | None \<Rightarrow> newTempDirNode)) ds)"

fun addDirs :: "string list \<Rightarrow> tempDirNode \<Rightarrow> tempDirNode" where
  "addDirs [] n = n"
| "addDirs (dPath # dPaths) n =
     (if dPath = [] then addDirs dPaths n
      else addDirs dPaths (addDir (Split CHR ''/'' dPath) n))"

text \<open>Step 2: one file path; a name that is both a file and a directory is an error.\<close>

fun addFile :: "string list \<Rightarrow> FileLeaf \<Rightarrow> tempDirNode \<Rightarrow> tempDirNode result" where
  "addFile [] leaf n = Inr n"
| "addFile [part] leaf (TempDirNode fs ds) =
     (if gm_has ds part then Inl (Errorf [Sentinel ErrPathCollision])
      else Inr (TempDirNode (gm_put part leaf fs) ds))"
| "addFile (part # next # parts) leaf (TempDirNode fs ds) =
     (if gm_has fs part then Inl (Errorf [Sentinel ErrPathCollision])
      else case addFile (next # parts) leaf
                  (case gm_get ds part of Some subdir \<Rightarrow> subdir | None \<Rightarrow> newTempDirNode) of
             Inl e \<Rightarrow> Inl e
           | Inr subdir \<Rightarrow> Inr (TempDirNode fs (gm_put part subdir ds)))"

fun addFiles :: "(string \<times> FileLeaf) list \<Rightarrow> tempDirNode \<Rightarrow> tempDirNode result" where
  "addFiles [] n = Inr n"
| "addFiles ((p, leaf) # fs) n =
     (case addFile (Split CHR ''/'' p) leaf n of
        Inl e \<Rightarrow> Inl e
      | Inr n' \<Rightarrow> addFiles fs n')"

definition buildTree :: "string list \<Rightarrow> (string \<times> FileLeaf) list \<Rightarrow> tempDirNode result" where
  "buildTree dirPaths files = addFiles files (addDirs dirPaths newTempDirNode)"

subsection \<open>Walking a stored tree\<close>

text \<open>The loop that checks the order of the entries of a node.\<close>

fun entries_sorted :: "TreeEntry list \<Rightarrow> bool" where
  "entries_sorted (a # b # es) = (\<not> te_Name b \<le> te_Name a \<and> entries_sorted (b # es))"
| "entries_sorted _ = True"

definition leafKey :: "FileLeaf \<Rightarrow> string" where
  "leafKey leaf = fileKeyFor (fl_Crc32 leaf) (fl_UncompressedSize leaf)"

definition joinPath :: "string \<Rightarrow> string \<Rightarrow> string" where
  "joinPath prefix name = (if prefix = [] then name else prefix @ ''/'' @ name)"

text \<open>The accumulators \<open>filesResult\<close> and \<open>dirsResult\<close>.\<close>

type_synonym walk_state = "(string, string) gomap \<times> string list"

text \<open>
  \<open>walkTree\<close> has no termination argument of its own in the source: the recursion follows
  hashes. The first argument bounds the depth of the recursion; \<open>None\<close> is a deeper tree.
  A skipped error (\<open>skipValidationErrors\<close>) only logs.
\<close>

definition corrupt :: "bool \<Rightarrow> err list \<Rightarrow> walk_state \<Rightarrow> walk_state result option" where
  "corrupt skip es st =
     Some (if skip then Inr st else Inl (Errorf (Sentinel ErrCorruptMetadata # es)))"

function (sequential) walkTree ::
  "tree_marshal \<Rightarrow> nat \<Rightarrow> string \<Rightarrow> string \<Rightarrow> (string, TreeNode) gomap \<Rightarrow> bool \<Rightarrow> walk_state \<Rightarrow>
     walk_state result option"
and walkEntries ::
  "tree_marshal \<Rightarrow> nat \<Rightarrow> TreeEntry list \<Rightarrow> string \<Rightarrow> (string, TreeNode) gomap \<Rightarrow> bool \<Rightarrow>
     walk_state \<Rightarrow> walk_state result option" where
  "walkTree mar 0 treeHash prefix trees skip st = None"
| "walkTree mar (Suc n) treeHash prefix trees skip st =
     (case gm_get trees treeHash of
        None \<Rightarrow> corrupt skip [] st
      | Some node \<Rightarrow>
          (case mar node of
             None \<Rightarrow> corrupt skip [Foreign ''proto''] st
           | Some marshaled \<Rightarrow>
               if sha256_hex marshaled \<noteq> treeHash then corrupt skip [] st
               else if \<not> entries_sorted (tn_Entries node) \<and> \<not> skip then corrupt skip [] st
               else if tn_Entries node = [] \<and> prefix \<noteq> []
               then Some (Inr (fst st, snd st @ [prefix]))
               else walkEntries mar n (tn_Entries node) prefix trees skip st))"
| "walkEntries mar n [] prefix trees skip st = Some (Inr st)"
| "walkEntries mar n (entry # es) prefix trees skip st =
     (let continue = (\<lambda>st'. walkEntries mar n es prefix trees skip st') in
      case validateName (te_Name entry) of
        Some e \<Rightarrow> if skip then continue st else corrupt skip [e] st
      | None \<Rightarrow>
          let fullPath = joinPath prefix (te_Name entry) in
          (case te_Node entry of
             TreeEntry_File None \<Rightarrow> if skip then continue st else corrupt skip [] st
           | TreeEntry_File (Some leaf) \<Rightarrow>
               continue (gm_put fullPath (leafKey leaf) (fst st), snd st)
           | TreeEntry_SubtreeHash h \<Rightarrow>
               if h = [] then (if skip then continue st else corrupt skip [] st)
               else (case walkTree mar n h fullPath trees skip st of
                       None \<Rightarrow> None
                     | Some (Inl e) \<Rightarrow> Some (Inl e)
                     | Some (Inr st') \<Rightarrow> continue st')
           | TreeEntry_Unset \<Rightarrow> if skip then continue st else corrupt skip [] st))"
  by pat_completeness auto
termination
  by (relation "(\<lambda>x. case x of Inl (mar, n, _) \<Rightarrow> n | Inr (mar, n, es, _) \<Rightarrow> n) <*mlex*>
       measure (\<lambda>x. case x of Inl _ \<Rightarrow> 0 | Inr (mar, n, es, _) \<Rightarrow> Suc (length es))")
    (auto intro: wf_mlex mlex_less mlex_leq)

definition ResolveVersionTree ::
  "tree_marshal \<Rightarrow> nat \<Rightarrow> BackupMetadata \<Rightarrow> 64 word \<Rightarrow> bool \<Rightarrow> walk_state result option" where
  "ResolveVersionTree mar fuel metadata versionID skip =
     (case gm_get (Versions metadata) (FormatUint versionID) of
        None \<Rightarrow> Some (Inl (Errorf [Sentinel ErrVersionNotFound]))
      | Some version \<Rightarrow>
          walkTree mar fuel (RootTreeHash version) [] (Trees metadata) skip ([], []))"

lemma entries_sorted_iff: "entries_sorted es \<longleftrightarrow> sorted_wrt (<) (map te_Name es)"
  by (induction es rule: entries_sorted.induct)
    (auto simp: not_le intro: less_trans)

end
