(* ===== verification/TreeBuild.thy ===== *)
theory TreeBuild
  imports Tree "HOL-Library.Sublist"
begin

text \<open>
  What the tree phase of a backup builds. A directory under construction is described by the
  files and the directories found at each path (\<open>fileAt\<close>, \<open>isDirAt\<close>); every construction
  step is characterised by its effect on the two. Then: the phase fails exactly when some
  path is both a file and a directory, it does not depend on the order in which the maps are
  iterated, and the root hash is a function of the set of paths and leaves.
\<close>

subsection \<open>Observing a directory\<close>

fun fileAt :: "tempDirNode \<Rightarrow> string list \<Rightarrow> FileLeaf option" where
  "fileAt n [] = None"
| "fileAt (TempDirNode fs ds) [p] = gm_get fs p"
| "fileAt (TempDirNode fs ds) (p # q # ps) =
     (case gm_get ds p of None \<Rightarrow> None | Some d \<Rightarrow> fileAt d (q # ps))"

fun isDirAt :: "tempDirNode \<Rightarrow> string list \<Rightarrow> bool" where
  "isDirAt n [] = True"
| "isDirAt (TempDirNode fs ds) (p # ps) =
     (case gm_get ds p of None \<Rightarrow> False | Some d \<Rightarrow> isDirAt d ps)"

text \<open>Distinct names in every directory, none both a file and a subdirectory, all valid.\<close>

fun dn_wf :: "tempDirNode \<Rightarrow> bool" where
  "dn_wf (TempDirNode fs ds) \<longleftrightarrow>
     gm_wf fs \<and> gm_wf ds \<and> list_all (\<lambda>x. \<not> gm_has ds (fst x)) fs \<and> list_all (\<lambda>x. dn_wf (snd x)) ds"

fun dn_names_ok :: "tempDirNode \<Rightarrow> bool" where
  "dn_names_ok (TempDirNode fs ds) \<longleftrightarrow>
     list_all (\<lambda>x. valid_name (fst x)) fs \<and>
     list_all (\<lambda>x. valid_name (fst x) \<and> dn_names_ok (snd x)) ds"

lemma fileAt_new [tree_simps, simp]: "fileAt newTempDirNode qs = None"
  by (cases "(newTempDirNode, qs)" rule: fileAt.cases) (auto simp: newTempDirNode_def)

lemma isDirAt_new [tree_simps, simp]: "isDirAt newTempDirNode qs \<longleftrightarrow> qs = []"
  by (cases qs) (auto simp: newTempDirNode_def)

lemma dn_wf_new [simp]: "dn_wf newTempDirNode"
  by (simp add: newTempDirNode_def)

lemma dn_names_ok_new [simp]: "dn_names_ok newTempDirNode"
  by (simp add: newTempDirNode_def)

lemma fileAt_Cons [tree_simps]:
  "qs \<noteq> [] \<Longrightarrow> fileAt (TempDirNode fs ds) (p # qs) =
     (case gm_get ds p of None \<Rightarrow> None | Some d \<Rightarrow> fileAt d qs)"
  by (cases qs) auto

text \<open>The subdirectory a construction step descends into.\<close>

definition subdirOr :: "(string \<times> tempDirNode) list \<Rightarrow> string \<Rightarrow> tempDirNode" where
  "subdirOr ds p = (case gm_get ds p of Some d \<Rightarrow> d | None \<Rightarrow> newTempDirNode)"

lemma isDirAt_sub:
  "isDirAt (TempDirNode fs ds) (p # qs) \<longleftrightarrow> gm_has ds p \<and> isDirAt (subdirOr ds p) qs"
  by (auto simp: subdirOr_def split: option.splits)

lemma fileAt_sub:
  "qs \<noteq> [] \<Longrightarrow> fileAt (TempDirNode fs ds) (p # qs) = fileAt (subdirOr ds p) qs"
  by (auto simp: fileAt_Cons subdirOr_def split: option.splits)

lemma addDir_Cons:
  "addDir (p # ps) (TempDirNode fs ds) =
     TempDirNode fs (gm_put p (addDir ps (subdirOr ds p)) ds)"
  by (simp add: subdirOr_def)

lemma addFile_Cons:
  "ps \<noteq> [] \<Longrightarrow> addFile (p # ps) leaf (TempDirNode fs ds) =
     (if gm_has fs p then Inl (Errorf [Sentinel ErrPathCollision])
      else case addFile ps leaf (subdirOr ds p) of
             Inl e \<Rightarrow> Inl e
           | Inr subdir \<Rightarrow> Inr (TempDirNode fs (gm_put p subdir ds)))"
  by (cases ps) (auto simp: subdirOr_def)

subsection \<open>Adding directories\<close>

lemma isDirAt_addDir [tree_simps]: "isDirAt (addDir ps n) qs \<longleftrightarrow> isDirAt n qs \<or> prefix qs ps"
proof (induction ps n arbitrary: qs rule: addDir.induct)
  case (1 n)
  then show ?case by auto
next
  case (2 p ps fs ds)
  have IH: "isDirAt (addDir ps (subdirOr ds p)) qs' \<longleftrightarrow>
      isDirAt (subdirOr ds p) qs' \<or> prefix qs' ps" for qs'
    using "2.IH" by (simp add: subdirOr_def)
  show ?case
  proof (cases qs)
    case Nil
    then show ?thesis by simp
  next
    case (Cons q qs')
    show ?thesis
    proof (cases "q = p")
      case True
      show ?thesis
        unfolding addDir_Cons Cons True isDirAt_sub
        by (cases "gm_get ds p") (auto simp: gomap_simps subdirOr_def [of "gm_put p _ _"] IH,
            auto simp: subdirOr_def)
    next
      case False
      then show ?thesis
        unfolding addDir_Cons Cons by (auto simp: gomap_simps)
    qed
  qed
qed

lemma fileAt_addDir [tree_simps]: "fileAt (addDir ps n) qs = fileAt n qs"
proof (induction ps n arbitrary: qs rule: addDir.induct)
  case (1 n)
  then show ?case by simp
next
  case (2 p ps fs ds)
  have IH: "fileAt (addDir ps (subdirOr ds p)) qs' = fileAt (subdirOr ds p) qs'" for qs'
    using "2.IH" by (simp add: subdirOr_def)
  show ?case
  proof (cases qs)
    case Nil
    then show ?thesis by simp
  next
    case (Cons q rs)
    show ?thesis
    proof (cases "rs = []")
      case True
      with Cons show ?thesis by (simp add: addDir_Cons del: addDir.simps)
    next
      case False
      then show ?thesis
        unfolding addDir_Cons Cons fileAt_sub [OF False]
        by (cases "q = p") (auto simp: subdirOr_def [of "gm_put p _ _"] gomap_simps IH,
            auto simp: subdirOr_def)
    qed
  qed
qed

lemma no_files_wf_addDir:
  "dn_wf n \<Longrightarrow> (\<And>qs. fileAt n qs = None) \<Longrightarrow> dn_wf (addDir ps n)"
proof (induction ps n rule: addDir.induct)
  case (1 n)
  then show ?case by simp
next
  case (2 p ps fs ds)
  have fs: "fs = []"
    using "2.prems"(2) [of "[fst (hd fs)]"] by (cases fs) (auto split: if_splits)
  have none: "fileAt (subdirOr ds p) qs = None" for qs
    using "2.prems"(2) [of "p # qs"] by (cases "qs = []") (auto simp: fileAt_sub)
  have "dn_wf (subdirOr ds p)"
    using "2.prems"(1) by (auto simp: subdirOr_def split: option.splits dest: list_all_gm_get)
  then have "dn_wf (addDir ps (subdirOr ds p))"
    using "2.IH" none by (simp add: subdirOr_def)
  with "2.prems"(1) fs show ?case
    by (simp add: addDir_Cons list_all_gm_put del: addDir.simps)
qed


lemma dn_names_ok_addDir:
  "dn_names_ok n \<Longrightarrow> list_all valid_name ps \<Longrightarrow> dn_names_ok (addDir ps n)"
proof (induction ps n rule: addDir.induct)
  case (1 n)
  then show ?case by simp
next
  case (2 p ps fs ds)
  then have "dn_names_ok (subdirOr ds p)"
    by (auto simp: subdirOr_def split: option.splits dest: list_all_gm_get)
  then have "dn_names_ok (addDir ps (subdirOr ds p))"
    using "2.IH" "2.prems"(2) by (simp add: subdirOr_def)
  with "2.prems" show ?case
    by (simp add: addDir_Cons list_all_gm_put del: addDir.simps)
qed

lemma isDirAt_addDirs [tree_simps]:
  "isDirAt (addDirs ds n) qs \<longleftrightarrow>
     isDirAt n qs \<or> (\<exists>d \<in> set ds. d \<noteq> [] \<and> prefix qs (Split CHR ''/'' d))"
  by (induction ds n rule: addDirs.induct) (auto simp: tree_simps)

lemma fileAt_addDirs [tree_simps]: "fileAt (addDirs ds n) qs = fileAt n qs"
  by (induction ds n rule: addDirs.induct) (auto simp: tree_simps)

lemma no_files_wf_addDirs:
  "dn_wf n \<Longrightarrow> (\<And>qs. fileAt n qs = None) \<Longrightarrow> dn_wf (addDirs ds n)"
  by (induction ds n rule: addDirs.induct) (auto simp: tree_simps no_files_wf_addDir)

lemma dn_names_ok_addDirs:
  "dn_names_ok n \<Longrightarrow> (\<And>d. d \<in> set ds \<Longrightarrow> d \<noteq> [] \<Longrightarrow> list_all valid_name (Split CHR ''/'' d)) \<Longrightarrow>
     dn_names_ok (addDirs ds n)"
  by (induction ds n rule: addDirs.induct) (auto simp: dn_names_ok_addDir)

subsection \<open>Adding files\<close>

lemma addFile_error: "addFile ps leaf n = Inl e \<Longrightarrow> e = Errorf [Sentinel ErrPathCollision]"
  by (induction ps leaf n rule: addFile.induct) (auto split: if_splits sum.splits)

lemma strict_prefix_Cons2:
  "strict_prefix qs (p # ps) \<longleftrightarrow> qs = [] \<or> (\<exists>qs'. qs = p # qs' \<and> strict_prefix qs' ps)"
  by (cases qs) (auto simp: strict_prefix_def)

lemma addFile_ok_iff:
  assumes "ps \<noteq> []"
  shows "(\<exists>n'. addFile ps leaf n = Inr n') \<longleftrightarrow>
    \<not> isDirAt n ps \<and> (\<forall>qs. qs \<noteq> [] \<and> strict_prefix qs ps \<longrightarrow> fileAt n qs = None)"
  using assms
proof (induction ps arbitrary: n rule: list_nonempty_induct)
  case (single p)
  then show ?case
    by (cases n) (auto simp: strict_prefix_Cons2 split: option.splits)
next
  case (cons p ps)
  obtain fs ds where n: "n = TempDirNode fs ds" by (cases n)
  have dir: "isDirAt n (p # ps) \<longleftrightarrow> isDirAt (subdirOr ds p) ps"
    using cons.hyps unfolding n isDirAt_sub
    by (cases "gm_get ds p") (auto simp: subdirOr_def)
  have files: "(\<forall>qs. qs \<noteq> [] \<and> strict_prefix qs (p # ps) \<longrightarrow> fileAt n qs = None) \<longleftrightarrow>
      gm_get fs p = None \<and> (\<forall>qs. qs \<noteq> [] \<and> strict_prefix qs ps \<longrightarrow> fileAt (subdirOr ds p) qs = None)"
    (is "?L \<longleftrightarrow> ?R")
  proof
    assume L: ?L
    have "strict_prefix [p] (p # ps)" using cons.hyps by (auto simp: strict_prefix_Cons2 neq_Nil_conv)
    with L have "gm_get fs p = None" by (auto simp: n dest: spec [of _ "[p]"])
    moreover have "fileAt (subdirOr ds p) qs = None" if "qs \<noteq> []" "strict_prefix qs ps" for qs
      using L that fileAt_sub [of qs fs ds p] by (auto simp: n strict_prefix_Cons2)
    ultimately show ?R by blast
  next
    assume ?R
    then show ?L by (auto simp: strict_prefix_Cons2 n) (metis fileAt.simps(2) fileAt_sub)
  qed
  have "(\<exists>n'. addFile (p # ps) leaf n = Inr n') \<longleftrightarrow>
      gm_get fs p = None \<and> (\<exists>s. addFile ps leaf (subdirOr ds p) = Inr s)"
    using cons.hyps by (auto simp: n addFile_Cons split: sum.splits)
  then show ?case
    unfolding dir files cons.IH by blast
qed

lemma addFile_fileAt:
  assumes "ps \<noteq> []" and "addFile ps leaf n = Inr n'"
  shows "fileAt n' qs = (if qs = ps then Some leaf else fileAt n qs)"
  using assms
proof (induction ps arbitrary: n n' qs rule: list_nonempty_induct)
  case (single p)
  then show ?case
    by (cases n; cases qs rule: remdups_adj.cases)
      (auto simp: gomap_simps split: if_splits)
next
  case (cons p ps)
  obtain fs ds where n: "n = TempDirNode fs ds" by (cases n)
  from cons.prems cons.hyps obtain s where s: "addFile ps leaf (subdirOr ds p) = Inr s"
    and n': "n' = TempDirNode fs (gm_put p s ds)"
    by (auto simp: n addFile_Cons split: if_splits sum.splits)
  note IH = cons.IH [OF s]
  show ?case
  proof (cases qs)
    case Nil
    then show ?thesis by simp
  next
    case (Cons q rs)
    show ?thesis
    proof (cases "rs = []")
      case True
      with Cons cons.hyps show ?thesis by (simp add: n n')
    next
      case False
      then show ?thesis
        unfolding n n' Cons fileAt_sub [OF False]
        by (cases "q = p") (auto simp: subdirOr_def [of "gm_put p _ _"] gomap_simps IH,
            auto simp: subdirOr_def)
    qed
  qed
qed

lemma addFile_isDirAt:
  assumes "ps \<noteq> []" and "addFile ps leaf n = Inr n'"
  shows "isDirAt n' qs \<longleftrightarrow> isDirAt n qs \<or> strict_prefix qs ps"
  using assms
proof (induction ps arbitrary: n n' qs rule: list_nonempty_induct)
  case (single p)
  then show ?case
    by (cases n; cases qs) (auto simp: strict_prefix_Cons2 split: if_splits)
next
  case (cons p ps)
  obtain fs ds where n: "n = TempDirNode fs ds" by (cases n)
  from cons.prems cons.hyps obtain s where s: "addFile ps leaf (subdirOr ds p) = Inr s"
    and n': "n' = TempDirNode fs (gm_put p s ds)"
    by (auto simp: n addFile_Cons split: if_splits sum.splits)
  note IH = cons.IH [OF s]
  show ?case
  proof (cases qs)
    case Nil
    then show ?thesis by simp
  next
    case (Cons q rs)
    have "rs = [] \<Longrightarrow> strict_prefix rs ps" using cons.hyps by (simp add: strict_prefix_def)
    then show ?thesis
      unfolding n n' Cons isDirAt_sub
      by (cases "q = p"; cases "gm_get ds p")
        (auto simp: subdirOr_def [of "gm_put p _ _"] gomap_simps IH strict_prefix_Cons2,
          auto simp: subdirOr_def)
  qed
qed

lemma addFile_wf: "dn_wf n \<Longrightarrow> addFile ps leaf n = Inr n' \<Longrightarrow> dn_wf n'"
proof (induction ps leaf n arbitrary: n' rule: addFile.induct)
  case (3 p q ps leaf fs ds)
  from "3.prems" obtain s where s: "addFile (q # ps) leaf (subdirOr ds p) = Inr s"
    and n': "n' = TempDirNode fs (gm_put p s ds)" and p: "gm_get fs p = None"
    by (auto simp: subdirOr_def split: if_splits sum.splits)
  have "dn_wf (subdirOr ds p)"
    using "3.prems"(1) by (auto simp: subdirOr_def split: option.splits dest: list_all_gm_get)
  then have "dn_wf s" using "3.IH" s p by (simp add: subdirOr_def)
  with "3.prems"(1) p show ?case
    by (auto simp: n' gomap_simps list_all_iff map_of_eq_None_iff dest!: gm_put_mem)
qed (auto split: if_splits simp: list_all_gm_put)

lemma addFile_names:
  "dn_names_ok n \<Longrightarrow> list_all valid_name ps \<Longrightarrow> addFile ps leaf n = Inr n' \<Longrightarrow> dn_names_ok n'"
proof (induction ps leaf n arbitrary: n' rule: addFile.induct)
  case (3 p q ps leaf fs ds)
  from "3.prems" obtain s where s: "addFile (q # ps) leaf (subdirOr ds p) = Inr s"
    and n': "n' = TempDirNode fs (gm_put p s ds)" and p: "gm_get fs p = None"
    by (auto simp: subdirOr_def split: if_splits sum.splits)
  have "dn_names_ok (subdirOr ds p)"
    using "3.prems"(1) by (auto simp: subdirOr_def split: option.splits dest: list_all_gm_get)
  then have "dn_names_ok s" using "3.IH" "3.prems"(2) s p by (simp add: subdirOr_def)
  with "3.prems" show ?case by (simp add: n' list_all_gm_put)
qed (auto split: if_splits simp: list_all_gm_put)

subsection \<open>The whole tree phase\<close>

text \<open>The files of a backup, keyed by the components of their paths.\<close>

definition compFiles :: "(string \<times> FileLeaf) list \<Rightarrow> (string list \<times> FileLeaf) list" where
  "compFiles fs = map (\<lambda>x. (Split CHR ''/'' (fst x), snd x)) fs"

lemma compFiles_Split: "gm_get (compFiles fs) (Split CHR ''/'' p) = gm_get fs p"
  by (induction fs) (auto simp: compFiles_def dest: Split_inj)

lemma compFiles_Some_iff:
  "gm_get (compFiles fs) qs = Some l \<longleftrightarrow> (\<exists>p. qs = Split CHR ''/'' p \<and> gm_get fs p = Some l)"
proof
  assume "gm_get (compFiles fs) qs = Some l"
  moreover from this obtain p where "qs = Split CHR ''/'' p"
    by (auto simp: compFiles_def dest!: map_of_SomeD)
  ultimately show "\<exists>p. qs = Split CHR ''/'' p \<and> gm_get fs p = Some l"
    by (auto simp: compFiles_Split)
qed (auto simp: compFiles_Split)

lemma addFiles_fileAt:
  "addFiles fs n = Inr n' \<Longrightarrow> gm_wf fs \<Longrightarrow>
     fileAt n' qs = (case gm_get (compFiles fs) qs of Some l \<Rightarrow> Some l | None \<Rightarrow> fileAt n qs)"
proof (induction fs n rule: addFiles.induct)
  case (1 n)
  then show ?case by (simp add: compFiles_def)
next
  case (2 p leaf fs n)
  let ?c = "Split CHR ''/'' p"
  from "2.prems"(1) obtain n1 where n1: "addFile ?c leaf n = Inr n1" "addFiles fs n1 = Inr n'"
    by (auto split: sum.splits)
  have "gm_get fs p = None" and wf: "gm_wf fs"
    using "2.prems"(2) by (auto simp: gm_wf_def map_of_eq_None_iff)
  then have none: "gm_get (compFiles fs) ?c = None" by (simp add: compFiles_Split)
  have "fileAt n' qs = (case gm_get (compFiles fs) qs of Some l \<Rightarrow> Some l | None \<Rightarrow> fileAt n1 qs)"
    using "2.IH" n1 wf by simp
  with none addFile_fileAt [OF Split_not_Nil n1(1)] show ?case
    by (auto simp: compFiles_def split: option.splits)
qed

lemma addFiles_isDirAt:
  "addFiles fs n = Inr n' \<Longrightarrow>
     isDirAt n' qs \<longleftrightarrow> isDirAt n qs \<or> (\<exists>x \<in> set fs. strict_prefix qs (Split CHR ''/'' (fst x)))"
proof (induction fs n rule: addFiles.induct)
  case (2 p leaf fs n)
  then show ?case
    using addFile_isDirAt [OF Split_not_Nil] by (fastforce split: sum.splits)
qed simp

lemma addFiles_wf: "dn_wf n \<Longrightarrow> addFiles fs n = Inr n' \<Longrightarrow> dn_wf n'"
  by (induction fs n rule: addFiles.induct) (auto split: sum.splits dest: addFile_wf)

lemma addFiles_names:
  "dn_names_ok n \<Longrightarrow> list_all (\<lambda>x. list_all valid_name (Split CHR ''/'' (fst x))) fs \<Longrightarrow>
     addFiles fs n = Inr n' \<Longrightarrow> dn_names_ok n'"
  by (induction fs n rule: addFiles.induct) (auto split: sum.splits dest: addFile_names)

lemma addFiles_error: "addFiles fs n = Inl e \<Longrightarrow> e = Errorf [Sentinel ErrPathCollision]"
  by (induction fs n rule: addFiles.induct) (auto split: sum.splits dest: addFile_error)

definition file_fits :: "tempDirNode \<Rightarrow> string list \<Rightarrow> bool" where
  "file_fits n ps \<longleftrightarrow> \<not> isDirAt n ps \<and> (\<forall>qs. qs \<noteq> [] \<and> strict_prefix qs ps \<longrightarrow> fileAt n qs = None)"

lemma addFile_fits:
  assumes "addFile ps leaf n = Inr n'" and "ps \<noteq> []"
  shows "file_fits n' qs \<longleftrightarrow> file_fits n qs \<and> \<not> strict_prefix qs ps \<and> \<not> strict_prefix ps qs"
  using addFile_isDirAt [OF assms(2,1)] addFile_fileAt [OF assms(2,1)] assms(2)
  by (auto simp: file_fits_def)

lemma addFiles_ok_iff:
  "(\<exists>n'. addFiles fs n = Inr n') \<longleftrightarrow>
     (\<forall>x \<in> set fs. file_fits n (Split CHR ''/'' (fst x))) \<and>
     (\<forall>x \<in> set fs. \<forall>y \<in> set fs. \<not> strict_prefix (Split CHR ''/'' (fst x)) (Split CHR ''/'' (fst y)))"
proof (induction fs n rule: addFiles.induct)
  case (1 n)
  then show ?case by simp
next
  case (2 p leaf fs n)
  let ?c = "Split CHR ''/'' p"
  show ?case
  proof (cases "addFile ?c leaf n")
    case (Inl e)
    then have "\<not> file_fits n ?c"
      using addFile_ok_iff [OF Split_not_Nil, of "CHR ''/''" p leaf n] by (auto simp: file_fits_def)
    with Inl show ?thesis by auto
  next
    case (Inr n1)
    then have "file_fits n ?c"
      using addFile_ok_iff [OF Split_not_Nil, of "CHR ''/''" p leaf n] by (auto simp: file_fits_def)
    moreover note "2.IH" [OF Inr] addFile_fits [OF Inr Split_not_Nil]
    ultimately show ?thesis
      using Inr by (auto simp: strict_prefix_def)
  qed
qed

text \<open>A path is used both as a file and as a directory.\<close>

definition paths_collide :: "string list \<Rightarrow> (string \<times> FileLeaf) list \<Rightarrow> bool" where
  "paths_collide dirs files \<longleftrightarrow>
     (\<exists>x \<in> set files.
        (\<exists>d \<in> set dirs. d \<noteq> [] \<and> prefix (Split CHR ''/'' (fst x)) (Split CHR ''/'' d)) \<or>
        (\<exists>y \<in> set files. strict_prefix (Split CHR ''/'' (fst x)) (Split CHR ''/'' (fst y))))"

lemma buildTree_ok_iff: "(\<exists>n. buildTree dirs files = Inr n) \<longleftrightarrow> \<not> paths_collide dirs files"
  by (auto simp: buildTree_def addFiles_ok_iff file_fits_def tree_simps paths_collide_def)

lemma buildTree_error: "buildTree dirs files = Inl e \<Longrightarrow> e = Errorf [Sentinel ErrPathCollision]"
  by (auto simp: buildTree_def dest: addFiles_error)

lemma buildTree_fileAt:
  "buildTree dirs files = Inr n \<Longrightarrow> gm_wf files \<Longrightarrow> fileAt n qs = gm_get (compFiles files) qs"
  unfolding buildTree_def
  by (simp add: addFiles_fileAt [of files] fileAt_addDirs split: option.splits)

lemma buildTree_isDirAt:
  "buildTree dirs files = Inr n \<Longrightarrow>
     isDirAt n qs \<longleftrightarrow> qs = [] \<or> (\<exists>d \<in> set dirs. d \<noteq> [] \<and> prefix qs (Split CHR ''/'' d)) \<or>
       (\<exists>x \<in> set files. strict_prefix qs (Split CHR ''/'' (fst x)))"
  unfolding buildTree_def by (simp add: addFiles_isDirAt [of files] isDirAt_addDirs)

lemma buildTree_wf: "buildTree dirs files = Inr n \<Longrightarrow> dn_wf n"
  unfolding buildTree_def by (erule addFiles_wf [rotated]) (simp add: no_files_wf_addDirs)

lemma buildTree_names:
  "buildTree dirs files = Inr n \<Longrightarrow>
   (\<And>d. d \<in> set dirs \<Longrightarrow> d \<noteq> [] \<Longrightarrow> list_all valid_name (Split CHR ''/'' d)) \<Longrightarrow>
   list_all (\<lambda>x. list_all valid_name (Split CHR ''/'' (fst x))) files \<Longrightarrow> dn_names_ok n"
  unfolding buildTree_def
  by (erule addFiles_names [rotated 2]) (simp_all add: dn_names_ok_addDirs)

end
