(* ===== verification/TreeHash.thy ===== *)
theory TreeHash
  imports TreeBuild
begin

text \<open>
  Hashing a directory and reading it back. \<open>emitNode\<close> is a reference definition of
  \<open>buildAndHash\<close> without the shared \<open>trees\<close> map: the root hash and the list of nodes the
  recursion stores. From it follow that the root hash depends on the contents of the
  directory only, and that \<open>walkTree\<close> on any map that holds the stored nodes returns exactly
  the files and the empty directories that were backed up.
\<close>

subsection \<open>Digest lengths\<close>

lemma length_sha256_round [simp]: "length (sha256_round hs kw) = length hs"
  by (cases "(hs, kw)" rule: sha256_round.cases) (auto simp: Let_def)

lemma length_foldl_round [simp]: "length (foldl sha256_round hs kws) = length hs"
  by (induction kws arbitrary: hs) auto

lemma length_sha256_blocks [simp]: "length (sha256_blocks hs n ws) = length hs"
  by (induction hs n ws rule: sha256_blocks.induct) (auto simp: sha256_block_def)

lemma length_sha256: "length (sha256 m) = 32"
proof -
  have "length (concat (map be_bytes32 ws)) = 4 * length ws" for ws
    by (induction ws) (auto simp: be_bytes32_def)
  then show ?thesis
    unfolding sha256_def Let_def by (simp add: sha256_H0_def)
qed

lemma length_sha256_hex [simp]: "length (sha256_hex m) = 64"
proof -
  have "length (EncodeToString bs) = 2 * length bs" for bs
    by (induction bs) (auto simp: EncodeToString_def)
  then show ?thesis
    unfolding sha256_hex_def by (simp add: length_sha256)
qed

lemma sha256_hex_nonempty [simp]: "sha256_hex m \<noteq> []"
  by (metis length_sha256_hex list.size(3) zero_neq_numeral)

subsection \<open>The nodes a build emits\<close>

definition dirNode :: "(string \<times> FileLeaf) list \<Rightarrow> (string \<times> string) list \<Rightarrow> TreeNode" where
  "dirNode fs subs =
     \<lparr>tn_Entries = sort_key te_Name (map fileEntry fs @ map (\<lambda>x. subtreeEntry (fst x) (snd x)) subs)\<rparr>"

fun emitNode :: "tree_marshal \<Rightarrow> tempDirNode \<Rightarrow> (string \<times> (string \<times> TreeNode) list) option" where
  "emitNode mar (TempDirNode fs ds) =
     (if list_all (\<lambda>x. emitNode mar (snd x) \<noteq> None) ds
      then let node = dirNode fs (map (\<lambda>x. (fst x, fst (the (emitNode mar (snd x))))) ds);
               below = concat (map (\<lambda>x. snd (the (emitNode mar (snd x)))) ds)
           in map_option (\<lambda>b. (sha256_hex b, below @ [(sha256_hex b, node)])) (mar node)
      else None)"

abbreviation rootHash :: "tree_marshal \<Rightarrow> tempDirNode \<Rightarrow> string option" where
  "rootHash mar n \<equiv> map_option fst (emitNode mar n)"

lemma gm_copy_append: "gm_copy d (xs @ ys) = gm_copy (gm_copy d xs) ys"
  by (induction d xs rule: gm_copy.induct) auto

lemma buildSubdirs_map:
  assumes "\<And>x trees. x \<in> set ds \<Longrightarrow> buildAndHash mar (snd x) trees =
    (case emitNode mar (snd x) of
       None \<Rightarrow> Inl (Errorf [Foreign ''proto''])
     | Some (h, out) \<Rightarrow> Inr (h, gm_copy trees out))"
  shows "buildSubdirs mar ds trees =
    (if list_all (\<lambda>x. emitNode mar (snd x) \<noteq> None) ds
     then Inr (map (\<lambda>x. subtreeEntry (fst x) (fst (the (emitNode mar (snd x))))) ds,
               gm_copy trees (concat (map (\<lambda>x. snd (the (emitNode mar (snd x)))) ds)))
     else Inl (Errorf [Foreign ''proto'']))"
  using assms
proof (induction ds arbitrary: trees)
  case Nil
  then show ?case by simp
next
  case (Cons x ds)
  obtain nm d where x: "x = (nm, d)" by (cases x)
  have IH: "buildSubdirs mar ds t =
    (if list_all (\<lambda>x. emitNode mar (snd x) \<noteq> None) ds
     then Inr (map (\<lambda>x. subtreeEntry (fst x) (fst (the (emitNode mar (snd x))))) ds,
               gm_copy t (concat (map (\<lambda>x. snd (the (emitNode mar (snd x)))) ds)))
     else Inl (Errorf [Foreign ''proto'']))" for t
    using Cons by simp
  have "buildAndHash mar d trees =
    (case emitNode mar d of None \<Rightarrow> Inl (Errorf [Foreign ''proto''])
     | Some (h, out) \<Rightarrow> Inr (h, gm_copy trees out))"
    using Cons.prems [of x] by (simp add: x)
  then show ?case
    by (cases "emitNode mar d") (auto simp: x IH gm_copy_append)
qed

lemma buildAndHash_emit:
  "buildAndHash mar n trees =
     (case emitNode mar n of
        None \<Rightarrow> Inl (Errorf [Foreign ''proto''])
      | Some (h, out) \<Rightarrow> Inr (h, gm_copy trees out))"
proof (induction n arbitrary: trees)
  case (TempDirNode fs ds)
  have sub: "buildSubdirs mar ds trees =
    (if list_all (\<lambda>x. emitNode mar (snd x) \<noteq> None) ds
     then Inr (map (\<lambda>x. subtreeEntry (fst x) (fst (the (emitNode mar (snd x))))) ds,
               gm_copy trees (concat (map (\<lambda>x. snd (the (emitNode mar (snd x)))) ds)))
     else Inl (Errorf [Foreign ''proto'']))"
    by (rule buildSubdirs_map) (metis TempDirNode snds.intros)
  show ?case
  proof (cases "list_all (\<lambda>x. emitNode mar (snd x) \<noteq> None) ds")
    case True
    then show ?thesis
      by (simp add: sub Let_def dirNode_def comp_def gm_copy_append split: option.splits)
  next
    case False
    then show ?thesis by (simp add: sub)
  qed
qed

text \<open>Every emitted node is stored under the hash of its own encoding.\<close>

lemma emitNode_hashed:
  "emitNode mar n = Some (h, out) \<Longrightarrow> (k, v) \<in> set out \<Longrightarrow>
     \<exists>b. mar v = Some b \<and> sha256_hex b = k"
proof (induction n arbitrary: h out k v)
  case (TempDirNode fs ds)
  then show ?case
    by (fastforce simp: Let_def list_all_iff split: if_splits intro: snds.intros)
qed

lemma emitNode_root:
  "emitNode mar (TempDirNode fs ds) = Some (h, out) \<Longrightarrow>
     \<exists>b. mar (dirNode fs (map (\<lambda>x. (fst x, fst (the (emitNode mar (snd x))))) ds)) = Some b \<and>
         h = sha256_hex b \<and>
         (h, dirNode fs (map (\<lambda>x. (fst x, fst (the (emitNode mar (snd x))))) ds)) \<in> set out"
  by (auto simp: Let_def split: if_splits)

lemma emitNode_sub:
  assumes "emitNode mar (TempDirNode fs ds) = Some (h, out)" and "(nm, d) \<in> set ds"
  shows "\<exists>h' out'. emitNode mar d = Some (h', out') \<and> set out' \<subseteq> set out"
  using assms by (fastforce simp: Let_def list_all_iff split: if_splits)

subsection \<open>The root hash depends on the contents only\<close>

definition same_dir :: "tempDirNode \<Rightarrow> tempDirNode \<Rightarrow> bool" where
  "same_dir m n \<longleftrightarrow> (\<forall>qs. fileAt m qs = fileAt n qs) \<and> (\<forall>qs. isDirAt m qs \<longleftrightarrow> isDirAt n qs)"

lemma same_dir_files:
  "same_dir (TempDirNode fs ds) (TempDirNode fs' ds') \<Longrightarrow> gm_get fs = gm_get fs'"
  by (rule ext) (auto simp: same_dir_def dest: spec [of _ "[_]"])

lemma same_dir_keys:
  "same_dir (TempDirNode fs ds) (TempDirNode fs' ds') \<Longrightarrow> gm_has ds p \<longleftrightarrow> gm_has ds' p"
  by (auto simp: same_dir_def dest!: spec [of _ "[p]"] split: option.splits)

lemma same_dir_sub:
  assumes "same_dir (TempDirNode fs ds) (TempDirNode fs' ds')"
    and "gm_get ds p = Some d" and "gm_get ds' p = Some d'"
  shows "same_dir d d'"
proof -
  have "fileAt d qs = fileAt d' qs" for qs
    using assms by (cases "qs = []") (auto simp: same_dir_def fileAt_Cons dest!: spec [of _ "p # qs"])
  moreover have "isDirAt d qs \<longleftrightarrow> isDirAt d' qs" for qs
    using assms by (auto simp: same_dir_def dest!: spec [of _ "p # qs"])
  ultimately show ?thesis by (simp add: same_dir_def)
qed

lemma distinct_dirEntries:
  assumes "dn_wf (TempDirNode fs ds)"
  shows "distinct (map te_Name (map fileEntry fs @
           map (\<lambda>x. subtreeEntry (fst x) (snd x)) (map (\<lambda>x. (fst x, f x)) ds)))"
proof -
  have names: "map te_Name (map fileEntry fs @
      map (\<lambda>x. subtreeEntry (fst x) (snd x)) (map (\<lambda>x. (fst x, f x)) ds)) = map fst fs @ map fst ds"
    by (auto simp: fileEntry_def subtreeEntry_def)
  show ?thesis
    unfolding names using assms by (auto simp: gm_wf_def list_all_iff map_of_eq_None_iff)
qed

text \<open>The subdirectories of a directory, by name and root hash.\<close>

definition subHashes :: "tree_marshal \<Rightarrow> (string \<times> tempDirNode) list \<Rightarrow> (string \<times> string option) set" where
  "subHashes mar ds = (\<lambda>x. (fst x, rootHash mar (snd x))) ` set ds"

lemma subHashes_all:
  "list_all (\<lambda>x. emitNode mar (snd x) \<noteq> None) ds \<longleftrightarrow> (\<forall>y \<in> subHashes mar ds. snd y \<noteq> None)"
  by (auto simp: subHashes_def list_all_iff)

lemma subHashes_image:
  "list_all (\<lambda>x. emitNode mar (snd x) \<noteq> None) ds \<Longrightarrow>
     set (map (\<lambda>x. (fst x, fst (the (emitNode mar (snd x))))) ds) =
       (\<lambda>y. (fst y, the (snd y))) ` subHashes mar ds"
  by (force simp: subHashes_def list_all_iff image_iff)

lemma rootHash_cong:
  assumes "set fs = set fs'" and "subHashes mar ds = subHashes mar ds'"
    and "dn_wf (TempDirNode fs ds)" and "dn_wf (TempDirNode fs' ds')"
  shows "rootHash mar (TempDirNode fs ds) = rootHash mar (TempDirNode fs' ds')"
proof (cases "list_all (\<lambda>x. emitNode mar (snd x) \<noteq> None) ds")
  case True
  then have True': "list_all (\<lambda>x. emitNode mar (snd x) \<noteq> None) ds'"
    using assms(2) by (simp only: subHashes_all)
  let ?g = "\<lambda>x. (fst x, fst (the (emitNode mar (snd x))))"
  have "set (map ?g ds) = set (map ?g ds')"
    unfolding subHashes_image [OF True] subHashes_image [OF True'] using assms(2) by simp
  with assms(1) have
    "set (map fileEntry fs @ map (\<lambda>x. subtreeEntry (fst x) (snd x)) (map ?g ds)) =
     set (map fileEntry fs' @ map (\<lambda>x. subtreeEntry (fst x) (snd x)) (map ?g ds'))"
    by (simp only: set_append set_map)
  from sort_key_unique [OF this distinct_dirEntries [OF assms(3)] distinct_dirEntries [OF assms(4)]]
  have "dirNode fs (map ?g ds) = dirNode fs' (map ?g ds')"
    by (simp add: dirNode_def)
  with True True' show ?thesis
    by (simp only: emitNode.simps if_True Let_def option.map_comp comp_def fst_conv)
next
  case False
  then have "\<not> list_all (\<lambda>x. emitNode mar (snd x) \<noteq> None) ds'"
    unfolding subHashes_all using assms(2) by simp
  with False show ?thesis by (simp only: emitNode.simps if_False)
qed

lemma subHashes_same_dir:
  assumes same: "same_dir (TempDirNode fs ds) (TempDirNode fs' ds')"
    and wf: "dn_wf (TempDirNode fs ds)" "dn_wf (TempDirNode fs' ds')"
    and IH: "\<And>p d d'. (p, d) \<in> set ds \<Longrightarrow> same_dir d d' \<Longrightarrow> dn_wf d \<Longrightarrow> dn_wf d' \<Longrightarrow>
               rootHash mar d = rootHash mar d'"
  shows "subHashes mar ds = subHashes mar ds'"
proof -
  have rel: "rootHash mar d = rootHash mar d'"
    if "gm_get ds p = Some d" "gm_get ds' p = Some d'" for p d d'
  proof -
    have "dn_wf d" "dn_wf d'"
      using wf that by (auto dest: list_all_gm_get)
    with that show ?thesis
      using IH [OF map_of_SomeD same_dir_sub [OF same that]] by simp
  qed
  have keys: "gm_has ds p \<longleftrightarrow> gm_has ds' p" for p
    by (rule same_dir_keys [OF same])
  have mem: "y \<in> subHashes mar xs \<longleftrightarrow>
      (\<exists>d. gm_get xs (fst y) = Some d \<and> snd y = rootHash mar d)" if "gm_wf xs" for xs y
    using that by (cases y) (force simp: subHashes_def gm_get_in_set)
  show ?thesis
  proof (rule set_eqI)
    fix y
    show "y \<in> subHashes mar ds \<longleftrightarrow> y \<in> subHashes mar ds'"
      using rel keys [of "fst y"] wf by (auto simp: mem)
  qed
qed

lemma rootHash_same_dir:
  "same_dir m n \<Longrightarrow> dn_wf m \<Longrightarrow> dn_wf n \<Longrightarrow> rootHash mar m = rootHash mar n"
proof (induction m arbitrary: n)
  case (TempDirNode fs ds)
  obtain fs' ds' where n: "n = TempDirNode fs' ds'" by (cases n)
  note same = TempDirNode.prems(1) [unfolded n]
  have "gm_wf fs" "gm_wf fs'"
    using TempDirNode.prems(2,3) by (simp_all add: n)
  then have "set fs = set fs'"
    using same_dir_files [OF same] gm_same_set [of fs fs'] by (simp add: gm_same_def)
  moreover have "subHashes mar ds = subHashes mar ds'"
    by (rule subHashes_same_dir [OF same TempDirNode.prems(2) TempDirNode.prems(3) [unfolded n]])
      (metis TempDirNode.IH snds.intros snd_conv)
  ultimately show ?case
    unfolding n using TempDirNode.prems(2,3) n by (intro rootHash_cong) simp_all
qed

subsection \<open>Walking what was built\<close>

lemma Join_eq_Nil_iff: "list_all valid_name ps \<Longrightarrow> Join ps sep = [] \<longleftrightarrow> ps = []"
  by (cases "(ps, sep)" rule: Join.cases) (auto dest: valid_name_nonempty)

lemma joinPath_Join:
  "list_all valid_name ps \<Longrightarrow> joinPath (Join ps ''/'') name = Join (ps @ [name]) ''/''"
  by (cases "ps = []") (auto simp: joinPath_def Join_eq_Nil_iff Join_append)

lemma Split_Join_valid:
  "ps \<noteq> [] \<Longrightarrow> list_all valid_name ps \<Longrightarrow> Split CHR ''/'' (Join ps ''/'') = ps"
  by (intro Split_Join) (auto simp: list_all_iff dest: valid_name_slash_free)

text \<open>The files below a directory at path \<open>pre\<close>, as the walk reports them.\<close>

definition pathMap :: "string list \<Rightarrow> tempDirNode \<Rightarrow> string \<Rightarrow> string option" where
  "pathMap pre n p =
     (let qs = Split CHR ''/'' p
      in if take (length pre) qs = pre then map_option leafKey (fileAt n (drop (length pre) qs))
         else None)"

fun emptyAt :: "tempDirNode \<Rightarrow> string list \<Rightarrow> bool" where
  "emptyAt (TempDirNode fs ds) [] = (fs = [] \<and> ds = [])"
| "emptyAt (TempDirNode fs ds) (p # ps) =
     (case gm_get ds p of None \<Rightarrow> False | Some d \<Rightarrow> emptyAt d ps)"

fun dn_depth :: "tempDirNode \<Rightarrow> nat" where
  "dn_depth (TempDirNode fs ds) = Suc (foldr (\<lambda>x m. max (dn_depth (snd x)) m) ds 0)"

lemma foldr_max_ge: "x \<in> set xs \<Longrightarrow> f x \<le> foldr (\<lambda>x m. max (f x) (m :: nat)) xs 0"
  by (induction xs) auto

lemma dn_depth_sub: "(p, d) \<in> set ds \<Longrightarrow> dn_depth d < dn_depth (TempDirNode fs ds)"
  using foldr_max_ge [of "(p, d)" ds "\<lambda>x. dn_depth (snd x)"] by simp

text \<open>The part of \<open>pathMap\<close> below the names in \<open>N\<close>.\<close>

definition pathMapIn :: "string set \<Rightarrow> string list \<Rightarrow> tempDirNode \<Rightarrow> string \<Rightarrow> string option" where
  "pathMapIn N pre n p =
     (let qs = Split CHR ''/'' p
      in if length pre < length qs \<and> qs ! length pre \<in> N then pathMap pre n p else None)"

lemma pathMap_split:
  "pathMap pre n p = Some k \<longleftrightarrow>
     (\<exists>q qs leaf. Split CHR ''/'' p = pre @ q # qs \<and> fileAt n (q # qs) = Some leaf \<and> k = leafKey leaf)"
proof
  assume "pathMap pre n p = Some k"
  then obtain leaf where pre: "take (length pre) (Split CHR ''/'' p) = pre"
    and leaf: "fileAt n (drop (length pre) (Split CHR ''/'' p)) = Some leaf" "k = leafKey leaf"
    by (auto simp: pathMap_def Let_def split: if_splits)
  then obtain q qs where "drop (length pre) (Split CHR ''/'' p) = q # qs"
    by (cases "drop (length pre) (Split CHR ''/'' p)") auto
  with pre leaf show "\<exists>q qs leaf. Split CHR ''/'' p = pre @ q # qs \<and>
      fileAt n (q # qs) = Some leaf \<and> k = leafKey leaf"
    by (metis append_take_drop_id)
qed (auto simp: pathMap_def)

lemma pathMapIn_split:
  "pathMapIn N pre n p = Some k \<longleftrightarrow>
     (\<exists>q qs leaf. Split CHR ''/'' p = pre @ q # qs \<and> q \<in> N \<and> fileAt n (q # qs) = Some leaf \<and>
        k = leafKey leaf)"
  by (auto simp: pathMapIn_def Let_def pathMap_split split: if_splits)

lemma map_eq_Some: "(\<And>p k. f p = Some k \<longleftrightarrow> g p = Some k) \<Longrightarrow> f = g"
  by (metis ext not_Some_eq)

lemma pathMapIn_file:
  assumes "gm_get fs nm = Some leaf" and "gm_get ds nm = None" and "valid_name nm"
    and "list_all valid_name pre" and "nm \<notin> N"
  shows "(m(Join (pre @ [nm]) ''/'' \<mapsto> leafKey leaf)) ++ pathMapIn N pre (TempDirNode fs ds) =
    m ++ pathMapIn (insert nm N) pre (TempDirNode fs ds)"
proof (rule map_eq_Some)
  fix p k
  have "Split CHR ''/'' (Join (pre @ [nm]) ''/'') = pre @ [nm]"
    using assms(3,4) by (intro Split_Join_valid) auto
  then have here: "Split CHR ''/'' p = pre @ [nm] \<longleftrightarrow> p = Join (pre @ [nm]) ''/''"
    by (metis Split_inj)
  have deeper: "fileAt (TempDirNode fs ds) (nm # qs) = (if qs = [] then Some leaf else None)" for qs
    using assms(1,2) by (cases qs) auto
  have ins: "pathMapIn (insert nm N) pre (TempDirNode fs ds) p =
      (if p = Join (pre @ [nm]) ''/'' then Some (leafKey leaf)
       else pathMapIn N pre (TempDirNode fs ds) p)"
  proof (cases "p = Join (pre @ [nm]) ''/''")
    case True
    with here have "Split CHR ''/'' p = pre @ [nm]" by simp
    then have "pathMapIn (insert nm N) pre (TempDirNode fs ds) p = Some (leafKey leaf)"
      unfolding pathMapIn_split using deeper [of "[]"] by simp
    with True show ?thesis by simp
  next
    case False
    then have "pathMapIn (insert nm N) pre (TempDirNode fs ds) p = Some k' \<longleftrightarrow>
        pathMapIn N pre (TempDirNode fs ds) p = Some k'" for k'
      using here deeper by (auto simp: pathMapIn_split split: if_splits)
    with False show ?thesis by (metis not_Some_eq)
  qed
  have "pathMapIn N pre (TempDirNode fs ds) (Join (pre @ [nm]) ''/'') = None"
    using assms(3,4,5) Split_Join_valid [of "pre @ [nm]"]
    by (auto simp: pathMapIn_def Let_def)
  then show "((m(Join (pre @ [nm]) ''/'' \<mapsto> leafKey leaf)) ++ pathMapIn N pre (TempDirNode fs ds)) p = Some k \<longleftrightarrow>
    (m ++ pathMapIn (insert nm N) pre (TempDirNode fs ds)) p = Some k"
    by (auto simp: map_add_def ins split: option.splits if_splits)
qed

lemma pathMapIn_subdir:
  assumes "gm_get ds nm = Some d" and "gm_get fs nm = None" and "nm \<notin> N"
  shows "(m ++ pathMap (pre @ [nm]) d) ++ pathMapIn N pre (TempDirNode fs ds) =
    m ++ pathMapIn (insert nm N) pre (TempDirNode fs ds)"
proof (rule map_eq_Some)
  fix p k
  have below: "fileAt (TempDirNode fs ds) (nm # qs) = fileAt d qs" for qs
    using assms(1,2) by (cases qs) auto
  have split: "pathMapIn (insert nm N) pre (TempDirNode fs ds) p = Some k' \<longleftrightarrow>
      pathMapIn N pre (TempDirNode fs ds) p = Some k' \<or> pathMap (pre @ [nm]) d p = Some k'" for k'
  proof -
    have "(\<exists>qs leaf. Split CHR ''/'' p = pre @ nm # qs \<and> fileAt d qs = Some leaf \<and> k' = leafKey leaf) \<longleftrightarrow>
        pathMap (pre @ [nm]) d p = Some k'"
      by (auto simp: pathMap_split) (metis fileAt.simps(1) neq_Nil_conv not_None_eq)
    then show ?thesis
      by (auto simp: pathMapIn_split below)
  qed
  have ins: "pathMapIn (insert nm N) pre (TempDirNode fs ds) p =
      (case pathMapIn N pre (TempDirNode fs ds) p of
         None \<Rightarrow> pathMap (pre @ [nm]) d p | Some k' \<Rightarrow> Some k')"
  proof (cases "pathMapIn N pre (TempDirNode fs ds) p")
    case None
    then have "pathMapIn (insert nm N) pre (TempDirNode fs ds) p = Some k' \<longleftrightarrow>
        pathMap (pre @ [nm]) d p = Some k'" for k'
      using split by simp
    then show ?thesis unfolding None option.case by (metis not_Some_eq)
  next
    case (Some k')
    then show ?thesis using split [of k'] by simp
  qed
  show "((m ++ pathMap (pre @ [nm]) d) ++ pathMapIn N pre (TempDirNode fs ds)) p = Some k \<longleftrightarrow>
    (m ++ pathMapIn (insert nm N) pre (TempDirNode fs ds)) p = Some k"
    by (simp add: map_add_def ins split: option.splits)
qed

text \<open>One entry of the loop over a node's entries, for the two kinds of valid entry.\<close>

lemma walkEntries_file:
  "valid_name nm \<Longrightarrow>
   walkEntries mar k (fileEntry (nm, leaf) # es) px trees skip st =
     walkEntries mar k es px trees skip (gm_put (joinPath px nm) (leafKey leaf) (fst st), snd st)"
  by (simp add: fileEntry_def valid_name_def Let_def)

lemma walkEntries_subtree:
  "valid_name nm \<Longrightarrow> h \<noteq> [] \<Longrightarrow> walkTree mar k h (joinPath px nm) trees skip st = Some (Inr st') \<Longrightarrow>
   walkEntries mar k (subtreeEntry nm h # es) px trees skip st =
     walkEntries mar k es px trees skip st'"
  by (simp add: subtreeEntry_def valid_name_def Let_def)

text \<open>What a walk of directory \<open>n\<close> at \<open>pre\<close> does to the accumulators.\<close>

definition walk_ok :: "string list \<Rightarrow> tempDirNode \<Rightarrow> walk_state \<Rightarrow> walk_state \<Rightarrow> bool" where
  "walk_ok pre n st st' \<longleftrightarrow>
     gm_get (fst st') = gm_get (fst st) ++ pathMap pre n \<and>
     (\<exists>dr. snd st' = snd st @ dr \<and>
           set dr = {Join (pre @ qs) ''/'' | qs. emptyAt n qs \<and> pre @ qs \<noteq> []})"

definition walk_ok_in :: "string set \<Rightarrow> string list \<Rightarrow> tempDirNode \<Rightarrow> walk_state \<Rightarrow> walk_state \<Rightarrow> bool" where
  "walk_ok_in N pre n st st' \<longleftrightarrow>
     gm_get (fst st') = gm_get (fst st) ++ pathMapIn N pre n \<and>
     (\<exists>dr. snd st' = snd st @ dr \<and>
           set dr = {Join (pre @ q # qs) ''/'' | q qs. q \<in> N \<and> emptyAt n (q # qs)})"

lemma walk_ok_in_empty: "walk_ok_in {} pre n st st"
proof -
  have "pathMapIn {} pre n = Map.empty"
    by (auto simp: pathMapIn_def Let_def)
  then show ?thesis by (simp add: walk_ok_in_def)
qed

lemma walk_ok_in_file:
  assumes "gm_get fs nm = Some leaf" and "gm_get ds nm = None" and "valid_name nm"
    and "list_all valid_name pre" and "nm \<notin> N"
    and "walk_ok_in N pre (TempDirNode fs ds)
           (gm_put (joinPath (Join pre ''/'') nm) (leafKey leaf) (fst st), snd st) st'"
  shows "walk_ok_in (insert nm N) pre (TempDirNode fs ds) st st'"
proof -
  have "{Join (pre @ q # qs) ''/'' | q qs. q \<in> insert nm N \<and> emptyAt (TempDirNode fs ds) (q # qs)} =
      {Join (pre @ q # qs) ''/'' | q qs. q \<in> N \<and> emptyAt (TempDirNode fs ds) (q # qs)}"
  proof -
    have "\<not> emptyAt (TempDirNode fs ds) (nm # qs)" for qs
      using assms(2) by simp
    then show ?thesis by (auto simp del: emptyAt.simps)
  qed
  with assms(6) show ?thesis
    unfolding walk_ok_in_def joinPath_Join [OF assms(4)]
    by (simp only: fst_conv snd_conv gm_get_put pathMapIn_file [OF assms(1-5)])
qed

lemma walk_ok_in_subdir:
  assumes "gm_get ds nm = Some d" and "gm_get fs nm = None" and "nm \<notin> N"
    and "walk_ok (pre @ [nm]) d st st1" and "walk_ok_in N pre (TempDirNode fs ds) st1 st'"
  shows "walk_ok_in (insert nm N) pre (TempDirNode fs ds) st st'"
proof -
  obtain dr1 where dr1: "snd st1 = snd st @ dr1"
    "set dr1 = {Join ((pre @ [nm]) @ qs) ''/'' | qs. emptyAt d qs \<and> (pre @ [nm]) @ qs \<noteq> []}"
    using assms(4) by (auto simp: walk_ok_def)
  obtain dr2 where dr2: "snd st' = snd st1 @ dr2"
    "set dr2 = {Join (pre @ q # qs) ''/'' | q qs. q \<in> N \<and> emptyAt (TempDirNode fs ds) (q # qs)}"
    using assms(5) by (auto simp: walk_ok_in_def)
  have "set (dr1 @ dr2) =
      {Join (pre @ q # qs) ''/'' | q qs. q \<in> insert nm N \<and> emptyAt (TempDirNode fs ds) (q # qs)}"
  proof -
    have "emptyAt (TempDirNode fs ds) (nm # qs) = emptyAt d qs" for qs
      using assms(1) by simp
    then show ?thesis
      unfolding set_append dr1 dr2 by (auto simp del: emptyAt.simps)
  qed
  moreover have "snd st' = snd st @ (dr1 @ dr2)"
    by (simp add: dr1 dr2)
  moreover have "gm_get (fst st') = gm_get (fst st) ++ pathMapIn (insert nm N) pre (TempDirNode fs ds)"
  proof -
    have "gm_get (fst st') = (gm_get (fst st) ++ pathMap (pre @ [nm]) d) ++ pathMapIn N pre (TempDirNode fs ds)"
      using assms(4,5) by (simp only: walk_ok_def walk_ok_in_def)
    then show ?thesis by (simp only: pathMapIn_subdir [OF assms(1-3)])
  qed
  ultimately show ?thesis
    unfolding walk_ok_in_def by blast
qed

lemma walkEntries_emitted:
  assumes wf: "dn_wf (TempDirNode fs ds)" and names: "dn_names_ok (TempDirNode fs ds)"
    and pre: "list_all valid_name pre"
    and sub: "\<And>p d st. (p, d) \<in> set ds \<Longrightarrow> hash d \<noteq> [] \<and>
      (\<exists>st'. walkTree mar k (hash d) (Join (pre @ [p]) ''/'') trees skip st = Some (Inr st') \<and>
             walk_ok (pre @ [p]) d st st')"
    and "set es \<subseteq> fileEntry ` set fs \<union> (\<lambda>x. subtreeEntry (fst x) (hash (snd x))) ` set ds"
    and "distinct (map te_Name es)"
  shows "\<exists>st'. walkEntries mar k es (Join pre ''/'') trees skip st = Some (Inr st') \<and>
    walk_ok_in (te_Name ` set es) pre (TempDirNode fs ds) st st'"
  using assms(5,6)
proof (induction es arbitrary: st)
  case Nil
  then show ?case by (simp add: walk_ok_in_empty)
next
  case (Cons e es)
  have fsds: "gm_wf fs" "gm_wf ds" "\<And>p. gm_has fs p \<Longrightarrow> gm_get ds p = None"
    using wf by (auto dest: list_all_gm_get)
  have IH: "\<exists>st'. walkEntries mar k es (Join pre ''/'') trees skip st1 = Some (Inr st') \<and>
    walk_ok_in (te_Name ` set es) pre (TempDirNode fs ds) st1 st'" for st1
    using Cons by simp
  from Cons.prems(1) have "(\<exists>nm leaf. e = fileEntry (nm, leaf) \<and> (nm, leaf) \<in> set fs) \<or>
      (\<exists>nm d. e = subtreeEntry nm (hash d) \<and> (nm, d) \<in> set ds)"
    by auto
  then show ?case
  proof (elim disjE exE conjE)
    fix nm leaf assume ent: "e = fileEntry (nm, leaf)" "(nm, leaf) \<in> set fs"
    have nm: "te_Name e = nm" by (simp add: ent fileEntry_def)
    then have new: "nm \<notin> te_Name ` set es" using Cons.prems(2) by auto
    have get: "gm_get fs nm = Some leaf" using ent fsds by (simp add: gm_get_in_set)
    have valid: "valid_name nm" using names ent by (auto simp: list_all_iff)
    obtain st' where st': "walkEntries mar k es (Join pre ''/'') trees skip
        (gm_put (joinPath (Join pre ''/'') nm) (leafKey leaf) (fst st), snd st) = Some (Inr st')"
      "walk_ok_in (te_Name ` set es) pre (TempDirNode fs ds)
        (gm_put (joinPath (Join pre ''/'') nm) (leafKey leaf) (fst st), snd st) st'"
      using IH by blast
    with walk_ok_in_file [OF get fsds(3) valid pre new st'(2)] get show ?thesis
      unfolding ent(1) walkEntries_file [OF valid] by (auto simp: fileEntry_def)
  next
    fix nm d assume dir: "e = subtreeEntry nm (hash d)" "(nm, d) \<in> set ds"
    have nm: "te_Name e = nm" by (simp add: dir subtreeEntry_def)
    then have new: "nm \<notin> te_Name ` set es" using Cons.prems(2) by auto
    have get: "gm_get ds nm = Some d" using dir fsds by (simp add: gm_get_in_set)
    then have nofile: "gm_get fs nm = None" using fsds(3) [of nm] by (cases "gm_get fs nm") auto
    have valid: "valid_name nm" using names dir by (auto simp: list_all_iff)
    obtain st1 where st1: "walkTree mar k (hash d) (joinPath (Join pre ''/'') nm) trees skip st = Some (Inr st1)"
      "walk_ok (pre @ [nm]) d st st1" and "hash d \<noteq> []"
      using sub [OF dir(2)] unfolding joinPath_Join [OF pre] by blast
    obtain st' where st': "walkEntries mar k es (Join pre ''/'') trees skip st1 = Some (Inr st')"
      "walk_ok_in (te_Name ` set es) pre (TempDirNode fs ds) st1 st'"
      using IH by blast
    with walk_ok_in_subdir [OF get nofile new st1(2) st'(2)] show ?thesis
      unfolding dir(1) walkEntries_subtree [OF valid \<open>hash d \<noteq> []\<close> st1(1)]
      by (auto simp: subtreeEntry_def)
  qed
qed

lemma walk_ok_in_all:
  assumes "walk_ok_in (fst ` set fs \<union> fst ` set ds) pre (TempDirNode fs ds) st st'"
    and "fs \<noteq> [] \<or> ds \<noteq> [] \<or> pre = []"
  shows "walk_ok pre (TempDirNode fs ds) st st'"
proof -
  let ?N = "fst ` set fs \<union> fst ` set ds"
  have file_name: "q \<in> ?N" if "fileAt (TempDirNode fs ds) (q # qs) = Some leaf" for q qs leaf
    using that by (cases qs) (force dest: map_of_SomeD split: option.splits)+
  have dir_name: "q \<in> ?N" if "emptyAt (TempDirNode fs ds) (q # qs)" for q qs
    using that by (auto split: option.splits dest!: map_of_SomeD) force
  have "pathMapIn ?N pre (TempDirNode fs ds) = pathMap pre (TempDirNode fs ds)"
    by (rule map_eq_Some) (use file_name in \<open>auto simp: pathMapIn_split pathMap_split\<close>)
  moreover have "{Join (pre @ q # qs) ''/'' | q qs. q \<in> ?N \<and> emptyAt (TempDirNode fs ds) (q # qs)} =
      {Join (pre @ qs) ''/'' | qs. emptyAt (TempDirNode fs ds) qs \<and> pre @ qs \<noteq> []}" (is "?A = ?B")
  proof (intro equalityI subsetI)
    fix x assume "x \<in> ?B"
    then obtain qs where qs: "x = Join (pre @ qs) ''/''" "emptyAt (TempDirNode fs ds) qs" "pre @ qs \<noteq> []"
      by blast
    show "x \<in> ?A"
    proof (cases qs)
      case Nil
      then show ?thesis using qs assms(2) by simp
    next
      case (Cons q qs')
      then show ?thesis
        using qs(1,2) dir_name [of q qs'] by (auto simp del: emptyAt.simps)
    qed
  next
    fix x assume "x \<in> ?A"
    then obtain q qs where "x = Join (pre @ q # qs) ''/''" "emptyAt (TempDirNode fs ds) (q # qs)"
      by blast
    then show "x \<in> ?B" by blast
  qed
  ultimately show ?thesis
    using assms(1) by (simp only: walk_ok_in_def walk_ok_def)
qed

lemma walkTree_emitted:
  assumes "emitNode mar n = Some (h, out)" and "dn_wf n" and "dn_names_ok n"
    and "\<And>k v. (k, v) \<in> set out \<Longrightarrow> gm_get trees k = Some v"
    and "dn_depth n \<le> fuel" and "list_all valid_name pre"
  shows "\<exists>st'. walkTree mar fuel h (Join pre ''/'') trees skip st = Some (Inr st') \<and> walk_ok pre n st st'"
  using assms
proof (induction n arbitrary: fuel h out pre st)
  case (TempDirNode fs ds)
  let ?g = "\<lambda>d. fst (the (emitNode mar d))"
  define node where "node = dirNode fs (map (\<lambda>x. (fst x, ?g (snd x))) ds)"
  obtain b where b: "mar node = Some b" "h = sha256_hex b" "(h, node) \<in> set out"
    using emitNode_root [OF TempDirNode.prems(1)] by (auto simp: node_def)
  have found: "gm_get trees h = Some node" using TempDirNode.prems(4) b by simp
  obtain k where k: "fuel = Suc k" using TempDirNode.prems(5) by (cases fuel) auto
  have entries: "set (tn_Entries node) =
      fileEntry ` set fs \<union> (\<lambda>x. subtreeEntry (fst x) (?g (snd x))) ` set ds"
    by (auto simp: node_def dirNode_def)
  have distinct: "distinct (map te_Name (tn_Entries node))" and sorted: "entries_sorted (tn_Entries node)"
    using sort_key_strict [OF distinct_dirEntries [OF TempDirNode.prems(2)], of "\<lambda>x. ?g (snd x)"]
    by (auto simp: node_def dirNode_def entries_sorted_iff strict_sorted_iff)
  have names: "te_Name ` set (tn_Entries node) = fst ` set fs \<union> fst ` set ds"
    unfolding entries by (force simp: fileEntry_def subtreeEntry_def image_iff)
  have step: "walkTree mar fuel h (Join pre ''/'') trees skip st =
      (if tn_Entries node = [] \<and> pre \<noteq> [] then Some (Inr (fst st, snd st @ [Join pre ''/'']))
       else walkEntries mar k (tn_Entries node) (Join pre ''/'') trees skip st)"
    using TempDirNode.prems(6)
    by (simp add: k found [unfolded b(2)] b(1) b(2) sorted Join_eq_Nil_iff del: walkEntries.simps)
  have sub: "?g d \<noteq> [] \<and> (\<exists>st'. walkTree mar k (?g d) (Join (pre @ [p]) ''/'') trees skip st1 =
      Some (Inr st') \<and> walk_ok (pre @ [p]) d st1 st')" if mem: "(p, d) \<in> set ds" for p d st1
  proof -
    obtain h' out' where e: "emitNode mar d = Some (h', out')" "set out' \<subseteq> set out"
      using emitNode_sub [OF TempDirNode.prems(1) mem] by blast
    have d: "dn_wf d" "dn_names_ok d" "valid_name p" "dn_depth d \<le> k"
      using TempDirNode.prems(2,3,5) mem dn_depth_sub [OF mem, of fs]
      by (auto simp: list_all_iff k)
    have "h' \<noteq> []"
    proof (cases d)
      case (TempDirNode fs' ds')
      then show ?thesis using emitNode_root [of mar fs' ds' h' out'] e(1) by auto
    qed
    moreover have "\<exists>st'. walkTree mar k h' (Join (pre @ [p]) ''/'') trees skip st1 = Some (Inr st') \<and>
        walk_ok (pre @ [p]) d st1 st'"
    proof (rule TempDirNode.IH [OF mem _ e(1) d(1,2)])
      show "d \<in> Basic_BNFs.snds (p, d)" by (simp add: snds.intros)
    qed (use e(2) d(3,4) TempDirNode.prems(4,6) in auto)
    ultimately show ?thesis by (simp add: e(1))
  qed
  show ?case
  proof (cases "tn_Entries node = [] \<and> pre \<noteq> []")
    case True
    then have "fs = [] \<and> ds = []" using entries by auto
    moreover have "pathMap pre (TempDirNode [] []) = Map.empty"
      by (rule ext) (simp add: pathMap_def Let_def fileAt_new [unfolded newTempDirNode_def])
    moreover have "emptyAt (TempDirNode [] []) qs \<longleftrightarrow> qs = []" for qs by (cases qs) auto
    ultimately show ?thesis
      using True by (auto simp: step walk_ok_def)
  next
    case False
    then have "fs \<noteq> [] \<or> ds \<noteq> [] \<or> pre = []" using entries by auto
    then have full: "walk_ok pre (TempDirNode fs ds) st st'"
      if "walk_ok_in (te_Name ` set (tn_Entries node)) pre (TempDirNode fs ds) st st'" for st'
      using that walk_ok_in_all by (simp only: names)
    obtain st' where "walkEntries mar k (tn_Entries node) (Join pre ''/'') trees skip st = Some (Inr st')"
      "walk_ok_in (te_Name ` set (tn_Entries node)) pre (TempDirNode fs ds) st st'"
      using walkEntries_emitted [OF TempDirNode.prems(2,3,6) sub equalityD1 [OF entries] distinct]
      by blast
    with full show ?thesis
      unfolding step if_not_P [OF False] by blast
  qed
qed

subsection \<open>Building and walking are inverse\<close>

lemma emptyAt_iff:
  "emptyAt n qs \<longleftrightarrow> isDirAt n qs \<and> (\<forall>q. fileAt n (qs @ [q]) = None \<and> \<not> isDirAt n (qs @ [q]))"
proof (induction n qs rule: emptyAt.induct)
  case (1 fs ds)
  have "(\<forall>q. gm_get fs q = None) \<longleftrightarrow> fs = []"
    by (auto simp: map_of_eq_None_iff)
  moreover have "(\<forall>q. gm_get ds q = None) \<longleftrightarrow> ds = []"
    by (auto simp: map_of_eq_None_iff)
  ultimately show ?case by (auto split: option.splits)
next
  case (2 fs ds p ps)
  then show ?case by (auto simp: fileAt_Cons split: option.splits)
qed

text \<open>The directories of a backup with nothing below them.\<close>

definition emptyDirs :: "string list \<Rightarrow> (string \<times> FileLeaf) list \<Rightarrow> string set" where
  "emptyDirs dirs files =
     {d \<in> set dirs. d \<noteq> [] \<and>
        list_all (\<lambda>d'. \<not> strict_prefix (Split CHR ''/'' d) (Split CHR ''/'' d')) dirs \<and>
        list_all (\<lambda>x. \<not> strict_prefix (Split CHR ''/'' d) (Split CHR ''/'' (fst x))) files}"

lemma strict_prefix_snocI: "strict_prefix qs ps \<Longrightarrow> \<exists>q. prefix (qs @ [q]) ps"
  by (metis append.assoc append_Cons append_Nil prefixI strict_prefixE')

lemma strict_prefix_single: "strict_prefix qs [x] \<longleftrightarrow> qs = []"
  by (cases qs) (auto simp: strict_prefix_def)

lemma buildTree_emptyAt:
  assumes "buildTree dirs files = Inr n" and "gm_wf files" and "qs \<noteq> []"
  shows "emptyAt n qs \<longleftrightarrow> (\<exists>d \<in> emptyDirs dirs files. qs = Split CHR ''/'' d)"
proof
  assume e: "emptyAt n qs"
  then have "isDirAt n qs" and nof: "\<And>q. fileAt n (qs @ [q]) = None" and nod: "\<And>q. \<not> isDirAt n (qs @ [q])"
    by (auto simp: emptyAt_iff)
  have notdir: "\<not> strict_prefix qs (Split CHR ''/'' d)" if "d \<in> set dirs" for d
  proof
    assume sp: "strict_prefix qs (Split CHR ''/'' d)"
    then have "d \<noteq> []" using assms(3) by (auto simp: strict_prefix_single)
    with strict_prefix_snocI [OF sp] that nod show False
      using buildTree_isDirAt [OF assms(1)] by blast
  qed
  have notfile: "\<not> strict_prefix qs (Split CHR ''/'' (fst x))" if "x \<in> set files" for x
  proof
    assume "strict_prefix qs (Split CHR ''/'' (fst x))"
    then obtain q where q: "prefix (qs @ [q]) (Split CHR ''/'' (fst x))"
      using strict_prefix_snocI by blast
    have "fileAt n (Split CHR ''/'' (fst x)) \<noteq> None"
      using buildTree_fileAt [OF assms(1,2)] that compFiles_Split [of files "fst x"] assms(2)
      by (metis gm_get_in_set option.distinct(1) prod.collapse)
    with nof [of q] have "strict_prefix (qs @ [q]) (Split CHR ''/'' (fst x))"
      using q by (auto simp: strict_prefix_def)
    with nod [of q] that show False
      using buildTree_isDirAt [OF assms(1)] by blast
  qed
  from \<open>isDirAt n qs\<close> assms(3) notfile obtain d
    where "d \<in> set dirs" "d \<noteq> []" "prefix qs (Split CHR ''/'' d)"
    using buildTree_isDirAt [OF assms(1)] by blast
  with notdir have "qs = Split CHR ''/'' d" by (auto simp: strict_prefix_def)
  with \<open>d \<in> set dirs\<close> \<open>d \<noteq> []\<close> notdir notfile show "\<exists>d \<in> emptyDirs dirs files. qs = Split CHR ''/'' d"
    by (auto simp: emptyDirs_def list_all_iff)
next
  assume "\<exists>d \<in> emptyDirs dirs files. qs = Split CHR ''/'' d"
  then obtain d where d: "d \<in> set dirs" "d \<noteq> []" "qs = Split CHR ''/'' d"
    and nod: "\<And>d'. d' \<in> set dirs \<Longrightarrow> \<not> strict_prefix qs (Split CHR ''/'' d')"
    and nof: "\<And>x. x \<in> set files \<Longrightarrow> \<not> strict_prefix qs (Split CHR ''/'' (fst x))"
    by (auto simp: emptyDirs_def list_all_iff)
  have ext: "strict_prefix qs ps" if "prefix (qs @ [q]) ps" for q ps
    using that by (auto simp: strict_prefix_def prefix_def)
  have "fileAt n (qs @ [q]) = None" for q
    using nof ext buildTree_fileAt [OF assms(1,2), of "qs @ [q]"]
    by (auto simp: compFiles_Some_iff dest!: map_of_SomeD) (metis compFiles_Some_iff fst_conv map_of_SomeD not_None_eq prefix_order.refl)
  moreover have "\<not> isDirAt n (qs @ [q])" for q
    using nod nof ext unfolding buildTree_isDirAt [OF assms(1)]
    by (metis append_is_Nil_conv list.distinct(1) prefix_order.less_imp_le)
  moreover have "isDirAt n qs"
    unfolding buildTree_isDirAt [OF assms(1)] using d by blast
  ultimately show "emptyAt n qs" by (simp add: emptyAt_iff)
qed

text \<open>
  Distinct nodes among those in \<open>V\<close> have distinct hashes. No function to 64 hexadecimal
  digits has this on all nodes, so it is only ever asked of the nodes of one backup.
\<close>

definition no_collision :: "tree_marshal \<Rightarrow> TreeNode set \<Rightarrow> bool" where
  "no_collision mar V \<longleftrightarrow>
     (\<forall>v \<in> V. \<forall>w \<in> V. map_option sha256_hex (mar v) = map_option sha256_hex (mar w) \<longrightarrow> v = w)"

definition emittedNodes :: "tree_marshal \<Rightarrow> tempDirNode \<Rightarrow> TreeNode set" where
  "emittedNodes mar n = (case emitNode mar n of None \<Rightarrow> {} | Some (h, out) \<Rightarrow> snd ` set out)"

lemma gm_get_copy_functional:
  assumes "\<And>k v w. (k, v) \<in> set s \<Longrightarrow> (k, w) \<in> set s \<Longrightarrow> v = w" and "(k, v) \<in> set s"
  shows "gm_get (gm_copy d s) k = Some v"
  using assms
proof (induction d s rule: gm_copy.induct)
  case (2 d k' v' s)
  show ?case
  proof (cases "(k, v) \<in> set s")
    case True
    then show ?thesis using "2.IH" "2.prems"(1) by (auto intro: "2.IH")
  next
    case False
    then have kv: "k = k'" "v = v'" using "2.prems"(2) by auto
    then have "k \<notin> fst ` set s"
      using "2.prems"(1) [of k v] False by fastforce
    then have "gm_get (gm_copy e s) k = gm_get e k" for e
      by (induction e s rule: gm_copy.induct) (auto simp: gm_get_put)
    then show ?thesis by (simp add: kv gm_get_put)
  qed
qed simp

lemma emitted_present:
  assumes "buildAndHash mar n trees = Inr (h, trees')" and "no_collision mar (emittedNodes mar n)"
  obtains out where "emitNode mar n = Some (h, out)"
    and "\<And>k v. (k, v) \<in> set out \<Longrightarrow> gm_get trees' k = Some v"
proof -
  obtain out where out: "emitNode mar n = Some (h, out)" "trees' = gm_copy trees out"
    using assms(1) by (auto simp: buildAndHash_emit split: option.splits)
  have "v = w" if "(k, v) \<in> set out" "(k, w) \<in> set out" for k v w
  proof -
    have "map_option sha256_hex (mar v) = map_option sha256_hex (mar w)"
      using emitNode_hashed [OF out(1) that(1)] emitNode_hashed [OF out(1) that(2)] by auto
    moreover have "v \<in> emittedNodes mar n" "w \<in> emittedNodes mar n"
      using that by (force simp: emittedNodes_def out(1))+
    ultimately show ?thesis using assms(2) by (auto simp: no_collision_def)
  qed
  then have "gm_get trees' k = Some v" if "(k, v) \<in> set out" for k v
    using gm_get_copy_functional [of out k v trees] that out(2) by blast
  with out(1) show ?thesis using that by blast
qed

lemma pathMap_root: "pathMap [] n p = map_option leafKey (fileAt n (Split CHR ''/'' p))"
  by (simp add: pathMap_def)

lemma build_walk_in:
  assumes "buildTree dirs files = Inr n" and "gm_wf files"
    and "\<And>d. d \<in> set dirs \<Longrightarrow> d \<noteq> [] \<Longrightarrow> list_all valid_name (Split CHR ''/'' d)"
    and "list_all (\<lambda>x. list_all valid_name (Split CHR ''/'' (fst x))) files"
    and "buildAndHash mar n trees = Inr (h, trees')" and "no_collision mar (emittedNodes mar n)"
    and "dn_depth n \<le> fuel" and "\<And>k v. gm_get trees' k = Some v \<Longrightarrow> gm_get trees'' k = Some v"
  shows "\<exists>fs ds. walkTree mar fuel h [] trees'' skip ([], []) = Some (Inr (fs, ds)) \<and>
    gm_get fs = map_option leafKey \<circ> gm_get files \<and> set ds = emptyDirs dirs files"
proof -
  obtain out where out: "emitNode mar n = Some (h, out)"
    "\<And>k v. (k, v) \<in> set out \<Longrightarrow> gm_get trees' k = Some v"
    using emitted_present [OF assms(5,6)] by blast
  then have out'': "\<And>k v. (k, v) \<in> set out \<Longrightarrow> gm_get trees'' k = Some v" using assms(8) by blast
  obtain st where st: "walkTree mar fuel h [] trees'' skip ([], []) = Some (Inr st)" "walk_ok [] n ([], []) st"
    using walkTree_emitted [OF out(1) buildTree_wf [OF assms(1)] buildTree_names [OF assms(1,3,4)] out'' assms(7),
        of "[]" skip "([], [])"] by auto
  have "gm_get (fst st) = map_option leafKey \<circ> gm_get files"
    using st(2) buildTree_fileAt [OF assms(1,2)]
    by (auto simp: walk_ok_def pathMap_root compFiles_Split)
  moreover have "set (snd st) = emptyDirs dirs files"
  proof -
    have "set (snd st) = {Join qs ''/'' | qs. emptyAt n qs \<and> qs \<noteq> []}"
      using st(2) by (auto simp: walk_ok_def)
    also have "\<dots> = {Join (Split CHR ''/'' d) ''/'' | d. d \<in> emptyDirs dirs files}"
      using buildTree_emptyAt [OF assms(1,2)] Split_not_Nil by blast
    also have "\<dots> = emptyDirs dirs files" by (auto simp: Join_Split)
    finally show ?thesis .
  qed
  ultimately show ?thesis using st(1) by (cases st) auto
qed

end
