(* ===== verification/Collect.thy ===== *)
theory Collect
  imports Tree
begin

text \<open>
  The reachability analysis of the garbage collector: \<open>walkCollect\<close> of
  \<open>src/tsync/client.go\<close> marks the trees and file keys reachable from a root. It is shown to
  terminate within a recursion depth of one more than the number of stored trees, to mark
  exactly what is reachable, and to have checked every tree it marks.
\<close>

section \<open>The traversal\<close>

text \<open>The sets \<open>liveTrees\<close> and \<open>liveFiles\<close>; the first argument bounds the recursion depth.\<close>

type_synonym live = "string list \<times> string list"

definition corruptTree :: "err list \<Rightarrow> live result option" where
  "corruptTree es = Some (Inl (Errorf (Sentinel ErrCorruptMetadata # es)))"

function (sequential) walkCollect ::
  "tree_marshal \<Rightarrow> nat \<Rightarrow> string \<Rightarrow> (string, TreeNode) gomap \<Rightarrow> live \<Rightarrow> live result option"
and collectEntries ::
  "tree_marshal \<Rightarrow> nat \<Rightarrow> TreeEntry list \<Rightarrow> (string, TreeNode) gomap \<Rightarrow> live \<Rightarrow> live result option" where
  "walkCollect mar n treeHash trees lv =
     (if treeHash \<in> set (fst lv) then Some (Inr lv)
      else (case n of
        0 \<Rightarrow> None
      | Suc m \<Rightarrow>
          let lv = (treeHash # fst lv, snd lv) in
          (case gm_get trees treeHash of
             None \<Rightarrow> corruptTree []
           | Some node \<Rightarrow>
               (case mar node of
                  None \<Rightarrow> corruptTree [Foreign ''proto'']
                | Some marshaled \<Rightarrow>
                    if sha256_hex marshaled \<noteq> treeHash then corruptTree []
                    else if \<not> entries_sorted (tn_Entries node) then corruptTree []
                    else collectEntries mar m (tn_Entries node) trees lv))))"
| "collectEntries mar n [] trees lv = Some (Inr lv)"
| "collectEntries mar n (entry # es) trees lv =
     (case validateName (te_Name entry) of
        Some e \<Rightarrow> corruptTree [e]
      | None \<Rightarrow>
          (case te_Node entry of
             TreeEntry_File None \<Rightarrow> corruptTree []
           | TreeEntry_File (Some leaf) \<Rightarrow>
               collectEntries mar n es trees (fst lv, List.insert (leafKey leaf) (snd lv))
           | TreeEntry_SubtreeHash h \<Rightarrow>
               if h = [] then corruptTree []
               else (case walkCollect mar n h trees lv of
                       None \<Rightarrow> None
                     | Some (Inl e) \<Rightarrow> Some (Inl e)
                     | Some (Inr lv') \<Rightarrow> collectEntries mar n es trees lv')
           | TreeEntry_Unset \<Rightarrow> corruptTree []))"
  by pat_completeness auto
termination
  by (relation "(\<lambda>x. case x of Inl (mar, n, _) \<Rightarrow> n | Inr (mar, n, es, _) \<Rightarrow> n) <*mlex*>
       measure (\<lambda>x. case x of Inl _ \<Rightarrow> 0 | Inr (mar, n, es, _) \<Rightarrow> Suc (length es))")
    (auto intro: wf_mlex mlex_less mlex_leq)

declare walkCollect.simps [simp del]

section \<open>Reachability\<close>

definition child :: "(string, TreeNode) gomap \<Rightarrow> string \<Rightarrow> string \<Rightarrow> bool" where
  "child trees h h' \<longleftrightarrow>
     (\<exists>node e. gm_get trees h = Some node \<and> e \<in> set (tn_Entries node) \<and> te_Node e = TreeEntry_SubtreeHash h')"

definition leafOf :: "(string, TreeNode) gomap \<Rightarrow> string \<Rightarrow> string \<Rightarrow> bool" where
  "leafOf trees h k \<longleftrightarrow>
     (\<exists>node e leaf. gm_get trees h = Some node \<and> e \<in> set (tn_Entries node) \<and>
        te_Node e = TreeEntry_File (Some leaf) \<and> k = leafKey leaf)"

inductive reach :: "(string, TreeNode) gomap \<Rightarrow> string \<Rightarrow> string \<Rightarrow> bool" for trees where
  reach_refl: "reach trees h h"
| reach_step: "reach trees r h \<Longrightarrow> child trees h h' \<Longrightarrow> reach trees r h'"

text \<open>What the traversal checks of one tree node.\<close>

definition entry_ok :: "TreeEntry \<Rightarrow> bool" where
  "entry_ok e \<longleftrightarrow> valid_name (te_Name e) \<and>
     (case te_Node e of
        TreeEntry_File oleaf \<Rightarrow> oleaf \<noteq> None
      | TreeEntry_SubtreeHash h \<Rightarrow> h \<noteq> []
      | TreeEntry_Unset \<Rightarrow> False)"

definition node_ok :: "tree_marshal \<Rightarrow> (string, TreeNode) gomap \<Rightarrow> string \<Rightarrow> bool" where
  "node_ok mar trees h \<longleftrightarrow>
     (\<exists>node. gm_get trees h = Some node \<and> map_option sha256_hex (mar node) = Some h \<and>
        entries_sorted (tn_Entries node) \<and> list_all entry_ok (tn_Entries node))"

text \<open>
  The progress of a traversal from \<open>lv\<close> to \<open>lv'\<close>: it only adds, what it adds is reachable from
  \<open>R\<close>, and every tree it adds is checked and has its children and leaves marked.
\<close>

definition tree_done :: "tree_marshal \<Rightarrow> (string, TreeNode) gomap \<Rightarrow> live \<Rightarrow> string \<Rightarrow> bool" where
  "tree_done mar trees lv h \<longleftrightarrow> node_ok mar trees h \<and>
     {h'. child trees h h'} \<subseteq> set (fst lv) \<and> {k. leafOf trees h k} \<subseteq> set (snd lv)"

definition live_from :: "(string, TreeNode) gomap \<Rightarrow> string set \<Rightarrow> string set" where
  "live_from trees R = {h. \<exists>r \<in> R. reach trees r h}"

definition keys_from :: "(string, TreeNode) gomap \<Rightarrow> string set \<Rightarrow> string set" where
  "keys_from trees R = {k. \<exists>h \<in> live_from trees R. leafOf trees h k}"

definition collected ::
  "tree_marshal \<Rightarrow> (string, TreeNode) gomap \<Rightarrow> string set \<Rightarrow> live \<Rightarrow> live \<Rightarrow> bool" where
  "collected mar trees R lv lv' \<longleftrightarrow>
     set (fst lv) \<subseteq> set (fst lv') \<and> set (snd lv) \<subseteq> set (snd lv') \<and>
     set (fst lv') \<subseteq> set (fst lv) \<union> live_from trees R \<and>
     set (snd lv') \<subseteq> set (snd lv) \<union> keys_from trees R \<and>
     (\<forall>h \<in> set (fst lv') - set (fst lv). tree_done mar trees lv' h)"

lemma reach_trans: "reach trees a b \<Longrightarrow> reach trees b c \<Longrightarrow> reach trees a c"
  by (rotate_tac, induction rule: reach.induct) (auto intro: reach.intros)

lemma tree_done_mono:
  "tree_done mar trees a h \<Longrightarrow> set (fst a) \<subseteq> set (fst b) \<Longrightarrow> set (snd a) \<subseteq> set (snd b) \<Longrightarrow>
   tree_done mar trees b h"
  by (auto simp: tree_done_def)

lemma collected_refl: "collected mar trees R lv lv"
  by (simp add: collected_def)

lemma collected_trans:
  assumes "collected mar trees R a b" and "collected mar trees R b c"
  shows "collected mar trees R a c"
proof -
  have sub: "set (fst b) \<subseteq> set (fst c)" "set (snd b) \<subseteq> set (snd c)"
    using assms(2) by (simp_all add: collected_def)
  have "tree_done mar trees c h" if "h \<in> set (fst c) - set (fst a)" for h
  proof (cases "h \<in> set (fst b)")
    case True
    with that assms(1) have "tree_done mar trees b h" by (simp add: collected_def)
    then show ?thesis using sub by (rule tree_done_mono)
  next
    case False
    with that assms(2) show ?thesis by (simp add: collected_def)
  qed
  moreover have "set (fst c) \<subseteq> set (fst a) \<union> live_from trees R" "set (snd c) \<subseteq> set (snd a) \<union> keys_from trees R"
    "set (fst a) \<subseteq> set (fst c)" "set (snd a) \<subseteq> set (snd c)"
    using assms unfolding collected_def by blast+
  ultimately show ?thesis by (simp add: collected_def)
qed

lemma collected_mono:
  "collected mar trees R a b \<Longrightarrow> live_from trees R \<subseteq> live_from trees R' \<Longrightarrow> collected mar trees R' a b"
  unfolding collected_def keys_from_def by blast

lemma live_from_child: "child trees r h \<Longrightarrow> live_from trees {h} \<subseteq> live_from trees {r}"
  using reach_trans [OF reach_step [OF reach_refl]] by (auto simp: live_from_def)

text \<open>What has been marked once the entries \<open>es\<close> of a node are done.\<close>

definition entries_done :: "TreeEntry list \<Rightarrow> live \<Rightarrow> bool" where
  "entries_done es lv \<longleftrightarrow> list_all entry_ok es \<and>
     list_all (\<lambda>e. case te_Node e of
        TreeEntry_File (Some l) \<Rightarrow> leafKey l \<in> set (snd lv)
      | TreeEntry_SubtreeHash x \<Rightarrow> x \<in> set (fst lv)
      | _ \<Rightarrow> True) es"

lemma entries_done_tree:
  assumes "gm_get trees h = Some node" and "entries_done (tn_Entries node) lv"
    and "map_option sha256_hex (mar node) = Some h" and "entries_sorted (tn_Entries node)"
  shows "tree_done mar trees lv h"
  using assms
  by (fastforce simp: tree_done_def node_ok_def entries_done_def child_def leafOf_def list_all_iff)

lemma entries_done_mono:
  "entries_done es a \<Longrightarrow> set (fst a) \<subseteq> set (fst b) \<Longrightarrow> set (snd a) \<subseteq> set (snd b) \<Longrightarrow> entries_done es b"
  by (auto simp: entries_done_def list_all_iff split: TreeEntry_Node.splits option.splits)

lemma collect_sound:
  "walkCollect mar n h trees lv = Some (Inr lv') \<Longrightarrow>
     collected mar trees {h} lv lv' \<and> h \<in> set (fst lv')"
  "collectEntries mar n es trees lv = Some (Inr lv') \<Longrightarrow> gm_get trees r = Some node \<Longrightarrow>
     set es \<subseteq> set (tn_Entries node) \<Longrightarrow> collected mar trees {r} lv lv' \<and> entries_done es lv'"
proof (induction mar n h trees lv and mar n es trees lv arbitrary: lv' and lv' r node
    rule: walkCollect_collectEntries.induct)
  case (1 mar n h trees lv)
  show ?case
  proof (cases "h \<in> set (fst lv)")
    case True
    with "1.prems" show ?thesis by (simp add: walkCollect.simps collected_refl)
  next
    case new: False
    from "1.prems" new obtain m node b where n: "n = Suc m" and node: "gm_get trees h = Some node"
      "mar node = Some b" "sha256_hex b = h" "entries_sorted (tn_Entries node)"
      and rec: "collectEntries mar m (tn_Entries node) trees (h # fst lv, snd lv) = Some (Inr lv')"
      by (auto simp: walkCollect.simps [of mar n] corruptTree_def split: nat.splits option.splits if_splits)
    have rec_ok: "collected mar trees {h} (h # fst lv, snd lv) lv' \<and> entries_done (tn_Entries node) lv'"
      using "1.IH" [OF new n refl node(1,2)] node rec by auto
    then have "tree_done mar trees lv' h"
      using node by (intro entries_done_tree) auto
    with rec_ok new show ?thesis
      by (auto simp: collected_def live_from_def intro: reach_refl)
  qed
next
  case (2 mar n trees lv)
  then show ?case by (simp add: collected_refl entries_done_def)
next
  case (3 mar n e es trees lv)
  from "3.prems"(1) have name: "validateName (te_Name e) = None"
    by (auto simp: corruptTree_def split: option.splits)
  have tail: "set es \<subseteq> set (tn_Entries node)" and e: "e \<in> set (tn_Entries node)"
    using "3.prems"(3) by auto
  show ?case
  proof (cases "te_Node e")
    case (TreeEntry_File oleaf)
    with "3.prems"(1) name obtain leaf where leaf: "oleaf = Some leaf"
      by (auto simp: corruptTree_def split: option.splits)
    let ?lv = "(fst lv, List.insert (leafKey leaf) (snd lv))"
    have "collectEntries mar n es trees ?lv = Some (Inr lv')"
      using "3.prems"(1) name TreeEntry_File leaf by simp
    then have IH: "collected mar trees {r} ?lv lv' \<and> entries_done es lv'"
      using "3.IH"(1) [OF name TreeEntry_File leaf] "3.prems"(2) tail by blast
    have "leafKey leaf \<in> keys_from trees {r}"
      using "3.prems"(2) e TreeEntry_File leaf
      by (auto simp: keys_from_def live_from_def leafOf_def intro!: exI [of _ r] reach_refl)
    then have "collected mar trees {r} lv ?lv"
      by (auto simp: collected_def)
    with IH have "collected mar trees {r} lv lv'" "leafKey leaf \<in> set (snd lv')"
      by (auto intro: collected_trans simp: collected_def)
    with IH name TreeEntry_File leaf show ?thesis
      by (simp add: entries_done_def entry_ok_def valid_name_def)
  next
    case (TreeEntry_SubtreeHash h)
    with "3.prems"(1) name obtain lv1 where h: "h \<noteq> []" and walk: "walkCollect mar n h trees lv = Some (Inr lv1)"
      and rest: "collectEntries mar n es trees lv1 = Some (Inr lv')"
      by (auto simp: corruptTree_def split: option.splits if_splits sum.splits)
    have IH1: "collected mar trees {h} lv lv1" "h \<in> set (fst lv1)"
      using "3.IH"(2) [OF name TreeEntry_SubtreeHash h walk] by auto
    have IH2: "collected mar trees {r} lv1 lv'" "entries_done es lv'"
      using "3.IH"(3) [OF name TreeEntry_SubtreeHash h walk refl rest "3.prems"(2) tail] by auto
    have "child trees r h"
      using "3.prems"(2) e TreeEntry_SubtreeHash by (auto simp: child_def)
    then have "collected mar trees {r} lv lv1"
      using IH1(1) live_from_child by (blast intro: collected_mono)
    with IH2(1) have "collected mar trees {r} lv lv'" by (blast intro: collected_trans)
    moreover have "h \<in> set (fst lv')" using IH1(2) IH2(1) by (auto simp: collected_def)
    ultimately show ?thesis
      using IH2 name h TreeEntry_SubtreeHash by (simp add: entries_done_def entry_ok_def valid_name_def)
  next
    case TreeEntry_Unset
    with "3.prems"(1) name show ?thesis by (simp add: corruptTree_def)
  qed
qed

section \<open>The traversal ends\<close>

text \<open>The stored trees that are not marked yet.\<close>

definition unmarked :: "(string, TreeNode) gomap \<Rightarrow> live \<Rightarrow> string set" where
  "unmarked trees lv = fst ` set trees - set (fst lv)"

lemma finite_unmarked [simp]: "finite (unmarked trees lv)"
  by (simp add: unmarked_def)

lemma unmarked_mono: "set (fst a) \<subseteq> set (fst b) \<Longrightarrow> card (unmarked trees b) \<le> card (unmarked trees a)"
  by (rule card_mono) (auto simp: unmarked_def)

lemma unmarked_less:
  "gm_get trees h = Some node \<Longrightarrow> h \<notin> set (fst lv) \<Longrightarrow> card (unmarked trees (h # fst lv, snd lv)) < card (unmarked trees lv)"
proof (rule psubset_card_mono)
  assume "gm_get trees h = Some node" "h \<notin> set (fst lv)"
  then show "unmarked trees (h # fst lv, snd lv) \<subset> unmarked trees lv"
    by (auto simp: unmarked_def dest!: map_of_SomeD) force
qed simp

lemma collect_returns:
  "card (unmarked trees lv) < n \<Longrightarrow> \<exists>r. walkCollect mar n h trees lv = Some r"
  "card (unmarked trees lv) < n \<Longrightarrow> \<exists>r. collectEntries mar n es trees lv = Some r"
proof (induction mar n h trees lv and mar n es trees lv rule: walkCollect_collectEntries.induct)
  case (1 mar n h trees lv)
  show ?case
  proof (cases "h \<in> set (fst lv)")
    case False
    then obtain m where m: "n = Suc m" using "1.prems" by (cases n) auto
    have "\<exists>r. collectEntries mar m (tn_Entries node) trees (h # fst lv, snd lv) = Some r"
      if "gm_get trees h = Some node" "mar node = Some b" "sha256_hex b = h" "entries_sorted (tn_Entries node)" for node b
      using "1.IH" [OF False m refl that(1,2)] that unmarked_less [OF that(1) False] "1.prems" m by simp
    with False m show ?thesis
      by (auto simp: walkCollect.simps [of mar "Suc m"] corruptTree_def Let_def split: option.splits)
  qed (simp add: walkCollect.simps)
next
  case (2 mar n trees lv)
  then show ?case by simp
next
  case (3 mar n e es trees lv)
  have sub: "\<exists>r. (case walkCollect mar n h trees lv of None \<Rightarrow> None | Some (Inl e) \<Rightarrow> Some (Inl e)
      | Some (Inr lv') \<Rightarrow> collectEntries mar n es trees lv') = Some r"
    if u: "validateName (te_Name e) = None" "te_Node e = TreeEntry_SubtreeHash h" "h \<noteq> []" for h
  proof -
    obtain r where r: "walkCollect mar n h trees lv = Some r"
      using "3.IH"(2) [OF u] "3.prems" by blast
    show ?thesis
    proof (cases r)
      case (Inr lv1)
      then have "set (fst lv) \<subseteq> set (fst lv1)"
        using collect_sound(1) [of mar n h trees lv lv1] r by (simp add: collected_def)
      then have "card (unmarked trees lv1) < n"
        using unmarked_mono "3.prems" by (meson order_le_less_trans)
      with "3.IH"(3) [OF u r Inr] r Inr show ?thesis by auto
    qed (simp add: r)
  qed
  have "\<exists>r. collectEntries mar n es trees (fst lv, List.insert (leafKey leaf) (snd lv)) = Some r"
    if "validateName (te_Name e) = None" "te_Node e = TreeEntry_File (Some leaf)" for leaf
    using "3.IH"(1) [OF that(1,2) refl] "3.prems" by (simp add: unmarked_def)
  with sub show ?case
    by (auto simp: corruptTree_def split: option.splits TreeEntry_Node.splits)
qed

text \<open>The traversal fails only on a reachable node that is missing or damaged.\<close>

lemma collect_complete:
  "walkCollect mar n h trees lv = Some r \<Longrightarrow> (\<forall>x \<in> live_from trees {h}. node_ok mar trees x) \<Longrightarrow>
     \<exists>lv'. r = Inr lv'"
  "collectEntries mar n es trees lv = Some r \<Longrightarrow> gm_get trees p = Some node \<Longrightarrow>
     set es \<subseteq> set (tn_Entries node) \<Longrightarrow> list_all entry_ok es \<Longrightarrow>
     (\<forall>x \<in> live_from trees {p}. node_ok mar trees x) \<Longrightarrow> \<exists>lv'. r = Inr lv'"
proof (induction mar n h trees lv and mar n es trees lv arbitrary: r and r p node
    rule: walkCollect_collectEntries.induct)
  case (1 mar n h trees lv)
  show ?case
  proof (cases "h \<in> set (fst lv)")
    case True
    with "1.prems" show ?thesis by (auto simp: walkCollect.simps)
  next
    case new: False
    have "node_ok mar trees h" using "1.prems"(2) reach_refl by (auto simp: live_from_def)
    then obtain node b where node: "gm_get trees h = Some node" "mar node = Some b" "sha256_hex b = h"
      "entries_sorted (tn_Entries node)" "list_all entry_ok (tn_Entries node)"
      by (auto simp: node_ok_def)
    obtain m where m: "n = Suc m" using "1.prems"(1) new by (cases n) (auto simp: walkCollect.simps)
    have "collectEntries mar m (tn_Entries node) trees (h # fst lv, snd lv) = Some r"
      using "1.prems"(1) new m node by (simp add: walkCollect.simps)
    with "1.IH" [OF new m refl node(1,2)] node "1.prems"(2) show ?thesis by auto
  qed
next
  case (2 mar n trees lv)
  then show ?case by auto
next
  case (3 mar n e es trees lv)
  have name: "validateName (te_Name e) = None" using "3.prems"(4) by (simp add: entry_ok_def valid_name_def)
  have tail: "list_all entry_ok es" "set es \<subseteq> set (tn_Entries node)" using "3.prems"(3,4) by auto
  show ?case
  proof (cases "te_Node e")
    case (TreeEntry_File oleaf)
    with "3.prems"(4) obtain leaf where leaf: "oleaf = Some leaf" by (auto simp: entry_ok_def)
    with "3.IH"(1) [OF name TreeEntry_File leaf _ "3.prems"(2) tail(2,1) "3.prems"(5)] "3.prems"(1) name TreeEntry_File
    show ?thesis by simp
  next
    case (TreeEntry_SubtreeHash h)
    then have h: "h \<noteq> []" using "3.prems"(4) by (auto simp: entry_ok_def)
    have "child trees p h"
      using "3.prems"(2,3) TreeEntry_SubtreeHash by (auto simp: child_def)
    then have ok: "\<forall>x \<in> live_from trees {h}. node_ok mar trees x"
      using "3.prems"(5) live_from_child by blast
    obtain r1 where r1: "walkCollect mar n h trees lv = Some r1"
      using "3.prems"(1) name TreeEntry_SubtreeHash h by (auto split: option.splits)
    then obtain lv1 where lv1: "r1 = Inr lv1"
      using "3.IH"(2) [OF name TreeEntry_SubtreeHash h r1 ok] by blast
    with "3.prems"(1) name TreeEntry_SubtreeHash h r1 have "collectEntries mar n es trees lv1 = Some r" by simp
    then show ?thesis
      using "3.IH"(3) [OF name TreeEntry_SubtreeHash h r1 lv1 _ "3.prems"(2) tail(2,1) "3.prems"(5)] by blast
  next
    case TreeEntry_Unset
    with "3.prems"(4) show ?thesis by (simp add: entry_ok_def)
  qed
qed

section \<open>All versions\<close>

text \<open>
  The loop over \<open>metadata.Versions\<close>. The depth bound is one more than the number of stored
  trees; \<open>collect_returns\<close> shows that it is never reached.
\<close>

fun collectLive ::
  "tree_marshal \<Rightarrow> (string, Version) gomap \<Rightarrow> (string, TreeNode) gomap \<Rightarrow> live \<Rightarrow> live result" where
  "collectLive mar [] trees lv = Inr lv"
| "collectLive mar ((k, v) # vs) trees lv =
     (case walkCollect mar (Suc (length trees)) (RootTreeHash v) trees lv of
        None \<Rightarrow> Inl (Foreign ''stack overflow'')
      | Some (Inl e) \<Rightarrow> Inl (Errorf [e])
      | Some (Inr lv') \<Rightarrow> collectLive mar vs trees lv')"

definition roots :: "(string, Version) gomap \<Rightarrow> string set" where
  "roots vs = (RootTreeHash \<circ> snd) ` set vs"

lemma walkCollect_total: "\<exists>r. walkCollect mar (Suc (length trees)) h trees lv = Some r"
proof (rule collect_returns)
  have "card (unmarked trees lv) \<le> card (fst ` set trees)"
    by (rule card_mono) (auto simp: unmarked_def)
  also have "\<dots> \<le> length trees"
    by (metis card_length length_map set_map)
  finally show "card (unmarked trees lv) < Suc (length trees)" by simp
qed

lemma live_from_mono: "A \<subseteq> B \<Longrightarrow> live_from trees A \<subseteq> live_from trees B"
  by (auto simp: live_from_def)

lemma collectLive_collected:
  "collectLive mar vs trees lv = Inr lv' \<Longrightarrow>
     collected mar trees (roots vs) lv lv' \<and> roots vs \<subseteq> set (fst lv')"
proof (induction vs arbitrary: lv)
  case Nil
  then show ?case by (simp add: collected_refl roots_def)
next
  case (Cons x vs)
  obtain k v where x: "x = (k, v)" by fastforce
  from Cons.prems obtain lv1 where walk: "walkCollect mar (Suc (length trees)) (RootTreeHash v) trees lv = Some (Inr lv1)"
    and rest: "collectLive mar vs trees lv1 = Inr lv'"
    by (auto simp: x split: option.splits sum.splits)
  have R: "roots (x # vs) = {RootTreeHash v} \<union> roots vs" by (auto simp: roots_def x)
  have "collected mar trees (roots (x # vs)) lv lv1" "RootTreeHash v \<in> set (fst lv1)"
    using collect_sound(1) [OF walk] collected_mono [OF _ live_from_mono, of mar trees "{RootTreeHash v}" lv lv1 "roots (x # vs)"]
    by (auto simp: R)
  moreover have "collected mar trees (roots (x # vs)) lv1 lv'" "roots vs \<subseteq> set (fst lv')"
    using Cons.IH [OF rest] collected_mono [OF _ live_from_mono, of mar trees "roots vs" lv1 lv' "roots (x # vs)"]
    by (auto simp: R)
  ultimately show ?case
    unfolding R using collected_trans [of mar trees "roots (x # vs)" lv lv1 lv']
    by (auto simp: R collected_def)
qed

lemma marked_closed:
  assumes "collected mar trees R ([], []) lv" and "R \<subseteq> set (fst lv)"
  shows "set (fst lv) = live_from trees R" and "set (snd lv) = keys_from trees R"
    and "\<forall>h \<in> live_from trees R. node_ok mar trees h"
proof -
  have tree_ok: "tree_done mar trees lv h" if "h \<in> set (fst lv)" for h
    using that assms(1) by (simp add: collected_def)
  have "h \<in> set (fst lv)" if "reach trees r h" "r \<in> R" for r h
    using that by (induction rule: reach.induct) (use assms(2) tree_ok in \<open>auto simp: tree_done_def\<close>)
  then show trees: "set (fst lv) = live_from trees R"
    using assms(1) by (auto simp: collected_def live_from_def)
  then show "set (snd lv) = keys_from trees R"
    using assms(1) tree_ok by (auto simp: collected_def keys_from_def tree_done_def)
  show "\<forall>h \<in> live_from trees R. node_ok mar trees h"
    using tree_ok by (auto simp: trees [symmetric] tree_done_def)
qed

lemma collectLive_exact:
  "collectLive mar vs trees ([], []) = Inr (lt, lf) \<Longrightarrow>
     set lt = live_from trees (roots vs) \<and> set lf = keys_from trees (roots vs) \<and>
     (\<forall>h \<in> live_from trees (roots vs). node_ok mar trees h)"
  using collectLive_collected [of mar vs trees "([], [])" "(lt, lf)"]
    marked_closed [of mar trees "roots vs" "(lt, lf)"] by auto

lemma collectLive_ok:
  "(\<forall>h \<in> live_from trees (roots vs). node_ok mar trees h) \<Longrightarrow> \<exists>lv'. collectLive mar vs trees lv = Inr lv'"
proof (induction vs arbitrary: lv)
  case (Cons x vs)
  obtain k v where x: "x = (k, v)" by fastforce
  have R: "roots (x # vs) = {RootTreeHash v} \<union> roots vs" by (auto simp: roots_def x)
  obtain r where r: "walkCollect mar (Suc (length trees)) (RootTreeHash v) trees lv = Some r"
    using walkCollect_total by blast
  have sub: "live_from trees {RootTreeHash v} \<subseteq> live_from trees (roots (x # vs))"
    "live_from trees (roots vs) \<subseteq> live_from trees (roots (x # vs))"
    unfolding R by (rule live_from_mono, blast)+
  then obtain lv1 where "r = Inr lv1"
    using collect_complete(1) [OF r] Cons.prems by blast
  with r Cons.IH [of lv1] Cons.prems sub(2) show ?case by (auto simp: x)
qed simp

end
