(* ===== verification/Storage.thy ===== *)
theory Storage
  imports Errors
begin

text \<open>
  The storage interfaces. A Go interface value is a record of functions over a world of type
  \<open>'s\<close>: \<open>Storage\<close> (\<open>src/tsync/storage.go\<close>) with its writers of type \<open>'w\<close>, and
  \<open>ObjectStorageClient\<close> (\<open>src/storage_clients/registry.go\<close>). Each operation returns its
  result and the next world, so a failure may or may not have taken effect. What callers may
  rely on is the locale \<open>storage\<close>: the documented contract of the interface, with
  all-or-nothing writes. The components that only use a \<open>Storage\<close> are proved in it.
\<close>

section \<open>The interfaces\<close>

text \<open>
  The contexts an operation is called with: the caller's, the cancellable one of a run, and
  the detached one of \<open>cleanupContext\<close>, which survives the cancellation of its parent.
\<close>

datatype ctx = CallerCtx | RunCtx | CleanupCtx ctx

definition cleanupContext :: "ctx \<Rightarrow> ctx" where
  "cleanupContext c = CleanupCtx c"

text \<open>An open \<open>io.ReadCloser\<close>: the bytes it delivers and the error it ends with (\<open>None\<close> is
  \<open>io.EOF\<close>).\<close>

type_synonym reader = "bytes \<times> err option"

definition ReadAll :: "reader \<Rightarrow> bytes result" where
  "ReadAll r = (case snd r of None \<Rightarrow> Inr (fst r) | Some e \<Rightarrow> Inl e)"

text \<open>\<open>io.ReadFull\<close> into a buffer of length \<open>n\<close>: the bytes read and the error.\<close>

definition ioReadFull :: "nat \<Rightarrow> reader \<Rightarrow> bytes \<times> err option" where
  "ioReadFull n r =
     (if n \<le> length (fst r) then (take n (fst r), None)
      else (fst r, Some (case snd r of Some e \<Rightarrow> e | None \<Rightarrow> Sentinel (if fst r = [] then EOF else ErrUnexpectedEOF))))"

text \<open>\<open>io.LimitReader\<close>: at most \<open>n\<close> bytes, then end of file.\<close>

definition limitReader :: "int \<Rightarrow> reader \<Rightarrow> reader" where
  "limitReader n rc = (take (nat n) (fst rc), if n \<le> int (length (fst rc)) then None else snd rc)"

record FileInfo =
  fi_Name :: string
  fi_Size :: int
  fi_LastModified :: int

record ('s, 'w) Storage =
  st_Exists :: "ctx \<Rightarrow> string \<Rightarrow> 's \<Rightarrow> bool result \<times> 's"
  st_Read :: "ctx \<Rightarrow> string \<Rightarrow> 's \<Rightarrow> bytes result \<times> 's"
  st_Write :: "ctx \<Rightarrow> string \<Rightarrow> bytes \<Rightarrow> 's \<Rightarrow> err option \<times> 's"
  st_Delete :: "ctx \<Rightarrow> string \<Rightarrow> 's \<Rightarrow> err option \<times> 's"
  st_List :: "ctx \<Rightarrow> string \<Rightarrow> 's \<Rightarrow> FileInfo list result \<times> 's"
  st_OpenReader :: "ctx \<Rightarrow> string \<Rightarrow> 's \<Rightarrow> reader result \<times> 's"
  st_OpenWriter :: "ctx \<Rightarrow> string \<Rightarrow> 's \<Rightarrow> 'w result \<times> 's"
  st_Size :: "ctx \<Rightarrow> string \<Rightarrow> 's \<Rightarrow> int result \<times> 's"
  st_ReadRange :: "ctx \<Rightarrow> string \<Rightarrow> int \<Rightarrow> int \<Rightarrow> 's \<Rightarrow> reader result \<times> 's"
  wr_Write :: "'w \<Rightarrow> bytes \<Rightarrow> 's \<Rightarrow> (int \<times> err option) \<times> 'w \<times> 's"
  wr_Close :: "'w \<Rightarrow> 's \<Rightarrow> err option \<times> 'w \<times> 's"
  wr_Abort :: "'w \<Rightarrow> 's \<Rightarrow> err option \<times> 'w \<times> 's"

record ObjectInfo =
  oi_Name :: string
  oi_Size :: int

record 's ObjectStorageClient =
  ListObjects :: "ctx \<Rightarrow> string \<Rightarrow> string \<Rightarrow> 's \<Rightarrow> ObjectInfo list result \<times> 's"
  GetObjectSize :: "ctx \<Rightarrow> string \<Rightarrow> string \<Rightarrow> 's \<Rightarrow> int result \<times> 's"
  GetObjectRange :: "ctx \<Rightarrow> string \<Rightarrow> string \<Rightarrow> int \<Rightarrow> int \<Rightarrow> 's \<Rightarrow> reader result \<times> 's"
  Initiate :: "ctx \<Rightarrow> string \<Rightarrow> string \<Rightarrow> 's \<Rightarrow> string result \<times> 's"
  UploadPart :: "ctx \<Rightarrow> string \<Rightarrow> string \<Rightarrow> string \<Rightarrow> int \<Rightarrow> bytes \<Rightarrow> 's \<Rightarrow> string result \<times> 's"
  Complete :: "ctx \<Rightarrow> string \<Rightarrow> string \<Rightarrow> string \<Rightarrow> (int, string) gomap \<Rightarrow> 's \<Rightarrow> err option \<times> 's"
  Abort :: "ctx \<Rightarrow> string \<Rightarrow> string \<Rightarrow> string \<Rightarrow> 's \<Rightarrow> err option \<times> 's"
  PutObject :: "ctx \<Rightarrow> string \<Rightarrow> string \<Rightarrow> bytes \<Rightarrow> 's \<Rightarrow> err option \<times> 's"
  DeleteObject :: "ctx \<Rightarrow> string \<Rightarrow> string \<Rightarrow> 's \<Rightarrow> err option \<times> 's"

section \<open>What a caller of a storage relies on\<close>

text \<open>
  \<open>contents s p\<close> is the committed object at path \<open>p\<close>; \<open>key_ok\<close> are the paths for which the
  storage promises something; \<open>w_open s w p d\<close> holds of a writer on path \<open>p\<close> that has
  accepted the bytes \<open>d\<close>, or has failed (\<open>d = None\<close>). The laws are those of the interface's
  documentation: reads do not write, \<open>Write\<close> is all-or-nothing, a failed operation has either
  happened or not, the data of a writer becomes visible only by \<open>Close\<close> and then completely,
  \<open>Abort\<close> commits nothing, and \<open>ErrNotFound\<close> is reported only for a path that is not there.
\<close>

locale storage =
  fixes S :: "('s, 'w) Storage"
    and contents :: "'s \<Rightarrow> string \<Rightarrow> bytes option"
    and key_ok :: "string \<Rightarrow> bool"
    and inv :: "'s \<Rightarrow> bool"
    and w_open :: "'s \<Rightarrow> 'w \<Rightarrow> string \<Rightarrow> bytes option \<Rightarrow> bool"
  assumes read_law: "inv s \<Longrightarrow> key_ok p \<Longrightarrow> st_Read S c p s = (r, s') \<Longrightarrow>
      inv s' \<and> (\<forall>q. key_ok q \<longrightarrow> contents s' q = contents s q) \<and>
      (\<forall>d. r = Inr d \<longrightarrow> contents s p = Some d) \<and>
      (\<forall>e. r = Inl e \<and> errIs e ErrNotFound \<longrightarrow> contents s p = None)"
    and write_law: "inv s \<Longrightarrow> key_ok p \<Longrightarrow> st_Write S c p d s = (e, s') \<Longrightarrow>
      inv s' \<and> (\<forall>q. key_ok q \<and> q \<noteq> p \<longrightarrow> contents s' q = contents s q) \<and>
      (contents s' p = Some d \<or> e \<noteq> None \<and> contents s' p = contents s p)"
    and delete_law: "inv s \<Longrightarrow> key_ok p \<Longrightarrow> st_Delete S c p s = (e, s') \<Longrightarrow>
      inv s' \<and> (\<forall>q. key_ok q \<and> q \<noteq> p \<longrightarrow> contents s' q = contents s q) \<and>
      (contents s' p = None \<or> e \<noteq> None \<and> contents s' p = contents s p)"
    and list_law: "inv s \<Longrightarrow> st_List S c [] s = (rl, s') \<Longrightarrow>
      inv s' \<and> (\<forall>q. key_ok q \<longrightarrow> contents s' q = contents s q) \<and>
      (\<forall>fs. rl = Inr fs \<longrightarrow> (\<forall>q. key_ok q \<and> contents s q \<noteq> None \<longrightarrow> q \<in> fi_Name ` set fs))"
    and open_law: "inv s \<Longrightarrow> key_ok p \<Longrightarrow> st_OpenWriter S c p s = (rw, s') \<Longrightarrow>
      inv s' \<and> (\<forall>q. key_ok q \<longrightarrow> contents s' q = contents s q) \<and>
      (\<forall>w. rw = Inr w \<longrightarrow> w_open s' w p (Some []))"
    and w_write_law: "inv s \<Longrightarrow> w_open s w p (Some d) \<Longrightarrow> wr_Write S w b s = ((n, e), w', s') \<Longrightarrow>
      inv s' \<and> (\<forall>q. key_ok q \<longrightarrow> contents s' q = contents s q) \<and>
      w_open s' w' p (if e = None then Some (d @ b) else None)"
    and w_close_law: "inv s \<Longrightarrow> w_open s w p (Some d) \<Longrightarrow> wr_Close S w s = (e, w', s') \<Longrightarrow>
      inv s' \<and> (\<forall>q. key_ok q \<and> q \<noteq> p \<longrightarrow> contents s' q = contents s q) \<and>
      (contents s' p = Some d \<or> e \<noteq> None \<and> contents s' p = contents s p)"
    and w_abort_law: "inv s \<Longrightarrow> w_open s w p od \<Longrightarrow> wr_Abort S w s = (e, w', s') \<Longrightarrow>
      inv s' \<and> (\<forall>q. key_ok q \<longrightarrow> contents s' q = contents s q)"

end
