(* ===== verification/Client.thy ===== *)
theory Client
  imports Collect Storage
begin

text \<open>
  The client operations on a store (\<open>src/tsync/client.go\<close>): loading the metadata, listing,
  \<open>DeleteVersion\<close>, \<open>GC\<close> and the \<open>StoreMetadata\<close> accessors. The operations take the \<open>Storage\<close>
  they run on, the protobuf functions (\<open>unmarshal\<close>, \<open>marshal\<close>, and \<open>mar\<close> for tree nodes) and
  the clock. The safety theorems are proved in the locale \<open>keyed_storage\<close>: for every
  storage that keeps the documented contract, and every way its operations may fail.
\<close>

section \<open>Operations\<close>

definition metadataPath :: string where "metadataPath = ''.tsync''"

definition loadMetadata ::
  "md_unmarshal \<Rightarrow> ('s, 'w) Storage \<Rightarrow> ctx \<Rightarrow> 's \<Rightarrow> BackupMetadata result \<times> 's" where
  "loadMetadata unmarshal S c s =
     (case st_Read S c metadataPath s of (rd, s') \<Rightarrow> (parseMetadata unmarshal rd, s'))"

definition ListVersions :: "md_unmarshal \<Rightarrow> ('s, 'w) Storage \<Rightarrow> ctx \<Rightarrow> 's \<Rightarrow> Version list result \<times> 's" where
  "ListVersions unmarshal S c s =
     (case loadMetadata unmarshal S c s of
        (Inl e, s') \<Rightarrow> (if errIs e ErrNotFound then Inr [] else Inl e, s')
      | (Inr metadata, s') \<Rightarrow> (Inr (map snd (Versions metadata)), s'))"

definition ListFiles ::
  "md_unmarshal \<Rightarrow> tree_marshal \<Rightarrow> nat \<Rightarrow> ('s, 'w) Storage \<Rightarrow> ctx \<Rightarrow> 64 word \<Rightarrow> 's \<Rightarrow>
     (string list result \<times> 's) option" where
  "ListFiles unmarshal mar fuel S c versionID s =
     (case loadMetadata unmarshal S c s of
        (Inl e, s') \<Rightarrow> Some (Inl e, s')
      | (Inr metadata, s') \<Rightarrow>
          (case ResolveVersionTree mar fuel metadata versionID False of
             None \<Rightarrow> None
           | Some (Inl e) \<Rightarrow> Some (Inl e, s')
           | Some (Inr (resolved, emptyDs)) \<Rightarrow>
               Some (Inr (map fst resolved @ map (\<lambda>d. if HasSuffix d ''/'' then d else d @ ''/'') emptyDs), s')))"

text \<open>The best-effort deletion of the parts of removed file records; errors are dropped.\<close>

fun deleteParts :: "('s, 'w) Storage \<Rightarrow> ctx \<Rightarrow> string list \<Rightarrow> 's \<Rightarrow> 's" where
  "deleteParts S c [] s = s"
| "deleteParts S c (key # keys) s =
     (if \<not> rx_match fileKeyRegex key then deleteParts S c keys s
      else deleteParts S c keys (snd (st_Delete S c (take 2 key @ ''/'' @ key) s)))"

definition DeleteVersion ::
  "md_unmarshal \<Rightarrow> md_marshal \<Rightarrow> tree_marshal \<Rightarrow> int \<Rightarrow> ('s, 'w) Storage \<Rightarrow> ctx \<Rightarrow> 64 word \<Rightarrow> 's \<Rightarrow> err option \<times> 's" where
  "DeleteVersion unmarshal marshal mar now S c versionID s =
     (case loadMetadata unmarshal S c s of
        (Inl e, s1) \<Rightarrow> (Some e, s1)
      | (Inr metadata, s1) \<Rightarrow>
          let vStr = FormatUint versionID in
          if \<not> gm_has (Versions metadata) vStr then (Some (Errorf [Sentinel ErrVersionNotFound]), s1)
          else
            let metadata = metadata\<lparr>Versions := gm_del vStr (Versions metadata), LastUpdated := Some now\<rparr> in
            (case collectLive mar (Versions metadata) (Trees metadata) ([], []) of
               Inl e \<Rightarrow> (Some e, s1)
             | Inr (liveTreeHashes, liveFileKeys) \<Rightarrow>
                 let keysToDelete = filter (\<lambda>k. k \<notin> set liveFileKeys) (map fst (Files metadata));
                     metadata = metadata\<lparr>Trees := filter (\<lambda>(h, _). h \<in> set liveTreeHashes) (Trees metadata),
                                        Files := fold gm_del keysToDelete (Files metadata)\<rparr>
                 in case marshal metadata of
                      None \<Rightarrow> (Some (Errorf [Foreign ''proto'']), s1)
                    | Some newPbBytes \<Rightarrow>
                        (case st_Write S c metadataPath newPbBytes s1 of
                           (Some e, s2) \<Rightarrow> (Some (Errorf [e]), s2)
                         | (None, s2) \<Rightarrow> (None, deleteParts S c keysToDelete s2))))"

text \<open>The last step of \<open>GC\<close>: part objects that no file record names are deleted.\<close>

fun sweepParts :: "('s, 'w) Storage \<Rightarrow> ctx \<Rightarrow> string list \<Rightarrow> FileInfo list \<Rightarrow> 's \<Rightarrow> 's" where
  "sweepParts S c validParts [] s = s"
| "sweepParts S c validParts (f # fs) s =
     (if rx_match partKeyRegex (fi_Name f) \<and> pathBase (fi_Name f) \<notin> set validParts
      then sweepParts S c validParts fs (snd (st_Delete S c (fi_Name f) s))
      else sweepParts S c validParts fs s)"

definition GC_sweep :: "('s, 'w) Storage \<Rightarrow> ctx \<Rightarrow> BackupMetadata \<Rightarrow> 's \<Rightarrow> err option \<times> 's" where
  "GC_sweep S c metadata s =
     (case st_List S c [] s of
        (Inl e, s') \<Rightarrow> (Some (Errorf [e]), s')
      | (Inr allFiles, s') \<Rightarrow> (None, sweepParts S c (map fst (Files metadata)) allFiles s'))"

definition GC ::
  "md_unmarshal \<Rightarrow> md_marshal \<Rightarrow> tree_marshal \<Rightarrow> int \<Rightarrow> ('s, 'w) Storage \<Rightarrow> ctx \<Rightarrow> 's \<Rightarrow> err option \<times> 's" where
  "GC unmarshal marshal mar now S c s =
     (case loadMetadata unmarshal S c s of
        (Inl e, s1) \<Rightarrow> (Some e, s1)
      | (Inr metadata, s1) \<Rightarrow>
          (case collectLive mar (Versions metadata) (Trees metadata) ([], []) of
             Inl e \<Rightarrow> (Some e, s1)
           | Inr (liveTreeHashes, liveFileKeys) \<Rightarrow>
               let trees = filter (\<lambda>(h, _). h \<in> set liveTreeHashes) (Trees metadata);
                   files = filter (\<lambda>(k, _). k \<in> set liveFileKeys) (Files metadata);
                   metadataChanged = (length trees \<noteq> length (Trees metadata) \<or> length files \<noteq> length (Files metadata));
                   metadata = metadata\<lparr>Trees := trees, Files := files\<rparr>
               in if metadataChanged then
                    let metadata = metadata\<lparr>LastUpdated := Some now\<rparr> in
                    (case marshal metadata of
                       None \<Rightarrow> (Some (Errorf [Foreign ''proto'']), s1)
                     | Some newPbBytes \<Rightarrow>
                         (case st_Write S c metadataPath newPbBytes s1 of
                            (Some e, s2) \<Rightarrow> (Some (Errorf [e]), s2)
                          | (None, s2) \<Rightarrow> GC_sweep S c metadata s2))
                  else GC_sweep S c metadata s1))"

section \<open>Store metadata accessors\<close>

record StoreMetadata =
  sm_metadata :: BackupMetadata

definition ReadMetadata :: "md_unmarshal \<Rightarrow> ('s, 'w) Storage \<Rightarrow> ctx \<Rightarrow> 's \<Rightarrow> StoreMetadata result \<times> 's" where
  "ReadMetadata unmarshal S c s =
     (case loadMetadata unmarshal S c s of
        (Inl e, s') \<Rightarrow> (Inl e, s')
      | (Inr metadata, s') \<Rightarrow> (Inr \<lparr>sm_metadata = metadata\<rparr>, s'))"

definition Reload :: "md_unmarshal \<Rightarrow> ('s, 'w) Storage \<Rightarrow> ctx \<Rightarrow> StoreMetadata \<Rightarrow> 's \<Rightarrow> err option \<times> StoreMetadata \<times> 's" where
  "Reload unmarshal S c sm s =
     (case loadMetadata unmarshal S c s of
        (Inl e, s') \<Rightarrow> (Some e, sm, s')
      | (Inr metadata, s') \<Rightarrow> (None, sm\<lparr>sm_metadata := metadata\<rparr>, s'))"

definition sm_SchemaVersion :: "StoreMetadata \<Rightarrow> 32 word" where
  "sm_SchemaVersion sm = SchemaVersion (sm_metadata sm)"

definition sm_StoreLabel :: "StoreMetadata \<Rightarrow> string" where
  "sm_StoreLabel sm = (case StoreLabel (sm_metadata sm) of None \<Rightarrow> [] | Some l \<Rightarrow> l)"

definition sm_LastUpdated :: "StoreMetadata \<Rightarrow> int" where
  "sm_LastUpdated sm = (case LastUpdated (sm_metadata sm) of None \<Rightarrow> zeroTime | Some t \<Rightarrow> t)"

definition sm_PublicKeys :: "StoreMetadata \<Rightarrow> (string, bytes) gomap" where
  "sm_PublicKeys sm = gm_copy [] (PublicKeys (sm_metadata sm))"

fun sm_latest_loop :: "(string, Version) gomap \<Rightarrow> Version option \<Rightarrow> Version option" where
  "sm_latest_loop [] latest = latest"
| "sm_latest_loop ((k, v) # vs) latest =
     (case latest of
        None \<Rightarrow> sm_latest_loop vs (Some v)
      | Some l \<Rightarrow>
          if AsTime (BackupTimestamp l) < AsTime (BackupTimestamp v)
          then sm_latest_loop vs (Some v) else sm_latest_loop vs (Some l))"

definition sm_LatestVersion :: "StoreMetadata \<Rightarrow> Version option" where
  "sm_LatestVersion sm =
     (if Versions (sm_metadata sm) = [] then None else sm_latest_loop (Versions (sm_metadata sm)) None)"

text \<open>\<open>sort.Slice\<close> with a non-strict order may return any permutation sorted by it; the model
  takes the stable one.\<close>

definition sm_Versions :: "StoreMetadata \<Rightarrow> Version list" where
  "sm_Versions sm = sort_key (\<lambda>v. - AsTime (BackupTimestamp v)) (map snd (Versions (sm_metadata sm)))"

definition HasVersion :: "StoreMetadata \<Rightarrow> 64 word \<Rightarrow> bool" where
  "HasVersion sm versionID = gm_has (Versions (sm_metadata sm)) (FormatUint versionID)"

definition sm_Files :: "StoreMetadata \<Rightarrow> (string, FileRecord) gomap" where
  "sm_Files sm = gm_copy [] (Files (sm_metadata sm))"

definition GetFileRecord :: "StoreMetadata \<Rightarrow> string \<Rightarrow> FileRecord option" where
  "GetFileRecord sm fileKey = gm_get (Files (sm_metadata sm)) fileKey"


section \<open>What survives a removal\<close>

text \<open>The walk of a tree looks only at the nodes reachable from it.\<close>

lemma walkEntries_agree:
  assumes "\<And>e x px st. e \<in> set es \<Longrightarrow> te_Node e = TreeEntry_SubtreeHash x \<Longrightarrow>
    walkTree mar n x px trees' skip st = walkTree mar n x px trees skip st"
  shows "walkEntries mar n es px trees' skip st = walkEntries mar n es px trees skip st"
  using assms
proof (induction es arbitrary: st)
  case (Cons e es)
  have IH: "walkEntries mar n es px trees' skip st = walkEntries mar n es px trees skip st" for st
    by (rule Cons.IH, rule Cons.prems) auto
  have sub: "walkTree mar n x px trees' skip st = walkTree mar n x px trees skip st"
    if "te_Node e = TreeEntry_SubtreeHash x" for x px st
    by (rule Cons.prems [OF _ that]) simp
  show ?case
    by (cases "te_Node e") (simp_all only: walkEntries.simps Let_def IH sub TreeEntry_Node.case
        cong: option.case_cong sum.case_cong)
qed simp

lemma walk_agree:
  "(\<And>x. x \<in> live_from trees {h} \<Longrightarrow> gm_get trees' x = gm_get trees x) \<Longrightarrow>
     walkTree mar n h px trees' skip st = walkTree mar n h px trees skip st"
proof (induction n arbitrary: h px st)
  case (Suc n)
  have same: "gm_get trees' h = gm_get trees h"
    using Suc.prems reach_refl by (auto simp: live_from_def)
  have "walkEntries mar n (tn_Entries node) px trees' skip st = walkEntries mar n (tn_Entries node) px trees skip st"
    if "gm_get trees h = Some node" for node
  proof (rule walkEntries_agree)
    fix e x px st assume "e \<in> set (tn_Entries node)" "te_Node e = TreeEntry_SubtreeHash x"
    then have "child trees h x" using that by (auto simp: child_def)
    then have "gm_get trees' y = gm_get trees y" if "y \<in> live_from trees {x}" for y
      using that live_from_child Suc.prems by blast
    then show "walkTree mar n x px trees' skip st = walkTree mar n x px trees skip st"
      by (rule Suc.IH)
  qed
  then show ?case
    by (auto simp: same split: option.splits)
qed simp

text \<open>
  A store is complete if every version can be resolved to the end: the trees below its root
  are there and intact, and every file they name has its record.
\<close>

definition md_complete :: "tree_marshal \<Rightarrow> BackupMetadata \<Rightarrow> bool" where
  "md_complete mar md \<longleftrightarrow>
     (\<forall>h \<in> live_from (Trees md) (roots (Versions md)). node_ok mar (Trees md) h) \<and>
     keys_from (Trees md) (roots (Versions md)) \<subseteq> fst ` set (Files md)"

text \<open>\<open>md'\<close> holds some versions of \<open>md\<close>, and all trees and records these need.\<close>

definition md_prunes :: "BackupMetadata \<Rightarrow> BackupMetadata \<Rightarrow> bool" where
  "md_prunes md md' \<longleftrightarrow>
     set (Versions md') \<subseteq> set (Versions md) \<and>
     (\<forall>h \<in> live_from (Trees md) (roots (Versions md')). gm_get (Trees md') h = gm_get (Trees md) h) \<and>
     (\<forall>k \<in> keys_from (Trees md) (roots (Versions md')). gm_get (Files md') k = gm_get (Files md) k) \<and>
     fst ` set (Files md') \<subseteq> fst ` set (Files md)"

lemma reach_agree:
  assumes "\<And>x. x \<in> live_from trees R \<Longrightarrow> gm_get trees' x = gm_get trees x"
  shows "live_from trees' R = live_from trees R"
proof -
  have fwd: "reach trees' r h" if "reach trees r h" "r \<in> R" for r h
    using that
  proof (induction rule: reach.induct)
    case (reach_step r h h')
    then have "gm_get trees' h = gm_get trees h" by (intro assms) (auto simp: live_from_def)
    with reach_step have "child trees' h h'" by (simp add: child_def)
    with reach_step show ?case by (blast intro: reach.reach_step)
  qed (rule reach_refl)
  have bwd: "reach trees r h" if "reach trees' r h" "r \<in> R" for r h
    using that
  proof (induction rule: reach.induct)
    case (reach_step r h h')
    then have "gm_get trees' h = gm_get trees h" by (intro assms) (auto simp: live_from_def)
    with reach_step have "child trees h h'" by (simp add: child_def)
    with reach_step show ?case by (blast intro: reach.reach_step)
  qed (rule reach_refl)
  from fwd bwd show ?thesis unfolding live_from_def by blast
qed

lemma keys_agree:
  assumes "\<And>x. x \<in> live_from trees R \<Longrightarrow> gm_get trees' x = gm_get trees x"
  shows "keys_from trees' R = keys_from trees R"
  using assms reach_agree [OF assms] by (auto simp: keys_from_def leafOf_def)

lemma roots_mono: "set vs \<subseteq> set vs' \<Longrightarrow> roots vs \<subseteq> roots vs'"
  by (auto simp: roots_def)

lemma md_prunes_complete:
  assumes "md_prunes md md'" and "md_complete mar md"
  shows "md_complete mar md'"
proof -
  have agree: "\<And>h. h \<in> live_from (Trees md) (roots (Versions md')) \<Longrightarrow> gm_get (Trees md') h = gm_get (Trees md) h"
    using assms(1) by (simp add: md_prunes_def)
  have sub: "live_from (Trees md) (roots (Versions md')) \<subseteq> live_from (Trees md) (roots (Versions md))"
    using assms(1) by (intro live_from_mono roots_mono) (simp add: md_prunes_def)
  have keys: "keys_from (Trees md) (roots (Versions md')) \<subseteq> fst ` set (Files md)"
  proof -
    have "keys_from (Trees md) (roots (Versions md')) \<subseteq> keys_from (Trees md) (roots (Versions md))"
      using sub by (auto simp: keys_from_def)
    with assms(2) show ?thesis unfolding md_complete_def by blast
  qed
  have "k \<in> fst ` set (Files md')" if "k \<in> keys_from (Trees md) (roots (Versions md'))" for k
  proof -
    have "gm_get (Files md') k = gm_get (Files md) k" "gm_get (Files md) k \<noteq> None"
      using keys that assms(1) gm_get_None_iff [of "Files md" k] by (auto simp: md_prunes_def)
    then show ?thesis by (metis gm_get_None_iff)
  qed
  then show ?thesis
    using agree sub assms(2)
    by (auto simp: md_complete_def reach_agree [OF agree] keys_agree [OF agree] node_ok_def)
qed

text \<open>A version that is kept resolves to the same files and directories as before.\<close>

lemma md_prunes_resolve:
  assumes "md_prunes md md'" and "md_wf md" and "md_wf md'" and "gm_has (Versions md') (FormatUint vid)"
  shows "ResolveVersionTree mar fuel md' vid skip = ResolveVersionTree mar fuel md vid skip"
proof -
  obtain v where v: "gm_get (Versions md') (FormatUint vid) = Some v" using assms(4) by auto
  then have mem: "(FormatUint vid, v) \<in> set (Versions md')" by (rule map_of_SomeD)
  then have v': "gm_get (Versions md) (FormatUint vid) = Some v"
    using assms(1,2) by (auto simp: md_prunes_def md_wf_def gm_get_in_set)
  have "{RootTreeHash v} \<subseteq> roots (Versions md')"
    using imageI [OF mem, of "RootTreeHash \<circ> snd"] by (simp add: roots_def)
  then have sub: "live_from (Trees md) {RootTreeHash v} \<subseteq> live_from (Trees md) (roots (Versions md'))"
    by (rule live_from_mono)
  have "gm_get (Trees md') x = gm_get (Trees md) x"
    if "x \<in> live_from (Trees md) {RootTreeHash v}" for x
    using subsetD [OF sub that] assms(1) by (simp add: md_prunes_def)
  then have "walkTree mar fuel (RootTreeHash v) [] (Trees md') skip ([], []) =
      walkTree mar fuel (RootTreeHash v) [] (Trees md) skip ([], [])"
    by (rule walk_agree)
  then show ?thesis
    by (simp add: ResolveVersionTree_def v v')
qed


section \<open>Removing versions is safe\<close>

lemma gm_get_fold_del: "gm_get (fold gm_del ks m) = (\<lambda>k. if k \<in> set ks then None else gm_get m k)"
  by (induction ks arbitrary: m) (auto simp: gm_get_del fun_eq_iff)

lemma gm_wf_fold_del [simp]: "gm_wf m \<Longrightarrow> gm_wf (fold gm_del ks m)"
  by (induction ks arbitrary: m) auto

lemma set_gm_del: "set (gm_del k m) \<subseteq> set m"
  by (auto simp: AList.delete_eq)

lemma gm_keys: "k \<in> fst ` set m \<longleftrightarrow> gm_has m k"
  by (metis gm_get_None_iff)

text \<open>The metadata that \<open>DeleteVersion\<close> and \<open>GC\<close> write back.\<close>

definition pruned :: "BackupMetadata \<Rightarrow> BackupMetadata \<Rightarrow> string list \<Rightarrow> string list \<Rightarrow> bool" where
  "pruned md md' lt lf \<longleftrightarrow>
     set (Versions md') \<subseteq> set (Versions md) \<and> SchemaVersion md' = SchemaVersion md \<and> md_wf md' \<and>
     gm_get (Trees md') = (\<lambda>h. if h \<in> set lt then gm_get (Trees md) h else None) \<and>
     gm_get (Files md') = (\<lambda>k. if k \<in> set lf then gm_get (Files md) k else None)"

lemma pruned_prunes:
  assumes "collectLive mar (Versions md') (Trees md) ([], []) = Inr (lt, lf)" and "pruned md md' lt lf"
  shows "md_prunes md md'"
proof -
  have lt: "set lt = live_from (Trees md) (roots (Versions md'))"
    and lf: "set lf = keys_from (Trees md) (roots (Versions md'))"
    using collectLive_exact [OF assms(1)] by auto
  have "fst ` set (Files md') \<subseteq> fst ` set (Files md)"
  proof
    fix k assume "k \<in> fst ` set (Files md')"
    then have "gm_get (Files md') k \<noteq> None" by (simp only: gm_keys not_False_eq_True)
    then have "gm_get (Files md) k \<noteq> None" using assms(2) by (simp add: pruned_def split: if_splits)
    then show "k \<in> fst ` set (Files md)" by (simp only: gm_keys not_False_eq_True)
  qed
  then show ?thesis
    using assms(2) by (simp add: md_prunes_def pruned_def lt [symmetric] lf [symmetric])
qed

lemma pruned_delete:
  assumes "md_wf md"
  shows "pruned md
    (md\<lparr>Versions := gm_del v (Versions md), LastUpdated := now,
        Trees := filter (\<lambda>(h, _). h \<in> set lt) (Trees md),
        Files := fold gm_del (filter (\<lambda>k. k \<notin> set lf) (map fst (Files md))) (Files md)\<rparr>) lt lf"
  using assms set_gm_del [of v "Versions md"] gm_get_None_iff [of "Files md"]
  by (auto simp: pruned_def md_wf_def gm_get_filter gm_get_fold_del fun_eq_iff)

lemma pruned_gc:
  assumes "md_wf md"
  shows "pruned md
    (md\<lparr>Trees := filter (\<lambda>(h, _). h \<in> set lt) (Trees md), Files := filter (\<lambda>(k, _). k \<in> set lf) (Files md),
        LastUpdated := now\<rparr>) lt lf"
  using assms by (simp add: pruned_def md_wf_def gm_get_filter)

lemma md_same_prunes:
  assumes "md_same a b" and "md_wf a" and "md_wf b" and "md_prunes md a"
  shows "md_prunes md b"
proof -
  have "set (Versions a) = set (Versions b)" "set (Files a) = set (Files b)"
    using assms(1-3) by (auto simp: md_same_def md_wf_def gm_same_set)
  then show ?thesis
    using assms(1,4) by (simp add: md_prunes_def md_same_def gm_same_def roots_def)
qed

text \<open>
  What the code relies on of the protobuf runtime: decoded messages have maps, and decoding an
  encoded message gives it back, up to the order in which its maps are iterated.
\<close>

definition md_codec :: "md_unmarshal \<Rightarrow> md_marshal \<Rightarrow> bool" where
  "md_codec unmarshal marshal \<longleftrightarrow>
     (\<forall>b md. unmarshal b = Some md \<longrightarrow> md_wf md) \<and>
     (\<forall>md b. md_wf md \<and> marshal md = Some b \<longrightarrow> (\<exists>md'. unmarshal b = Some md' \<and> md_same md md'))"

text \<open>The metadata a store holds, and the parts that its records name.\<close>

definition stored :: "md_unmarshal \<Rightarrow> ('s \<Rightarrow> string \<Rightarrow> bytes option) \<Rightarrow> 's \<Rightarrow> BackupMetadata option" where
  "stored unmarshal contents s = Option.bind (contents s metadataPath) unmarshal"

definition parts_present :: "('s \<Rightarrow> string \<Rightarrow> bytes option) \<Rightarrow> 's \<Rightarrow> BackupMetadata \<Rightarrow> bool" where
  "parts_present contents s md \<longleftrightarrow>
     (\<forall>k \<in> fst ` set (Files md). isValidFileKey k \<longrightarrow> contents s (partKeyFor k) \<noteq> None)"

lemma codec_wf: "md_codec unmarshal marshal \<Longrightarrow> stored unmarshal contents s = Some md \<Longrightarrow> md_wf md"
  by (auto simp: md_codec_def stored_def bind_eq_Some_conv)

text \<open>
  From \<open>s\<close> with metadata \<open>md\<close> to \<open>s'\<close> with metadata \<open>md'\<close> versions may have been removed, but
  the remaining ones have all they had: their trees, their records and the data of their parts.
\<close>

definition kept ::
  "('s \<Rightarrow> string \<Rightarrow> bytes option) \<Rightarrow> 's \<Rightarrow> BackupMetadata \<Rightarrow> 's \<Rightarrow> BackupMetadata \<Rightarrow> bool" where
  "kept contents s md s' md' \<longleftrightarrow>
     md_prunes md md' \<and> SchemaVersion md' = SchemaVersion md \<and>
     (\<forall>k \<in> fst ` set (Files md'). isValidFileKey k \<longrightarrow> contents s' (partKeyFor k) = contents s (partKeyFor k))"

lemma kept_parts: "kept contents s md s' md' \<Longrightarrow> parts_present contents s md \<Longrightarrow> parts_present contents s' md'"
  unfolding kept_def md_prunes_def parts_present_def by (metis subsetD)

lemma md_prunes_refl: "md_prunes md md"
  by (simp add: md_prunes_def)

lemma metadataPath_not_part: "metadataPath \<noteq> partKeyFor k"
proof
  assume "metadataPath = partKeyFor k"
  moreover have "CHR ''/'' \<in> set (partKeyFor k)" by (simp add: partKeyFor_def)
  ultimately have "CHR ''/'' \<in> set metadataPath" by simp
  then show False by (simp add: metadataPath_def)
qed

lemma valid_key_length: "isValidFileKey k \<Longrightarrow> 2 \<le> length k"
  by (simp add: isValidFileKey_scan)

lemma partKeyFor_valid_inj:
  "isValidFileKey k \<Longrightarrow> isValidFileKey k' \<Longrightarrow> partKeyFor k = partKeyFor k' \<longleftrightarrow> k = k'"
  using partKeyFor_inj valid_key_length by blast

locale keyed_storage = storage S contents key_ok inv w_open
  for S :: "('s, 'w) Storage" and contents and key_ok and inv and w_open +
  assumes key_tsync: "key_ok metadataPath"
    and key_part: "rx_match partKeyRegex p \<Longrightarrow> key_ok p"
begin

lemma key_partKeyFor: "isValidFileKey k \<Longrightarrow> key_ok (partKeyFor k)"
  by (rule key_part) (rule partKeyFor_matches)

lemma load_spec:
  assumes "inv s" and "loadMetadata unmarshal S c s = (r, s')"
  shows "inv s'" and "\<And>q. key_ok q \<Longrightarrow> contents s' q = contents s q"
    and "\<And>md. r = Inr md \<Longrightarrow> stored unmarshal contents s = Some md \<and> SchemaVersion md = 2"
    and "\<And>e. r = Inl e \<Longrightarrow> errIs e ErrNotFound \<Longrightarrow> contents s metadataPath = None"
proof -
  obtain rd where rd: "st_Read S c metadataPath s = (rd, s')" and r: "r = parseMetadata unmarshal rd"
    using assms(2) by (auto simp: loadMetadata_def split: prod.splits)
  note law = read_law [OF assms(1) key_tsync rd]
  show "inv s'" "\<And>q. key_ok q \<Longrightarrow> contents s' q = contents s q" using law by auto
  show "stored unmarshal contents s = Some md \<and> SchemaVersion md = 2" if "r = Inr md" for md
    using that law by (auto simp: r parseMetadata_ok stored_def)
  show "contents s metadataPath = None" if "r = Inl e" "errIs e ErrNotFound" for e
    using that law parseMetadata_not_found [of unmarshal rd e] r by auto
qed

lemma deleteParts_spec:
  "inv s \<Longrightarrow> inv (deleteParts S c keys s) \<and>
     (\<forall>q. key_ok q \<and> q \<notin> partKeyFor ` {k \<in> set keys. isValidFileKey k} \<longrightarrow>
        contents (deleteParts S c keys s) q = contents s q)"
proof (induction keys arbitrary: s)
  case (Cons key keys)
  show ?case
  proof (cases "isValidFileKey key")
    case True
    obtain e s1 where d: "st_Delete S c (partKeyFor key) s = (e, s1)" by fastforce
    have step: "deleteParts S c (key # keys) s = deleteParts S c keys s1"
      using True d by (simp add: fileKeyRegex_iff partKeyFor_def)
    have keys: "{k \<in> set (key # keys). isValidFileKey k} = insert key {k \<in> set keys. isValidFileKey k}"
      using True by auto
    from delete_law [OF Cons.prems key_partKeyFor [OF True] d] Cons.IH [of s1] show ?thesis
      unfolding step keys image_insert by auto
  next
    case False
    then show ?thesis using Cons by (auto simp: fileKeyRegex_iff)
  qed
qed simp

lemma sweepParts_spec:
  "inv s \<Longrightarrow> inv (sweepParts S c vp fs s) \<and>
     (\<forall>q. key_ok q \<and> (rx_match partKeyRegex q \<longrightarrow> pathBase q \<in> set vp) \<longrightarrow>
        contents (sweepParts S c vp fs s) q = contents s q)"
proof (induction fs arbitrary: s)
  case (Cons f fs)
  show ?case
  proof (cases "rx_match partKeyRegex (fi_Name f) \<and> pathBase (fi_Name f) \<notin> set vp")
    case True
    obtain e s1 where d: "st_Delete S c (fi_Name f) s = (e, s1)" by fastforce
    have "key_ok (fi_Name f)" using True by (blast intro: key_part)
    note law = delete_law [OF Cons.prems this d]
    from law Cons.IH [of s1] True d show ?thesis by auto
  next
    case False
    then show ?thesis using Cons by auto
  qed
qed simp

text \<open>What the store looks like after the metadata write of a removal.\<close>

lemma write_pruned:
  assumes codec: "md_codec unmarshal marshal" and "inv s" and md: "stored unmarshal contents s = Some md"
    and prunes: "md_prunes md md1" "SchemaVersion md1 = SchemaVersion md" "md_wf md1"
    and "marshal md1 = Some b" and wr: "st_Write S c metadataPath b s = (e, s')"
  shows "inv s'" and "\<And>q. key_ok q \<Longrightarrow> q \<noteq> metadataPath \<Longrightarrow> contents s' q = contents s q"
    and "\<exists>md'. stored unmarshal contents s' = Some md' \<and> (md_same md1 md' \<or> e \<noteq> None \<and> md' = md) \<and>
           kept contents s md s' md'"
proof -
  note law = write_law [OF assms(2) key_tsync wr]
  show "inv s'" "\<And>q. key_ok q \<Longrightarrow> q \<noteq> metadataPath \<Longrightarrow> contents s' q = contents s q"
    using law by auto
  then have parts: "contents s' (partKeyFor k) = contents s (partKeyFor k)" if "isValidFileKey k" for k
    using that key_partKeyFor metadataPath_not_part by metis
  obtain md2 where md2: "unmarshal b = Some md2" "md_same md1 md2" "md_wf md2"
    using codec prunes(3) assms(7) by (meson md_codec_def)
  have "md_prunes md md2" using md_same_prunes [OF md2(2) prunes(3) md2(3) prunes(1)] .
  then have kept2: "kept contents s md s' md2"
    using md2(2) prunes(2) parts by (simp add: kept_def md_same_def)
  have kept0: "kept contents s md s' md"
    using parts by (simp add: kept_def md_prunes_refl)
  show "\<exists>md'. stored unmarshal contents s' = Some md' \<and> (md_same md1 md' \<or> e \<noteq> None \<and> md' = md) \<and>
           kept contents s md s' md'"
    using law md2 md kept2 kept0 by (auto simp: stored_def)
qed

lemma kept_frame:
  assumes "kept contents s md s1 md'" and "\<And>k. k \<in> fst ` set (Files md') \<Longrightarrow> isValidFileKey k \<Longrightarrow>
    contents s2 (partKeyFor k) = contents s1 (partKeyFor k)"
  shows "kept contents s md s2 md'"
  using assms by (simp add: kept_def)

lemma kept_unchanged:
  assumes "\<And>q. key_ok q \<Longrightarrow> contents s' q = contents s q"
  shows "kept contents s md s' md" and "stored unmarshal contents s' = stored unmarshal contents s"
  using assms key_tsync key_partKeyFor by (auto simp: kept_def md_prunes_refl stored_def)

lemma kept_from:
  assumes "kept contents s1 md s2 md'" and "\<And>q. key_ok q \<Longrightarrow> contents s1 q = contents s q"
  shows "kept contents s md s2 md'"
  using assms key_partKeyFor by (simp add: kept_def)

text \<open>
  The shared tail of the removals: once the metadata \<open>md1\<close> without the orphans is written, the
  parts \<open>keys\<close> of the removed records are deleted.
\<close>

lemma delete_after_write:
  assumes kept: "kept contents s md s2 md'" and st: "stored unmarshal contents s2 = Some md'" and "inv s2"
    and gone: "\<And>k. k \<in> set keys \<Longrightarrow> \<not> gm_has (Files md') k"
  shows "inv (deleteParts S c keys s2)" and "stored unmarshal contents (deleteParts S c keys s2) = Some md'"
    and "kept contents s md (deleteParts S c keys s2) md'"
proof -
  note dp = deleteParts_spec [OF assms(3), of c keys]
  then show "inv (deleteParts S c keys s2)" by simp
  have "metadataPath \<notin> partKeyFor ` {k \<in> set keys. isValidFileKey k}"
    using metadataPath_not_part by blast
  with dp st key_tsync show "stored unmarshal contents (deleteParts S c keys s2) = Some md'"
    by (simp add: stored_def)
  show "kept contents s md (deleteParts S c keys s2) md'"
  proof (rule kept_frame [OF kept])
    fix k assume k: "k \<in> fst ` set (Files md')" "isValidFileKey k"
    then have "k \<notin> set keys" using gone by (auto simp only: gm_keys)
    then have "partKeyFor k \<notin> partKeyFor ` {k \<in> set keys. isValidFileKey k}"
      using k(2) partKeyFor_valid_inj by blast
    with dp key_partKeyFor [OF k(2)]
    show "contents (deleteParts S c keys s2) (partKeyFor k) = contents s2 (partKeyFor k)" by simp
  qed
qed

lemma DeleteVersion_safe:
  assumes codec: "md_codec unmarshal marshal" and "inv s" and md: "stored unmarshal contents s = Some md"
    and run: "DeleteVersion unmarshal marshal mar now S c vid s = (e, s')"
  shows "inv s' \<and> (\<exists>md'. stored unmarshal contents s' = Some md' \<and> kept contents s md s' md' \<and>
    (\<forall>k. k \<noteq> FormatUint vid \<longrightarrow> gm_get (Versions md') k = gm_get (Versions md) k) \<and>
    (e = None \<longrightarrow> gm_get (Versions md') (FormatUint vid) = None))" (is ?goal)
proof -
  have wf: "md_wf md" by (rule codec_wf [OF codec md])
  obtain r s1 where load: "loadMetadata unmarshal S c s = (r, s1)" by fastforce
  note ls = load_spec [OF assms(2) load]
  note same = kept_unchanged [OF ls(2)]
  have unch: ?goal if "s' = s1" "e \<noteq> None"
    using that ls(1) same md by auto
  define md1 where "md1 = md\<lparr>Versions := gm_del (FormatUint vid) (Versions md), LastUpdated := Some now\<rparr>"
  define del where "del lf = filter (\<lambda>k. k \<notin> set lf) (map fst (Files md1))" for lf
  define md2 where "md2 lt lf = md1\<lparr>Trees := filter (\<lambda>(h, _). h \<in> set lt) (Trees md1),
      Files := fold gm_del (del lf) (Files md1)\<rparr>" for lt lf
  have wrote: ?goal
    if col: "collectLive mar (Versions md1) (Trees md1) ([], []) = Inr (lt, lf)"
      and mar: "marshal (md2 lt lf) = Some b" and wr: "st_Write S c metadataPath b s1 = (we, s2)"
      and res: "e = map_option (\<lambda>x. Errorf [x]) we" "s' = (if we = None then deleteParts S c (del lf) s2 else s2)"
    for lt lf b we s2
  proof -
    have pr: "pruned md (md2 lt lf) lt lf"
      unfolding md2_def md1_def del_def using pruned_delete [OF wf] by simp
    have "md_prunes md (md2 lt lf)"
      using col by (intro pruned_prunes [OF _ pr]) (simp add: md2_def md1_def)
    from write_pruned [OF codec ls(1) trans [OF same(2) md] this _ _ mar wr] pr obtain md'
      where w: "inv s2" "stored unmarshal contents s2 = Some md'" "kept contents s1 md s2 md'"
        "md_same (md2 lt lf) md' \<or> we \<noteq> None \<and> md' = md"
      by (auto simp: pruned_def)
    have k: "kept contents s md s2 md'" using w(3) ls(2) by (rule kept_from)
    have vers: "k \<noteq> FormatUint vid \<longrightarrow> gm_get (Versions md') k = gm_get (Versions md) k"
      "e = None \<longrightarrow> gm_get (Versions md') (FormatUint vid) = None" for k
    proof -
      have "gm_get (Versions md') = (gm_get (Versions md))(FormatUint vid := None) \<or> we \<noteq> None \<and> md' = md"
        using w(4) by (simp add: md_same_def gm_same_def md2_def md1_def gm_get_del) metis
      with res(1) show "k \<noteq> FormatUint vid \<longrightarrow> gm_get (Versions md') k = gm_get (Versions md) k"
        "e = None \<longrightarrow> gm_get (Versions md') (FormatUint vid) = None" by auto
    qed
    show ?goal
    proof (cases we)
      case None
      then have "gm_get (Files md') = gm_get (Files (md2 lt lf))"
        using w(4) by (simp add: md_same_def gm_same_def)
      then have "\<not> gm_has (Files md') x" if "x \<in> set (del lf)" for x
        using that by (simp add: md2_def gm_get_fold_del)
      with delete_after_write [OF k w(2,1)] vers res None show ?thesis by auto
    next
      case (Some x)
      with k w vers res show ?thesis by auto
    qed
  qed
  have body: "(e, s') = (if \<not> gm_has (Versions md) (FormatUint vid) then (Some (Errorf [Sentinel ErrVersionNotFound]), s1)
      else case collectLive mar (Versions md1) (Trees md1) ([], []) of
        Inl x \<Rightarrow> (Some x, s1)
      | Inr (lt, lf) \<Rightarrow>
          (case marshal (md2 lt lf) of
             None \<Rightarrow> (Some (Errorf [Foreign ''proto'']), s1)
           | Some b \<Rightarrow> (case st_Write S c metadataPath b s1 of
               (Some x, s2) \<Rightarrow> (Some (Errorf [x]), s2)
             | (None, s2) \<Rightarrow> (None, deleteParts S c (del lf) s2))))" if "r = Inr md0" for md0
  proof -
    have "md0 = md" using ls(3) that md by simp
    then have r: "r = Inr md" using that by simp
    show ?thesis
      using run [symmetric] unfolding DeleteVersion_def load r md2_def md1_def del_def Let_def prod.case sum.case .
  qed
  have "s' = s1 \<and> e \<noteq> None \<or> (\<exists>lt lf b we s2.
      collectLive mar (Versions md1) (Trees md1) ([], []) = Inr (lt, lf) \<and> marshal (md2 lt lf) = Some b \<and>
      st_Write S c metadataPath b s1 = (we, s2) \<and> e = map_option (\<lambda>x. Errorf [x]) we \<and>
      s' = (if we = None then deleteParts S c (del lf) s2 else s2))"
  proof (cases r)
    case (Inl x)
    with run load show ?thesis by (auto simp: DeleteVersion_def)
  next
    case (Inr md0)
    from body [OF Inr] show ?thesis
      by (auto split: if_splits sum.splits option.splits prod.splits)
  qed
  then show ?goal using unch wrote by blast
qed

text \<open>The sweep deletes only parts of keys that are not in the metadata.\<close>

lemma GC_sweep_spec:
  assumes "inv s" and "GC_sweep S c md s = (e, s')"
  shows "inv s'" and "contents s' metadataPath = contents s metadataPath"
    and "\<And>k. k \<in> fst ` set (Files md) \<Longrightarrow> isValidFileKey k \<Longrightarrow>
      contents s' (partKeyFor k) = contents s (partKeyFor k)"
proof -
  obtain rl s1 where l: "st_List S c [] s = (rl, s1)" by fastforce
  note law = list_law [OF assms(1) l]
  have fin: "inv s' \<and> (\<forall>q. key_ok q \<and> (rx_match partKeyRegex q \<longrightarrow> pathBase q \<in> fst ` set (Files md)) \<longrightarrow>
      contents s' q = contents s q)"
  proof (cases rl)
    case (Inl x)
    with l law assms(2) show ?thesis by (auto simp: GC_sweep_def)
  next
    case (Inr fs)
    with l assms(2) have s': "s' = sweepParts S c (map fst (Files md)) fs s1"
      by (simp add: GC_sweep_def)
    from law sweepParts_spec [of s1 c "map fst (Files md)" fs] show ?thesis
      unfolding s' by simp
  qed
  then show "inv s'" by simp
  have "\<not> rx_match partKeyRegex metadataPath"
  proof
    assume "rx_match partKeyRegex metadataPath"
    then obtain a b where "metadataPath = a @ ''/'' @ b" by (auto simp: partKeyRegex_iff)
    then have "CHR ''/'' \<in> set metadataPath" by (metis append_Cons in_set_conv_decomp)
    then show False by (simp add: metadataPath_def)
  qed
  with fin key_tsync show "contents s' metadataPath = contents s metadataPath" by simp
  show "contents s' (partKeyFor k) = contents s (partKeyFor k)"
    if "k \<in> fst ` set (Files md)" "isValidFileKey k" for k
    using fin that key_partKeyFor pathBase_partKeyFor by simp
qed

lemma sweep_kept:
  assumes k: "kept contents s md s1 md'" and st: "stored unmarshal contents s1 = Some md'" and "inv s1"
    and keys: "fst ` set (Files md') = fst ` set (Files md2)" and sw: "GC_sweep S c md2 s1 = (e, s')"
  shows "inv s'" and "stored unmarshal contents s' = Some md'" and "kept contents s md s' md'"
proof -
  note sp = GC_sweep_spec [OF assms(3) sw]
  show "inv s'" by (rule sp(1))
  show "stored unmarshal contents s' = Some md'" using st by (simp add: stored_def sp(2))
  show "kept contents s md s' md'" by (rule kept_frame [OF k]) (use sp(3) keys in simp)
qed

lemma md_same_keys: "md_same a b \<Longrightarrow> fst ` set (Files b) = fst ` set (Files a)"
  by (auto simp only: gm_keys set_eq_iff md_same_def gm_same_def)

lemma GC_safe:
  assumes codec: "md_codec unmarshal marshal" and "inv s" and md: "stored unmarshal contents s = Some md"
    and run: "GC unmarshal marshal mar now S c s = (e, s')"
  shows "inv s' \<and> (\<exists>md'. stored unmarshal contents s' = Some md' \<and> kept contents s md s' md' \<and>
    gm_get (Versions md') = gm_get (Versions md))" (is ?goal)
proof -
  have wf: "md_wf md" by (rule codec_wf [OF codec md])
  obtain r s1 where load: "loadMetadata unmarshal S c s = (r, s1)" by fastforce
  note ls = load_spec [OF assms(2) load]
  note same = kept_unchanged [OF ls(2)]
  have unch: ?goal if "s' = s1"
    using that ls(1) same md by auto
  define md1 where "md1 lt lf = md\<lparr>Trees := filter (\<lambda>(h, _). h \<in> set lt) (Trees md),
      Files := filter (\<lambda>(k, _). k \<in> set lf) (Files md)\<rparr>" for lt lf
  have swept: ?goal
    if "length (Trees (md1 lt lf)) = length (Trees md)" "length (Files (md1 lt lf)) = length (Files md)"
      "GC_sweep S c (md1 lt lf) s1 = (e, s')" for lt lf
  proof -
    have "Trees (md1 lt lf) = Trees md" "Files (md1 lt lf) = Files md"
      using that(1,2) by (simp_all add: md1_def) (metis length_filter_less less_irrefl filter_id_conv)+
    with sweep_kept [OF same(1) trans [OF same(2) md] ls(1) _ that(3)] show ?goal by auto
  qed
  have wrote: ?goal
    if col: "collectLive mar (Versions md) (Trees md) ([], []) = Inr (lt, lf)"
      and mar: "marshal (md1 lt lf\<lparr>LastUpdated := Some now\<rparr>) = Some b"
      and wr: "st_Write S c metadataPath b s1 = (we, s2)"
      and res: "we \<noteq> None \<and> s' = s2 \<or> we = None \<and> GC_sweep S c (md1 lt lf\<lparr>LastUpdated := Some now\<rparr>) s2 = (e, s')"
    for lt lf b we s2
  proof -
    let ?md2 = "md1 lt lf\<lparr>LastUpdated := Some now\<rparr>"
    have pr: "pruned md ?md2 lt lf"
      unfolding md1_def using pruned_gc [OF wf] by simp
    have "md_prunes md ?md2"
      using col by (intro pruned_prunes [OF _ pr]) (simp add: md1_def)
    from write_pruned [OF codec ls(1) trans [OF same(2) md] this _ _ mar wr] pr obtain md'
      where w: "inv s2" "stored unmarshal contents s2 = Some md'" "kept contents s1 md s2 md'"
        "md_same ?md2 md' \<or> we \<noteq> None \<and> md' = md"
      by (auto simp: pruned_def)
    have k: "kept contents s md s2 md'" using w(3) ls(2) by (rule kept_from)
    have vers: "gm_get (Versions md') = gm_get (Versions md)"
      using w(4) by (auto simp: md_same_def gm_same_def md1_def)
    show ?goal
    proof (cases we)
      case None
      with w(4) have "fst ` set (Files md') = fst ` set (Files ?md2)" by (intro md_same_keys) simp
      with sweep_kept [OF k w(2,1)] res None vers show ?thesis by blast
    next
      case (Some x)
      with k w vers res show ?thesis by auto
    qed
  qed
  have body: "(e, s') = (case collectLive mar (Versions md) (Trees md) ([], []) of
        Inl x \<Rightarrow> (Some x, s1)
      | Inr (lt, lf) \<Rightarrow>
          if length (filter (\<lambda>(h, _). h \<in> set lt) (Trees md)) \<noteq> length (Trees md) \<or>
             length (filter (\<lambda>(k, _). k \<in> set lf) (Files md)) \<noteq> length (Files md)
          then (case marshal (md1 lt lf\<lparr>LastUpdated := Some now\<rparr>) of
             None \<Rightarrow> (Some (Errorf [Foreign ''proto'']), s1)
           | Some b \<Rightarrow> (case st_Write S c metadataPath b s1 of
               (Some x, s2) \<Rightarrow> (Some (Errorf [x]), s2)
             | (None, s2) \<Rightarrow> GC_sweep S c (md1 lt lf\<lparr>LastUpdated := Some now\<rparr>) s2))
          else GC_sweep S c (md1 lt lf) s1)" if "r = Inr md0" for md0
  proof -
    have "md0 = md" using ls(3) that md by simp
    then have r: "r = Inr md" using that by simp
    show ?thesis
      using run [symmetric] unfolding GC_def load r md1_def Let_def prod.case sum.case .
  qed
  have md1_maps: "Trees (md1 lt lf) = filter (\<lambda>(h, _). h \<in> set lt) (Trees md)"
    "Files (md1 lt lf) = filter (\<lambda>(k, _). k \<in> set lf) (Files md)" for lt lf
    by (simp_all add: md1_def)
  have "s' = s1 \<or> (\<exists>lt lf. length (Trees (md1 lt lf)) = length (Trees md) \<and>
      length (Files (md1 lt lf)) = length (Files md) \<and> GC_sweep S c (md1 lt lf) s1 = (e, s')) \<or>
    (\<exists>lt lf b we s2. collectLive mar (Versions md) (Trees md) ([], []) = Inr (lt, lf) \<and>
      marshal (md1 lt lf\<lparr>LastUpdated := Some now\<rparr>) = Some b \<and> st_Write S c metadataPath b s1 = (we, s2) \<and>
      (we \<noteq> None \<and> s' = s2 \<or> we = None \<and> GC_sweep S c (md1 lt lf\<lparr>LastUpdated := Some now\<rparr>) s2 = (e, s')))"
  proof (cases r)
    case (Inl x)
    with run load show ?thesis by (auto simp: GC_def)
  next
    case (Inr md0)
    from body [OF Inr] show ?thesis
      unfolding md1_maps by (auto split: if_splits sum.splits option.splits prod.splits)
  qed
  then show ?goal using unch swept wrote by blast
qed

text \<open>If no deletion fails, a successful sweep leaves no orphaned part.\<close>

lemma sweepParts_complete:
  assumes "\<And>p s. inv s \<Longrightarrow> fst (st_Delete S c p s) = None"
  shows "inv s \<Longrightarrow> key_ok q \<Longrightarrow> rx_match partKeyRegex q \<Longrightarrow> pathBase q \<notin> set vp \<Longrightarrow>
    q \<in> fi_Name ` set fs \<or> contents s q = None \<Longrightarrow> contents (sweepParts S c vp fs s) q = None"
proof (induction fs arbitrary: s)
  case (Cons f fs)
  show ?case
  proof (cases "rx_match partKeyRegex (fi_Name f) \<and> pathBase (fi_Name f) \<notin> set vp")
    case True
    obtain e s1 where d: "st_Delete S c (fi_Name f) s = (e, s1)" by fastforce
    then have "e = None" using assms [OF Cons.prems(1), of "fi_Name f"] by simp
    have "key_ok (fi_Name f)" using True by (blast intro: key_part)
    note law = delete_law [OF Cons.prems(1) this d]
    have "q \<in> fi_Name ` set fs \<or> contents s1 q = None"
      using Cons.prems(2,5) law \<open>e = None\<close> by (cases "q = fi_Name f") auto
    with Cons.IH [of s1] Cons.prems law True d show ?thesis by simp
  next
    case False
    with Cons.prems have "q \<in> fi_Name ` set fs \<or> contents s q = None" by auto
    with Cons.IH [of s] Cons.prems False show ?thesis by auto
  qed
qed simp

lemma GC_sweep_complete:
  assumes "inv s" and "GC_sweep S c md s = (None, s')" and "\<And>p s. inv s \<Longrightarrow> fst (st_Delete S c p s) = None"
    and "rx_match partKeyRegex q" and "contents s' q \<noteq> None"
  shows "pathBase q \<in> fst ` set (Files md)"
proof (rule ccontr)
  assume no: "pathBase q \<notin> fst ` set (Files md)"
  obtain fs s1 where l: "st_List S c [] s = (Inr fs, s1)" and s': "s' = sweepParts S c (map fst (Files md)) fs s1"
    using assms(2) by (auto simp: GC_sweep_def split: prod.splits sum.splits)
  have q: "key_ok q" using assms(4) by (rule key_part)
  note law = list_law [OF assms(1) l]
  have "contents s' q = None"
    unfolding s' using law q no assms(4) by (intro sweepParts_complete [OF assms(3)]) auto
  with assms(5) show False by simp
qed

end

end
