(* ===== verification/Crypto.thy ===== *)
theory Crypto
  imports Errors
begin

text \<open>
  Passwords of parts (\<open>src/tsync/crypto.go\<close>). The NaCl box and the random source are outside
  the sources: \<open>GenerateKey\<close>, \<open>Seal\<close> and \<open>Open\<close> are the fields of \<open>naclBox\<close>, random bytes are
  arguments (an error of the random source is \<open>Inl\<close>).
\<close>

definition charset :: string where
  "charset = ''abcdefghijklmnopqrstuvwxyzABCDEFGHIJKLMNOPQRSTUVWXYZ0123456789!@#$%^&*()_+-=''"

definition GenerateZipCryptoPassword :: "bytes result \<Rightarrow> string result" where
  "GenerateZipCryptoPassword rnd =
     (case rnd of
        Inl e \<Rightarrow> Inl e
      | Inr bs \<Rightarrow> Inr (map (\<lambda>b. charset ! (unat b mod length charset)) (take 32 bs)))"

text \<open>\<open>Seal(out, message, nonce, peersPublicKey, privateKey)\<close> appends to \<open>out\<close>.\<close>

record naclBox =
  nb_Seal :: "bytes \<Rightarrow> bytes \<Rightarrow> bytes \<Rightarrow> bytes \<Rightarrow> bytes \<Rightarrow> bytes"
  nb_Open :: "bytes \<Rightarrow> bytes \<Rightarrow> bytes \<Rightarrow> bytes \<Rightarrow> bytes option"

definition str_bytes :: "string \<Rightarrow> bytes" where
  "str_bytes s = map (\<lambda>c. word_of_nat (of_char c)) s"

definition bytes_str :: "bytes \<Rightarrow> string" where
  "bytes_str bs = map (\<lambda>b. char_of (unat b)) bs"

lemma bytes_str_bytes [simp]: "bytes_str (str_bytes s) = s"
proof -
  have "(char_of (unat (word_of_nat (of_char c) :: byte)) :: char) = c" for c
  proof -
    have "(of_char c :: nat) < 256" by simp
    then have "unat (word_of_nat (of_char c) :: byte) = of_char c" by (simp add: unat_of_nat)
    then show ?thesis by simp
  qed
  then show ?thesis by (simp add: bytes_str_def str_bytes_def comp_def)
qed

text \<open>\<open>keys\<close> is the outcome of \<open>box.GenerateKey\<close> (public, private), \<open>nonceR\<close> that of reading the nonce.\<close>

definition EncryptPassword ::
  "naclBox \<Rightarrow> (bytes \<times> bytes) result \<Rightarrow> bytes result \<Rightarrow> string \<Rightarrow> bytes \<Rightarrow> (bytes \<times> bytes) result" where
  "EncryptPassword nb keys nonceR password vmPubKey =
     (if length vmPubKey \<noteq> 32 then Inl (Errorf [Sentinel ErrInvalidOptions])
      else case keys of
             Inl e \<Rightarrow> Inl (Errorf [e])
           | Inr (ephPub, ephPriv) \<Rightarrow>
               (case nonceR of
                  Inl e \<Rightarrow> Inl (Errorf [e])
                | Inr nonce \<Rightarrow> Inr (ephPub, nb_Seal nb nonce (str_bytes password) nonce vmPubKey ephPriv)))"

definition DecryptPassword :: "naclBox \<Rightarrow> bytes \<Rightarrow> bytes \<Rightarrow> bytes \<Rightarrow> string result" where
  "DecryptPassword nb encryptedPassword ephPubKey vmPrivKey =
     (if length ephPubKey \<noteq> 32 then Inl (Errorf [Sentinel ErrDecryptionFailed])
      else if length vmPrivKey \<noteq> 32 then Inl (Errorf [Sentinel ErrInvalidOptions])
      else if length encryptedPassword < 24 + 16 then Inl (Errorf [Sentinel ErrDecryptionFailed])
      else
        let nonce = take 24 encryptedPassword; ciphertext = drop 24 encryptedPassword
        in case nb_Open nb ciphertext nonce ephPubKey vmPrivKey of
             None \<Rightarrow> Inl (Errorf [Sentinel ErrDecryptionFailed])
           | Some decrypted \<Rightarrow> Inr (bytes_str decrypted))"

text \<open>
  The documented behaviour of the box: \<open>Seal\<close> appends a ciphertext of the message's length plus
  16 bytes, and \<open>Open\<close> inverts it for the same nonce and the matching keys.
\<close>

definition box_law :: "naclBox \<Rightarrow> bytes \<times> bytes \<Rightarrow> bytes \<times> bytes \<Rightarrow> bool" where
  "box_law nb eph vm \<longleftrightarrow>
     (\<forall>out m n. length n = 24 \<longrightarrow>
        (\<exists>ct. nb_Seal nb out m n (fst vm) (snd eph) = out @ ct \<and> length ct = length m + 16 \<and>
              nb_Open nb ct n (fst eph) (snd vm) = Some m))"

lemma password_length: "GenerateZipCryptoPassword (Inr bs) = Inr p \<Longrightarrow> 32 \<le> length bs \<Longrightarrow> length p = 32"
  by (auto simp: GenerateZipCryptoPassword_def)

lemma password_charset: "GenerateZipCryptoPassword rnd = Inr p \<Longrightarrow> set p \<subseteq> set charset"
proof -
  have "charset ! (n mod length charset) \<in> set charset" for n
    by (rule nth_mem) (simp add: charset_def)
  then show "GenerateZipCryptoPassword rnd = Inr p \<Longrightarrow> ?thesis"
    by (auto simp: GenerateZipCryptoPassword_def split: sum.splits)
qed

lemma encrypt_decrypt:
  assumes "EncryptPassword nb (Inr eph) (Inr nonce) password (fst vm) = Inr (ephPub, enc)"
    and "box_law nb eph vm" and "length nonce = 24" and "length (fst eph) = 32" and "length (snd vm) = 32"
  shows "DecryptPassword nb enc ephPub (snd vm) = Inr password"
proof -
  obtain ct where ct: "nb_Seal nb nonce (str_bytes password) nonce (fst vm) (snd eph) = nonce @ ct"
    "length ct = length (str_bytes password) + 16"
    "nb_Open nb ct nonce (fst eph) (snd vm) = Some (str_bytes password)"
    using assms(2,3) unfolding box_law_def by blast
  from assms(1) ct have "ephPub = fst eph" "enc = nonce @ ct"
    by (auto simp: EncryptPassword_def split: if_splits prod.splits)
  with ct assms(3-5) show ?thesis
    by (simp add: DecryptPassword_def)
qed

lemma EncryptPassword_bad_key: "length k \<noteq> 32 \<Longrightarrow> EncryptPassword nb ks n p k = Inl (Errorf [Sentinel ErrInvalidOptions])"
  by (simp add: EncryptPassword_def)

end
