(* ===== verification/Backup.thy ===== *)
theory Backup
  imports TreeHash Client Crypto
begin

text \<open>
  A backup run (\<open>src/tsync/backup.go\<close>): the checks of the options and of the store, the choice
  of the key, the upload of one part, gathering the results, and the commit. The concurrent
  phase between them is \<open>BackupWorkers\<close>. The world \<open>'s\<close> holds the destination and the source:
  opening a source twice may give different content. The zip library is a record of functions.
\<close>

section \<open>Entries, options and the zip library\<close>

record 's SourceEntry =
  se_Path :: string
  se_Size :: int
  se_CompressedSize :: int
  se_LastModified :: int
  se_CRC32 :: "32 word"
  se_IsDir :: bool
  se_Open :: "('s \<Rightarrow> reader result \<times> 's) option"
  se_IsEncryptedRaw :: bool
  se_OpenRaw :: "('s \<Rightarrow> reader result \<times> 's) option"
  se_CompressionMethod :: nat
  se_OpenRawCompressed :: "('s \<Rightarrow> reader result \<times> 's) option"

record BackupOptions =
  bo_Label :: string
  bo_SingleVersionMode :: bool
  bo_FilterFunc :: "(string \<Rightarrow> bool result) option"
  bo_Concurrency :: int
  bo_KeyID :: string
  bo_PublicKeys :: "(string, bytes) gomap"
  bo_EphPublicKey :: bytes
  bo_EncryptedPassword :: bytes
  bo_CompressionLevel :: "int option"
  bo_GetCompressionLevel :: "(string \<Rightarrow> int option) option"
  bo_CustomVersionID :: "64 word"
  bo_CustomBackupTimestamp :: int

record zipHeader =
  zh_Name :: string
  zh_Method :: nat
  zh_Level :: int
  zh_CRC32 :: "32 word"
  zh_CompressedSize64 :: "64 word"
  zh_UncompressedSize64 :: "64 word"
  zh_ModTime :: "int option"
  zh_Password :: string

text \<open>
  The zip library: \<open>CreateFileParts\<close> and \<open>CreateRawFileParts\<close> on a header, fed with some content:
  the chunks they write while it is copied in, and what their \<open>Close\<close> does: the chunks it writes
  and the header it leaves.
\<close>

record zipLib =
  zl_CreateFileParts :: "zipHeader \<Rightarrow> bytes \<Rightarrow> (bytes list \<times> (bytes list \<times> zipHeader) result) result"
  zl_CreateRawFileParts :: "zipHeader \<Rightarrow> bytes \<Rightarrow> (bytes list \<times> (bytes list \<times> zipHeader) result) result"

definition futureTimestampTolerance :: int where
  "futureTimestampTolerance = 3600 * 1000000000"

definition invalidOptions :: err where "invalidOptions = Errorf [Sentinel ErrInvalidOptions]"

definition validateBackupOptions :: "int \<Rightarrow> BackupOptions \<Rightarrow> err option" where
  "validateBackupOptions now opts =
     (if list_ex (\<lambda>(k, pk). length pk \<noteq> 32) (bo_PublicKeys opts) then Some invalidOptions
      else if 0 < length (bo_EphPublicKey opts) \<and> length (bo_EphPublicKey opts) \<noteq> 32 then Some invalidOptions
      else if 0 < length (bo_EncryptedPassword opts) \<and> length (bo_EncryptedPassword opts) < 40 then Some invalidOptions
      else if bo_KeyID opts \<noteq> [] \<and> bo_PublicKeys opts \<noteq> [] \<and> \<not> gm_has (bo_PublicKeys opts) (bo_KeyID opts)
      then Some (Errorf [Sentinel ErrKeyNotFound])
      else if 2 ^ 63 - 1 < bo_CustomVersionID opts then Some invalidOptions
      else if bo_CustomBackupTimestamp opts \<noteq> zeroTime \<and>
              now + futureTimestampTolerance < bo_CustomBackupTimestamp opts
      then Some (Errorf [Sentinel ErrTimestampInFuture])
      else case bo_CompressionLevel opts of
             None \<Rightarrow> None
           | Some lvl \<Rightarrow> (case resolveCompression lvl of Inl e \<Rightarrow> Some e | Inr _ \<Rightarrow> None))"

definition isDirEntry :: "'s SourceEntry \<Rightarrow> bool" where
  "isDirEntry e \<longleftrightarrow> se_IsDir e \<or> HasSuffix (se_Path e) ''/''"

section \<open>Uploading one part\<close>

text \<open>The read-only part of \<open>backupRun\<close>; the flights belong to the concurrent state.\<close>

record backupRun =
  br_opts :: BackupOptions
  br_compMethod :: nat
  br_compLevel :: int
  br_ephPubKey :: bytes
  br_encryptedZipPass :: bytes
  br_clearZipPass :: string
  br_keyID :: string
  br_existing :: "(string, FileRecord) gomap"

definition compressionFor :: "backupRun \<Rightarrow> string \<Rightarrow> (nat \<times> int) result" where
  "compressionFor r p =
     (case bo_GetCompressionLevel (br_opts r) of
        Some f \<Rightarrow>
          (case f p of
             Some lvl \<Rightarrow> (case resolveCompression lvl of Inl e \<Rightarrow> Inl (Errorf [e]) | Inr ml \<Rightarrow> Inr ml)
           | None \<Rightarrow> Inr (br_compMethod r, br_compLevel r))
      | None \<Rightarrow> Inr (br_compMethod r, br_compLevel r))"

text \<open>Chunks written to a part writer, until one fails.\<close>

fun writeChunks ::
  "('s, 'w) Storage \<Rightarrow> bytes list \<Rightarrow> 'w \<Rightarrow> 's \<Rightarrow> err option \<times> 'w \<times> 's" where
  "writeChunks S [] w s = (None, w, s)"
| "writeChunks S (b # bs) w s =
     (case wr_Write S w b s of
        ((n, Some e), w', s') \<Rightarrow> (Some e, w', s')
      | ((n, None), w', s') \<Rightarrow> writeChunks S bs w' s')"

text \<open>\<open>pooledCopy\<close> reads and writes in pieces of 256 KiB.\<close>

definition copyBufSize :: nat where "copyBufSize = 256 * 1024"

function chunksOf :: "bytes \<Rightarrow> bytes list" where
  "chunksOf b = (if b = [] then [] else take copyBufSize b # chunksOf (drop copyBufSize b))"
  by pat_completeness auto
termination
  by (relation "measure length") (auto simp: copyBufSize_def)

declare chunksOf.simps [simp del]

definition pooledCopy :: "('s, 'w) Storage \<Rightarrow> 'w \<Rightarrow> reader \<Rightarrow> 's \<Rightarrow> err option \<times> 'w \<times> 's" where
  "pooledCopy S w rc s =
     (case writeChunks S (chunksOf (fst rc)) w s of
        (Some e, w', s') \<Rightarrow> (Some e, w', s')
      | (None, w', s') \<Rightarrow> (snd rc, w', s'))"

definition copyRawPart ::
  "('s, 'w) Storage \<Rightarrow> 'w \<Rightarrow> reader \<Rightarrow> 's SourceEntry \<Rightarrow> 's \<Rightarrow> err option \<times> 'w \<times> 's" where
  "copyRawPart S w rc entry s =
     (case pooledCopy S w rc s of
        (Some e, w', s') \<Rightarrow> (Some (Errorf [e]), w', s')
      | (None, w', s') \<Rightarrow>
          (if int (length (fst rc)) < se_CompressedSize entry then Some (Errorf [Sentinel ErrCorruptZip]) else None, w', s'))"

text \<open>A zip part writer fed from \<open>rc\<close> onto the storage writer; \<open>mk\<close> is the library's constructor.\<close>

definition zipCopy ::
  "('s, 'w) Storage \<Rightarrow> (zipHeader \<Rightarrow> bytes \<Rightarrow> (bytes list \<times> (bytes list \<times> zipHeader) result) result) \<Rightarrow>
     zipHeader \<Rightarrow> 'w \<Rightarrow> reader \<Rightarrow> 's \<Rightarrow> zipHeader result \<times> 'w \<times> 's" where
  "zipCopy S mk fh w rc s =
     (case mk fh (fst rc) of
        Inl e \<Rightarrow> (Inl (Errorf [e]), w, s)
      | Inr (chunks, closing) \<Rightarrow>
          (case writeChunks S chunks w s of
             (Some e, w, s) \<Rightarrow> (Inl (Errorf [e]), w, s)
           | (None, w, s) \<Rightarrow>
               (case snd rc of
                  Some e \<Rightarrow> (Inl (Errorf [e]), w, s)
                | None \<Rightarrow>
                    (case closing of
                       Inl e \<Rightarrow> (Inl (Errorf [e]), w, s)
                     | Inr (chunks', fh') \<Rightarrow>
                         (case writeChunks S chunks' w s of
                            (Some e, w, s) \<Rightarrow> (Inl (Errorf [e]), w, s)
                          | (None, w, s) \<Rightarrow> (Inr fh', w, s))))))"

definition writeRawCompressedPart ::
  "zipLib \<Rightarrow> backupRun \<Rightarrow> ('s, 'w) Storage \<Rightarrow> 'w \<Rightarrow> reader \<Rightarrow> 's SourceEntry \<Rightarrow> 's \<Rightarrow> int result \<times> 'w \<times> 's" where
  "writeRawCompressedPart Z r S w rc entry s =
     (let fh = \<lparr>zh_Name = pathBase (se_Path entry), zh_Method = se_CompressionMethod entry, zh_Level = 0,
                zh_CRC32 = se_CRC32 entry, zh_CompressedSize64 = word_of_int (se_CompressedSize entry),
                zh_UncompressedSize64 = word_of_int (se_Size entry), zh_ModTime = Some (se_LastModified entry),
                zh_Password = br_clearZipPass r\<rparr>
      in case zipCopy S (zl_CreateRawFileParts Z) fh w rc s of
           (Inl e, w', s') \<Rightarrow> (Inl e, w', s')
         | (Inr fh', w', s') \<Rightarrow> (Inr (sint (zh_CompressedSize64 fh')), w', s'))"

definition writeCompressedPart ::
  "zipLib \<Rightarrow> backupRun \<Rightarrow> ('s, 'w) Storage \<Rightarrow> 'w \<Rightarrow> reader \<Rightarrow> 's SourceEntry \<Rightarrow> nat \<Rightarrow> int \<Rightarrow> 's \<Rightarrow>
     (32 word \<times> int \<times> int) result \<times> 'w \<times> 's" where
  "writeCompressedPart Z r S w rc entry method level s =
     (let fh = \<lparr>zh_Name = pathBase (se_Path entry), zh_Method = method, zh_Level = level,
                zh_CRC32 = 0, zh_CompressedSize64 = 0, zh_UncompressedSize64 = 0, zh_ModTime = None,
                zh_Password = br_clearZipPass r\<rparr>
      in case zipCopy S (zl_CreateFileParts Z) fh w rc s of
           (Inl e, w', s') \<Rightarrow> (Inl e, w', s')
         | (Inr fh', w', s') \<Rightarrow>
             (Inr (zh_CRC32 fh', sint (zh_UncompressedSize64 fh'), sint (zh_CompressedSize64 fh')), w', s'))"

text \<open>The outcome of producing the content of a part: CRC, uncompressed and compressed size.\<close>

definition producePart ::
  "zipLib \<Rightarrow> backupRun \<Rightarrow> ('s, 'w) Storage \<Rightarrow> 'w \<Rightarrow> reader \<Rightarrow> 's SourceEntry \<Rightarrow> nat \<Rightarrow> int \<Rightarrow> 's \<Rightarrow>
     (32 word \<times> int \<times> int) result \<times> 'w \<times> 's" where
  "producePart Z r S w rc entry method level s =
     (if se_IsEncryptedRaw entry then
        (case copyRawPart S w rc entry s of
           (Some e, w', s') \<Rightarrow> (Inl e, w', s')
         | (None, w', s') \<Rightarrow> (Inr (se_CRC32 entry, se_Size entry, se_CompressedSize entry), w', s'))
      else if se_OpenRawCompressed entry \<noteq> None then
        (case writeRawCompressedPart Z r S w rc entry s of
           (Inl e, w', s') \<Rightarrow> (Inl e, w', s')
         | (Inr compSize, w', s') \<Rightarrow> (Inr (se_CRC32 entry, se_Size entry, compSize), w', s'))
      else writeCompressedPart Z r S w rc entry method level s)"

definition abortWriter :: "('s, 'w) Storage \<Rightarrow> 'w \<Rightarrow> 's \<Rightarrow> err option \<times> 's" where
  "abortWriter S w s = (case wr_Abort S w s of (e, w', s') \<Rightarrow> (e, s'))"

definition openFor :: "'s SourceEntry \<Rightarrow> ('s \<Rightarrow> reader result \<times> 's) option" where
  "openFor entry =
     (if se_IsEncryptedRaw entry then se_OpenRaw entry
      else if se_OpenRawCompressed entry \<noteq> None then se_OpenRawCompressed entry
      else se_Open entry)"

definition newFileRecord :: "backupRun \<Rightarrow> 's SourceEntry \<Rightarrow> 32 word \<times> int \<times> int \<Rightarrow> FileRecord" where
  "newFileRecord r entry c =
     \<lparr>EphemeralPublicKey = br_ephPubKey r, EncryptedZipPassword = br_encryptedZipPass r,
      KeyId = (if br_keyID r \<noteq> [] then Some (br_keyID r) else None),
      fr_Crc32 = fst c, fr_CompressedSize = snd (snd c), fr_UncompressedSize = fst (snd c),
      fr_LastModified = Some (se_LastModified entry)\<rparr>"

definition uploadPart ::
  "zipLib \<Rightarrow> backupRun \<Rightarrow> ('s, 'w) Storage \<Rightarrow> ctx \<Rightarrow> string \<Rightarrow> 's SourceEntry \<Rightarrow> 's \<Rightarrow> FileRecord result \<times> 's" where
  "uploadPart Z r S c key entry s =
     (case compressionFor r (se_Path entry) of
        Inl e \<Rightarrow> (Inl e, s)
      | Inr (method, level) \<Rightarrow>
          (case openFor entry of
             None \<Rightarrow> (Inl invalidOptions, s)
           | Some open \<Rightarrow>
               (case open s of
                  (Inl e, s) \<Rightarrow> (Inl (Errorf [e]), s)
                | (Inr rc, s) \<Rightarrow>
                    (case st_OpenWriter S c (partKeyFor key) s of
                       (Inl e, s) \<Rightarrow> (Inl (Errorf [e]), s)
                     | (Inr w, s) \<Rightarrow>
                         (case producePart Z r S w rc entry method level s of
                            (res, w, s) \<Rightarrow>
                              (case (case res of
                                       Inl e \<Rightarrow> Inl e
                                     | Inr (crc, uncompSize, compSize) \<Rightarrow>
                                         if fileKeyFor crc uncompSize \<noteq> key then Inl (Errorf [Sentinel ErrSourceChanged])
                                         else Inr (crc, uncompSize, compSize)) of
                                 Inl e \<Rightarrow>
                                   (case abortWriter S w s of
                                      (ae, s) \<Rightarrow> (Inl (the (joinErr (Some e) ae)), s))
                               | Inr sizes \<Rightarrow>
                                   (case wr_Close S w s of
                                      (Some e, w, s) \<Rightarrow> (Inl (Errorf [e]), s)
                                    | (None, w, s) \<Rightarrow> (Inr (newFileRecord r entry sizes), s))))))))"

text \<open>The content key of an entry; reading the content is needed when its CRC is unknown.\<close>

definition entryKey :: "'s SourceEntry \<Rightarrow> 's \<Rightarrow> string result \<times> 's" where
  "entryKey entry s =
     (if se_IsEncryptedRaw entry then
        (if se_OpenRaw entry = None then Inl invalidOptions
         else Inr (fileKeyFor (se_CRC32 entry) (se_Size entry)), s)
      else if se_CRC32 entry \<noteq> 0 \<or> se_Size entry = 0 then (Inr (fileKeyFor (se_CRC32 entry) (se_Size entry)), s)
      else case se_Open entry of
             None \<Rightarrow> (Inl invalidOptions, s)
           | Some open \<Rightarrow>
               (case open s of
                  (Inl e, s) \<Rightarrow> (Inl (Errorf [e]), s)
                | (Inr rc, s) \<Rightarrow>
                    (case snd rc of
                       Some e \<Rightarrow> (Inl (Errorf [e]), s)
                     | None \<Rightarrow> (Inr (fileKeyFor (crc32 (fst rc)) (int (length (fst rc)))), s))))"

section \<open>Gathering results\<close>

record backupResult =
  rs_path :: string
  rs_isDir :: bool
  rs_key :: string
  rs_record :: "FileRecord option"
  rs_err :: "err option"

record gathered =
  ga_paths :: "(string, string) gomap"
  ga_pool :: "(string, FileRecord) gomap"
  ga_dirs :: "(string, bool) gomap"
  ga_firstErr :: "err option"
  ga_done :: nat

definition gather_step :: "gathered \<Rightarrow> backupResult \<Rightarrow> gathered" where
  "gather_step g res =
     (case rs_err res of
        Some e \<Rightarrow> if ga_firstErr g = None then g\<lparr>ga_firstErr := Some e\<rparr> else g
      | None \<Rightarrow>
          if ga_firstErr g \<noteq> None then g
          else if rs_isDir res
          then g\<lparr>ga_dirs := gm_put (TrimSuffix (rs_path res) ''/'') True (ga_dirs g), ga_done := Suc (ga_done g)\<rparr>
          else g\<lparr>ga_paths := gm_put (rs_path res) (rs_key res) (ga_paths g),
                 ga_pool := (case rs_record res of None \<Rightarrow> ga_pool g | Some rec \<Rightarrow> gm_put (rs_key res) rec (ga_pool g)),
                 ga_done := Suc (ga_done g)\<rparr>)"

definition gather :: "backupResult list \<Rightarrow> gathered" where
  "gather rs = foldl gather_step
     \<lparr>ga_paths = [], ga_pool = [], ga_dirs = [], ga_firstErr = None, ga_done = 0\<rparr> rs"

text \<open>\<open>cause\<close> is \<open>context.Cause(runCtx)\<close>, \<open>parentErr\<close> whether the caller's context is done.\<close>

definition runError :: "bool \<Rightarrow> err option \<Rightarrow> err option \<Rightarrow> nat \<Rightarrow> nat \<Rightarrow> err option" where
  "runError parentErr cause firstErr ndone tot =
     (let cause = (case cause of None \<Rightarrow> firstErr | Some e \<Rightarrow> Some e)
      in case cause of
           Some e \<Rightarrow> if parentErr then Some (Errorf [Sentinel ErrIncompleteRun, e]) else Some e
         | None \<Rightarrow> if ndone \<noteq> tot then Some (Errorf [Sentinel ErrIncompleteRun]) else None)"

section \<open>Before the workers\<close>

text \<open>
  What the run reads from outside: the clock at the calls that matter, the counter
  \<open>globalVersionSeq\<close>, and the outcomes of \<open>GenerateZipCryptoPassword\<close> and \<open>EncryptPassword\<close>.
\<close>

record backupEnv =
  en_now :: int
  en_idClock :: "nat \<Rightarrow> int"
  en_seq :: "64 word"
  en_backupTime :: int
  en_lastUpdated :: int
  en_password :: "string result"
  en_encrypt :: "string \<Rightarrow> bytes \<Rightarrow> (bytes \<times> bytes) result"

definition initMetadata :: "BackupOptions \<Rightarrow> BackupMetadata result \<Rightarrow> (bool \<times> BackupMetadata) result" where
  "initMetadata opts loaded =
     (case loaded of
        Inr metadata \<Rightarrow> Inr (True, metadata)
      | Inl e \<Rightarrow>
          if \<not> errIs e ErrNotFound then Inl e
          else if bo_PublicKeys opts = [] then Inl (Errorf [Sentinel ErrStoreNotInitialized])
          else Inr (False, \<lparr>Versions = [], Trees = [], Files = [], PublicKeys = bo_PublicKeys opts,
                          SchemaVersion = 2, StoreLabel = None, LastUpdated = None\<rparr>))"

definition checkOrdering :: "BackupOptions \<Rightarrow> BackupMetadata \<Rightarrow> err option" where
  "checkOrdering opts metadata =
     (if bo_CustomVersionID opts \<noteq> 0 \<and> gm_has (Versions metadata) (FormatUint (bo_CustomVersionID opts))
      then Some (Errorf [Sentinel ErrVersionIDExists])
      else case latestVersion metadata of
             None \<Rightarrow> None
           | Some latest \<Rightarrow>
               if bo_CustomBackupTimestamp opts = zeroTime then None
               else if bo_CustomBackupTimestamp opts = AsTime (BackupTimestamp latest)
               then Some (Errorf [Sentinel ErrTimestampEqualsLatest])
               else if bo_CustomBackupTimestamp opts < AsTime (BackupTimestamp latest)
               then Some (Errorf [Sentinel ErrTimestampBeforeLatest])
               else None)"

definition mergeKeys :: "BackupOptions \<Rightarrow> bool \<Rightarrow> BackupMetadata \<Rightarrow> BackupMetadata" where
  "mergeKeys opts hasOld metadata =
     (if hasOld then metadata\<lparr>PublicKeys := gm_copy (PublicKeys metadata) (bo_PublicKeys opts)\<rparr> else metadata)"

fun firstInvalid :: "string list \<Rightarrow> err option" where
  "firstInvalid [] = None"
| "firstInvalid (part # parts) = (case validateName part of Some e \<Rightarrow> Some e | None \<Rightarrow> firstInvalid parts)"

fun filterEntries :: "BackupOptions \<Rightarrow> 's SourceEntry list \<Rightarrow> 's SourceEntry list result" where
  "filterEntries opts [] = Inr []"
| "filterEntries opts (entry # es) =
     (case (case bo_FilterFunc opts of None \<Rightarrow> Inr True | Some f \<Rightarrow> f (se_Path entry)) of
        Inl e \<Rightarrow> Inl (Errorf [e])
      | Inr False \<Rightarrow> filterEntries opts es
      | Inr True \<Rightarrow>
          if se_Path entry = [] then Inl (Errorf [Sentinel ErrInvalidName])
          else (case firstInvalid (Split CHR ''/'' (TrimSuffix (se_Path entry) ''/'')) of
                  Some e \<Rightarrow> Inl (Errorf [e])
                | None \<Rightarrow> (case filterEntries opts es of Inl e \<Rightarrow> Inl e | Inr rest \<Rightarrow> Inr (entry # rest))))"

definition selectKeyID :: "BackupOptions \<Rightarrow> (string, bytes) gomap \<Rightarrow> string" where
  "selectKeyID opts keys =
     (if bo_KeyID opts \<noteq> [] then bo_KeyID opts
      else foldl (\<lambda>sel (k, v). if sel = [] \<or> k < sel then k else sel) [] keys)"

definition selectKeys ::
  "backupEnv \<Rightarrow> BackupOptions \<Rightarrow> BackupMetadata \<Rightarrow> 's SourceEntry list \<Rightarrow> backupRun \<Rightarrow> backupRun result" where
  "selectKeys env opts metadata entries run =
     (let files = filter (\<lambda>e. \<not> isDirEntry e) entries;
          hasRaw = list_ex se_IsEncryptedRaw files;
          hasPlain = list_ex (\<lambda>e. \<not> se_IsEncryptedRaw e) files
      in if hasRaw \<or> bo_EncryptedPassword opts \<noteq> [] \<or> bo_EphPublicKey opts \<noteq> [] then
           (if bo_EphPublicKey opts = [] \<or> bo_EncryptedPassword opts = [] then Inl invalidOptions
            else if hasPlain then Inl invalidOptions
            else Inr (run\<lparr>br_ephPubKey := bo_EphPublicKey opts, br_encryptedZipPass := bo_EncryptedPassword opts,
                          br_keyID := bo_KeyID opts\<rparr>))
         else if PublicKeys metadata = [] then Inl (Errorf [Sentinel ErrKeyNotFound])
         else
           let sel = selectKeyID opts (PublicKeys metadata)
           in case gm_get (PublicKeys metadata) sel of
                None \<Rightarrow> Inl (Errorf [Sentinel ErrKeyNotFound])
              | Some vmPubKey \<Rightarrow>
                  (case en_password env of
                     Inl e \<Rightarrow> Inl (Errorf [e])
                   | Inr clearZipPass \<Rightarrow>
                       (case en_encrypt env clearZipPass vmPubKey of
                          Inl e \<Rightarrow> Inl (Errorf [e])
                        | Inr (ephPubKey, encryptedZipPass) \<Rightarrow>
                            Inr (run\<lparr>br_clearZipPass := clearZipPass, br_ephPubKey := ephPubKey,
                                     br_encryptedZipPass := encryptedZipPass, br_keyID := sel\<rparr>))))"

text \<open>Everything up to the start of the workers.\<close>

record 's prepared =
  pr_metadata :: BackupMetadata
  pr_hasOld :: bool
  pr_latest :: "Version option"
  pr_entries :: "'s SourceEntry list"
  pr_run :: backupRun

definition newRun :: "BackupOptions \<Rightarrow> BackupMetadata \<Rightarrow> backupRun" where
  "newRun opts metadata =
     (let (m, l) = (case bo_CompressionLevel opts of
                      None \<Rightarrow> (Deflate, -1)
                    | Some lvl \<Rightarrow> (case resolveCompression lvl of Inl e \<Rightarrow> (0, 0) | Inr ml \<Rightarrow> ml))
      in \<lparr>br_opts = opts, br_compMethod = m, br_compLevel = l, br_ephPubKey = [], br_encryptedZipPass = [],
          br_clearZipPass = [], br_keyID = [], br_existing = Files metadata\<rparr>)"

definition prepareBackup ::
  "md_unmarshal \<Rightarrow> backupEnv \<Rightarrow> ('s \<Rightarrow> 's SourceEntry list result \<times> 's) \<Rightarrow> ('s, 'w) Storage \<Rightarrow> ctx \<Rightarrow>
     BackupOptions \<Rightarrow> 's \<Rightarrow> 's prepared result \<times> 's" where
  "prepareBackup unmarshal env listSrc S c opts s =
     (case validateBackupOptions (en_now env) opts of
        Some e \<Rightarrow> (Inl e, s)
      | None \<Rightarrow>
          (case loadMetadata unmarshal S c s of
             (loaded, s) \<Rightarrow>
               (case initMetadata opts loaded of
                  Inl e \<Rightarrow> (Inl e, s)
                | Inr (hasOld, metadata) \<Rightarrow>
                    (case checkOrdering opts metadata of
                       Some e \<Rightarrow> (Inl e, s)
                     | None \<Rightarrow>
                         let latest = latestVersion metadata;
                             metadata = mergeKeys opts hasOld metadata
                         in case listSrc s of
                              (Inl e, s) \<Rightarrow> (Inl (Errorf [e]), s)
                            | (Inr allEntries, s) \<Rightarrow>
                                (case filterEntries opts allEntries of
                                   Inl e \<Rightarrow> (Inl e, s)
                                 | Inr entries \<Rightarrow>
                                     (case selectKeys env opts metadata entries (newRun opts metadata) of
                                        Inl e \<Rightarrow> (Inl e, s)
                                      | Inr run \<Rightarrow>
                                          (Inr \<lparr>pr_metadata = metadata, pr_hasOld = hasOld, pr_latest = latest,
                                                pr_entries = entries, pr_run = run\<rparr>, s)))))))"

section \<open>After the workers\<close>

definition leafFor :: "(string, FileRecord) gomap \<Rightarrow> string \<Rightarrow> FileLeaf" where
  "leafFor pool key =
     (case gm_get pool key of
        None \<Rightarrow> \<lparr>fl_Crc32 = 0, fl_UncompressedSize = 0\<rparr>
      | Some rec \<Rightarrow> \<lparr>fl_Crc32 = fr_Crc32 rec, fl_UncompressedSize = fr_UncompressedSize rec\<rparr>)"

text \<open>The tree phase, on the gathered results.\<close>

definition resultTree :: "gathered \<Rightarrow> tempDirNode result" where
  "resultTree g =
     buildTree (map fst (ga_dirs g)) (map (\<lambda>(q, k). (q, leafFor (ga_pool g) k)) (ga_paths g))"

definition newVersion :: "backupEnv \<Rightarrow> BackupOptions \<Rightarrow> Version option \<Rightarrow> 64 word \<Rightarrow> string \<Rightarrow> Version" where
  "newVersion env opts latest versionID rootH =
     \<lparr>SnowflakeId = versionID,
      BackupTimestamp = Some (if bo_CustomBackupTimestamp opts \<noteq> zeroTime then bo_CustomBackupTimestamp opts else en_backupTime env),
      RootTreeHash = rootH,
      PrecedingVersionId = (case latest of None \<Rightarrow> 0 | Some l \<Rightarrow> SnowflakeId l),
      Label = bo_Label opts\<rparr>"

definition finalMetadata ::
  "backupEnv \<Rightarrow> BackupOptions \<Rightarrow> BackupMetadata \<Rightarrow> Version \<Rightarrow> (string, TreeNode) gomap \<Rightarrow>
     (string, FileRecord) gomap \<Rightarrow> BackupMetadata" where
  "finalMetadata env opts metadata v newTrees newFiles =
     (let keep = \<not> bo_SingleVersionMode opts
      in \<lparr>Versions = gm_put (FormatUint (SnowflakeId v)) v (if keep then gm_copy [] (Versions metadata) else []),
          Trees = gm_copy (if keep then gm_copy [] (Trees metadata) else []) newTrees,
          Files = gm_copy (if keep then gm_copy [] (Files metadata) else []) newFiles,
          PublicKeys = PublicKeys metadata, SchemaVersion = 2, StoreLabel = None,
          LastUpdated = Some (en_lastUpdated env)\<rparr>)"

fun cleanupParts :: "('s, 'w) Storage \<Rightarrow> ctx \<Rightarrow> (string, FileRecord) gomap \<Rightarrow> (string, FileRecord) gomap \<Rightarrow> 's \<Rightarrow> 's" where
  "cleanupParts S c newFiles [] s = s"
| "cleanupParts S c newFiles ((oldKey, _) # old) s =
     (if gm_has newFiles oldKey \<or> \<not> isValidFileKey oldKey then cleanupParts S c newFiles old s
      else cleanupParts S c newFiles old (snd (st_Delete S c (partKeyFor oldKey) s)))"

definition commitBackup ::
  "md_marshal \<Rightarrow> ('s, 'w) Storage \<Rightarrow> ctx \<Rightarrow> BackupOptions \<Rightarrow> bool \<Rightarrow> BackupMetadata \<Rightarrow> BackupMetadata \<Rightarrow> Version \<Rightarrow> 's \<Rightarrow>
     Version result \<times> 's" where
  "commitBackup marshal S c opts hasOld metadata newMd v s =
     (case marshal newMd of
        None \<Rightarrow> (Inl (Errorf [Foreign ''proto'']), s)
      | Some pbBytes \<Rightarrow>
          (case st_Write S c metadataPath pbBytes s of
             (Some e, s) \<Rightarrow> (Inl (Errorf [e]), s)
           | (None, s) \<Rightarrow>
               (Inr v, if bo_SingleVersionMode opts \<and> hasOld
                       then cleanupParts S c (Files newMd) (Files metadata) s else s)))"

definition chooseVersionID :: "backupEnv \<Rightarrow> BackupOptions \<Rightarrow> (string, Version) gomap \<Rightarrow> (64 word \<times> 64 word) option" where
  "chooseVersionID env opts existing =
     (if bo_CustomVersionID opts \<noteq> 0 then Some (bo_CustomVersionID opts, en_seq env)
      else generateVersionID existing (en_idClock env) (en_seq env))"

text \<open>From the results of the workers, in the order they arrived; \<open>None\<close> if no fresh version identifier is found.\<close>

definition finishBackup ::
  "md_marshal \<Rightarrow> tree_marshal \<Rightarrow> backupEnv \<Rightarrow> ('s, 'w) Storage \<Rightarrow> ctx \<Rightarrow> BackupOptions \<Rightarrow> 's prepared \<Rightarrow>
     backupResult list \<Rightarrow> bool \<Rightarrow> err option \<Rightarrow> 's \<Rightarrow> (Version result \<times> 's) option" where
  "finishBackup marshal mar env S c opts p results parentErr cause s =
     (let g = gather results in
      case runError parentErr cause (ga_firstErr g) (ga_done g) (length (pr_entries p)) of
        Some e \<Rightarrow> Some (Inl e, s)
      | None \<Rightarrow>
          (case resultTree g of
             Inl e \<Rightarrow> Some (Inl e, s)
           | Inr rootNode \<Rightarrow>
               (case buildAndHash mar rootNode [] of
                  Inl e \<Rightarrow> Some (Inl (Errorf [e]), s)
                | Inr (rootH, newTrees) \<Rightarrow>
                    (case chooseVersionID env opts (Versions (pr_metadata p)) of
                       None \<Rightarrow> None
                     | Some (versionID, seq) \<Rightarrow>
                         let v = newVersion env opts (pr_latest p) versionID rootH;
                             newMd = finalMetadata env opts (pr_metadata p) v newTrees (ga_pool g)
                         in Some (commitBackup marshal S c opts (pr_hasOld p) (pr_metadata p) newMd v s)))))"

end
