(* ===== verification/Zip.thy ===== *)
theory Zip
  imports Storage
begin

text \<open>
  Reading the directory of a zip archive (\<open>src/tsync/zip_utils.go\<close>): finding the end record (and its
  zip64 form) with one read of the tail, the reader that serves the end of the archive from memory,
  and the byte ranges of the parts. Offsets are \<open>int64\<close>: additions are wrapped, and a slice out of
  range is a panic, the result \<open>None\<close>. \<open>zip.NewReader\<close> is a parameter.
\<close>

section \<open>Readers\<close>

text \<open>\<open>io.ReaderAt\<close>: for the length of the buffer and an offset, the bytes read and the error.\<close>

type_synonym 's readerAt = "nat \<Rightarrow> int \<Rightarrow> 's \<Rightarrow> (bytes \<times> err option) \<times> 's"

text \<open>\<open>bytes.Reader\<close>\<close>

definition bytesReaderAt :: "bytes \<Rightarrow> 's readerAt" where
  "bytesReaderAt a n off s =
     (if off < 0 then ([], Some (Foreign ''bytes.Reader.ReadAt: negative offset''))
      else let b = take n (drop (nat off) a)
           in (b, if int (length a) \<le> off \<or> length b < n then Some (Sentinel EOF) else None), s)"

text \<open>The buffer of length \<open>n\<close> after a read: the rest stays zero.\<close>

definition readBuf :: "nat \<Rightarrow> bytes \<Rightarrow> bytes" where
  "readBuf n b = take n b @ replicate (n - length b) 0"

lemma length_readBuf [simp]: "length (readBuf n b) = n"
  by (simp add: readBuf_def)

text \<open>\<open>binary.LittleEndian\<close>\<close>

definition leUint :: "bytes \<Rightarrow> nat" where
  "leUint b = horner_sum unat 256 b"

definition Uint16 :: "bytes \<Rightarrow> nat" where "Uint16 b = leUint (take 2 b)"
definition Uint32 :: "bytes \<Rightarrow> nat" where "Uint32 b = leUint (take 4 b)"
definition Uint64 :: "bytes \<Rightarrow> nat" where "Uint64 b = leUint (take 8 b)"

lemma leUint_bound: "leUint b < 256 ^ length b"
proof (induction b)
  case (Cons x xs)
  have "unat x < 256" using unsigned_less [of x, where ?'a = nat] by simp
  with Cons show ?case by (simp add: leUint_def)
qed (simp add: leUint_def)

lemma Uint16_bound: "Uint16 b < 2 ^ 16" and Uint32_bound: "Uint32 b < 2 ^ 32"
proof -
  have "leUint (take n b) < 256 ^ n" for n
    using leUint_bound [of "take n b"] power_increasing [of "length (take n b)" n "256::nat"] by (simp add: less_le_trans)
  from this [of 2] this [of 4] show "Uint16 b < 2 ^ 16" "Uint32 b < 2 ^ 32" by (simp_all add: Uint16_def Uint32_def)
qed

section \<open>The end of the central directory\<close>

definition eocdLen :: nat where "eocdLen = 22"
definition eocdSignature :: nat where "eocdSignature = 0x06054b50"
definition zip64LocatorLen :: nat where "zip64LocatorLen = 20"
definition zip64LocatorSig :: nat where "zip64LocatorSig = 0x07064b50"
definition zip64EOCDLen :: nat where "zip64EOCDLen = 56"
definition zip64EOCDSignature :: nat where "zip64EOCDSignature = 0x06064b50"

lemmas zip_consts = eocdLen_def eocdSignature_def zip64LocatorLen_def zip64LocatorSig_def zip64EOCDLen_def zip64EOCDSignature_def

record zipDirectory =
  zd_eocdOffset :: int
  zd_cdOffset :: int
  zd_cdSize :: int
  zd_records :: "64 word"
  zd_tailOffset :: int
  zd_tail :: bytes

definition readAtCached :: "'s readerAt \<Rightarrow> zipDirectory \<Rightarrow> int \<Rightarrow> nat \<Rightarrow> 's \<Rightarrow> bytes result option \<times> 's" where
  "readAtCached r d off n st =
     (if zd_tailOffset d \<le> off \<and> wrap64 (off + int n) \<le> zd_tailOffset d + int (length (zd_tail d)) then
        let s = off - zd_tailOffset d; e = wrap64 (s + int n)
        in if e < s \<or> int (length (zd_tail d)) < e then (None, st)
           else (Some (Inr (take n (drop (nat s) (zd_tail d)))), st)
      else case r n off st of
             ((b, e), st) \<Rightarrow>
               (case e of
                  Some x \<Rightarrow> if x \<noteq> Sentinel EOF then (Some (Inl x), st) else (Some (Inr (readBuf n b)), st)
                | None \<Rightarrow> (Some (Inr (readBuf n b)), st)))"

text \<open>The scan for an end record whose comment reaches the end of the file, from the back.\<close>

definition eocdAt :: "bytes \<Rightarrow> nat \<Rightarrow> bool" where
  "eocdAt tail i \<longleftrightarrow> Uint32 (drop i tail) = eocdSignature \<and> i + eocdLen + Uint16 (drop (i + 20) tail) = length tail"

primrec scanEOCD :: "bytes \<Rightarrow> nat \<Rightarrow> nat option" where
  "scanEOCD tail 0 = (if eocdAt tail 0 then Some 0 else None)"
| "scanEOCD tail (Suc i) = (if eocdAt tail (Suc i) then Some (Suc i) else scanEOCD tail i)"

definition tailWindow :: int where "tailWindow = 66 * 1024"

definition corruptZip :: err where "corruptZip = Errorf [Sentinel ErrCorruptZip]"
definition notZip :: err where "notZip = Errorf [Sentinel ErrNotZip]"

text \<open>The record that the locator before the end record points to, if there is a locator.\<close>

definition readZip64 :: "'s readerAt \<Rightarrow> zipDirectory \<Rightarrow> 's \<Rightarrow> (zipDirectory \<times> int) result option \<times> 's" where
  "readZip64 r d st =
     (if zd_eocdOffset d < int zip64LocatorLen then (Some (Inr (d, zd_eocdOffset d)), st)
      else
        case readAtCached r d (zd_eocdOffset d - int zip64LocatorLen) zip64LocatorLen st of
          (None, st) \<Rightarrow> (None, st)
        | (Some (Inl e), st) \<Rightarrow> (Some (Inl (Errorf [e])), st)
        | (Some (Inr loc), st) \<Rightarrow>
            if Uint32 loc \<noteq> zip64LocatorSig then (Some (Inr (d, zd_eocdOffset d)), st)
            else
              let recOffset = wrap64 (int (Uint64 (drop 8 loc))) in
              if recOffset < 0 \<or> zd_eocdOffset d - int zip64LocatorLen < wrap64 (recOffset + int zip64EOCDLen)
              then (Some (Inl corruptZip), st)
              else
                case readAtCached r d recOffset zip64EOCDLen st of
                  (None, st) \<Rightarrow> (None, st)
                | (Some (Inl e), st) \<Rightarrow> (Some (Inl (Errorf [e])), st)
                | (Some (Inr rec), st) \<Rightarrow>
                    if Uint32 rec \<noteq> zip64EOCDSignature then (Some (Inl corruptZip), st)
                    else (Some (Inr (d\<lparr>zd_records := word_of_nat (Uint64 (drop 32 rec)),
                                       zd_cdSize := wrap64 (int (Uint64 (drop 40 rec))),
                                       zd_cdOffset := wrap64 (int (Uint64 (drop 48 rec)))\<rparr>, recOffset)), st))"

definition readZipDirectory :: "'s readerAt \<Rightarrow> int \<Rightarrow> 's \<Rightarrow> zipDirectory result option \<times> 's" where
  "readZipDirectory r sz st =
     (if sz < int eocdLen then (Some (Inl notZip), st)
      else
        let tailLen = min tailWindow sz; tailOffset = sz - tailLen in
        case r (nat tailLen) tailOffset st of
          ((b, e), st) \<Rightarrow>
            if e \<noteq> None \<and> \<not> (e = Some (Sentinel EOF) \<and> int (length b) = tailLen) then (Some (Inl (Errorf [the e])), st)
            else
              let tail = readBuf (nat tailLen) b in
              case scanEOCD tail (length tail - eocdLen) of
                None \<Rightarrow> (Some (Inl notZip), st)
              | Some pos \<Rightarrow>
                  let eocd = take eocdLen (drop pos tail);
                      d = \<lparr>zd_eocdOffset = tailOffset + int pos, zd_cdOffset = int (Uint32 (drop 16 eocd)),
                           zd_cdSize = int (Uint32 (drop 12 eocd)), zd_records = word_of_nat (Uint16 (drop 10 eocd)),
                           zd_tailOffset = tailOffset, zd_tail = tail\<rparr>
                  in case readZip64 r d st of
                       (None, st) \<Rightarrow> (None, st)
                     | (Some (Inl e), st) \<Rightarrow> (Some (Inl e), st)
                     | (Some (Inr (d, dirEnd)), st) \<Rightarrow>
                         if zd_cdOffset d < 0 \<or> zd_cdSize d < 0 \<or> dirEnd < wrap64 (zd_cdOffset d + zd_cdSize d)
                         then (Some (Inl corruptZip), st)
                         else (Some (Inr d), st))"

text \<open>The three accessors.\<close>

definition FindEOCD :: "'s readerAt \<Rightarrow> int \<Rightarrow> 's \<Rightarrow> int result option \<times> 's" where
  "FindEOCD r sz st = map_prod (map_option (map_sum id zd_eocdOffset)) id (readZipDirectory r sz st)"

definition GetCentralDirectoryOffset :: "'s readerAt \<Rightarrow> int \<Rightarrow> 's \<Rightarrow> int result option \<times> 's" where
  "GetCentralDirectoryOffset r sz st = map_prod (map_option (map_sum id zd_cdOffset)) id (readZipDirectory r sz st)"

definition ZipEntryCount :: "'s readerAt \<Rightarrow> int \<Rightarrow> 's \<Rightarrow> 64 word result option \<times> 's" where
  "ZipEntryCount r sz st = map_prod (map_option (map_sum id zd_records)) id (readZipDirectory r sz st)"

section \<open>The end of the archive in memory\<close>

text \<open>The branch of \<open>cachedTailReaderAt.ReadAt\<close> for offsets in the cache.\<close>

definition cachedPart :: "int \<Rightarrow> bytes \<Rightarrow> nat \<Rightarrow> int \<Rightarrow> bytes \<times> err option" where
  "cachedPart cacheOffset cache n off =
     (if cacheOffset + int (length cache) \<le> off then ([], Some (Sentinel EOF))
      else let b = take n (drop (nat (off - cacheOffset)) cache)
           in (b, if length b < n then Some (Sentinel EOF) else None))"

definition cachedTailReaderAt :: "'s readerAt \<Rightarrow> int \<Rightarrow> bytes \<Rightarrow> 's readerAt" where
  "cachedTailReaderAt r cacheOffset cache n off st =
     (if off < 0 then (([], Some corruptZip), st)
      else if cacheOffset \<le> off then (cachedPart cacheOffset cache n off, st)
      else
        let h = (if cacheOffset < wrap64 (off + int n) then nat (cacheOffset - off) else n) in
        case r h off st of
          ((b, e), st) \<Rightarrow>
            if e \<noteq> None \<or> length b < h
            then ((b, Some (case e of Some x \<Rightarrow> x | None \<Rightarrow> Sentinel ErrUnexpectedEOF)), st)
            else if h = n then ((b, None), st)
            else (case cachedPart cacheOffset cache (n - h) cacheOffset of (m, e) \<Rightarrow> ((b @ m, e), st)))"

section \<open>Part ranges\<close>

text \<open>What the zip library tells of an entry; \<open>zf_Open\<close> is its own reader.\<close>

record 's zipFile =
  zf_Name :: string
  zf_HeaderOffset :: int
  zf_Flags :: "16 word"
  zf_Method :: nat
  zf_CRC32 :: "32 word"
  zf_CompressedSize64 :: "64 word"
  zf_UncompressedSize64 :: "64 word"
  zf_ModifiedDate :: "16 word"
  zf_ModifiedTime :: "16 word"
  zf_Extra :: bytes
  zf_Open :: "'s \<Rightarrow> reader result \<times> 's"

record 's ZipPartRange =
  zr_Name :: string
  zr_StartOffset :: int
  zr_EndOffset :: int
  zr_File :: "'s zipFile"

text \<open>The bytes from the central directory (or the tail, if that starts before) to the end.\<close>

definition loadCache :: "'s readerAt \<Rightarrow> int \<Rightarrow> zipDirectory \<Rightarrow> 's \<Rightarrow> (int \<times> bytes) result \<times> 's" where
  "loadCache ra sz d st =
     (if zd_cdOffset d < zd_tailOffset d then
        let h = nat (zd_tailOffset d - zd_cdOffset d) in
        case ra h (zd_cdOffset d) st of
          ((b, e), st) \<Rightarrow>
            if e \<noteq> None \<and> \<not> (e = Some (Sentinel EOF) \<and> length b = h) then (Inl (Errorf [the e]), st)
            else (Inr (zd_cdOffset d, take (nat (sz - zd_cdOffset d)) (readBuf h b @ zd_tail d)), st)
      else (Inr (zd_tailOffset d, zd_tail d), st))"

text \<open>The archive as it is shown to the library: it ends after the end record, without a comment.\<close>

definition trimCache :: "zipDirectory \<Rightarrow> int \<Rightarrow> bytes \<Rightarrow> bytes" where
  "trimCache d cacheOffset cache =
     (let i = nat (zd_eocdOffset d - cacheOffset + 20)
      in (take (nat (zd_eocdOffset d + int eocdLen - cacheOffset)) cache)[i := 0, i + 1 := 0])"

fun mkRanges :: "int \<Rightarrow> 's zipFile list \<Rightarrow> 's ZipPartRange list result" where
  "mkRanges cd [] = Inr []"
| "mkRanges cd (f # fs) =
     (let end = (case fs of [] \<Rightarrow> cd | g # _ \<Rightarrow> zf_HeaderOffset g)
      in if end \<le> zf_HeaderOffset f then Inl corruptZip
         else (case mkRanges cd fs of
                 Inl e \<Rightarrow> Inl e
               | Inr rs \<Rightarrow> Inr (\<lparr>zr_Name = zf_Name f, zr_StartOffset = zf_HeaderOffset f, zr_EndOffset = end, zr_File = f\<rparr> # rs)))"

definition partRanges :: "zipDirectory \<Rightarrow> 's zipFile list \<Rightarrow> 's ZipPartRange list result" where
  "partRanges d files =
     (if (word_of_nat (length files) :: 16 word) \<noteq> ucast (zd_records d) then Inl corruptZip
      else if list_ex (\<lambda>f. zf_HeaderOffset f < 0 \<or> zd_cdOffset d \<le> zf_HeaderOffset f) files then Inl corruptZip
      else mkRanges (zd_cdOffset d) (sort_key zf_HeaderOffset files))"

definition GetZipPartRanges ::
  "('s readerAt \<Rightarrow> int \<Rightarrow> 's \<Rightarrow> 's zipFile list result \<times> 's) \<Rightarrow> 's readerAt \<Rightarrow> int \<Rightarrow> 's \<Rightarrow> 's ZipPartRange list result option \<times> 's" where
  "GetZipPartRanges NewReader ra sz st =
     (case readZipDirectory ra sz st of
        (None, st) \<Rightarrow> (None, st)
      | (Some (Inl e), st) \<Rightarrow> (Some (Inl e), st)
      | (Some (Inr d), st) \<Rightarrow>
          (case loadCache ra sz d st of
             (Inl e, st) \<Rightarrow> (Some (Inl e), st)
           | (Inr (cacheOffset, cache), st) \<Rightarrow>
               (case NewReader (cachedTailReaderAt ra cacheOffset (trimCache d cacheOffset cache)) (zd_eocdOffset d + int eocdLen) st of
                  (Inl e, st) \<Rightarrow> (Some (Inl (Errorf [Sentinel ErrCorruptZip, e])), st)
                | (Inr files, st) \<Rightarrow> (Some (partRanges d files), st))))"

end
