(* ===== verification/Sources.thy ===== *)
theory Sources
  imports Backup Zip
begin

text \<open>
  The sources of a backup (\<open>src/tsync/source.go\<close>): a folder of a storage and a zip archive in a
  storage, read through \<open>StorageReaderAt\<close> (\<open>src/tsync/storage.go\<close>). A source is a function on the world
  that lists its entries. The decompressor \<open>compress/flate\<close> is the parameter \<open>inflate\<close>; \<open>pieces\<close> says in
  which pieces a stream is read.
\<close>

section \<open>Reading a storage at an offset\<close>

definition StorageReaderAt :: "('s, 'w) Storage \<Rightarrow> ctx \<Rightarrow> string \<Rightarrow> 's readerAt" where
  "StorageReaderAt S c path n off s =
     (if n = 0 then (([], None), s)
      else case st_ReadRange S c path off (int n) s of
             (Inl e, s) \<Rightarrow> (([], Some e), s)
           | (Inr rc, s) \<Rightarrow>
               (case ioReadFull n rc of
                  (b, e) \<Rightarrow> ((b, if e = Some (Sentinel ErrUnexpectedEOF) then Some (Sentinel EOF) else e), s)))"

section \<open>A folder\<close>

definition folderEntry :: "('s, 'w) Storage \<Rightarrow> ctx \<Rightarrow> FileInfo \<Rightarrow> 's SourceEntry" where
  "folderEntry S c f =
     (let isDir = HasSuffix (fi_Name f) ''/''
      in \<lparr>se_Path = fi_Name f, se_Size = fi_Size f, se_CompressedSize = 0, se_LastModified = fi_LastModified f, se_CRC32 = 0,
          se_IsDir = isDir, se_Open = (if isDir then None else Some (st_OpenReader S c (fi_Name f))),
          se_IsEncryptedRaw = False, se_OpenRaw = None, se_CompressionMethod = 0, se_OpenRawCompressed = None\<rparr>)"

definition FolderSource :: "('s, 'w) Storage \<Rightarrow> ctx \<Rightarrow> string \<Rightarrow> 's \<Rightarrow> 's SourceEntry list result \<times> 's" where
  "FolderSource S c px s =
     (case st_List S c px s of
        (Inl e, s) \<Rightarrow> (Inl (Errorf [e]), s)
      | (Inr files, s) \<Rightarrow> (Inr (map (folderEntry S c) files), s))"

section \<open>MS-DOS times\<close>

definition isLeap :: "int \<Rightarrow> bool" where
  "isLeap y \<longleftrightarrow> y mod 4 = 0 \<and> (y mod 100 \<noteq> 0 \<or> y mod 400 = 0)"

definition daysBeforeMonth :: "nat \<Rightarrow> int" where
  "daysBeforeMonth m = [0, 31, 59, 90, 120, 151, 181, 212, 243, 273, 304, 334] ! m"

text \<open>\<open>time.Date\<close> in UTC, in nanoseconds since 1970; it normalizes values out of range.\<close>

definition timeDate :: "int \<Rightarrow> int \<Rightarrow> int \<Rightarrow> int \<Rightarrow> int \<Rightarrow> int \<Rightarrow> int" where
  "timeDate y month d h m s =
     (let y = y + (month - 1) div 12; mon = nat ((month - 1) mod 12);
          days = 365 * (y - 1970) + ((y - 1) div 4 - (y - 1) div 100 + (y - 1) div 400 - 477) +
                 daysBeforeMonth mon + (if isLeap y \<and> 2 \<le> mon then 1 else 0) + d - 1
      in (((days * 24 + h) * 60 + m) * 60 + s) * 1000000000)"

unbundle bit_operations_syntax

definition MSDosTimeToTime :: "16 word \<Rightarrow> 16 word \<Rightarrow> int" where
  "MSDosTimeToTime dosDate dosTime =
     timeDate (uint (drop_bit 9 dosDate AND 0x7F) + 1980) (uint (drop_bit 5 dosDate AND 0x0F)) (uint (dosDate AND 0x1F))
       (uint (drop_bit 11 dosTime AND 0x1F)) (uint (drop_bit 5 dosTime AND 0x3F)) (uint ((dosTime AND 0x1F) * 2))"

section \<open>An archive\<close>

definition winzipAESExtraID :: nat where "winzipAESExtraID = 0x9901"

function isWinZipAE2_loop :: "bytes \<Rightarrow> bool" where
  "isWinZipAE2_loop b =
     (if length b < 4 then False
      else let tag = Uint16 b; sz = Uint16 (drop 2 b); b' = drop 4 b
           in if length b' < sz then False
              else if tag = winzipAESExtraID \<and> 2 \<le> sz then Uint16 b' = 2
              else isWinZipAE2_loop (drop sz b'))"
  by pat_completeness auto
termination by (relation "measure length") auto

declare isWinZipAE2_loop.simps [simp del]

definition isWinZipAE2 :: "'s zipFile \<Rightarrow> bool" where
  "isWinZipAE2 f = isWinZipAE2_loop (zf_Extra f)"

text \<open>One \<open>Read\<close> of the checking stream, on what the reader under it returned.\<close>

record zipEntryStream =
  ze_hash :: "32 word"
  ze_n :: "64 word"
  ze_err :: "err option"

definition zesRead :: "'s zipFile \<Rightarrow> bytes \<times> err option \<Rightarrow> zipEntryStream \<Rightarrow> (bytes \<times> err option) \<times> zipEntryStream" where
  "zesRead f rd z =
     (case ze_err z of
        Some x \<Rightarrow> (([], Some x), z)
      | None \<Rightarrow>
          let (b, e) = rd;
              z = z\<lparr>ze_hash := crc32_update (ze_hash z) b, ze_n := ze_n z + word_of_nat (length b)\<rparr>
          in if zf_UncompressedSize64 f < ze_n z
             then let x = Errorf [Sentinel ErrCorruptZip] in ((b, Some x), z\<lparr>ze_err := Some x\<rparr>)
             else let e = (if e = Some (Sentinel EOF)
                           then if ze_n z \<noteq> zf_UncompressedSize64 f then Some (Errorf [Sentinel ErrCorruptZip, Sentinel ErrUnexpectedEOF])
                                else if ze_hash z \<noteq> zf_CRC32 f then Some (Errorf [Sentinel ErrCorruptZip, Sentinel ErrChecksum])
                                else e
                           else e)
                  in ((b, e), z\<lparr>ze_err := e\<rparr>))"

text \<open>Reading it to its end: pieces of the stream under it, then its end \<open>fin\<close>.\<close>

fun zesReadAll :: "'s zipFile \<Rightarrow> bytes list \<Rightarrow> err \<Rightarrow> zipEntryStream \<Rightarrow> reader" where
  "zesReadAll f [] fin z =
     (case zesRead f ([], Some fin) z of
        ((b, e), z) \<Rightarrow> (b, if e = Some (Sentinel EOF) then None else e))"
| "zesReadAll f (p # ps) fin z =
     (case zesRead f (p, None) z of
        ((b, Some x), z) \<Rightarrow> (b, Some x)
      | ((b, None), z) \<Rightarrow> (case zesReadAll f ps fin z of (c, e) \<Rightarrow> (b @ c, e)))"

definition localFileHeaderLen :: nat where "localFileHeaderLen = 30"
definition localFileHeaderSig :: nat where "localFileHeaderSig = 0x04034b50"

definition zipEntryBody :: "(reader \<Rightarrow> reader) \<Rightarrow> (bytes \<Rightarrow> bytes list) \<Rightarrow> 's zipFile \<Rightarrow> reader \<Rightarrow> reader result" where
  "zipEntryBody inflate pieces f rc =
     (case ioReadFull localFileHeaderLen rc of
        (lfh, Some e) \<Rightarrow> Inl (Errorf [Sentinel ErrCorruptZip, e])
      | (lfh, None) \<Rightarrow>
          if Uint32 lfh \<noteq> localFileHeaderSig then Inl (Errorf [Sentinel ErrCorruptZip])
          else
            let skip = Uint16 (drop 26 lfh) + Uint16 (drop 28 lfh);
                rest = drop localFileHeaderLen (fst rc)
            in if length rest < skip
               then Inl (Errorf [Sentinel ErrCorruptZip, case snd rc of Some e \<Rightarrow> e | None \<Rightarrow> Sentinel EOF])
               else
                 let body = limitReader (sint (zf_CompressedSize64 f)) (drop skip rest, snd rc);
                     r = (if zf_Method f = Deflate then inflate body else body)
                 in Inr (zesReadAll f (pieces (fst r)) (case snd r of Some e \<Rightarrow> e | None \<Rightarrow> Sentinel EOF)
                           \<lparr>ze_hash = 0, ze_n = 0, ze_err = None\<rparr>))"

definition openZipEntryStream ::
  "(reader \<Rightarrow> reader) \<Rightarrow> (bytes \<Rightarrow> bytes list) \<Rightarrow> ('s, 'w) Storage \<Rightarrow> ctx \<Rightarrow> string \<Rightarrow> 's ZipPartRange \<Rightarrow> 's \<Rightarrow> reader result \<times> 's" where
  "openZipEntryStream inflate pieces S c zipPath pr s =
     (case st_ReadRange S c zipPath (zr_StartOffset pr) (zr_EndOffset pr - zr_StartOffset pr) s of
        (Inl e, s) \<Rightarrow> (Inl e, s)
      | (Inr rc, s) \<Rightarrow> (zipEntryBody inflate pieces (zr_File pr) rc, s))"

definition zipEntry ::
  "(reader \<Rightarrow> reader) \<Rightarrow> (bytes \<Rightarrow> bytes list) \<Rightarrow> ('s, 'w) Storage \<Rightarrow> ctx \<Rightarrow> string \<Rightarrow> bool \<Rightarrow> 's ZipPartRange \<Rightarrow> 's SourceEntry result" where
  "zipEntry inflate pieces S c zipPath isEncrypted r =
     (let f = zr_File r; isDir = HasSuffix (zr_Name r) ''/'';
          entry = \<lparr>se_Path = zr_Name r, se_Size = sint (zf_UncompressedSize64 f), se_CompressedSize = sint (zf_CompressedSize64 f),
            se_LastModified = MSDosTimeToTime (zf_ModifiedDate f) (zf_ModifiedTime f), se_CRC32 = zf_CRC32 f, se_IsDir = isDir,
            se_Open = None, se_IsEncryptedRaw = False, se_OpenRaw = None, se_CompressionMethod = 0, se_OpenRawCompressed = None\<rparr>
      in if isDir then Inr entry
         else if isEncrypted then
           if isWinZipAE2 f then Inl (Errorf [Sentinel ErrUnsupportedEncryption])
           else Inr (entry\<lparr>se_IsEncryptedRaw := True,
                           se_OpenRaw := Some (st_ReadRange S c zipPath (zr_StartOffset r) (zr_EndOffset r - zr_StartOffset r))\<rparr>)
         else Inr (entry\<lparr>se_CompressionMethod := zf_Method f,
                         se_Open := Some (if \<not> bit (zf_Flags f) 0 \<and> (zf_Method f = Store \<or> zf_Method f = Deflate)
                                          then openZipEntryStream inflate pieces S c zipPath r else zf_Open f)\<rparr>))"

fun zipEntries :: "('r \<Rightarrow> 'e result) \<Rightarrow> 'r list \<Rightarrow> 'e list result" where
  "zipEntries one [] = Inr []"
| "zipEntries one (r # rs) =
     (case one r of
        Inl e \<Rightarrow> Inl e
      | Inr x \<Rightarrow> (case zipEntries one rs of Inl e \<Rightarrow> Inl e | Inr xs \<Rightarrow> Inr (x # xs)))"

text \<open>\<open>ZipFileSource.ListEntries\<close>; \<open>None\<close> is a panic while the directory is read.\<close>

definition ZipFileSource ::
  "('s readerAt \<Rightarrow> int \<Rightarrow> 's \<Rightarrow> 's zipFile list result \<times> 's) \<Rightarrow> (reader \<Rightarrow> reader) \<Rightarrow> (bytes \<Rightarrow> bytes list) \<Rightarrow>
     ('s, 'w) Storage \<Rightarrow> ctx \<Rightarrow> string \<Rightarrow> bool \<Rightarrow> 's \<Rightarrow> 's SourceEntry list result option \<times> 's" where
  "ZipFileSource NewReader inflate pieces S c zipPath isEncrypted s =
     (case st_Size S c zipPath s of
        (Inl e, s) \<Rightarrow> (Some (Inl (Errorf [e])), s)
      | (Inr sz, s) \<Rightarrow>
          (case GetZipPartRanges NewReader (StorageReaderAt S c zipPath) sz s of
             (None, s) \<Rightarrow> (None, s)
           | (Some (Inl e), s) \<Rightarrow> (Some (Inl (Errorf [e])), s)
           | (Some (Inr ranges), s) \<Rightarrow> (Some (zipEntries (zipEntry inflate pieces S c zipPath isEncrypted) ranges), s)))"

end
