(* ===== verification/ZipSpec.thy ===== *)
theory ZipSpec
  imports Zip
begin

text \<open>
  What the zip utilities compute. The reference \<open>zipDirSpec\<close> reads the whole archive with unbounded
  numbers and scans all of it; \<open>readZipDirectory\<close>, with its window, its cache and its \<open>int64\<close>
  arithmetic, agrees with it except where a sum of two 64-bit fields wraps. The reader with the
  cached end is the reader of the trimmed archive, and part ranges tile the data area.
\<close>

section \<open>The reference\<close>

definition lastEOCD :: "bytes \<Rightarrow> nat option" where
  "lastEOCD a = (if length a < eocdLen then None else scanEOCD a (length a - eocdLen))"

definition hasLocator :: "bytes \<Rightarrow> nat \<Rightarrow> bool" where
  "hasLocator a p \<longleftrightarrow> zip64LocatorLen \<le> p \<and> Uint32 (drop (p - zip64LocatorLen) a) = zip64LocatorSig"

definition locatorOffset :: "bytes \<Rightarrow> nat \<Rightarrow> nat" where
  "locatorOffset a p = Uint64 (drop (p - zip64LocatorLen + 8) a)"

text \<open>The end record at \<open>p\<close>: offset and size of the directory, the number of records, and what the directory must end before.\<close>

definition endRecord :: "bytes \<Rightarrow> nat \<Rightarrow> (nat \<times> nat \<times> nat \<times> nat) option" where
  "endRecord a p =
     (if hasLocator a p then
        let q = locatorOffset a p
        in if q + zip64EOCDLen \<le> p - zip64LocatorLen \<and> Uint32 (drop q a) = zip64EOCDSignature
           then Some (Uint64 (drop (q + 48) a), Uint64 (drop (q + 40) a), Uint64 (drop (q + 32) a), q) else None
      else Some (Uint32 (drop (p + 16) a), Uint32 (drop (p + 12) a), Uint16 (drop (p + 10) a), p))"

definition zipDirSpec :: "bytes \<Rightarrow> (nat \<times> nat \<times> nat \<times> nat) option" where
  "zipDirSpec a =
     (case lastEOCD a of
        None \<Rightarrow> None
      | Some p \<Rightarrow>
          (case endRecord a p of
             None \<Rightarrow> None
           | Some (off, len, records, dirEnd) \<Rightarrow> if off + len \<le> dirEnd then Some (p, off, len, records) else None))"

section \<open>Finding the end record\<close>

lemma scanEOCD_Some: "scanEOCD a i = Some p \<longleftrightarrow> p \<le> i \<and> eocdAt a p \<and> (\<forall>q. p < q \<and> q \<le> i \<longrightarrow> \<not> eocdAt a q)"
  by (induction i) (auto simp: le_Suc_eq)

lemma scanEOCD_None: "scanEOCD a i = None \<longleftrightarrow> (\<forall>q \<le> i. \<not> eocdAt a q)"
  by (induction i) (auto simp: le_Suc_eq)

lemma eocdAt_drop: "k \<le> length a \<Longrightarrow> eocdAt (drop k a) i \<longleftrightarrow> eocdAt a (i + k)"
  by (auto simp: eocdAt_def ac_simps)

lemma eocdAt_near_end: "eocdAt a q \<Longrightarrow> length a < q + 22 + 2 ^ 16"
  using Uint16_bound [of "drop (q + 20) a"] by (simp add: eocdAt_def eocdLen_def)

text \<open>A comment has at most 65535 bytes, so the window holds every end record.\<close>

definition windowStart :: "bytes \<Rightarrow> nat" where
  "windowStart a = length a - 66 * 1024"

lemma tail_scan:
  assumes "22 \<le> length a" and "k = windowStart a"
  shows "scanEOCD a (length a - 22) = map_option (\<lambda>i. i + k) (scanEOCD (drop k a) (length a - k - 22))"
proof -
  have k: "k \<le> length a - 22" using assms by (simp add: windowStart_def)
  have at: "eocdAt (drop k a) i \<longleftrightarrow> eocdAt a (i + k)" for i using k by (intro eocdAt_drop) simp
  have low: "\<not> eocdAt a q" if "q < k" for q using eocdAt_near_end [of a q] that assms(2) by (auto simp: windowStart_def)
  show ?thesis
  proof (cases "scanEOCD (drop k a) (length a - k - 22)")
    case None
    have "\<not> eocdAt a q" if "q \<le> length a - 22" for q
    proof (cases "q < k")
      case False
      moreover have "q - k \<le> length a - k - 22" using that by simp
      ultimately show ?thesis using None unfolding scanEOCD_None at by (metis le_add_diff_inverse2 not_less)
    qed (use low in blast)
    then have "scanEOCD a (length a - 22) = None" unfolding scanEOCD_None by blast
    then show ?thesis unfolding None by simp
  next
    case (Some p)
    then have p: "p \<le> length a - k - 22" "eocdAt a (p + k)" and last: "\<And>q. p < q \<Longrightarrow> q \<le> length a - k - 22 \<Longrightarrow> \<not> eocdAt a (q + k)"
      unfolding scanEOCD_Some at by blast+
    have "\<not> eocdAt a q" if "p + k < q" "q \<le> length a - 22" for q using last [of "q - k"] that k by simp
    then have "scanEOCD a (length a - 22) = Some (p + k)" unfolding scanEOCD_Some using p k by auto
    then show ?thesis using Some by simp
  qed
qed

section \<open>The directory\<close>

lemma take_drop_fields:
  "i + 2 \<le> n \<Longrightarrow> Uint16 (drop i (take n b)) = Uint16 (drop i b)"
  "i + 4 \<le> n \<Longrightarrow> Uint32 (drop i (take n b)) = Uint32 (drop i b)"
  "i + 8 \<le> n \<Longrightarrow> Uint64 (drop i (take n b)) = Uint64 (drop i b)"
  by (simp_all add: Uint16_def Uint32_def Uint64_def drop_take min_def)

text \<open>The tail of the archive is cached; a read inside the archive gives its bytes.\<close>

definition tail_of :: "bytes \<Rightarrow> zipDirectory \<Rightarrow> bool" where
  "tail_of a d \<longleftrightarrow> zd_tailOffset d = int (windowStart a) \<and> zd_tail d = drop (windowStart a) a"

lemma readAtCached_inside:
  assumes "tail_of a d" and "off + n \<le> length a" and "0 < n" and small: "length a < 2 ^ 62"
  shows "readAtCached (bytesReaderAt a) d (int off) n st = (Some (Inr (take n (drop off a))), st)"
proof (cases "windowStart a \<le> off")
  case True
  have w: "wrap64 (int off + int n) = int (off + n)" "wrap64 (int (off - windowStart a) + int n) = int (off - windowStart a + n)"
    using assms(2) small by (auto simp: is_int64_def intro!: wrap64_id)
  have tl: "zd_tailOffset d = int (windowStart a)" "zd_tail d = drop (windowStart a) a" using assms(1) by (simp_all add: tail_of_def)
  have s: "int off - zd_tailOffset d = int (off - windowStart a)" using True tl(1) by simp
  have cached: "zd_tailOffset d \<le> int off \<and> wrap64 (int off + int n) \<le> zd_tailOffset d + int (length (zd_tail d))"
    unfolding w(1) tl using True assms(2) by simp
  have inside: "\<not> (wrap64 (int (off - windowStart a) + int n) < int (off - windowStart a) \<or>
      int (length (zd_tail d)) < wrap64 (int (off - windowStart a) + int n))"
    unfolding w(2) tl using True assms(2) by simp
  have "readAtCached (bytesReaderAt a) d (int off) n st = (Some (Inr (take n (drop (nat (int (off - windowStart a))) (zd_tail d)))), st)"
    unfolding readAtCached_def Let_def s if_P [OF cached] if_not_P [OF inside] ..
  then show ?thesis unfolding tl drop_drop nat_int le_add_diff_inverse2 [OF True] .
next
  case False
  then show ?thesis
    using assms by (simp add: readAtCached_def tail_of_def bytesReaderAt_def readBuf_def Let_def)
qed

text \<open>A record offset near the top of \<open>int64\<close> passes the range check and then panics.\<close>

lemma readAtCached_wraps:
  assumes "tail_of a d" and "2 ^ 63 \<le> q + 56" and "q < 2 ^ 63" and small: "length a < 2 ^ 62"
  shows "readAtCached r d (int q) 56 st = (None, st)"
proof -
  have w: "wrap64 (int q + 56) = int q + 56 - 2 ^ 64" using assms(2,3) by (intro wrap64_overflow) simp_all
  have k: "windowStart a \<le> length a" by (simp add: windowStart_def)
  let ?s = "int q - int (windowStart a)"
  have "wrap64 (?s + 56) < ?s \<or> int (length a - windowStart a) < wrap64 (?s + 56)"
  proof (cases "?s + 56 < 2 ^ 63")
    case True
    then have "wrap64 (?s + 56) = ?s + 56" using assms(2) k small by (intro wrap64_id) (auto simp: is_int64_def)
    then show ?thesis using assms(2) k small by simp
  next
    case False
    then have "wrap64 (?s + 56) = ?s + 56 - 2 ^ 64" using assms(3) by (intro wrap64_overflow) simp_all
    then show ?thesis by simp
  qed
  moreover have "int (windowStart a) \<le> int q" "wrap64 (int q + 56) \<le> int (windowStart a) + int (length a - windowStart a)"
    using assms(2,3) k small w by simp_all
  ultimately show ?thesis using assms(1) by (simp add: readAtCached_def tail_of_def Let_def)
qed

text \<open>The end record as the code reads it, for an end record at \<open>p\<close>.\<close>

definition plainDir :: "bytes \<Rightarrow> nat \<Rightarrow> zipDirectory" where
  "plainDir a p = \<lparr>zd_eocdOffset = int p, zd_cdOffset = int (Uint32 (drop (p + 16) a)), zd_cdSize = int (Uint32 (drop (p + 12) a)),
     zd_records = word_of_nat (Uint16 (drop (p + 10) a)), zd_tailOffset = int (windowStart a), zd_tail = drop (windowStart a) a\<rparr>"

definition zip64Dir :: "bytes \<Rightarrow> nat \<Rightarrow> nat \<Rightarrow> zipDirectory" where
  "zip64Dir a p q = (plainDir a p)\<lparr>zd_records := word_of_nat (Uint64 (drop (q + 32) a)),
     zd_cdSize := wrap64 (int (Uint64 (drop (q + 40) a))), zd_cdOffset := wrap64 (int (Uint64 (drop (q + 48) a)))\<rparr>"

text \<open>What follows the locator, with its offset as an unbounded number.\<close>

definition locatorCase :: "bytes \<Rightarrow> nat \<Rightarrow> (zipDirectory \<times> int) result option" where
  "locatorCase a p =
     (let q = locatorOffset a p in
      if 2 ^ 63 \<le> q then Some (Inl corruptZip)
      else if 2 ^ 63 \<le> q + zip64EOCDLen then None
      else if p - zip64LocatorLen < q + zip64EOCDLen then Some (Inl corruptZip)
      else if Uint32 (drop q a) \<noteq> zip64EOCDSignature then Some (Inl corruptZip)
      else Some (Inr (zip64Dir a p q, int q)))"

lemma Uint64_bound: "Uint64 b < 2 ^ 64"
  using leUint_bound [of "take 8 b"] power_increasing [of "length (take 8 b)" 8 "256::nat"] by (simp add: Uint64_def)

lemma readZip64_spec:
  assumes p: "p + 22 \<le> length a" and small: "length a < 2 ^ 62"
  shows "readZip64 (bytesReaderAt a) (plainDir a p) st =
    (if hasLocator a p then locatorCase a p else Some (Inr (plainDir a p, int p)), st)"
proof (cases "20 \<le> p")
  case False
  then show ?thesis by (simp add: readZip64_def plainDir_def hasLocator_def zip_consts)
next
  case True
  let ?d = "plainDir a p" and ?q = "locatorOffset a p" and ?r = "bytesReaderAt a"
  have tl: "tail_of a ?d" by (simp add: tail_of_def plainDir_def)
  have off: "zd_eocdOffset ?d = int p" "int p - 20 = int (p - 20)" using True by (simp_all add: plainDir_def)
  have loc: "readAtCached ?r ?d (int (p - 20)) 20 st = (Some (Inr (take 20 (drop (p - 20) a))), st)"
    by (rule readAtCached_inside [OF tl]) (use True p small in simp_all)
  have f: "Uint32 (take 20 (drop (p - 20) a)) = Uint32 (drop (p - 20) a)"
    "Uint64 (drop 8 (take 20 (drop (p - 20) a))) = ?q"
    using take_drop_fields(2) [of 0 20 "drop (p - 20) a"] take_drop_fields(3) [of 8 20 "drop (p - 20) a"] True
    by (simp_all add: locatorOffset_def zip_consts add.commute)
  have start: "readZip64 ?r ?d st =
    (if \<not> hasLocator a p then (Some (Inr (?d, int p)), st)
     else let recOffset = wrap64 (int ?q) in
       if recOffset < 0 \<or> int (p - 20) < wrap64 (recOffset + 56) then (Some (Inl corruptZip), st)
       else case readAtCached ?r ?d recOffset 56 st of
          (None, st) \<Rightarrow> (None, st)
        | (Some (Inl e), st) \<Rightarrow> (Some (Inl (Errorf [e])), st)
        | (Some (Inr rec), st) \<Rightarrow>
            if Uint32 rec \<noteq> zip64EOCDSignature then (Some (Inl corruptZip), st)
            else (Some (Inr (?d\<lparr>zd_records := word_of_nat (Uint64 (drop 32 rec)), zd_cdSize := wrap64 (int (Uint64 (drop 40 rec))),
                               zd_cdOffset := wrap64 (int (Uint64 (drop 48 rec)))\<rparr>, recOffset)), st))"
    unfolding readZip64_def off zip64LocatorLen_def zip64EOCDLen_def of_nat_numeral off(2) loc hasLocator_def
    using True by (simp add: f)
  show ?thesis
  proof (cases "hasLocator a p")
    case False
    then show ?thesis unfolding start by simp
  next
    case has: True
    consider (neg) "2 ^ 63 \<le> ?q" | (wraps) "?q < 2 ^ 63" "2 ^ 63 \<le> ?q + 56" | (fits) "?q + 56 < 2 ^ 63" by linarith
    then show ?thesis
    proof cases
      case neg
      then have "wrap64 (int ?q) = int ?q - 2 ^ 64" using Uint64_bound [of "drop (p - 20 + 8) a"]
        by (intro wrap64_overflow) (simp_all add: locatorOffset_def zip_consts)
      moreover have "int ?q < 2 ^ 64" using Uint64_bound [of "drop (p - 20 + 8) a"] by (simp add: locatorOffset_def zip_consts)
      ultimately show ?thesis unfolding start using has neg by (simp add: locatorCase_def)
    next
      case wraps
      have w: "wrap64 (int ?q) = int ?q" using wraps by (intro wrap64_id) (simp add: is_int64_def)
      have w2: "wrap64 (int ?q + 56) = int ?q + 56 - 2 ^ 64" using wraps by (intro wrap64_overflow) simp_all
      have "\<not> (int ?q < 0 \<or> int (p - 20) < wrap64 (int ?q + 56))" unfolding w2 using wraps by simp
      then show ?thesis unfolding start w Let_def using has wraps readAtCached_wraps [OF tl wraps(2,1) small, of ?r st]
        by (simp add: locatorCase_def zip_consts)
    next
      case fits
      have w: "wrap64 (int ?q) = int ?q" "wrap64 (int ?q + 56) = int ?q + 56" using fits by (auto simp: is_int64_def intro!: wrap64_id)
      show ?thesis
      proof (cases "p - 20 < ?q + 56")
        case True
        then show ?thesis unfolding start w Let_def using has fits by (simp add: locatorCase_def zip_consts)
      next
        case False
        have rd: "readAtCached ?r ?d (int ?q) 56 st = (Some (Inr (take 56 (drop ?q a))), st)"
          by (rule readAtCached_inside [OF tl]) (use False p small in simp_all)
        have "Uint32 (take 56 (drop ?q a)) = Uint32 (drop ?q a)" using take_drop_fields(2) [of 0 56 "drop ?q a"] by simp
        moreover have "?q + 76 \<le> p" using False \<open>20 \<le> p\<close> by simp
        ultimately show ?thesis unfolding start w Let_def rd using has fits False
          by (simp add: locatorCase_def zip_consts zip64Dir_def take_drop_fields add.commute Let_def)
      qed
    qed
  qed
qed

definition checkDir :: "(zipDirectory \<times> int) result option \<Rightarrow> zipDirectory result option" where
  "checkDir x =
     (case x of
        None \<Rightarrow> None
      | Some (Inl e) \<Rightarrow> Some (Inl e)
      | Some (Inr (d, dirEnd)) \<Rightarrow>
          if zd_cdOffset d < 0 \<or> zd_cdSize d < 0 \<or> dirEnd < wrap64 (zd_cdOffset d + zd_cdSize d) then Some (Inl corruptZip)
          else Some (Inr d))"

lemma readZipDirectory_bytes:
  assumes small: "length a < 2 ^ 62"
  shows "readZipDirectory (bytesReaderAt a) (int (length a)) st =
    (case lastEOCD a of
       None \<Rightarrow> Some (Inl notZip)
     | Some p \<Rightarrow> checkDir (if hasLocator a p then locatorCase a p else Some (Inr (plainDir a p, int p))), st)"
proof (cases "length a < 22")
  case True
  then show ?thesis by (simp add: readZipDirectory_def lastEOCD_def zip_consts)
next
  case False
  let ?k = "windowStart a" and ?n = "min tailWindow (int (length a))"
  have n: "nat ?n = length a - ?k" "int (length a) - ?n = int ?k" "int (length a - ?k) = ?n" by (auto simp: windowStart_def tailWindow_def)
  have rd: "bytesReaderAt a (nat ?n) (int (length a) - ?n) st = ((drop ?k a, None), st)"
    unfolding n using False by (simp add: bytesReaderAt_def Let_def windowStart_def)
  have buf: "readBuf (nat ?n) (drop ?k a) = drop ?k a" unfolding n by (simp add: readBuf_def)
  have scan: "lastEOCD a = map_option (\<lambda>i. i + ?k) (scanEOCD (drop ?k a) (length (drop ?k a) - 22))"
    using tail_scan [of a ?k] False by (simp add: lastEOCD_def zip_consts)
  show ?thesis
  proof (cases "scanEOCD (drop ?k a) (length (drop ?k a) - 22)")
    case None
    then show ?thesis using False rd buf scan by (simp add: readZipDirectory_def Let_def zip_consts)
  next
    case (Some i)
    have at: "eocdAt (drop ?k a) i" using Some unfolding scanEOCD_Some by blast
    have le: "i + ?k + 22 \<le> length a" using at by (simp add: eocdAt_def zip_consts) arith
    have d: "\<lparr>zd_eocdOffset = int (length a) - ?n + int i, zd_cdOffset = int (Uint32 (drop 16 (take 22 (drop i (drop ?k a))))),
        zd_cdSize = int (Uint32 (drop 12 (take 22 (drop i (drop ?k a))))), zd_records = word_of_nat (Uint16 (drop 10 (take 22 (drop i (drop ?k a))))),
        zd_tailOffset = int (length a) - ?n, zd_tail = drop ?k a\<rparr> = plainDir a (i + ?k)"
      unfolding n by (simp add: plainDir_def take_drop_fields ac_simps)
    have pos: "lastEOCD a = Some (i + ?k)" using scan Some by simp
    show ?thesis
      unfolding pos option.case readZipDirectory_def Let_def rd prod.case buf zip_consts of_nat_numeral Some d
        readZip64_spec [OF le small]
      using False by (auto simp: checkDir_def split: option.splits sum.splits prod.splits)
  qed
qed

lemma locatorCase_cases:
  assumes "locatorCase a p = Some (Inr (d, dirEnd))"
  shows "locatorOffset a p + 56 \<le> p - 20" and "Uint32 (drop (locatorOffset a p) a) = zip64EOCDSignature"
    and "d = zip64Dir a p (locatorOffset a p)" and "dirEnd = int (locatorOffset a p)"
  using assms by (auto simp: locatorCase_def Let_def zip_consts split: if_splits)

lemma wrap64_nonneg: "x < 2 ^ 64 \<Longrightarrow> 0 \<le> wrap64 (int x) \<Longrightarrow> wrap64 (int x) = int x \<and> x < 2 ^ 63"
proof (cases "x < 2 ^ 63")
  case False
  assume "x < 2 ^ 64" and pos: "0 \<le> wrap64 (int x)"
  then have b: "2 ^ 63 \<le> int x" "int x < 2 ^ 64" using False by simp_all
  then have "wrap64 (int x) = int x - 2 ^ 64" by (intro wrap64_overflow) simp_all
  with b pos show ?thesis by linarith
qed (simp add: is_int64_def)

lemma endRecord_code:
  assumes "p < 2 ^ 62"
    and "(if hasLocator a p then locatorCase a p else Some (Inr (plainDir a p, int p))) = Some (Inr (d, dirEnd))"
    and "0 \<le> zd_cdOffset d" and "0 \<le> zd_cdSize d"
  shows "endRecord a p = Some (nat (zd_cdOffset d), nat (zd_cdSize d), unat (zd_records d), nat dirEnd) \<and> zd_eocdOffset d = int p \<and>
    0 \<le> dirEnd \<and> dirEnd \<le> int p \<and> zd_cdOffset d < 2 ^ 63 \<and> zd_cdSize d < 2 ^ 63"
proof (cases "hasLocator a p")
  case True
  let ?q = "locatorOffset a p"
  have lc: "locatorCase a p = Some (Inr (d, dirEnd))" using assms(2) True by simp
  note l = locatorCase_cases [OF lc]
  have o: "zd_cdOffset d = int (Uint64 (drop (?q + 48) a)) \<and> Uint64 (drop (?q + 48) a) < 2 ^ 63"
    using wrap64_nonneg [OF Uint64_bound] assms(3) by (simp add: l(3) zip64Dir_def)
  have z: "zd_cdSize d = int (Uint64 (drop (?q + 40) a)) \<and> Uint64 (drop (?q + 40) a) < 2 ^ 63"
    using wrap64_nonneg [OF Uint64_bound] assms(4) by (simp add: l(3) zip64Dir_def)
  have rc: "unat (zd_records d) = Uint64 (drop (?q + 32) a)" "zd_eocdOffset d = int p"
    using Uint64_bound [of "drop (?q + 32) a"] by (simp_all add: l(3) zip64Dir_def plainDir_def unat_of_nat)
  have "endRecord a p = Some (Uint64 (drop (?q + 48) a), Uint64 (drop (?q + 40) a), Uint64 (drop (?q + 32) a), ?q)"
    using True l(1,2) by (simp add: endRecord_def Let_def zip_consts)
  with o z rc l(1,4) show ?thesis by simp
next
  case False
  then have d: "d = plainDir a p" "dirEnd = int p" using assms(2) by simp_all
  have "unat (word_of_nat (Uint16 (drop (p + 10) a)) :: 64 word) = Uint16 (drop (p + 10) a)"
    using Uint16_bound [of "drop (p + 10) a"] by (simp add: unat_of_nat)
  then show ?thesis
    using False Uint32_bound [of "drop (p + 16) a"] Uint32_bound [of "drop (p + 12) a"] by (simp add: d plainDir_def endRecord_def)
qed

lemma lastEOCD_bound: "lastEOCD a = Some p \<Longrightarrow> p + 22 \<le> length a"
  by (auto simp: lastEOCD_def scanEOCD_Some eocdLen_def split: if_splits)

lemma zipdir_sound:
  assumes small: "length a < 2 ^ 62"
    and run: "readZipDirectory (bytesReaderAt a) (int (length a)) st = (Some (Inr d), st')"
    and nowrap: "zd_cdOffset d + zd_cdSize d < 2 ^ 63"
  shows "zipDirSpec a = Some (nat (zd_eocdOffset d), nat (zd_cdOffset d), nat (zd_cdSize d), unat (zd_records d))"
proof -
  obtain p where p: "lastEOCD a = Some p"
    and ck: "checkDir (if hasLocator a p then locatorCase a p else Some (Inr (plainDir a p, int p))) = Some (Inr d)"
    using run unfolding readZipDirectory_bytes [OF small] by (auto split: option.splits)
  then obtain dirEnd where c: "(if hasLocator a p then locatorCase a p else Some (Inr (plainDir a p, int p))) = Some (Inr (d, dirEnd))"
    and ok: "0 \<le> zd_cdOffset d" "0 \<le> zd_cdSize d" "wrap64 (zd_cdOffset d + zd_cdSize d) \<le> dirEnd"
    unfolding checkDir_def by (auto split: option.splits sum.splits prod.splits if_splits)
  have "p < 2 ^ 62" using lastEOCD_bound [OF p] small by simp
  note e = endRecord_code [OF this c ok(1,2)]
  have "wrap64 (zd_cdOffset d + zd_cdSize d) = zd_cdOffset d + zd_cdSize d" using ok nowrap by (intro wrap64_id) (simp add: is_int64_def)
  with ok e have "nat (zd_cdOffset d) + nat (zd_cdSize d) \<le> nat dirEnd" by (simp add: nat_add_distrib [symmetric])
  with p e show ?thesis by (simp add: zipDirSpec_def)
qed

lemma zipdir_complete:
  assumes small: "length a < 2 ^ 62" and spec: "zipDirSpec a = Some (p, off, len, records)"
  shows "\<exists>d. readZipDirectory (bytesReaderAt a) (int (length a)) st = (Some (Inr d), st) \<and>
    zd_eocdOffset d = int p \<and> zd_cdOffset d = int off \<and> zd_cdSize d = int len \<and> zd_records d = word_of_nat records"
proof -
  obtain dirEnd where p: "lastEOCD a = Some p" and er: "endRecord a p = Some (off, len, records, dirEnd)" and le: "off + len \<le> dirEnd"
    using spec by (auto simp: zipDirSpec_def split: option.splits if_splits)
  have pb: "p < 2 ^ 62" using lastEOCD_bound [OF p] small by simp
  have de: "dirEnd \<le> p" using er by (auto simp: endRecord_def Let_def zip_consts split: if_splits)
  have w: "wrap64 (int off) = int off" "wrap64 (int len) = int len" "wrap64 (int off + int len) = int off + int len"
    using le de pb by (auto simp: is_int64_def intro!: wrap64_id)
  define d where "d = (if hasLocator a p then zip64Dir a p (locatorOffset a p) else plainDir a p)"
  have c: "(if hasLocator a p then locatorCase a p else Some (Inr (plainDir a p, int p))) = Some (Inr (d, int dirEnd))"
    using er pb by (auto simp: endRecord_def locatorCase_def d_def Let_def zip_consts split: if_splits)
  have f: "zd_eocdOffset d = int p" "zd_cdOffset d = int off" "zd_cdSize d = int len" "zd_records d = word_of_nat records"
    using er w by (auto simp: d_def endRecord_def zip64Dir_def plainDir_def Let_def split: if_splits)
  have "checkDir (Some (Inr (d, int dirEnd))) = Some (Inr d)" using f w le by (simp add: checkDir_def)
  then show ?thesis using f unfolding readZipDirectory_bytes [OF small] p option.case c by blast
qed

lemma zipdir_panics:
  assumes "length a < 2 ^ 62"
  shows "fst (readZipDirectory (bytesReaderAt a) (int (length a)) st) = None \<longleftrightarrow>
    (\<exists>p. lastEOCD a = Some p \<and> hasLocator a p \<and> locatorOffset a p < 2 ^ 63 \<and> 2 ^ 63 \<le> locatorOffset a p + 56)"
  unfolding readZipDirectory_bytes [OF assms]
  by (auto simp: checkDir_def locatorCase_def Let_def zip_consts split: option.splits sum.splits prod.splits if_splits)

section \<open>The cached end\<close>

text \<open>Serving the end from memory is reading the archive whose end is replaced by the cache.\<close>

lemma cached_reader_exact:
  assumes "0 \<le> off" and "k \<le> length a" and "cache \<noteq> []" and "0 < n" and "off + int n < 2 ^ 63"
  shows "cachedTailReaderAt (bytesReaderAt a) (int k) cache n off st = bytesReaderAt (take k a @ cache) n off st"
proof (cases "int k \<le> off")
  case True
  then obtain m where m: "off = int (k + m)" by (metis zle_iff_zadd of_nat_add)
  then show ?thesis
    using True assms by (auto simp: cachedTailReaderAt_def cachedPart_def bytesReaderAt_def Let_def nat_int_add)
next
  case False
  obtain i where i: "off = int i" using assms(1) nonneg_int_cases by blast
  have w: "wrap64 (off + int n) = off + int n" using assms(1,5) by (intro wrap64_id) (simp add: is_int64_def)
  have lt: "i < k" using False i by simp
  show ?thesis
  proof (cases "k < i + n")
    case True
    have h: "(if int k < wrap64 (off + int n) then nat (int k - off) else n) = k - i"
      unfolding w using True lt i by (simp add: nat_minus_as_int)
    have "take (k - i) (drop i a) @ take (n - (k - i)) cache = take n (drop i (take k a @ cache))"
      using lt True assms(2) by (simp add: drop_take)
    moreover have "length (take (n - (k - i)) cache) < n - (k - i) \<longleftrightarrow> length (take n (drop i (take k a @ cache))) < n"
      using lt True assms(2) by (auto simp: min_def)
    ultimately show ?thesis
      using True lt assms i unfolding cachedTailReaderAt_def h Let_def
      by (auto simp: cachedPart_def bytesReaderAt_def Let_def)
  next
    case inside: False
    have h: "(if int k < wrap64 (off + int n) then nat (int k - off) else n) = n" unfolding w using inside i by simp
    show ?thesis
      using inside lt assms i unfolding cachedTailReaderAt_def h Let_def
      by (auto simp: bytesReaderAt_def Let_def drop_take)
  qed
qed

section \<open>Part ranges\<close>

text \<open>The ranges tile an interval: each starts where the one before ends, none is empty.\<close>

fun tiles :: "int \<Rightarrow> 's ZipPartRange list \<Rightarrow> bool" where
  "tiles cd [] = True"
| "tiles cd (r # rs) = (zr_StartOffset r < zr_EndOffset r \<and> zr_EndOffset r = (case rs of [] \<Rightarrow> cd | q # _ \<Rightarrow> zr_StartOffset q) \<and> tiles cd rs)"

lemma mkRanges_tiles:
  assumes "mkRanges cd fs = Inr rs"
  shows "tiles cd rs" and "map zr_File rs = fs" and "list_all (\<lambda>r. zr_Name r = zf_Name (zr_File r) \<and> zr_StartOffset r = zf_HeaderOffset (zr_File r)) rs"
proof -
  have "tiles cd rs \<and> map zr_File rs = fs \<and> list_all (\<lambda>r. zr_Name r = zf_Name (zr_File r) \<and> zr_StartOffset r = zf_HeaderOffset (zr_File r)) rs"
    using assms
  proof (induction cd fs arbitrary: rs rule: mkRanges.induct)
    case (2 cd f fs)
    then obtain rs' where rs': "mkRanges cd fs = Inr rs'" "rs = \<lparr>zr_Name = zf_Name f, zr_StartOffset = zf_HeaderOffset f,
        zr_EndOffset = (case fs of [] \<Rightarrow> cd | g # _ \<Rightarrow> zf_HeaderOffset g), zr_File = f\<rparr> # rs'"
      "zf_HeaderOffset f < (case fs of [] \<Rightarrow> cd | g # _ \<Rightarrow> zf_HeaderOffset g)"
      by (auto simp: Let_def split: if_splits sum.splits)
    note IH = "2.IH" [OF refl _ rs'(1)]
    have "tiles cd rs'" "map zr_File rs' = fs"
      "list_all (\<lambda>r. zr_Name r = zf_Name (zr_File r) \<and> zr_StartOffset r = zf_HeaderOffset (zr_File r)) rs'"
      using IH rs'(3) by auto
    with rs'(2,3) show ?case by (auto split: list.splits)
  qed simp
  then show "tiles cd rs" and "map zr_File rs = fs" and "list_all (\<lambda>r. zr_Name r = zf_Name (zr_File r) \<and> zr_StartOffset r = zf_HeaderOffset (zr_File r)) rs"
    by blast+
qed

lemma partRanges_spec:
  assumes "partRanges d files = Inr rs"
  shows "tiles (zd_cdOffset d) rs \<and> mset (map zr_File rs) = mset files \<and>
    list_all (\<lambda>r. zr_Name r = zf_Name (zr_File r) \<and> zr_StartOffset r = zf_HeaderOffset (zr_File r) \<and> 0 \<le> zr_StartOffset r) rs"
proof -
  have mk: "mkRanges (zd_cdOffset d) (sort_key zf_HeaderOffset files) = Inr rs"
    and pos: "\<And>f. f \<in> set files \<Longrightarrow> 0 \<le> zf_HeaderOffset f"
    using assms by (auto simp: partRanges_def list_ex_iff split: if_splits)
  note t = mkRanges_tiles [OF mk]
  have "0 \<le> zr_StartOffset r" if "r \<in> set rs" for r
  proof -
    have "zr_File r \<in> set (map zr_File rs)" using that by simp
    then have "zr_File r \<in> set files" unfolding t(2) by simp
    with t(3) that pos show ?thesis by (auto simp: list_all_iff)
  qed
  moreover have "mset (map zr_File rs) = mset files" unfolding t(2) by simp
  ultimately show ?thesis using t(1,3) by (auto simp: list_all_iff)
qed

lemma GetZipPartRanges_spec:
  assumes "GetZipPartRanges NewReader ra sz st = (Some (Inr rs), st')"
  obtains d st1 off cache st2 files where "readZipDirectory ra sz st = (Some (Inr d), st1)"
    and "loadCache ra sz d st1 = (Inr (off, cache), st2)"
    and "NewReader (cachedTailReaderAt ra off (trimCache d off cache)) (zd_eocdOffset d + int eocdLen) st2 = (Inr files, st')"
    and "tiles (zd_cdOffset d) rs" and "mset (map zr_File rs) = mset files"
    and "(word_of_nat (length files) :: 16 word) = ucast (zd_records d)"
    and "list_all (\<lambda>r. zr_Name r = zf_Name (zr_File r) \<and> zr_StartOffset r = zf_HeaderOffset (zr_File r) \<and> 0 \<le> zr_StartOffset r) rs"
proof -
  obtain d st1 off cache st2 files where d: "readZipDirectory ra sz st = (Some (Inr d), st1)"
    "loadCache ra sz d st1 = (Inr (off, cache), st2)"
    "NewReader (cachedTailReaderAt ra off (trimCache d off cache)) (zd_eocdOffset d + int eocdLen) st2 = (Inr files, st')"
    "partRanges d files = Inr rs"
    using assms unfolding GetZipPartRanges_def by (auto split: prod.splits option.splits sum.splits)
  have "(word_of_nat (length files) :: 16 word) = ucast (zd_records d)"
    using d(4) by (auto simp: partRanges_def split: if_splits)
  with partRanges_spec [OF d(4)] d(1-3) that show thesis by blast
qed

lemma tiles_disjoint:
  "tiles cd rs \<Longrightarrow> sorted_wrt (\<lambda>r q. zr_EndOffset r \<le> zr_StartOffset q) rs \<and> (\<forall>r \<in> set rs. zr_EndOffset r \<le> cd)"
proof (induction cd rs rule: tiles.induct)
  case (2 cd r rs)
  then have IH: "sorted_wrt (\<lambda>r q. zr_EndOffset r \<le> zr_StartOffset q) rs" "\<forall>q \<in> set rs. zr_EndOffset q \<le> cd" "tiles cd rs" by auto
  have "zr_EndOffset r \<le> zr_StartOffset q" if "q \<in> set rs" for q
  proof (cases rs)
    case (Cons x xs)
    with "2.prems" have "zr_EndOffset r = zr_StartOffset x" "zr_StartOffset x < zr_EndOffset x" by auto
    with IH(1) Cons that show ?thesis by fastforce
  qed (use that in simp)
  moreover have "zr_EndOffset r \<le> cd"
  proof (cases rs)
    case (Cons x xs)
    with "2.prems" IH(2) show ?thesis by fastforce
  qed (use "2.prems" in simp)
  ultimately show ?case using IH by simp
qed simp

end
