(* ===== verification/Upload.thy ===== *)
theory Upload
  imports Backup
begin

text \<open>
  What \<open>uploadPart\<close> of \<open>src/tsync/backup.go\<close> does to a store that keeps the storage contract:
  a part is committed completely or not at all, only under its own key, and the record returned
  for it describes content with that key. Proved in \<open>keyed_storage\<close>, so for every storage of the
  SDK. Also the checks that a backup run makes before and after the uploads.
\<close>

section \<open>What a source must not do\<close>

text \<open>A call outside the store (opening or listing a source) leaves the objects of the store alone.\<close>

definition quiet :: "('s \<Rightarrow> string \<Rightarrow> bytes option) \<Rightarrow> (string \<Rightarrow> bool) \<Rightarrow> ('s \<Rightarrow> bool) \<Rightarrow> ('s \<Rightarrow> 'a \<times> 's) \<Rightarrow> bool" where
  "quiet contents key_ok ok f \<longleftrightarrow>
     (\<forall>s. ok s \<longrightarrow> ok (snd (f s)) \<and> (\<forall>q. key_ok q \<longrightarrow> contents (snd (f s)) q = contents s q))"

definition entry_quiet ::
  "('s \<Rightarrow> string \<Rightarrow> bytes option) \<Rightarrow> (string \<Rightarrow> bool) \<Rightarrow> ('s \<Rightarrow> bool) \<Rightarrow> 's SourceEntry \<Rightarrow> bool" where
  "entry_quiet contents key_ok ok e \<longleftrightarrow> 0 \<le> se_Size e \<and>
     pred_option (quiet contents key_ok ok) (se_Open e) \<and>
     pred_option (quiet contents key_ok ok) (se_OpenRaw e) \<and>
     pred_option (quiet contents key_ok ok) (se_OpenRawCompressed e)"

lemma quietD:
  "quiet contents key_ok ok f \<Longrightarrow> ok s \<Longrightarrow> f s = (r, s') \<Longrightarrow>
     ok s' \<and> (\<forall>q. key_ok q \<longrightarrow> contents s' q = contents s q)"
  unfolding quiet_def by (metis snd_conv)

lemma entry_quiet_open: "entry_quiet contents key_ok ok e \<Longrightarrow> openFor e = Some f \<Longrightarrow> quiet contents key_ok ok f"
  by (auto simp: entry_quiet_def openFor_def split: if_splits)

text \<open>The bytes of a part: the raw content, or what the zip library makes of the content.\<close>

definition zip_bytes :: "(bytes list \<times> (bytes list \<times> zipHeader) result) result \<Rightarrow> bytes" where
  "zip_bytes z =
     (case z of
        Inr (chunks, Inr (chunks', fh)) \<Rightarrow> concat chunks @ concat chunks'
      | _ \<Rightarrow> [])"

definition part_bytes :: "zipLib \<Rightarrow> backupRun \<Rightarrow> 's SourceEntry \<Rightarrow> nat \<times> int \<Rightarrow> bytes \<Rightarrow> bytes" where
  "part_bytes Z r entry ml content =
     (let fh = \<lparr>zh_Name = pathBase (se_Path entry), zh_Method = fst ml, zh_Level = snd ml,
                zh_CRC32 = 0, zh_CompressedSize64 = 0, zh_UncompressedSize64 = 0, zh_ModTime = None,
                zh_Password = br_clearZipPass r\<rparr>
      in if se_IsEncryptedRaw entry then content
         else if se_OpenRawCompressed entry \<noteq> None
         then zip_bytes (zl_CreateRawFileParts Z
           (fh\<lparr>zh_Method := se_CompressionMethod entry, zh_Level := 0, zh_CRC32 := se_CRC32 entry,
               zh_CompressedSize64 := word_of_int (se_CompressedSize entry),
               zh_UncompressedSize64 := word_of_int (se_Size entry), zh_ModTime := Some (se_LastModified entry)\<rparr>) content)
         else zip_bytes (zl_CreateFileParts Z fh content))"

lemma concat_chunksOf: "concat (chunksOf b) = b"
proof (induction b rule: chunksOf.induct)
  case (1 b)
  then show ?case by (subst chunksOf.simps) simp
qed

section \<open>Producing a part\<close>

context keyed_storage
begin

text \<open>The state of a writer between the calls on it, with the rest of the store unchanged.\<close>

definition writing :: "'s \<Rightarrow> 'w \<Rightarrow> string \<Rightarrow> bytes option \<Rightarrow> 's \<Rightarrow> bool" where
  "writing s w p od s0 \<longleftrightarrow> inv s \<and> (\<forall>q. key_ok q \<longrightarrow> contents s q = contents s0 q) \<and> w_open s w p od"

lemma writeChunks_spec:
  "writing s w p (Some d) s0 \<Longrightarrow> writeChunks S bs w s = (e, w', s') \<Longrightarrow>
     writing s' w' p (if e = None then Some (d @ concat bs) else None) s0"
proof (induction bs arbitrary: d w s)
  case (Cons b bs)
  obtain n e1 w1 s1 where wr: "wr_Write S w b s = ((n, e1), w1, s1)" by (metis surj_pair)
  have st: "writing s1 w1 p (if e1 = None then Some (d @ b) else None) s0"
    using w_write_law [of s w p d b n e1 w1 s1] Cons.prems(1) wr by (auto simp: writing_def)
  show ?case
  proof (cases e1)
    case None
    with wr Cons.prems(2) st Cons.IH [of s1 w1 "d @ b"] show ?thesis by (auto split: if_splits)
  next
    case (Some x)
    with wr Cons.prems(2) st show ?thesis by auto
  qed
qed simp

lemma pooledCopy_spec:
  assumes "writing s w p (Some d) s0" and "pooledCopy S w rc s = (e, w', s')"
  shows "\<exists>od. writing s' w' p od s0 \<and> (e = None \<longrightarrow> od = Some (d @ fst rc) \<and> snd rc = None)"
proof -
  obtain e1 w1 s1 where wc: "writeChunks S (chunksOf (fst rc)) w s = (e1, w1, s1)" by (metis surj_pair)
  from writeChunks_spec [OF assms(1) wc] wc assms(2) show ?thesis
    by (auto simp: pooledCopy_def concat_chunksOf split: option.splits if_splits)
qed

lemma zipCopy_spec:
  assumes "writing s w p (Some []) s0" and "zipCopy S mk fh w rc s = (res, w', s')"
  shows "\<exists>od. writing s' w' p od s0 \<and> 
    (\<forall>fh'. res = Inr fh' \<longrightarrow> od = Some (zip_bytes (mk fh (fst rc))) \<and> snd rc = None)"
proof (cases "mk fh (fst rc)")
  case (Inl e)
  with assms show ?thesis by (auto simp: zipCopy_def)
next
  case (Inr x)
  obtain cs cl where mk: "mk fh (fst rc) = Inr (cs, cl)" using Inr by (cases x) simp
  obtain e1 w1 s1 where wc: "writeChunks S cs w s = (e1, w1, s1)" by (metis surj_pair)
  note st1 = writeChunks_spec [OF assms(1) wc]
  have stop: ?thesis if "w' = w1" "s' = s1" "\<And>h. res \<noteq> Inr h"
    using that st1 by auto
  show ?thesis
  proof (cases "e1 = None \<and> snd rc = None \<and> (\<exists>y. cl = Inr y)")
    case False
    with assms(2) mk wc show ?thesis
      by (intro stop) (auto simp: zipCopy_def split: option.splits sum.splits)
  next
    case True
    then obtain cs' h where cl: "cl = Inr (cs', h)" by auto
    obtain e2 w2 s2 where wc2: "writeChunks S cs' w1 s1 = (e2, w2, s2)" by (metis surj_pair)
    have "writing s1 w1 p (Some (concat cs)) s0" using st1 True by simp
    from writeChunks_spec [OF this wc2] assms(2) mk wc wc2 cl True show ?thesis
      by (auto simp: zipCopy_def zip_bytes_def split: option.splits if_splits)
  qed
qed

lemma producePart_spec:
  assumes "writing s w p (Some []) s0" and "producePart Z r S w rc entry m l s = (res, w', s')"
  shows "\<exists>od. writing s' w' p od s0 \<and> 
    (\<forall>c. res = Inr c \<longrightarrow> od = Some (part_bytes Z r entry (m, l) (fst rc)) \<and> snd rc = None)"
proof (cases "se_IsEncryptedRaw entry")
  case True
  obtain e1 w1 s1 where pc: "pooledCopy S w rc s = (e1, w1, s1)" by (metis surj_pair)
  from pooledCopy_spec [OF assms(1) pc] pc assms(2) True show ?thesis
    by (auto simp: producePart_def copyRawPart_def part_bytes_def split: option.splits if_splits)
next
  case enc: False
  note zip = zipCopy_spec [OF assms(1)]
  show ?thesis
  proof (cases "se_OpenRawCompressed entry")
    case None
    with assms(2) enc show ?thesis
      by (auto simp: producePart_def writeCompressedPart_def part_bytes_def split: prod.splits sum.splits dest!: zip)
  next
    case (Some f)
    with assms(2) enc show ?thesis
      by (auto simp: producePart_def writeRawCompressedPart_def part_bytes_def split: prod.splits sum.splits dest!: zip)
  qed
qed

text \<open>
  The outcome of an upload: \<open>committed\<close> by a successful or failed \<open>Close\<close>, or nothing.
\<close>

lemma uploadPart_cases:
  assumes "inv s" and "isValidFileKey key" and "entry_quiet contents key_ok inv entry"
    and up: "uploadPart Z r S c key entry s = (res, s')"
  obtains (no_commit) e where "res = Inl e" "inv s'" "\<forall>q. key_ok q \<longrightarrow> contents s' q = contents s q"
    | (closed) f content ml sizes e where "openFor entry = Some f" "fst (f s) = Inr (content, None)"
      "compressionFor r (se_Path entry) = Inr ml" "fileKeyFor (fst sizes) (fst (snd sizes)) = key"
      "inv s'" "\<forall>q. key_ok q \<and> q \<noteq> partKeyFor key \<longrightarrow> contents s' q = contents s q"
      "contents s' (partKeyFor key) = Some (part_bytes Z r entry ml content) \<or>
         e \<noteq> None \<and> contents s' (partKeyFor key) = contents s (partKeyFor key)"
      "res = (case e of None \<Rightarrow> Inr (newFileRecord r entry sizes) | Some x \<Rightarrow> Inl (Errorf [x]))"
proof -
  let ?same = "\<lambda>s'. \<forall>q. key_ok q \<longrightarrow> contents s' q = contents s q"
  have trivial: thesis if "res = Inl e" "s' = s" for e
    using that assms(1) no_commit by auto
  consider (comp) e where "compressionFor r (se_Path entry) = Inl e"
    | (none) m l where "compressionFor r (se_Path entry) = Inr (m, l)" "openFor entry = None"
    | (some) m l f where "compressionFor r (se_Path entry) = Inr (m, l)" "openFor entry = Some f"
    by (cases "compressionFor r (se_Path entry)"; cases "openFor entry") auto
  then show thesis
  proof cases
    case some
    obtain ro s1 where op: "f s = (ro, s1)" by fastforce
    have q1: "inv s1" "?same s1"
      using quietD [OF entry_quiet_open [OF assms(3) some(2)] assms(1) op] by auto
    show thesis
    proof (cases ro)
      case (Inl e)
      with up some op q1 show thesis by (intro no_commit) (auto simp: uploadPart_def)
    next
      case (Inr rc)
      obtain rw s2 where ow: "st_OpenWriter S c (partKeyFor key) s1 = (rw, s2)" by fastforce
      note ol = open_law [OF q1(1) key_partKeyFor [OF assms(2)] ow]
      show thesis
      proof (cases rw)
        case (Inl e)
        with up some op Inr ow ol q1 show thesis by (intro no_commit) (auto simp: uploadPart_def)
      next
        case w: (Inr w)
        have st: "writing s2 w (partKeyFor key) (Some []) s" using ol w q1 by (simp add: writing_def)
        obtain pr w3 s3 where pp: "producePart Z r S w rc entry m l s2 = (pr, w3, s3)" by (metis surj_pair)
        obtain od where od: "writing s3 w3 (partKeyFor key) od s"
          "\<And>x. pr = Inr x \<Longrightarrow> od = Some (part_bytes Z r entry (m, l) (fst rc)) \<and> snd rc = None"
          using producePart_spec [OF st pp] by metis
        have head: "uploadPart Z r S c key entry s =
            (case (case pr of Inl e \<Rightarrow> Inl e | Inr (crc, us, cs) \<Rightarrow>
                if fileKeyFor crc us \<noteq> key then Inl (Errorf [Sentinel ErrSourceChanged]) else Inr (crc, us, cs)) of
               Inl e \<Rightarrow> (case abortWriter S w3 s3 of (ae, s) \<Rightarrow> (Inl (the (joinErr (Some e) ae)), s))
             | Inr sizes \<Rightarrow> (case wr_Close S w3 s3 of
                   (Some e, w, s) \<Rightarrow> (Inl (Errorf [e]), s)
                 | (None, w, s) \<Rightarrow> (Inr (newFileRecord r entry sizes), s)))"
          by (simp add: uploadPart_def some op Inr ow w pp)
        show thesis
        proof (cases "\<exists>crc us cs. pr = Inr (crc, us, cs) \<and> fileKeyFor crc us = key")
          case True
          then obtain crc us cs where pr: "pr = Inr (crc, us, cs)" "fileKeyFor crc us = key" by blast
          obtain ce w4 s4 where cl: "wr_Close S w3 s3 = (ce, w4, s4)" by (metis surj_pair)
          have "writing s3 w3 (partKeyFor key) (Some (part_bytes Z r entry (m, l) (fst rc))) s" "snd rc = None"
            using od pr(1) by auto
          then have "inv s4"
            "\<forall>q. key_ok q \<and> q \<noteq> partKeyFor key \<longrightarrow> contents s4 q = contents s q"
            "contents s4 (partKeyFor key) = Some (part_bytes Z r entry (m, l) (fst rc)) \<or>
               ce \<noteq> None \<and> contents s4 (partKeyFor key) = contents s (partKeyFor key)" "snd rc = None"
            using key_partKeyFor [OF assms(2)]
              w_close_law [of s3 w3 "partKeyFor key" "part_bytes Z r entry (m, l) (fst rc)" ce w4 s4] cl
            by (auto simp: writing_def)
          moreover have "s' = s4" "res = (case ce of None \<Rightarrow> Inr (newFileRecord r entry (crc, us, cs)) | Some x \<Rightarrow> Inl (Errorf [x]))"
            using up cl pr by (auto simp: head split: option.splits)
          ultimately show thesis
            using some op Inr pr by (intro closed [of f "fst rc" "(m, l)" "(crc, us, cs)" ce]) (auto simp: prod_eq_iff)
        next
          case False
          obtain ae w4 s4 where ab: "wr_Abort S w3 s3 = (ae, w4, s4)" by (metis surj_pair)
          have "inv s4" "?same s4"
            using w_abort_law [OF _ _ ab] od(1) by (auto simp: writing_def)
          moreover have "s' = s4" "\<exists>e. res = Inl e"
            using up ab False by (auto simp: head abortWriter_def split: sum.splits)
          ultimately show thesis using no_commit by blast
        qed
      qed
    qed
  qed (use up in \<open>auto simp: uploadPart_def intro!: trivial\<close>)
qed

text \<open>The summary a run relies on.\<close>

lemma uploadPart_spec:
  assumes "inv s" and "isValidFileKey key" and "entry_quiet contents key_ok inv entry"
    and up: "uploadPart Z r S c key entry s = (res, s')"
  shows "inv s'" and "\<And>q. key_ok q \<Longrightarrow> q \<noteq> partKeyFor key \<Longrightarrow> contents s' q = contents s q"
    and "contents s (partKeyFor key) \<noteq> None \<Longrightarrow> contents s' (partKeyFor key) \<noteq> None"
    and "\<And>rec. res = Inr rec \<Longrightarrow> contents s' (partKeyFor key) \<noteq> None \<and>
          fileKeyFor (fr_Crc32 rec) (fr_UncompressedSize rec) = key"
  using key_partKeyFor [OF assms(2)]
  by (cases rule: uploadPart_cases [OF assms]; auto simp: newFileRecord_def split: option.splits)+

end

end
