(* ===== verification/Gather.thy ===== *)
theory Gather
  imports Upload
begin

text \<open>
  The sequential steps of \<open>RunBackup\<close> around its workers: the content key of an entry, the filter
  and the validation of the listed entries, the choice of the key, and the loop that gathers the
  results of the workers.
\<close>

section \<open>Entries\<close>

context keyed_storage
begin

lemma entryKey_spec:
  assumes "inv s" and "entry_quiet contents key_ok inv entry" and ek: "entryKey entry s = (res, s')"
  shows "inv s'" and "\<And>q. key_ok q \<Longrightarrow> contents s' q = contents s q" and "res = Inr key \<Longrightarrow> isValidFileKey key"
proof -
  have q: "inv s2 \<and> (\<forall>q. key_ok q \<longrightarrow> contents s2 q = contents s q)" if "se_Open entry = Some f" "f s = (r, s2)" for f r s2
    using assms(1,2) that quietD [of contents key_ok inv f s r s2] by (auto simp: entry_quiet_def)
  show "inv s'" and "\<And>q. key_ok q \<Longrightarrow> contents s' q = contents s q"
    using ek assms(1) q by (auto simp: entryKey_def split: if_splits option.splits prod.splits sum.splits)
  show "res = Inr key \<Longrightarrow> isValidFileKey key"
    using ek assms(2)
    by (auto simp: entryKey_def isValidFileKey_fileKeyFor entry_quiet_def split: if_splits option.splits prod.splits sum.splits)
qed

end

text \<open>The filter keeps what the callback keeps, and every component of every kept path is valid.\<close>

definition entry_path_ok :: "'s SourceEntry \<Rightarrow> bool" where
  "entry_path_ok e \<longleftrightarrow> se_Path e \<noteq> [] \<and> list_all valid_name (Split CHR ''/'' (TrimSuffix (se_Path e) ''/''))"

lemma firstInvalid_None: "firstInvalid ps = None \<longleftrightarrow> list_all valid_name ps"
  by (induction ps) (auto simp: valid_name_def split: option.splits)

lemma filterEntries_ok:
  "filterEntries opts es = Inr es' \<Longrightarrow>
     es' = filter (\<lambda>e. case bo_FilterFunc opts of None \<Rightarrow> True | Some f \<Rightarrow> f (se_Path e) = Inr True) es \<and>
     list_all entry_path_ok es'"
proof (induction es arbitrary: es')
  case (Cons e es)
  let ?k = "case bo_FilterFunc opts of None \<Rightarrow> Inr True | Some f \<Rightarrow> f (se_Path e)"
  consider (drop) "?k = Inr False" | (keep) "?k = Inr True" | (err) x where "?k = Inl x"
    by (cases ?k) auto
  then show ?case
  proof cases
    case drop
    with Cons show ?thesis by (auto split: option.splits)
  next
    case keep
    with Cons show ?thesis
      by (auto simp: entry_path_ok_def firstInvalid_None split: option.splits sum.splits if_splits)
  next
    case err
    with Cons.prems show ?thesis by simp
  qed
qed simp

text \<open>
  A file path has no trailing slash, so its components are those of the stored tree.
\<close>

lemma file_path_ok: "entry_path_ok e \<Longrightarrow> \<not> isDirEntry e \<Longrightarrow> list_all valid_name (Split CHR ''/'' (se_Path e))"
  by (simp add: entry_path_ok_def isDirEntry_def TrimSuffix_def)

text \<open>The default key is the smallest key identifier that is not empty.\<close>

lemma selectKeyID_min:
  assumes "bo_KeyID opts = []" and "list_all (\<lambda>x. fst x \<noteq> []) keys" and "keys \<noteq> []"
  shows "selectKeyID opts keys \<in> fst ` set keys \<and> (\<forall>k \<in> fst ` set keys. selectKeyID opts keys \<le> k)"
proof -
  let ?f = "\<lambda>sel (k, v). if sel = [] \<or> k < sel then k else sel"
  have loop: "sel \<noteq> [] \<Longrightarrow> list_all (\<lambda>x. fst x \<noteq> []) ks \<Longrightarrow>
      foldl ?f sel ks \<in> insert sel (fst ` set ks) \<and> (\<forall>k \<in> insert sel (fst ` set ks). foldl ?f sel ks \<le> k)"
    for sel :: string and ks :: "(string, bytes) gomap"
  proof (induction ks arbitrary: sel)
    case (Cons x ks)
    obtain k v where x: "x = (k, v)" by fastforce
    define sel' where "sel' = (if k < sel then k else sel)"
    have "sel' \<noteq> []" "sel' \<le> sel" "sel' \<le> k" "sel' \<in> {sel, k}"
      using Cons.prems by (auto simp: sel'_def x)
    moreover have "foldl ?f sel (x # ks) = foldl ?f sel' ks"
      using Cons.prems by (simp add: x sel'_def)
    ultimately show ?case
      using Cons.IH [of sel'] Cons.prems(2) by (auto simp: x)
  qed simp
  obtain k v ks where keys: "keys = (k, v) # ks" using assms(3) by (cases keys) auto
  with assms loop [of k ks] show ?thesis
    by (simp add: selectKeyID_def)
qed

section \<open>Gathering\<close>

definition no_results :: gathered where
  "no_results = \<lparr>ga_paths = [], ga_pool = [], ga_dirs = [], ga_firstErr = None, ga_done = 0\<rparr>"

lemma gather_snoc: "gather (rs @ [r]) = gather_step (gather rs) r"
  by (simp add: gather_def)

lemma gather_Nil: "gather [] = no_results"
  by (simp add: gather_def no_results_def)

text \<open>The first error stops the counting, and only an error does.\<close>

lemma gather_err:
  "(ga_firstErr (gather rs) = None \<longleftrightarrow> (\<forall>r \<in> set rs. rs_err r = None)) \<and>
   (ga_done (gather rs) \<le> length rs) \<and> (ga_firstErr (gather rs) = None \<longrightarrow> ga_done (gather rs) = length rs) \<and>
   (\<forall>e. ga_firstErr (gather rs) = Some e \<longrightarrow> ga_done (gather rs) < length rs)"
proof (induction rs rule: rev_induct)
  case Nil
  then show ?case by (simp add: gather_Nil no_results_def)
next
  case (snoc r rs)
  then show ?case
    by (auto simp: gather_snoc gather_step_def split: option.splits)
qed

lemma gather_wf: "gm_wf (ga_paths (gather rs)) \<and> gm_wf (ga_pool (gather rs)) \<and> gm_wf (ga_dirs (gather rs))"
proof (induction rs rule: rev_induct)
  case Nil
  then show ?case by (simp add: gather_Nil no_results_def)
next
  case (snoc r rs)
  then show ?case by (auto simp: gather_snoc gather_step_def split: option.splits)
qed

definition file_results :: "backupResult list \<Rightarrow> backupResult list" where
  "file_results rs = filter (\<lambda>r. \<not> rs_isDir r) rs"

lemma gather_maps:
  assumes "\<forall>r \<in> set rs. rs_err r = None"
  shows "gm_get (ga_paths (gather rs)) = map_of (rev (map (\<lambda>r. (rs_path r, rs_key r)) (file_results rs)))" (is "?P rs")
    and "gm_get (ga_pool (gather rs)) =
      map_of (rev (map (\<lambda>r. (rs_key r, the (rs_record r))) (filter (\<lambda>r. rs_record r \<noteq> None) (file_results rs))))" (is "?Q rs")
    and "fst ` set (ga_dirs (gather rs)) = (\<lambda>r. TrimSuffix (rs_path r) ''/'') ` {r \<in> set rs. rs_isDir r}" (is "?R rs")
proof -
  have "?P rs \<and> ?Q rs \<and> ?R rs"
    using assms
  proof (induction rs rule: rev_induct)
    case Nil
    then show ?case by (simp add: gather_Nil no_results_def file_results_def)
  next
    case (snoc r rs)
    have none: "ga_firstErr (gather rs) = None" using snoc.prems gather_err [of rs] by auto
    have IH: "?P rs" "?Q rs" "?R rs" using snoc by auto
    have dirs: "fst ` set (gm_put k v m) = insert k (fst ` set m)" for k v and m :: "(string, bool) gomap"
      by (induction m) auto
    show ?case
      using snoc.prems none IH
      by (auto simp: gather_snoc gather_step_def file_results_def gm_get_put dirs split: option.splits)
  qed
  then show "?P rs" "?Q rs" "?R rs" by auto
qed

lemma runError_None_iff:
  "runError parentErr cause firstErr n tot = None \<longleftrightarrow> cause = None \<and> firstErr = None \<and> n = tot"
  by (auto simp: runError_def Let_def split: option.splits)

end
