(* ===== verification/BackupWorkers.thy ===== *)
theory BackupWorkers
  imports Gather
begin

text \<open>
  The concurrent phase of \<open>RunBackup\<close> (\<open>src/tsync/backup.go\<close>): a fixed number of workers take
  entries from a channel and send one result for each, and concurrent uploads of the same content
  are joined (\<open>uploadOnce\<close>). The state holds the channel, the program counter of every worker,
  the flights, the results in the order in which they are sent, the cause of the run context and
  the world; a step is one worker (or the caller, who may cancel) moving on, so every interleaving
  of the workers is a sequence of steps. An upload takes effect in the step that ends it.
\<close>

section \<open>The steps\<close>

datatype 's wpc =
    Idle
  | Taken "'s SourceEntry"
  | Keyed "'s SourceEntry" string
  | Waiting "'s SourceEntry" string
  | Uploading "'s SourceEntry" string
  | Exited

text \<open>A flight is \<open>None\<close> until its \<open>done\<close> channel is closed.\<close>

record 's workers =
  wk_tasks :: "'s SourceEntry list"
  wk_pcs :: "'s wpc list"
  wk_flights :: "(string, FileRecord result option) gomap"
  wk_results :: "backupResult list"
  wk_cause :: "err option"
  wk_parent :: bool
  wk_world :: 's

definition setPc :: "nat \<Rightarrow> 's wpc \<Rightarrow> 's workers \<Rightarrow> 's workers" where
  "setPc i pc st = st\<lparr>wk_pcs := (wk_pcs st)[i := pc]\<rparr>"

definition errResult :: "'s SourceEntry \<Rightarrow> err \<Rightarrow> backupResult" where
  "errResult entry e = \<lparr>rs_path = se_Path entry, rs_isDir = False, rs_key = [], rs_record = None, rs_err = Some e\<rparr>"

text \<open>The worker sends its result and turns to the channel again.\<close>

definition send :: "nat \<Rightarrow> backupResult \<Rightarrow> 's workers \<Rightarrow> 's workers" where
  "send i res st = (setPc i Idle st)\<lparr>wk_results := wk_results st @ [res]\<rparr>"

text \<open>\<open>cancel(err)\<close> of \<open>context.WithCancelCause\<close>: the first cause stays.\<close>

definition cancel :: "err \<Rightarrow> 's workers \<Rightarrow> 's workers" where
  "cancel e st = (case wk_cause st of None \<Rightarrow> st\<lparr>wk_cause := Some e\<rparr> | Some _ \<Rightarrow> st)"

text \<open>The end of \<open>process\<close> for a file, with the result of \<open>processFile\<close>.\<close>

definition finishFile :: "nat \<Rightarrow> 's SourceEntry \<Rightarrow> string \<Rightarrow> FileRecord result \<Rightarrow> 's workers \<Rightarrow> 's workers" where
  "finishFile i entry key r st =
     (case r of
        Inl e \<Rightarrow> send i (errResult entry e) (cancel e st)
      | Inr rec \<Rightarrow> send i \<lparr>rs_path = se_Path entry, rs_isDir = False, rs_key = key, rs_record = Some rec, rs_err = None\<rparr> st)"

text \<open>\<open>process\<close> up to the point where the content key is known and its record is not.\<close>

definition startFile :: "backupRun \<Rightarrow> nat \<Rightarrow> 's SourceEntry \<Rightarrow> 's workers \<Rightarrow> 's workers" where
  "startFile r i entry st =
     (case entryKey entry (wk_world st) of
        (Inl e, s) \<Rightarrow> finishFile i entry [] (Inl e) (st\<lparr>wk_world := s\<rparr>)
      | (Inr key, s) \<Rightarrow>
          (case gm_get (br_existing r) key of
             Some rec \<Rightarrow> finishFile i entry key (Inr rec) (st\<lparr>wk_world := s\<rparr>)
           | None \<Rightarrow> setPc i (Keyed entry key) (st\<lparr>wk_world := s\<rparr>)))"

text \<open>The end of an upload: the flight gets its result, then the worker goes on.\<close>

definition endUpload ::
  "zipLib \<Rightarrow> backupRun \<Rightarrow> ('s, 'w) Storage \<Rightarrow> nat \<Rightarrow> 's SourceEntry \<Rightarrow> string \<Rightarrow> 's workers \<Rightarrow> 's workers" where
  "endUpload Z r S i entry key st =
     (case uploadPart Z r S RunCtx key entry (wk_world st) of
        (res, s) \<Rightarrow> finishFile i entry key res
          (st\<lparr>wk_world := s, wk_flights := gm_put key (Some res) (wk_flights st)\<rparr>))"

definition at_pc :: "'s workers \<Rightarrow> nat \<Rightarrow> 's wpc \<Rightarrow> bool" where
  "at_pc st i pc \<longleftrightarrow> i < length (wk_pcs st) \<and> wk_pcs st ! i = pc"

inductive wstep ::
  "zipLib \<Rightarrow> backupRun \<Rightarrow> ('s, 'w) Storage \<Rightarrow> 's workers \<Rightarrow> 's workers \<Rightarrow> bool" for Z r S where
  receive: "at_pc st i Idle \<Longrightarrow> wk_tasks st = e # es \<Longrightarrow> wstep Z r S st (setPc i (Taken e) (st\<lparr>wk_tasks := es\<rparr>))"
| leave: "at_pc st i Idle \<Longrightarrow> wk_tasks st = [] \<Longrightarrow> wstep Z r S st (setPc i Exited st)"
| cancelled: "at_pc st i (Taken e) \<Longrightarrow> wk_cause st = Some x \<Longrightarrow> wstep Z r S st (send i (errResult e x) st)"
| directory: "at_pc st i (Taken e) \<Longrightarrow> wk_cause st = None \<Longrightarrow> isDirEntry e \<Longrightarrow>
    wstep Z r S st (send i \<lparr>rs_path = se_Path e, rs_isDir = True, rs_key = [], rs_record = None, rs_err = None\<rparr> st)"
| start: "at_pc st i (Taken e) \<Longrightarrow> wk_cause st = None \<Longrightarrow> \<not> isDirEntry e \<Longrightarrow> wstep Z r S st (startFile r i e st)"
| join: "at_pc st i (Keyed e k) \<Longrightarrow> gm_has (wk_flights st) k \<Longrightarrow> wstep Z r S st (setPc i (Waiting e k) st)"
| fly: "at_pc st i (Keyed e k) \<Longrightarrow> \<not> gm_has (wk_flights st) k \<Longrightarrow>
    wstep Z r S st (setPc i (Uploading e k) (st\<lparr>wk_flights := gm_put k None (wk_flights st)\<rparr>))"
| land: "at_pc st i (Uploading e k) \<Longrightarrow> wstep Z r S st (endUpload Z r S i e k st)"
| share: "at_pc st i (Waiting e k) \<Longrightarrow> gm_get (wk_flights st) k = Some (Some res) \<Longrightarrow>
    wstep Z r S st (finishFile i e k res st)"
| give_up: "at_pc st i (Waiting e k) \<Longrightarrow> wk_cause st = Some x \<Longrightarrow> wstep Z r S st (finishFile i e k (Inl x) st)"

inductive_simps wstep_simps: "wstep Z r S st st'"

text \<open>The caller cancels its context, or the context's deadline passes.\<close>

inductive caller_cancels :: "'s workers \<Rightarrow> 's workers \<Rightarrow> bool" where
  "\<not> wk_parent st \<Longrightarrow> caller_cancels st (cancel e (st\<lparr>wk_parent := True\<rparr>))"

definition rstep :: "zipLib \<Rightarrow> backupRun \<Rightarrow> ('s, 'w) Storage \<Rightarrow> 's workers \<Rightarrow> 's workers \<Rightarrow> bool" where
  "rstep Z r S st st' \<longleftrightarrow> wstep Z r S st st' \<or> caller_cancels st st'"

definition concurrency :: "BackupOptions \<Rightarrow> 's SourceEntry list \<Rightarrow> nat" where
  "concurrency opts entries =
     (let c = (if bo_Concurrency opts \<le> 0 then 10 else bo_Concurrency opts) in nat (min c (int (length entries))))"

text \<open>The state when the workers start; the caller may have cancelled before.\<close>

definition startWorkers :: "BackupOptions \<Rightarrow> 's SourceEntry list \<Rightarrow> err option \<Rightarrow> 's \<Rightarrow> 's workers" where
  "startWorkers opts entries cause s =
     \<lparr>wk_tasks = entries, wk_pcs = replicate (concurrency opts entries) Idle, wk_flights = [], wk_results = [],
      wk_cause = cause, wk_parent = (cause \<noteq> None), wk_world = s\<rparr>"

inductive wreach :: "zipLib \<Rightarrow> backupRun \<Rightarrow> ('s, 'w) Storage \<Rightarrow> 's workers \<Rightarrow> 's workers \<Rightarrow> bool" for Z r S st0 where
  here: "wreach Z r S st0 st0"
| there: "wreach Z r S st0 st \<Longrightarrow> rstep Z r S st st' \<Longrightarrow> wreach Z r S st0 st'"

definition all_exited :: "'s workers \<Rightarrow> bool" where
  "all_exited st \<longleftrightarrow> list_all (\<lambda>pc. pc = Exited) (wk_pcs st)"

lemmas wk_defs = setPc_def send_def finishFile_def startFile_def endUpload_def cancel_def errResult_def

section \<open>Every step ends\<close>

text \<open>What a worker still has to do; an entry in the channel costs a receive and the steps after it.\<close>

fun pc_cost :: "'s wpc \<Rightarrow> nat" where
  "pc_cost Exited = 0"
| "pc_cost Idle = 1"
| "pc_cost (Uploading e k) = 2"
| "pc_cost (Waiting e k) = 2"
| "pc_cost (Keyed e k) = 3"
| "pc_cost (Taken e) = 4"

definition wk_cost :: "'s workers \<Rightarrow> nat" where
  "wk_cost st = 4 * length (wk_tasks st) + sum_list (map pc_cost (wk_pcs st)) + (if wk_parent st then 0 else 1)"

lemma setPc_cost:
  assumes "at_pc st i pc" and "pc_cost pc' < pc_cost pc"
  shows "sum_list (map pc_cost ((wk_pcs st)[i := pc'])) < sum_list (map pc_cost (wk_pcs st))"
  using sum_list_update [of i "wk_pcs st" pc_cost pc'] assms by (simp add: at_pc_def)

lemma finishFile_cost:
  "at_pc st i pc \<Longrightarrow> pc_cost Idle < pc_cost pc \<Longrightarrow> wk_cost (finishFile i e k res st) < wk_cost st"
  using setPc_cost [of st i pc Idle] by (auto simp: wk_cost_def wk_defs split: sum.splits option.splits)

lemma wstep_cost: "wstep Z r S st st' \<Longrightarrow> wk_cost st' < wk_cost st"
proof (induction rule: wstep.induct)
  case (receive st i e es)
  then show ?case
    using sum_list_update [of i "wk_pcs st" pc_cost "Taken e"] by (simp add: wk_cost_def setPc_def at_pc_def)
next
  case (start st i e)
  obtain res s where ek: "entryKey e (wk_world st) = (res, s)" by fastforce
  have "at_pc (st\<lparr>wk_world := s\<rparr>) i (Taken e)" "wk_cost (st\<lparr>wk_world := s\<rparr>) = wk_cost st"
    using start by (auto simp: at_pc_def wk_cost_def)
  then have fin: "wk_cost (finishFile i e k x (st\<lparr>wk_world := s\<rparr>)) < wk_cost st" for k x
    using finishFile_cost [of "st\<lparr>wk_world := s\<rparr>" i "Taken e"] by simp
  have kd: "wk_cost (setPc i (Keyed e k) (st\<lparr>wk_world := s\<rparr>)) < wk_cost st" for k
    using setPc_cost [of st i "Taken e" "Keyed e k"] start by (simp add: wk_cost_def setPc_def)
  show ?case
    by (simp add: startFile_def ek fin kd split: sum.splits option.splits)
next
  case (land st i e k)
  obtain res s where up: "uploadPart Z r S RunCtx k e (wk_world st) = (res, s)" by fastforce
  let ?st = "st\<lparr>wk_world := s, wk_flights := gm_put k (Some res) (wk_flights st)\<rparr>"
  have "at_pc ?st i (Uploading e k)" "wk_cost ?st = wk_cost st"
    using land by (auto simp: at_pc_def wk_cost_def)
  with finishFile_cost [of ?st i "Uploading e k" e k res] up show ?case by (simp add: endUpload_def)
next
  case (share st i e k res)
  then show ?case by (intro finishFile_cost) auto
next
  case (give_up st i e k x)
  then show ?case by (intro finishFile_cost) auto
qed (auto simp: wk_cost_def setPc_def send_def dest!: setPc_cost)

lemma rstep_cost: "rstep Z r S st st' \<Longrightarrow> wk_cost st' < wk_cost st"
proof -
  have "wk_cost st' < wk_cost st" if "caller_cancels st st'"
    using that by cases (auto simp: wk_cost_def cancel_def split: option.splits)
  then show "rstep Z r S st st' \<Longrightarrow> ?thesis"
    using wstep_cost by (auto simp: rstep_def)
qed

section \<open>What a step changes\<close>

definition fileResult :: "'s SourceEntry \<Rightarrow> string \<Rightarrow> FileRecord result \<Rightarrow> backupResult" where
  "fileResult e k r =
     (case r of
        Inl x \<Rightarrow> errResult e x
      | Inr rec \<Rightarrow> \<lparr>rs_path = se_Path e, rs_isDir = False, rs_key = k, rs_record = Some rec, rs_err = None\<rparr>)"

lemma setPc_simps [simp]:
  "wk_tasks (setPc i pc st) = wk_tasks st" "wk_pcs (setPc i pc st) = (wk_pcs st)[i := pc]"
  "wk_flights (setPc i pc st) = wk_flights st" "wk_results (setPc i pc st) = wk_results st"
  "wk_cause (setPc i pc st) = wk_cause st" "wk_world (setPc i pc st) = wk_world st"
  by (simp_all add: setPc_def)

lemma send_simps [simp]:
  "wk_tasks (send i x st) = wk_tasks st" "wk_pcs (send i x st) = (wk_pcs st)[i := Idle]"
  "wk_flights (send i x st) = wk_flights st" "wk_results (send i x st) = wk_results st @ [x]"
  "wk_cause (send i x st) = wk_cause st" "wk_world (send i x st) = wk_world st"
  by (simp_all add: send_def)

lemma cancel_simps [simp]:
  "wk_tasks (cancel e st) = wk_tasks st" "wk_pcs (cancel e st) = wk_pcs st"
  "wk_flights (cancel e st) = wk_flights st" "wk_results (cancel e st) = wk_results st"
  "wk_cause (cancel e st) = Some (case wk_cause st of None \<Rightarrow> e | Some x \<Rightarrow> x)" "wk_world (cancel e st) = wk_world st"
  by (simp_all add: cancel_def split: option.splits)

lemma finishFile_simps [simp]:
  "wk_tasks (finishFile i e k r st) = wk_tasks st" "wk_pcs (finishFile i e k r st) = (wk_pcs st)[i := Idle]"
  "wk_flights (finishFile i e k r st) = wk_flights st" "wk_world (finishFile i e k r st) = wk_world st"
  "wk_results (finishFile i e k r st) = wk_results st @ [fileResult e k r]"
  "wk_cause (finishFile i e k r st) = (case r of Inl x \<Rightarrow> Some (case wk_cause st of None \<Rightarrow> x | Some y \<Rightarrow> y) | Inr _ \<Rightarrow> wk_cause st)"
  by (simp_all add: finishFile_def fileResult_def split: sum.splits)

lemma at_pc_update:
  "at_pc st i pc \<Longrightarrow> wk_pcs st' = (wk_pcs st)[i := pc'] \<Longrightarrow> at_pc st' j x \<longleftrightarrow> (if j = i then x = pc' else at_pc st j x)"
  by (auto simp: at_pc_def nth_list_update)

lemma at_pc_same: "wk_pcs st' = wk_pcs st \<Longrightarrow> at_pc st' j x \<longleftrightarrow> at_pc st j x"
  by (simp add: at_pc_def)

text \<open>\<open>startFile\<close> ends in one of two ways.\<close>

lemma startFile_cases:
  assumes "entryKey e (wk_world st) = (rk, s)"
  obtains (ends) k res where "startFile r i e st = finishFile i e k res (st\<lparr>wk_world := s\<rparr>)"
      "(\<exists>x. res = Inl x) \<or> rk = Inr k \<and> (\<exists>rec. res = Inr rec \<and> gm_get (br_existing r) k = Some rec)"
    | (goes_on) k where "startFile r i e st = setPc i (Keyed e k) (st\<lparr>wk_world := s\<rparr>)"
      "rk = Inr k" "gm_get (br_existing r) k = None"
proof (cases rk)
  case (Inl x)
  with assms show ?thesis by (intro ends [of "[]" "Inl x"]) (auto simp: startFile_def)
next
  case (Inr k)
  with assms show ?thesis
    by (cases "gm_get (br_existing r) k") (auto simp: startFile_def intro: ends goes_on)
qed

section \<open>One result for every entry\<close>

fun pc_entry :: "'s wpc \<Rightarrow> 's SourceEntry list" where
  "pc_entry (Taken e) = [e]"
| "pc_entry (Keyed e k) = [e]"
| "pc_entry (Waiting e k) = [e]"
| "pc_entry (Uploading e k) = [e]"
| "pc_entry _ = []"

definition pending :: "'s workers \<Rightarrow> 's SourceEntry list" where
  "pending st = wk_tasks st @ concat (map pc_entry (wk_pcs st))"

text \<open>What the results say of the entries they are for; \<open>b\<close> asks for the kind of the entry as well.\<close>

definition conserved :: "bool \<Rightarrow> 's SourceEntry list \<Rightarrow> 's workers \<Rightarrow> bool" where
  "conserved b entries st \<longleftrightarrow>
     mset (map (\<lambda>e. (se_Path e, b \<and> isDirEntry e)) (pending st)) + mset (map (\<lambda>x. (rs_path x, b \<and> rs_isDir x)) (wk_results st)) =
     mset (map (\<lambda>e. (se_Path e, b \<and> isDirEntry e)) entries)"

lemma pending_update:
  assumes "at_pc st i pc" and "wk_pcs st' = (wk_pcs st)[i := pc']"
  shows "mset (concat (map pc_entry (wk_pcs st'))) + mset (pc_entry pc) = mset (concat (map pc_entry (wk_pcs st))) + mset (pc_entry pc')"
  using mset_concat_update [of i "wk_pcs st" pc_entry pc'] assms by (simp add: at_pc_def)

lemma mset_exchange:
  fixes A :: "'a multiset"
  assumes "A' + P = A + P'" and "T + P = P' + R"
  shows "A' + R = A + T"
proof -
  have "A' + R + P = (A' + P) + R" by (simp only: ac_simps)
  also have "\<dots> = A + (P' + R)" by (simp only: assms(1) add.assoc)
  also have "\<dots> = A + T + P" by (simp only: assms(2) [symmetric] add.assoc)
  finally show ?thesis by simp
qed

lemma conserved_cong:
  assumes "at_pc st i pc" and "wk_pcs st' = (wk_pcs st)[i := pc']" and "mset (wk_tasks st) = mset (wk_tasks st') + mset ts"
    and "wk_results st' = wk_results st @ rs"
    and "mset (map (\<lambda>e. (se_Path e, b \<and> isDirEntry e)) (ts @ pc_entry pc)) =
      mset (map (\<lambda>e. (se_Path e, b \<and> isDirEntry e)) (pc_entry pc')) + mset (map (\<lambda>x. (rs_path x, b \<and> rs_isDir x)) rs)"
    and "conserved b entries st"
  shows "conserved b entries st'"
proof -
  let ?f = "\<lambda>e. (se_Path e, b \<and> isDirEntry e)"
  let ?A = "\<lambda>st. image_mset ?f (mset (concat (map pc_entry (wk_pcs st))))"
  let ?T = "\<lambda>es. image_mset ?f (mset es)"
  let ?R = "\<lambda>rs. image_mset (\<lambda>x. (rs_path x, b \<and> rs_isDir x)) (mset rs)"
  have A: "?A st' + ?T (pc_entry pc) = ?A st + ?T (pc_entry pc')"
    using pending_update [OF assms(1,2)] by (metis image_mset_union)
  have P: "?T ts + ?T (pc_entry pc) = ?T (pc_entry pc') + ?R rs" using assms(5) by simp
  have X: "?A st' + ?R rs = ?A st + ?T ts" by (rule mset_exchange [OF A P])
  have "?T (wk_tasks st') + ?A st' + ?R (wk_results st @ rs) = ?T (wk_tasks st') + (?A st' + ?R rs) + ?R (wk_results st)"
    by (simp only: mset_append image_mset_union ac_simps)
  also have "\<dots> = (?T (wk_tasks st') + ?T ts) + ?A st + ?R (wk_results st)"
    unfolding X by (simp only: ac_simps)
  also have "\<dots> = ?T (wk_tasks st) + ?A st + ?R (wk_results st)"
    by (simp only: assms(3) image_mset_union)
  also have "\<dots> = ?T entries" using assms(6) by (simp add: conserved_def pending_def)
  finally have "?T (wk_tasks st') + ?A st' + ?R (wk_results st @ rs) = ?T entries" .
  then show ?thesis
    using assms(4) by (simp add: conserved_def pending_def)
qed

text \<open>Every step conserves the paths; as long as nothing fails, also the kinds.\<close>

lemma finishFile_conserved:
  assumes "at_pc st i pc" and "pc_entry pc = [e]" and "b \<Longrightarrow> \<not> isDirEntry e" and "conserved b entries st"
    and "wk_pcs st' = wk_pcs st" and "wk_tasks st' = wk_tasks st" and "wk_results st' = wk_results st"
  shows "conserved b entries (finishFile i e k res st')"
  by (rule conserved_cong [OF assms(1), of _ Idle "[]" "[fileResult e k res]"])
    (use assms in \<open>auto simp: fileResult_def errResult_def split: sum.splits\<close>)

text \<open>Past the directory check a worker only handles files.\<close>

fun pc_file :: "'s wpc \<Rightarrow> bool" where
  "pc_file (Keyed e k) = (\<not> isDirEntry e)"
| "pc_file (Waiting e k) = (\<not> isDirEntry e)"
| "pc_file (Uploading e k) = (\<not> isDirEntry e)"
| "pc_file _ = True"

lemma all_pcs_update:
  "list_all P (wk_pcs st) \<Longrightarrow> P pc \<Longrightarrow> list_all P ((wk_pcs st)[i := pc])"
  using set_update_subset_insert [of "wk_pcs st" i pc] by (auto simp: list_all_iff)

lemma all_pcs_at: "list_all P (wk_pcs st) \<Longrightarrow> at_pc st i pc \<Longrightarrow> P pc"
  by (auto simp: at_pc_def list_all_length)

lemma wstep_files: "wstep Z r S st st' \<Longrightarrow> list_all pc_file (wk_pcs st) \<Longrightarrow> list_all pc_file (wk_pcs st')"
proof (induction rule: wstep.induct)
  case (start st i e)
  obtain rk s where "entryKey e (wk_world st) = (rk, s)" by fastforce
  then show ?case
    by (cases rule: startFile_cases [of e st rk s r i]) (use start in \<open>auto intro!: all_pcs_update\<close>)
next
  case (land st i e k)
  then show ?case by (auto simp: endUpload_def intro!: all_pcs_update split: prod.splits)
qed (auto intro!: all_pcs_update dest: all_pcs_at)

lemma wstep_conserved:
  "wstep Z r S st st' \<Longrightarrow> list_all pc_file (wk_pcs st) \<Longrightarrow> (b \<Longrightarrow> wk_cause st = None) \<Longrightarrow>
     conserved b entries st \<Longrightarrow> conserved b entries st'"
proof (induction rule: wstep.induct)
  case (receive st i e es)
  show ?case by (rule conserved_cong [OF receive(1), of _ "Taken e" "[e]" "[]"]) (use receive in auto)
next
  case (leave st i)
  show ?case by (rule conserved_cong [OF leave(1), of _ Exited "[]" "[]"]) (use leave in auto)
next
  case (cancelled st i e x)
  show ?case
    by (rule conserved_cong [OF cancelled(1), of _ Idle "[]" "[errResult e x]"]) (use cancelled in \<open>auto simp: errResult_def\<close>)
next
  case (directory st i e)
  show ?case
    by (rule conserved_cong [OF directory(1), of _ Idle "[]"
        "[\<lparr>rs_path = se_Path e, rs_isDir = True, rs_key = [], rs_record = None, rs_err = None\<rparr>]"]) (use directory in auto)
next
  case (start st i e)
  obtain rk s where "entryKey e (wk_world st) = (rk, s)" by fastforce
  then show ?case
  proof (cases rule: startFile_cases [of e st rk s r i])
    case (ends k res)
    then show ?thesis using start by (simp add: finishFile_conserved)
  next
    case (goes_on k)
    show ?thesis
      by (rule conserved_cong [OF start(1), of _ "Keyed e k" "[]" "[]"]) (use start goes_on in auto)
  qed
next
  case (join st i e k)
  show ?case by (rule conserved_cong [OF join(1), of _ "Waiting e k" "[]" "[]"]) (use join in auto)
next
  case (fly st i e k)
  show ?case by (rule conserved_cong [OF fly(1), of _ "Uploading e k" "[]" "[]"]) (use fly in auto)
next
  case (land st i e k)
  have "\<not> isDirEntry e" using all_pcs_at [OF land(2,1)] by simp
  with land show ?case by (auto simp: endUpload_def intro!: finishFile_conserved split: prod.splits)
next
  case (share st i e k res)
  have "\<not> isDirEntry e" using all_pcs_at [OF share(3,1)] by simp
  with share show ?case by (auto intro!: finishFile_conserved)
next
  case (give_up st i e k x)
  have "\<not> isDirEntry e" using all_pcs_at [OF give_up(3,1)] by simp
  with give_up show ?case by (auto intro!: finishFile_conserved)
qed

text \<open>A failed result is always preceded by a cancellation of the run.\<close>

definition errs_caused :: "'s workers \<Rightarrow> bool" where
  "errs_caused st \<longleftrightarrow> (wk_cause st = None \<longrightarrow> list_all (\<lambda>x. rs_err x = None) (wk_results st))"

lemma finishFile_errs: "errs_caused st \<Longrightarrow> errs_caused (finishFile i e k res st)"
  by (auto simp: errs_caused_def fileResult_def split: sum.splits)

lemma errs_caused_cong:
  "wk_cause st' = wk_cause st \<Longrightarrow> wk_results st' = wk_results st \<Longrightarrow> errs_caused st' = errs_caused st"
  by (simp add: errs_caused_def)

lemma wstep_errs: "wstep Z r S st st' \<Longrightarrow> errs_caused st \<Longrightarrow> errs_caused st'"
proof (induction rule: wstep.induct)
  case (start st i e)
  obtain rk s where "entryKey e (wk_world st) = (rk, s)" by fastforce
  then show ?case
    by (cases rule: startFile_cases [of e st rk s r i])
      (use start in \<open>auto intro!: finishFile_errs simp: errs_caused_cong [of "st\<lparr>wk_world := _\<rparr>" st] errs_caused_cong [of "setPc _ _ _" st]\<close>)
next
  case (land st i e k)
  then show ?case
    by (auto simp: endUpload_def errs_caused_cong [of "st\<lparr>wk_world := _, wk_flights := _\<rparr>" st] intro!: finishFile_errs split: prod.splits)
qed (auto simp: errs_caused_def fileResult_def split: sum.splits)

lemma wstep_cause: "wstep Z r S st st' \<Longrightarrow> wk_cause st' = None \<Longrightarrow> wk_cause st = None"
proof (induction rule: wstep.induct)
  case (land st i e k)
  then show ?case by (auto simp: endUpload_def split: prod.splits sum.splits)
qed (auto split: sum.splits)

section \<open>At most one upload of a part, and no deadlock\<close>

text \<open>A flight is open exactly while one worker uploads for it; who waits, waits for a flight.\<close>

definition flights_ok :: "'s workers \<Rightarrow> bool" where
  "flights_ok st \<longleftrightarrow>
     (\<forall>i e k. at_pc st i (Waiting e k) \<longrightarrow> gm_has (wk_flights st) k) \<and>
     (\<forall>k. gm_get (wk_flights st) k = Some None \<longleftrightarrow> (\<exists>i e. at_pc st i (Uploading e k))) \<and>
     (\<forall>i j e e' k. at_pc st i (Uploading e k) \<and> at_pc st j (Uploading e' k) \<longrightarrow> i = j)"

lemma flights_move:
  assumes "at_pc st i pc" and "wk_pcs st' = (wk_pcs st)[i := pc']" and "wk_flights st' = wk_flights st"
    and "\<And>e k. pc \<noteq> Uploading e k" and "\<And>e k. pc' \<noteq> Uploading e k"
    and "\<And>e k. pc' = Waiting e k \<Longrightarrow> gm_has (wk_flights st) k" and ok: "flights_ok st"
  shows "flights_ok st'"
proof -
  note at = at_pc_update [OF assms(1,2)]
  have up: "at_pc st' j (Uploading e k) \<longleftrightarrow> at_pc st j (Uploading e k)" for j e k
    using assms(1,4,5) unfolding at by (auto simp: at_pc_def)
  show ?thesis
    using ok assms(3,6) unfolding flights_ok_def up by (auto simp: at split: if_splits)
qed

lemma flights_fly:
  assumes "at_pc st i (Keyed e k)" and "gm_get (wk_flights st) k = None" and ok: "flights_ok st"
  shows "flights_ok (setPc i (Uploading e k) (st\<lparr>wk_flights := gm_put k None (wk_flights st)\<rparr>))" (is "flights_ok ?st'")
proof -
  have at: "at_pc ?st' j x \<longleftrightarrow> (if j = i then x = Uploading e k else at_pc st j x)" for j x
    by (rule at_pc_update [OF assms(1)]) simp
  have fl: "gm_get (wk_flights ?st') = (gm_get (wk_flights st))(k \<mapsto> None)" by (simp add: gm_get_put)
  have new: "\<not> at_pc st j (Uploading e' k)" for j e'
    using ok assms(2) unfolding flights_ok_def by (metis option.distinct(1))
  have mine: "\<not> at_pc st i (Uploading e' k')" for e' k'
    using assms(1) by (auto simp: at_pc_def)
  have up: "at_pc ?st' j (Uploading e' k') \<longleftrightarrow> j = i \<and> e' = e \<and> k' = k \<or> at_pc st j (Uploading e' k')" for j e' k'
    using mine by (auto simp: at)
  have w: "at_pc ?st' j (Waiting e' k') \<longrightarrow> gm_has (wk_flights ?st') k'" for j e' k'
    using ok unfolding fl by (auto simp: at flights_ok_def split: if_splits)
  have o: "gm_get (wk_flights ?st') k' = Some None \<longleftrightarrow> (\<exists>j e'. at_pc ?st' j (Uploading e' k'))" for k'
    using ok unfolding fl up flights_ok_def by (cases "k' = k") auto
  have u: "j = j'" if "at_pc ?st' j (Uploading e1 k')" "at_pc ?st' j' (Uploading e2 k')" for j j' e1 e2 k'
    using that ok new unfolding up flights_ok_def by blast
  show ?thesis
    unfolding flights_ok_def using w o u by blast
qed

lemma flights_land:
  assumes "at_pc st i (Uploading e k)" and ok: "flights_ok st" and "wk_pcs st' = (wk_pcs st)[i := Idle]"
    and "wk_flights st' = gm_put k (Some res) (wk_flights st)"
  shows "flights_ok st'"
proof -
  note at = at_pc_update [OF assms(1,3)]
  have only: "j = i" if "at_pc st j (Uploading e' k)" for j e'
    using ok assms(1) that unfolding flights_ok_def by blast
  have mine: "k' = k" if "at_pc st i (Uploading e' k')" for e' k'
    using assms(1) that by (auto simp: at_pc_def)
  have w: "at_pc st' j (Waiting e' k') \<longrightarrow> gm_has (wk_flights st') k'" for j e' k'
    using ok by (auto simp: at assms(4) gm_get_put flights_ok_def split: if_splits)
  have o: "gm_get (wk_flights st') k' = Some None \<longleftrightarrow> (\<exists>j e'. at_pc st' j (Uploading e' k'))" for k'
  proof (cases "k' = k")
    case True
    with only show ?thesis by (auto simp: at assms(4) gm_get_put split: if_splits)
  next
    case False
    then have "at_pc st' j (Uploading e' k') \<longleftrightarrow> at_pc st j (Uploading e' k')" for j e'
      using mine [of e' k'] by (cases "j = i") (auto simp: at)
    with False ok show ?thesis by (simp add: assms(4) gm_get_put flights_ok_def)
  qed
  have u: "j = j'" if "at_pc st' j (Uploading e1 k')" "at_pc st' j' (Uploading e2 k')" for j j' e1 e2 k'
  proof -
    have "at_pc st j (Uploading e1 k')" "at_pc st j' (Uploading e2 k')"
      using that by (auto simp: at split: if_splits)
    then show ?thesis using ok unfolding flights_ok_def by blast
  qed
  show ?thesis
    unfolding flights_ok_def using w o u by blast
qed

lemma wstep_flights: "wstep Z r S st st' \<Longrightarrow> flights_ok st \<Longrightarrow> flights_ok st'"
proof (induction rule: wstep.induct)
  case (start st i e)
  obtain rk s where "entryKey e (wk_world st) = (rk, s)" by fastforce
  then show ?case
    by (cases rule: startFile_cases [of e st rk s r i]) (rule flights_move [OF start(1)], use start in auto)+
next
  case (fly st i e k)
  then show ?case by (intro flights_fly) auto
next
  case (land st i e k)
  then show ?case by (auto simp: endUpload_def intro!: flights_land [OF land(1)] split: prod.splits)
qed (rule flights_move, assumption, auto)+

text \<open>A worker that has not exited can move, or another one can on its behalf.\<close>

lemma wstep_progress:
  assumes "flights_ok st" and "\<not> all_exited st"
  shows "\<exists>st'. wstep Z r S st st'"
proof -
  obtain i pc where i: "at_pc st i pc" "pc \<noteq> Exited"
    using assms(2) by (auto simp: all_exited_def at_pc_def list_all_length)
  show ?thesis
  proof (cases pc)
    case Idle
    with i(1) show ?thesis by (cases "wk_tasks st") (blast intro: wstep.receive wstep.leave)+
  next
    case (Taken e)
    with i(1) show ?thesis
      by (cases "wk_cause st"; cases "isDirEntry e") (blast intro: wstep.cancelled wstep.directory wstep.start)+
  next
    case (Keyed e k)
    with i(1) show ?thesis by (cases "gm_has (wk_flights st) k") (blast intro: wstep.join wstep.fly)+
  next
    case (Uploading e k)
    with i(1) show ?thesis by (blast intro: wstep.land)
  next
    case (Waiting e k)
    then have "gm_has (wk_flights st) k" using i(1) assms(1) unfolding flights_ok_def by blast
    then consider res where "gm_get (wk_flights st) k = Some (Some res)" | "gm_get (wk_flights st) k = Some None"
      by (metis not_Some_eq)
    then show ?thesis
    proof cases
      case 1
      with i(1) Waiting show ?thesis by (blast intro: wstep.share)
    next
      case 2
      then obtain j e' where "at_pc st j (Uploading e' k)" using assms(1) unfolding flights_ok_def by blast
      then show ?thesis by (blast intro: wstep.land)
    qed
  qed (use i in simp)
qed

text \<open>A worker leaves only when the channel is drained.\<close>

definition drained :: "'s workers \<Rightarrow> bool" where
  "drained st \<longleftrightarrow> (wk_pcs st = [] \<or> Exited \<in> set (wk_pcs st) \<longrightarrow> wk_tasks st = [])"

lemma drained_move:
  "wk_pcs st' = (wk_pcs st)[i := pc'] \<Longrightarrow> wk_tasks st' = wk_tasks st \<Longrightarrow> pc' \<noteq> Exited \<or> wk_tasks st = [] \<Longrightarrow>
     drained st \<Longrightarrow> drained st'"
  using set_update_subset_insert [of "wk_pcs st" i pc'] by (auto simp: drained_def)

lemma wstep_drained: "wstep Z r S st st' \<Longrightarrow> drained st \<Longrightarrow> drained st'"
proof (induction rule: wstep.induct)
  case (receive st i e es)
  then show ?case
    using set_update_subset_insert [of "wk_pcs st" i "Taken e"] by (auto simp: drained_def at_pc_def)
next
  case (start st i e)
  obtain rk s where "entryKey e (wk_world st) = (rk, s)" by fastforce
  then show ?case
    by (cases rule: startFile_cases [of e st rk s r i]) (use start in \<open>auto intro: drained_move\<close>)
next
  case (land st i e k)
  then show ?case by (auto simp: endUpload_def intro!: drained_move [of _ st i Idle] split: prod.splits)
qed (auto intro: drained_move)

section \<open>The invariant of the phase\<close>

definition wk_inv :: "'s SourceEntry list \<Rightarrow> 's workers \<Rightarrow> bool" where
  "wk_inv entries st \<longleftrightarrow>
     conserved False entries st \<and> (wk_cause st = None \<longrightarrow> conserved True entries st) \<and>
     list_all pc_file (wk_pcs st) \<and> errs_caused st \<and> flights_ok st \<and> drained st"

lemma wk_inv_start: "wk_inv entries (startWorkers opts entries cause s)"
proof -
  let ?st = "startWorkers opts entries cause s"
  have fields: "wk_tasks ?st = entries" "wk_pcs ?st = replicate (concurrency opts entries) Idle"
    "wk_flights ?st = []" "wk_results ?st = []"
    by (simp_all add: startWorkers_def)
  have "concat (map pc_entry (replicate n Idle)) = []" for n by (induction n) auto
  then have "conserved b entries ?st" for b by (simp add: conserved_def pending_def fields)
  moreover have "concurrency opts entries = 0 \<Longrightarrow> entries = []"
    by (simp add: concurrency_def Let_def min_le_iff_disj split: if_splits)
  then have "drained ?st" by (auto simp: drained_def fields)
  moreover have "flights_ok ?st" by (auto simp: flights_ok_def at_pc_def fields)
  ultimately show ?thesis
    by (simp add: wk_inv_def errs_caused_def fields list_all_length)
qed

lemma wstep_inv:
  assumes step: "wstep Z r S st st'" and "wk_inv entries st"
  shows "wk_inv entries st'"
proof -
  have ok: "list_all pc_file (wk_pcs st)" "conserved False entries st" "errs_caused st" "flights_ok st" "drained st"
    "wk_cause st = None \<Longrightarrow> conserved True entries st"
    using assms(2) by (auto simp: wk_inv_def)
  have "conserved True entries st'" if "wk_cause st' = None"
    using wstep_cause [OF step that] ok(6) wstep_conserved [OF step ok(1), of True entries] by blast
  then show ?thesis
    using wstep_conserved [OF step ok(1) _ ok(2)] wstep_files [OF step ok(1)] wstep_errs [OF step ok(3)] wstep_flights [OF step ok(4)]
      wstep_drained [OF step ok(5)]
    by (simp add: wk_inv_def)
qed

lemma caller_inv: "caller_cancels st st' \<Longrightarrow> wk_inv entries st \<Longrightarrow> wk_inv entries st'"
proof (induction rule: caller_cancels.induct)
  case (1 st e)
  have "flights_ok (cancel e (st\<lparr>wk_parent := True\<rparr>)) = flights_ok st"
    by (simp add: flights_ok_def at_pc_def)
  with 1 show ?case
    by (simp add: wk_inv_def conserved_def pending_def errs_caused_def drained_def)
qed

lemma wreach_inv: "wreach Z r S st0 st \<Longrightarrow> wk_inv entries st0 \<Longrightarrow> wk_inv entries st"
  by (induction rule: wreach.induct) (auto simp: rstep_def intro: wstep_inv caller_inv)

lemma exited_pending: "wk_inv entries st \<Longrightarrow> all_exited st \<Longrightarrow> pending st = []"
proof -
  assume "wk_inv entries st" "all_exited st"
  then have "wk_tasks st = []"
    by (cases "wk_pcs st") (auto simp: wk_inv_def drained_def all_exited_def)
  moreover have "concat (map pc_entry (wk_pcs st)) = []"
    using \<open>all_exited st\<close> by (auto simp: all_exited_def list_all_iff)
  ultimately show ?thesis by (simp add: pending_def)
qed

text \<open>When all workers have exited there is one result for every entry.\<close>

lemma results_complete:
  assumes "wk_inv entries st" and "all_exited st"
  shows "mset (map rs_path (wk_results st)) = mset (map se_Path entries)"
    and "length (wk_results st) = length entries"
    and "wk_cause st = None \<Longrightarrow>
      mset (map (\<lambda>x. (rs_path x, rs_isDir x)) (wk_results st)) = mset (map (\<lambda>e. (se_Path e, isDirEntry e)) entries) \<and>
      list_all (\<lambda>x. rs_err x = None) (wk_results st)"
proof -
  note p = exited_pending [OF assms]
  have "mset (map fst (map (\<lambda>x. (rs_path x, False)) (wk_results st))) =
      mset (map fst (map (\<lambda>e. (se_Path e, False)) entries))"
    using assms(1) by (simp only: mset_map) (simp add: wk_inv_def conserved_def p)
  then show paths: "mset (map rs_path (wk_results st)) = mset (map se_Path entries)"
    by (simp add: comp_def)
  show "length (wk_results st) = length entries"
    using arg_cong [OF paths, of size] by simp
  show "mset (map (\<lambda>x. (rs_path x, rs_isDir x)) (wk_results st)) = mset (map (\<lambda>e. (se_Path e, isDirEntry e)) entries) \<and>
      list_all (\<lambda>x. rs_err x = None) (wk_results st)" if "wk_cause st = None"
    using assms(1) that by (simp add: wk_inv_def conserved_def errs_caused_def p)
qed

text \<open>Every execution ends: a run can always go on until all workers have exited.\<close>

lemma wreach_trans: "wreach Z r S a b \<Longrightarrow> wreach Z r S b c \<Longrightarrow> wreach Z r S a c"
  by (rotate_tac, induction rule: wreach.induct) (auto intro: wreach.intros)

lemma workers_finish:
  "wk_inv entries st \<Longrightarrow> \<exists>st'. wreach Z r S st st' \<and> all_exited st' \<and> wk_inv entries st'"
proof (induction "wk_cost st" arbitrary: st rule: less_induct)
  case less
  show ?case
  proof (cases "all_exited st")
    case True
    with less.prems show ?thesis by (blast intro: wreach.here)
  next
    case False
    then obtain st1 where st1: "wstep Z r S st st1"
      using wstep_progress [of st Z r S] less.prems unfolding wk_inv_def by blast
    then have "wreach Z r S st st1" by (auto simp: rstep_def intro: wreach.intros)
    with less.hyps [OF wstep_cost [OF st1] wstep_inv [OF st1 less.prems]] show ?thesis
      by (blast intro: wreach_trans)
  qed
qed

text \<open>The number of steps of any execution is bounded.\<close>

lemma wreach_relpow:
  "((rstep Z r S) ^^ n) st st' \<Longrightarrow> n + wk_cost st' \<le> wk_cost st"
proof (induction n arbitrary: st')
  case (Suc n)
  then obtain st1 where "((rstep Z r S) ^^ n) st st1" "rstep Z r S st1 st'" by auto
  with Suc.IH [of st1] rstep_cost [of Z r S st1 st'] show ?case by simp
qed simp

section \<open>An upload that ended is never repeated\<close>

lemma wstep_flight_done:
  "wstep Z r S st st' \<Longrightarrow> flights_ok st \<Longrightarrow> gm_get (wk_flights st) k = Some (Some res) \<Longrightarrow>
     gm_get (wk_flights st') k = Some (Some res)"
proof (induction rule: wstep.induct)
  case (start st i e)
  then show ?case
    by (auto simp: startFile_def split: prod.splits sum.splits option.splits)
next
  case (land st i e k')
  have "gm_get (wk_flights st) k' = Some None" using land unfolding flights_ok_def by blast
  with land show ?case by (auto simp: endUpload_def gm_get_put split: prod.splits)
qed (auto simp: gm_get_put)

lemma wreach_flight_done:
  assumes "wreach Z r S st st'" and "wk_inv entries st" and "gm_get (wk_flights st) k = Some (Some res)"
  shows "gm_get (wk_flights st') k = Some (Some res)"
  using assms
proof (induction rule: wreach.induct)
  case (there st' st'')
  have "flights_ok st'" using wreach_inv [OF there(1) there.prems(1)] by (simp add: wk_inv_def)
  with there show ?case
    by (auto simp: rstep_def dest: wstep_flight_done elim!: caller_cancels.cases)
qed simp

end
