(* ===== verification/BackupKeys.thy ===== *)
theory BackupKeys
  imports BackupWorkers
begin

text \<open>
  Where the content keys of a backup come from: the key of a result is the one that \<open>entryKey\<close>
  gave for the result's own entry in a state the workers passed through.
\<close>

section \<open>The states of an execution\<close>

text \<open>The execution from \<open>st0\<close> that is now in \<open>st\<close> found the key \<open>k\<close> for the entry \<open>e\<close> on its way.\<close>

definition key_found ::
  "zipLib \<Rightarrow> backupRun \<Rightarrow> ('s, 'w) Storage \<Rightarrow> 's workers \<Rightarrow> 's workers \<Rightarrow> 's SourceEntry \<Rightarrow> string \<Rightarrow> bool" where
  "key_found Z r S st0 st e k \<longleftrightarrow>
     (\<exists>st1. wreach Z r S st0 st1 \<and> wreach Z r S st1 st \<and> fst (entryKey e (wk_world st1)) = Inr k)"

lemma key_found_step: "key_found Z r S st0 st e k \<Longrightarrow> rstep Z r S st st' \<Longrightarrow> key_found Z r S st0 st' e k"
  unfolding key_found_def by (blast intro: wreach.there)

lemma key_found_now:
  "wreach Z r S st0 st \<Longrightarrow> rstep Z r S st st' \<Longrightarrow> fst (entryKey e (wk_world st)) = Inr k \<Longrightarrow> key_found Z r S st0 st' e k"
  unfolding key_found_def by (blast intro: wreach.here wreach.there)

section \<open>Keys belong to their entries\<close>

fun pc_keyed :: "('s SourceEntry \<Rightarrow> string \<Rightarrow> bool) \<Rightarrow> 's SourceEntry set \<Rightarrow> 's wpc \<Rightarrow> bool" where
  "pc_keyed F E (Taken e) = (e \<in> E)"
| "pc_keyed F E (Keyed e k) = (e \<in> E \<and> \<not> isDirEntry e \<and> F e k)"
| "pc_keyed F E (Waiting e k) = (e \<in> E \<and> \<not> isDirEntry e \<and> F e k)"
| "pc_keyed F E (Uploading e k) = (e \<in> E \<and> \<not> isDirEntry e \<and> F e k)"
| "pc_keyed F E _ = True"

definition result_keyed :: "('s SourceEntry \<Rightarrow> string \<Rightarrow> bool) \<Rightarrow> 's SourceEntry set \<Rightarrow> backupResult \<Rightarrow> bool" where
  "result_keyed F E x \<longleftrightarrow> (rs_err x = None \<and> \<not> rs_isDir x \<longrightarrow>
     (\<exists>e \<in> E. \<not> isDirEntry e \<and> rs_path x = se_Path e \<and> F e (rs_key x)))"

definition keys_inv :: "('s SourceEntry \<Rightarrow> string \<Rightarrow> bool) \<Rightarrow> 's SourceEntry set \<Rightarrow> 's workers \<Rightarrow> bool" where
  "keys_inv F E st \<longleftrightarrow>
     set (wk_tasks st) \<subseteq> E \<and> list_all (pc_keyed F E) (wk_pcs st) \<and> list_all (result_keyed F E) (wk_results st)"

lemma keys_inv_mono:
  assumes "\<And>e k. F e k \<Longrightarrow> G e k" and "keys_inv F E st"
  shows "keys_inv G E st"
proof -
  have "pc_keyed G E pc" if "pc_keyed F E pc" for pc using that assms(1) by (cases pc) auto
  moreover have "result_keyed G E x" if "result_keyed F E x" for x
    using that assms(1) unfolding result_keyed_def by blast
  ultimately show ?thesis using assms(2) by (auto simp: keys_inv_def list_all_iff)
qed

lemma keys_inv_move:
  assumes "keys_inv F E st" and "wk_pcs st' = (wk_pcs st)[i := pc']" and "pc_keyed F E pc'"
    and "set (wk_tasks st') \<subseteq> set (wk_tasks st)" and "wk_results st' = wk_results st @ xs" and "list_all (result_keyed F E) xs"
  shows "keys_inv F E st'"
  using assms by (auto simp: keys_inv_def all_pcs_update)

lemma fileResult_keyed:
  "e \<in> E \<Longrightarrow> \<not> isDirEntry e \<Longrightarrow> (\<And>rec. res = Inr rec \<Longrightarrow> F e k) \<Longrightarrow> result_keyed F E (fileResult e k res)"
  by (auto simp: result_keyed_def fileResult_def errResult_def split: sum.splits)

lemma wstep_keys:
  "wstep Z r S st st' \<Longrightarrow> (\<And>e k. fst (entryKey e (wk_world st)) = Inr k \<Longrightarrow> F e k) \<Longrightarrow> keys_inv F E st \<Longrightarrow> keys_inv F E st'"
proof (induction rule: wstep.induct)
  case (receive st i e es)
  show ?case by (rule keys_inv_move [OF receive(4), of _ i "Taken e" "[]"]) (use receive in \<open>auto simp: keys_inv_def\<close>)
next
  case (leave st i)
  show ?case by (rule keys_inv_move [OF leave(4), of _ i Exited "[]"]) (use leave in auto)
next
  case (cancelled st i e x)
  show ?case
    by (rule keys_inv_move [OF cancelled(4), of _ i Idle "[errResult e x]"]) (auto simp: result_keyed_def errResult_def)
next
  case (directory st i e)
  show ?case
    by (rule keys_inv_move [OF directory(5), of _ i Idle
          "[\<lparr>rs_path = se_Path e, rs_isDir = True, rs_key = [], rs_record = None, rs_err = None\<rparr>]"])
      (auto simp: result_keyed_def)
next
  case (start st i e)
  have e: "e \<in> E" using start(1,5) by (auto simp: keys_inv_def dest: all_pcs_at)
  obtain rk s where ek: "entryKey e (wk_world st) = (rk, s)" by fastforce
  from ek show ?case
  proof (cases rule: startFile_cases [of e st rk s r i])
    case (ends k res)
    have "F e k" if "res = Inr rec" for rec using ends(2) that ek by (intro start(4)) auto
    with e start(3) show ?thesis unfolding ends(1)
      by (intro keys_inv_move [OF start(5), of _ i Idle "[fileResult e k res]"]) (auto intro: fileResult_keyed)
  next
    case (goes_on k)
    have "F e k" using goes_on(2) ek by (intro start(4)) auto
    with e start(3) show ?thesis unfolding goes_on(1)
      by (intro keys_inv_move [OF start(5), of _ i "Keyed e k" "[]"]) auto
  qed
next
  case (join st i e k)
  show ?case
    by (rule keys_inv_move [OF join(4), of _ i "Waiting e k" "[]"])
      (use join(1,4) in \<open>auto simp: keys_inv_def dest: all_pcs_at\<close>)
next
  case (fly st i e k)
  show ?case
    by (rule keys_inv_move [OF fly(4), of _ i "Uploading e k" "[]"])
      (use fly(1,4) in \<open>auto simp: keys_inv_def dest: all_pcs_at\<close>)
next
  case (land st i e k)
  have "e \<in> E" "\<not> isDirEntry e" "F e k" using land(1,3) by (auto simp: keys_inv_def dest: all_pcs_at)
  then show ?case
    by (cases "uploadPart Z r S RunCtx k e (wk_world st)")
      (auto simp: endUpload_def intro!: keys_inv_move [OF land(3), of _ i Idle "[fileResult e k _]"] fileResult_keyed)
next
  case (share st i e k res)
  have "e \<in> E" "\<not> isDirEntry e" "F e k" using share(1,4) by (auto simp: keys_inv_def dest: all_pcs_at)
  then show ?case
    by (intro keys_inv_move [OF share(4), of _ i Idle "[fileResult e k res]"]) (auto intro: fileResult_keyed)
next
  case (give_up st i e k x)
  show ?case
    by (rule keys_inv_move [OF give_up(4), of _ i Idle "[fileResult e k (Inl x)]"])
      (auto simp: result_keyed_def fileResult_def errResult_def)
qed

text \<open>Along an execution, every key was found for the entry it is used for.\<close>

lemma wreach_keys:
  "wreach Z r S st0 st \<Longrightarrow> keys_inv (key_found Z r S st0 st0) E st0 \<Longrightarrow> keys_inv (key_found Z r S st0 st) E st"
proof (induction rule: wreach.induct)
  case (there st st')
  have mono: "keys_inv (key_found Z r S st0 st') E st"
    by (rule keys_inv_mono [OF key_found_step [OF _ there(2)] there.IH [OF there.prems]])
  have now: "fst (entryKey e (wk_world st)) = Inr k \<Longrightarrow> key_found Z r S st0 st' e k" for e k
    using there(1,2) by (rule key_found_now)
  have w: "wstep Z r S st st' \<Longrightarrow> keys_inv (key_found Z r S st0 st') E st'"
    using wstep_keys [OF _ now mono] .
  have c: "keys_inv (key_found Z r S st0 st') E st'" if "caller_cancels st st'"
    using that mono by cases (simp add: keys_inv_def)
  from there(2) w c show ?case unfolding rstep_def by blast
qed

lemma keys_inv_start: "keys_inv F (set entries) (startWorkers opts entries cause s)"
  by (simp add: keys_inv_def startWorkers_def list_all_length)

lemma results_keyed:
  assumes "wreach Z r S (startWorkers opts entries cause s) st" (is "wreach Z r S ?st0 st")
    and "x \<in> set (wk_results st)" and "rs_err x = None" and "\<not> rs_isDir x"
  shows "\<exists>e \<in> set entries. \<not> isDirEntry e \<and> rs_path x = se_Path e \<and> key_found Z r S ?st0 st e (rs_key x)"
  using wreach_keys [OF assms(1) keys_inv_start] assms(2-4) by (auto simp: keys_inv_def list_all_iff result_keyed_def)

end
