(* ===== verification/RunBackup.thy ===== *)
theory RunBackup
  imports BackupKeys
begin

text \<open>
  \<open>RunBackup\<close> of \<open>src/tsync/backup.go\<close> as a whole, over a storage that keeps its contract: what
  the workers may have done to the store at any moment, and what the store holds when the run
  returns, with or without an error.
\<close>

section \<open>The store while the workers run\<close>

fun pc_ok :: "('s SourceEntry \<Rightarrow> bool) \<Rightarrow> (string, FileRecord) gomap \<Rightarrow> 's wpc \<Rightarrow> bool" where
  "pc_ok Q ex (Taken e) = Q e"
| "pc_ok Q ex (Keyed e k) = (Q e \<and> isValidFileKey k \<and> gm_get ex k = None)"
| "pc_ok Q ex (Waiting e k) = (Q e \<and> isValidFileKey k \<and> gm_get ex k = None)"
| "pc_ok Q ex (Uploading e k) = (Q e \<and> isValidFileKey k \<and> gm_get ex k = None)"
| "pc_ok Q ex _ = True"

definition rec_keyed :: "string \<Rightarrow> FileRecord \<Rightarrow> bool" where
  "rec_keyed k rec \<longleftrightarrow> fileKeyFor (fr_Crc32 rec) (fr_UncompressedSize rec) = k"

context keyed_storage
begin

text \<open>Only parts that no record of the loaded metadata names may have changed.\<close>

definition frame :: "(string, FileRecord) gomap \<Rightarrow> 's \<Rightarrow> 's \<Rightarrow> bool" where
  "frame ex s0 s \<longleftrightarrow> inv s \<and>
     (\<forall>q. key_ok q \<and> (\<forall>k. isValidFileKey k \<and> gm_get ex k = None \<longrightarrow> q \<noteq> partKeyFor k) \<longrightarrow> contents s q = contents s0 q)"

definition uploaded :: "'s \<Rightarrow> string \<Rightarrow> FileRecord \<Rightarrow> bool" where
  "uploaded s k rec \<longleftrightarrow> isValidFileKey k \<and> rec_keyed k rec \<and> contents s (partKeyFor k) \<noteq> None"

definition result_ok :: "(string, FileRecord) gomap \<Rightarrow> 's \<Rightarrow> backupResult \<Rightarrow> bool" where
  "result_ok ex s x \<longleftrightarrow> (rs_err x = None \<and> \<not> rs_isDir x \<longrightarrow>
     isValidFileKey (rs_key x) \<and>
     (\<exists>rec. rs_record x = Some rec \<and> (gm_get ex (rs_key x) = Some rec \<or> gm_get ex (rs_key x) = None \<and> uploaded s (rs_key x) rec)))"

definition store_inv :: "(string, FileRecord) gomap \<Rightarrow> 's \<Rightarrow> 's workers \<Rightarrow> bool" where
  "store_inv ex s0 st \<longleftrightarrow>
     frame ex s0 (wk_world st) \<and>
     list_all (entry_quiet contents key_ok inv) (wk_tasks st) \<and>
     list_all (pc_ok (entry_quiet contents key_ok inv) ex) (wk_pcs st) \<and>
     (\<forall>k rec. gm_get (wk_flights st) k = Some (Some (Inr rec)) \<longrightarrow> uploaded (wk_world st) k rec) \<and>
     list_all (result_ok ex (wk_world st)) (wk_results st)"

definition parts_kept :: "'s \<Rightarrow> 's \<Rightarrow> bool" where
  "parts_kept s s' \<longleftrightarrow> (\<forall>k. isValidFileKey k \<and> contents s (partKeyFor k) \<noteq> None \<longrightarrow> contents s' (partKeyFor k) \<noteq> None)"

lemma parts_kept_same: "\<forall>q. key_ok q \<longrightarrow> contents s' q = contents s q \<Longrightarrow> parts_kept s s'"
  using key_partKeyFor by (simp add: parts_kept_def)

lemma uploaded_mono: "parts_kept s s' \<Longrightarrow> uploaded s k rec \<Longrightarrow> uploaded s' k rec"
  by (auto simp: uploaded_def parts_kept_def)

lemma results_mono: "parts_kept s s' \<Longrightarrow> list_all (result_ok ex s) xs \<Longrightarrow> list_all (result_ok ex s') xs"
  unfolding list_all_iff result_ok_def using uploaded_mono by blast

text \<open>Moving a worker, changing the world and sending a result keeps the invariant.\<close>

lemma store_inv_move:
  assumes "store_inv ex s0 st" and "wk_pcs st' = (wk_pcs st)[i := pc']" and "pc_ok (entry_quiet contents key_ok inv) ex pc'"
    and "set (wk_tasks st') \<subseteq> set (wk_tasks st)" and "frame ex s0 (wk_world st')" and "parts_kept (wk_world st) (wk_world st')"
    and "\<And>k rec. gm_get (wk_flights st') k = Some (Some (Inr rec)) \<Longrightarrow>
      gm_get (wk_flights st) k = Some (Some (Inr rec)) \<or> uploaded (wk_world st') k rec"
    and "wk_results st' = wk_results st @ xs" and "list_all (result_ok ex (wk_world st')) xs"
  shows "store_inv ex s0 st'"
proof -
  have fl: "uploaded (wk_world st') k rec" if "gm_get (wk_flights st') k = Some (Some (Inr rec))" for k rec
    using assms(1) assms(7) [OF that] uploaded_mono [OF assms(6)] by (auto simp: store_inv_def)
  have pcs: "list_all (pc_ok (entry_quiet contents key_ok inv) ex) (wk_pcs st')"
    using assms(1-3) by (simp add: store_inv_def all_pcs_update)
  have ts: "list_all (entry_quiet contents key_ok inv) (wk_tasks st')"
    using assms(1,4) by (auto simp: store_inv_def list_all_iff)
  have "list_all (result_ok ex (wk_world st')) (wk_results st')"
    using assms(1,8,9) results_mono [OF assms(6)] by (simp add: store_inv_def)
  with fl pcs ts assms(5) show ?thesis by (simp add: store_inv_def)
qed

lemma parts_kept_refl: "parts_kept s s"
  by (simp add: parts_kept_def)

lemma wstep_store:
  "wstep Z r S st st' \<Longrightarrow> store_inv (br_existing r) s0 st \<Longrightarrow> store_inv (br_existing r) s0 st'"
proof (induction rule: wstep.induct)
  case (receive st i e es)
  show ?case
    by (rule store_inv_move [OF receive(3), of _ i "Taken e" "[]"])
      (use receive in \<open>auto simp: store_inv_def parts_kept_refl\<close>)
next
  case (leave st i)
  show ?case by (rule store_inv_move [OF leave(3), of _ i Exited "[]"]) (use leave in \<open>auto simp: store_inv_def parts_kept_refl\<close>)
next
  case (cancelled st i e x)
  show ?case
    by (rule store_inv_move [OF cancelled(3), of _ i Idle "[errResult e x]"])
      (use cancelled in \<open>auto simp: store_inv_def parts_kept_refl result_ok_def errResult_def\<close>)
next
  case (directory st i e)
  show ?case
    by (rule store_inv_move [OF directory(4), of _ i Idle
          "[\<lparr>rs_path = se_Path e, rs_isDir = True, rs_key = [], rs_record = None, rs_err = None\<rparr>]"])
      (use directory in \<open>auto simp: store_inv_def parts_kept_refl result_ok_def\<close>)
next
  case (start st i e)
  have qe: "entry_quiet contents key_ok inv e"
    using start(1,4) by (auto simp: store_inv_def dest: all_pcs_at)
  obtain rk s where ek: "entryKey e (wk_world st) = (rk, s)" by fastforce
  have "inv (wk_world st)" using start(4) by (simp add: store_inv_def frame_def)
  note es = entryKey_spec [OF this qe ek]
  have fr: "frame (br_existing r) s0 s" "parts_kept (wk_world st) s"
    using start(4) es(1,2) by (auto simp: store_inv_def frame_def intro: parts_kept_same)
  from ek show ?case
  proof (cases rule: startFile_cases [of e st rk s r i])
    case (ends k res)
    show ?thesis unfolding ends(1)
      by (rule store_inv_move [OF start(4), of _ i Idle "[fileResult e k res]"])
        (use ends fr es(3) in \<open>auto simp: result_ok_def fileResult_def errResult_def\<close>)
  next
    case (goes_on k)
    show ?thesis unfolding goes_on(1)
      by (rule store_inv_move [OF start(4), of _ i "Keyed e k" "[]"])
        (use goes_on fr es(3) qe in auto)
  qed
next
  case (join st i e k)
  show ?case
    by (rule store_inv_move [OF join(3), of _ i "Waiting e k" "[]"])
      (use join in \<open>auto simp: store_inv_def parts_kept_refl dest: all_pcs_at\<close>)
next
  case (fly st i e k)
  show ?case
    by (rule store_inv_move [OF fly(3), of _ i "Uploading e k" "[]"])
      (use fly in \<open>auto simp: store_inv_def parts_kept_refl gm_get_put dest: all_pcs_at split: if_splits\<close>)
next
  case (land st i e k)
  have k: "entry_quiet contents key_ok inv e" "isValidFileKey k" "gm_get (br_existing r) k = None"
    using land by (auto simp: store_inv_def dest: all_pcs_at)
  obtain res s where up: "uploadPart Z r S RunCtx k e (wk_world st) = (res, s)" by fastforce
  have w: "inv (wk_world st)" using land(2) by (simp add: store_inv_def frame_def)
  note us = uploadPart_spec [OF w k(2,1) up]
  have fr: "frame (br_existing r) s0 s"
    unfolding frame_def
  proof (intro conjI allI impI)
    fix q assume q: "key_ok q \<and> (\<forall>k. isValidFileKey k \<and> gm_get (br_existing r) k = None \<longrightarrow> q \<noteq> partKeyFor k)"
    then have "contents s q = contents (wk_world st) q" using us(2) k(2,3) by blast
    also have "\<dots> = contents s0 q" using q land(2) unfolding store_inv_def frame_def by blast
    finally show "contents s q = contents s0 q" .
  qed (rule us(1))
  have pk: "parts_kept (wk_world st) s"
    unfolding parts_kept_def using us(2,3) key_partKeyFor by metis
  have new: "uploaded s k rec" if "res = Inr rec" for rec
    using us(4) [OF that] k(2) by (simp add: uploaded_def rec_keyed_def)
  have "result_ok (br_existing r) s (fileResult e k res)"
    using new k(2,3) by (auto simp: result_ok_def fileResult_def errResult_def split: sum.splits)
  with fr pk new show ?case
    unfolding endUpload_def up prod.case
    by (intro store_inv_move [OF land(2), of _ i Idle "[fileResult e k res]"]) (auto simp: gm_get_put split: if_splits)
next
  case (share st i e k res)
  have "uploaded (wk_world st) k rec" if "res = Inr rec" for rec
    using share that by (auto simp: store_inv_def)
  moreover have "gm_get (br_existing r) k = None" "isValidFileKey k"
    using share(1,3) by (auto simp: store_inv_def dest: all_pcs_at)
  ultimately have "result_ok (br_existing r) (wk_world st) (fileResult e k res)"
    by (auto simp: result_ok_def fileResult_def errResult_def split: sum.splits)
  then show ?case
    by (intro store_inv_move [OF share(3), of _ i Idle "[fileResult e k res]"])
      (use share in \<open>auto simp: store_inv_def parts_kept_refl\<close>)
next
  case (give_up st i e k x)
  show ?case
    by (rule store_inv_move [OF give_up(3), of _ i Idle "[fileResult e k (Inl x)]"])
      (use give_up in \<open>auto simp: store_inv_def parts_kept_refl result_ok_def fileResult_def errResult_def\<close>)
qed

lemma wreach_store:
  "wreach Z r S st0 st \<Longrightarrow> store_inv (br_existing r) s0 st0 \<Longrightarrow> store_inv (br_existing r) s0 st"
proof (induction rule: wreach.induct)
  case (there st st')
  then show ?case
    using wstep_store by (auto simp: rstep_def store_inv_def elim!: caller_cancels.cases)
qed

lemma store_inv_start:
  "inv s \<Longrightarrow> list_all (entry_quiet contents key_ok inv) entries \<Longrightarrow> store_inv ex s (startWorkers opts entries cause s)"
  by (simp add: store_inv_def startWorkers_def frame_def list_all_length)

end

end
