(* ===== verification/BackupCommit.thy ===== *)
theory BackupCommit
  imports RunBackup
begin

text \<open>
  The beginning and the end of \<open>RunBackup\<close> (\<open>src/tsync/backup.go\<close>) on a store that keeps its
  contract, and the whole run: \<open>backupRuns\<close> relates a call, through the prepared run and the final
  state of the workers, to its result and the world it leaves.
\<close>

section \<open>The whole run\<close>

definition backupRuns ::
  "md_unmarshal \<Rightarrow> md_marshal \<Rightarrow> tree_marshal \<Rightarrow> zipLib \<Rightarrow> backupEnv \<Rightarrow> ('s \<Rightarrow> 's SourceEntry list result \<times> 's) \<Rightarrow>
     ('s, 'w) Storage \<Rightarrow> BackupOptions \<Rightarrow> 's \<Rightarrow> 's prepared \<Rightarrow> 's workers \<Rightarrow> Version result \<Rightarrow> 's \<Rightarrow> bool" where
  "backupRuns unmarshal marshal mar Z env listSrc S opts s p st res s' \<longleftrightarrow>
     (\<exists>s1 cause. prepareBackup unmarshal env listSrc S CallerCtx opts s = (Inr p, s1) \<and>
        wreach Z (pr_run p) S (startWorkers opts (pr_entries p) cause s1) st \<and> all_exited st \<and>
        finishBackup marshal mar env S CallerCtx opts p (wk_results st) (wk_parent st) (wk_cause st) (wk_world st) = Some (res, s'))"

text \<open>The run that ended in \<open>st\<close> found the key \<open>k\<close> for the entry \<open>e\<close> in one of the states of its workers.\<close>

definition run_key ::
  "md_unmarshal \<Rightarrow> zipLib \<Rightarrow> backupEnv \<Rightarrow> ('s \<Rightarrow> 's SourceEntry list result \<times> 's) \<Rightarrow> ('s, 'w) Storage \<Rightarrow> BackupOptions \<Rightarrow> 's \<Rightarrow>
     's prepared \<Rightarrow> 's workers \<Rightarrow> 's SourceEntry \<Rightarrow> string \<Rightarrow> bool" where
  "run_key unmarshal Z env listSrc S opts s p st e k \<longleftrightarrow>
     (\<exists>s1 cause. prepareBackup unmarshal env listSrc S CallerCtx opts s = (Inr p, s1) \<and>
        key_found Z (pr_run p) S (startWorkers opts (pr_entries p) cause s1) st e k)"

inductive RunBackup ::
  "md_unmarshal \<Rightarrow> md_marshal \<Rightarrow> tree_marshal \<Rightarrow> zipLib \<Rightarrow> backupEnv \<Rightarrow> ('s \<Rightarrow> 's SourceEntry list result \<times> 's) \<Rightarrow>
     ('s, 'w) Storage \<Rightarrow> BackupOptions \<Rightarrow> 's \<Rightarrow> Version result \<Rightarrow> 's \<Rightarrow> bool"
  for unmarshal marshal mar Z env listSrc S opts s where
  refused: "prepareBackup unmarshal env listSrc S CallerCtx opts s = (Inl e, s') \<Longrightarrow>
    RunBackup unmarshal marshal mar Z env listSrc S opts s (Inl e) s'"
| ran: "backupRuns unmarshal marshal mar Z env listSrc S opts s p st res s' \<Longrightarrow>
    RunBackup unmarshal marshal mar Z env listSrc S opts s res s'"

inductive_cases RunBackup_ok: "RunBackup unmarshal marshal mar Z env listSrc S opts s (Inr v) s'"
inductive_cases RunBackup_err: "RunBackup unmarshal marshal mar Z env listSrc S opts s (Inl e) s'"

text \<open>A source whose listing and whose entries leave the store alone.\<close>

definition source_ok ::
  "('s \<Rightarrow> string \<Rightarrow> bytes option) \<Rightarrow> (string \<Rightarrow> bool) \<Rightarrow> ('s \<Rightarrow> bool) \<Rightarrow> ('s \<Rightarrow> 's SourceEntry list result \<times> 's) \<Rightarrow> bool" where
  "source_ok contents key_ok ok listSrc \<longleftrightarrow> quiet contents key_ok ok listSrc \<and>
     (\<forall>s es. fst (listSrc s) = Inr es \<longrightarrow> list_all (entry_quiet contents key_ok ok) es)"

section \<open>Preparation\<close>

lemma selectKeys_existing: "selectKeys env opts md es run = Inr r \<Longrightarrow> br_existing r = br_existing run"
  by (auto simp: selectKeys_def Let_def split: if_splits option.splits sum.splits)

lemma newRun_existing [simp]: "br_existing (newRun opts md) = Files md"
  by (simp add: newRun_def split: option.splits sum.splits prod.splits)

text \<open>The metadata a run starts from: what is stored, or an empty store.\<close>

definition start_md :: "('s \<Rightarrow> BackupMetadata option) \<Rightarrow> 's \<Rightarrow> bool \<Rightarrow> BackupMetadata \<Rightarrow> bool" where
  "start_md st_md s hasOld md \<longleftrightarrow>
     (if hasOld then st_md s = Some md \<and> SchemaVersion md = 2
      else st_md s = None \<and> Versions md = [] \<and> Trees md = [] \<and> Files md = [])"

context keyed_storage
begin

lemma prepare_unchanged:
  assumes "inv s" and "source_ok contents key_ok inv listSrc"
    and prep: "prepareBackup unmarshal env listSrc S c opts s = (res, s')"
  shows "inv s'" and "\<And>q. key_ok q \<Longrightarrow> contents s' q = contents s q"
proof -
  obtain r s1 where load: "loadMetadata unmarshal S c s = (r, s1)" by fastforce
  note ls = load_spec [OF assms(1) load]
  obtain l s2 where src: "listSrc s1 = (l, s2)" by fastforce
  have "quiet contents key_ok inv listSrc" using assms(2) by (simp add: source_ok_def)
  note q = quietD [OF this ls(1) src]
  have "s' = s \<or> s' = s1 \<or> s' = s2"
    using prep load src
    by (auto simp: prepareBackup_def Let_def split: option.splits prod.splits sum.splits)
  then show "inv s'" "\<And>q. key_ok q \<Longrightarrow> contents s' q = contents s q"
    using assms(1) ls(1,2) q by auto
qed

lemma prepare_spec:
  assumes "inv s" and "source_ok contents key_ok inv listSrc"
    and prep: "prepareBackup unmarshal env listSrc S c opts s = (Inr p, s')"
  obtains md where "start_md (stored unmarshal contents) s (pr_hasOld p) md"
    and "checkOrdering opts md = None" and "pr_latest p = latestVersion md"
    and "pr_metadata p = mergeKeys opts (pr_hasOld p) md" and "br_existing (pr_run p) = Files md"
    and "list_all (entry_quiet contents key_ok inv) (pr_entries p)" and "list_all entry_path_ok (pr_entries p)"
    and "validateBackupOptions (en_now env) opts = None"
proof -
  obtain r s1 where load: "loadMetadata unmarshal S c s = (r, s1)" by fastforce
  note ls = load_spec [OF assms(1) load]
  obtain l s2 where src: "listSrc s1 = (l, s2)" by fastforce
  obtain hasOld md es run allE where im: "initMetadata opts r = Inr (hasOld, md)" and co: "checkOrdering opts md = None"
    and l: "l = Inr allE" and fe: "filterEntries opts allE = Inr es"
    and sk: "selectKeys env opts (mergeKeys opts hasOld md) es (newRun opts (mergeKeys opts hasOld md)) = Inr run"
    and p: "p = \<lparr>pr_metadata = mergeKeys opts hasOld md, pr_hasOld = hasOld, pr_latest = latestVersion md,
               pr_entries = es, pr_run = run\<rparr>"
    and vo: "validateBackupOptions (en_now env) opts = None"
    using prep load src
    by (auto simp: prepareBackup_def Let_def split: option.splits prod.splits sum.splits)
  have "start_md (stored unmarshal contents) s hasOld md"
    using im ls(3,4) by (auto simp: initMetadata_def start_md_def stored_def split: sum.splits if_splits)
  moreover have "Files (mergeKeys opts hasOld md) = Files md" by (simp add: mergeKeys_def)
  moreover have "list_all (entry_quiet contents key_ok inv) allE"
    using assms(2) src l unfolding source_ok_def by (metis fst_conv)
  then have "list_all (entry_quiet contents key_ok inv) es"
    using filterEntries_ok [OF fe] by (auto simp: list_all_iff)
  ultimately show thesis
    using co vo filterEntries_ok [OF fe] selectKeys_existing [OF sk] by (intro that) (auto simp: p)
qed

end

section \<open>The end\<close>

lemma finish_cases:
  assumes "finishBackup marshal mar env S c opts p rs parent cause s = Some (res, s')"
  obtains (failed) e where "res = Inl e" "s' = s"
    | (commits) n h newTrees vid seq where
      "cause = None" "\<forall>x \<in> set rs. rs_err x = None" "length rs = length (pr_entries p)" "resultTree (gather rs) = Inr n"
      "buildAndHash mar n [] = Inr (h, newTrees)" "chooseVersionID env opts (Versions (pr_metadata p)) = Some (vid, seq)"
      "commitBackup marshal S c opts (pr_hasOld p) (pr_metadata p)
         (finalMetadata env opts (pr_metadata p) (newVersion env opts (pr_latest p) vid h) newTrees (ga_pool (gather rs)))
         (newVersion env opts (pr_latest p) vid h) s = (res, s')"
proof (cases "runError parent cause (ga_firstErr (gather rs)) (ga_done (gather rs)) (length (pr_entries p))")
  case (Some e)
  with assms show ?thesis by (intro failed) (auto simp: finishBackup_def Let_def)
next
  case None
  then have ok: "cause = None" "\<forall>x \<in> set rs. rs_err x = None" "length rs = length (pr_entries p)"
    using gather_err [of rs] by (auto simp: runError_None_iff)
  show ?thesis
    using assms None
    by (auto simp: finishBackup_def Let_def split: sum.splits option.splits prod.splits intro: failed commits [OF ok])
qed

lemma chooseVersionID_fresh:
  assumes "chooseVersionID env opts (Versions md) = Some (vid, seq)" and "checkOrdering opts md = None"
  shows "\<not> gm_has (Versions md) (FormatUint vid)" and "vid \<noteq> 0"
proof -
  have gen: "fresh_id (Versions md) v" if "generateVersionID (Versions md) clock sq = Some (v, sq')" for v clock sq sq'
    using generateVersionID_loop_sound that unfolding generateVersionID_def by blast
  show "\<not> gm_has (Versions md) (FormatUint vid)" "vid \<noteq> 0"
    using assms gen by (auto simp: chooseVersionID_def checkOrdering_def fresh_id_def split: if_splits)
qed

text \<open>The metadata that is written.\<close>

lemma finalMetadata_maps:
  fixes env opts v
  assumes "gm_wf (Versions md)" and "gm_wf (Trees md)" and "gm_wf (Files md)" and "gm_wf newTrees" and "gm_wf newFiles"
  defines "newMd \<equiv> finalMetadata env opts md v newTrees newFiles"
  shows "gm_get (Versions newMd) = (if bo_SingleVersionMode opts then Map.empty else gm_get (Versions md))(FormatUint (SnowflakeId v) \<mapsto> v)"
    and "gm_get (Trees newMd) = (if bo_SingleVersionMode opts then Map.empty else gm_get (Trees md)) ++ gm_get newTrees"
    and "gm_get (Files newMd) = (if bo_SingleVersionMode opts then Map.empty else gm_get (Files md)) ++ gm_get newFiles"
    and "SchemaVersion newMd = 2" and "gm_wf (PublicKeys md) \<Longrightarrow> md_wf newMd"
  using assms by (simp_all add: newMd_def finalMetadata_def Let_def gm_get_copy gm_get_put md_wf_def)

lemma buildAndHash_wf: "buildAndHash mar n trees = Inr (h, trees') \<Longrightarrow> gm_wf trees \<Longrightarrow> gm_wf trees'"
  by (auto simp: buildAndHash_emit split: option.splits)

section \<open>The commit\<close>

context keyed_storage
begin

lemma cleanupParts_spec:
  "inv s \<Longrightarrow> inv (cleanupParts S c newFiles old s) \<and>
     (\<forall>q. key_ok q \<and> (\<forall>k. isValidFileKey k \<and> \<not> gm_has newFiles k \<longrightarrow> q \<noteq> partKeyFor k) \<longrightarrow>
        contents (cleanupParts S c newFiles old s) q = contents s q)"
proof (induction old arbitrary: s)
  case (Cons x old)
  obtain k r where x: "x = (k, r)" by fastforce
  show ?case
  proof (cases "gm_has newFiles k \<or> \<not> isValidFileKey k")
    case True
    with Cons show ?thesis by (auto simp: x)
  next
    case False
    obtain e s1 where d: "st_Delete S c (partKeyFor k) s = (e, s1)" by fastforce
    have "key_ok (partKeyFor k)" using False key_partKeyFor by blast
    note law = delete_law [OF Cons.prems this d]
    have step: "cleanupParts S c newFiles (x # old) s = cleanupParts S c newFiles old s1"
      using False d by (simp add: x)
    have "contents s1 q = contents s q"
      if "key_ok q" "\<forall>k. isValidFileKey k \<and> \<not> gm_has newFiles k \<longrightarrow> q \<noteq> partKeyFor k" for q
      using law that False by blast
    with Cons.IH [of s1] law show ?thesis unfolding step by simp
  qed
qed simp

lemma commit_cases:
  assumes codec: "md_codec unmarshal marshal" and "inv s" and "md_wf newMd"
    and run: "commitBackup marshal S c opts hasOld md newMd v s = (res, s')"
  obtains (unwritten) e where "res = Inl e" "inv s'" "\<forall>q. key_ok q \<longrightarrow> contents s' q = contents s q"
    | (written) md' where "inv s'" "stored unmarshal contents s' = Some md'" "md_same newMd md'" "md_wf md'"
      "\<forall>k. isValidFileKey k \<and> (gm_has (Files newMd) k \<or> \<not> bo_SingleVersionMode opts \<or> (\<exists>e. res = Inl e)) \<longrightarrow>
         contents s' (partKeyFor k) = contents s (partKeyFor k)"
      "\<forall>v'. res = Inr v' \<longrightarrow> v' = v"
      "\<forall>e. res = Inl e \<longrightarrow> (\<exists>x b. e = Errorf [x] \<and> unmarshal b = Some md' \<and> st_Write S c metadataPath b s = (Some x, s'))"
proof (cases "marshal newMd")
  case None
  with run assms(2) show ?thesis by (intro unwritten) (auto simp: commitBackup_def)
next
  case (Some b)
  obtain e s1 where wr: "st_Write S c metadataPath b s = (e, s1)" by fastforce
  note law = write_law [OF assms(2) key_tsync wr]
  obtain md' where md': "unmarshal b = Some md'" "md_same newMd md'" "md_wf md'"
    using codec assms(3) Some by (meson md_codec_def)
  have parts: "contents s1 (partKeyFor k) = contents s (partKeyFor k)" if "isValidFileKey k" for k
    using law key_partKeyFor [OF that] metadataPath_not_part [of k] by metis
  show ?thesis
  proof (cases e)
    case (Some x)
    then have res: "res = Inl (Errorf [x])" "s' = s1"
      using run wr \<open>marshal newMd = Some b\<close> by (auto simp: commitBackup_def)
    show ?thesis
    proof (cases "contents s1 metadataPath = Some b")
      case True
      with law md' parts res wr \<open>e = Some x\<close> show ?thesis by (intro written [of md']) (auto simp: stored_def)
    next
      case False
      then have "\<forall>q. key_ok q \<longrightarrow> contents s1 q = contents s q"
        using law by metis
      with law res show ?thesis by (intro unwritten) auto
    qed
  next
    case None
    define s2 where "s2 = cleanupParts S c (Files newMd) (Files md) s1"
    have res: "res = Inr v" "s' = (if bo_SingleVersionMode opts \<and> hasOld then s2 else s1)"
      using run wr \<open>marshal newMd = Some b\<close> None by (auto simp: commitBackup_def s2_def)
    have "inv s1" using law by simp
    note cp = cleanupParts_spec [OF this, of c "Files newMd" "Files md", folded s2_def]
    have st1: "stored unmarshal contents s1 = Some md'"
      using law None md' by (simp add: stored_def)
    have "contents s2 metadataPath = contents s1 metadataPath"
      using cp key_tsync metadataPath_not_part by simp
    then have st2: "stored unmarshal contents s2 = Some md'"
      using st1 by (simp add: stored_def)
    have kept: "contents s2 (partKeyFor k) = contents s1 (partKeyFor k)"
      if "isValidFileKey k" "gm_has (Files newMd) k" for k
    proof -
      have "partKeyFor k \<noteq> partKeyFor k'" if "isValidFileKey k'" "\<not> gm_has (Files newMd) k'" for k'
        using that \<open>isValidFileKey k\<close> \<open>gm_has (Files newMd) k\<close> partKeyFor_valid_inj by blast
      with cp key_partKeyFor [OF that(1)] show ?thesis by blast
    qed
    show ?thesis
    proof (rule written)
      show "inv s'" using res law cp by simp
      show "stored unmarshal contents s' = Some md'" using res st1 st2 by simp
      show "\<forall>k. isValidFileKey k \<and> (gm_has (Files newMd) k \<or> \<not> bo_SingleVersionMode opts \<or> (\<exists>e. res = Inl e)) \<longrightarrow>
          contents s' (partKeyFor k) = contents s (partKeyFor k)"
        using res kept parts by auto
    qed (use md' res in auto)
  qed
qed

end

end
