(* ===== verification/Paths.thy ===== *)
theory Paths
  imports FileKeys
begin

text \<open>
  File system paths: the lexical functions of Go's \<open>path/filepath\<close> for a separator \<open>/\<close>
  (\<open>Clean\<close>, \<open>Join\<close>, \<open>Dir\<close>, \<open>Base\<close>, \<open>Rel\<close>) and \<open>safeJoin\<close> and \<open>relEscapesBase\<close> of
  \<open>src/tsync/restore.go\<close>, which keep a restore inside its directory.
\<close>

section \<open>Lexical path functions\<close>

definition Rooted :: "string \<Rightarrow> bool" where
  "Rooted p = HasPrefix p ''/''"

text \<open>One component of \<open>Clean\<close>, on the output so far in reverse.\<close>

definition cleanStep :: "bool \<Rightarrow> string list \<Rightarrow> string \<Rightarrow> string list" where
  "cleanStep rooted out part =
     (if part = [] \<or> part = ''.'' then out
      else if part = ''..'' then
        (case out of
           [] \<Rightarrow> if rooted then [] else [''..'']
         | x # xs \<Rightarrow> if x = ''..'' then ''..'' # out else xs)
      else part # out)"

definition cleanComps :: "string \<Rightarrow> string list" where
  "cleanComps p = rev (foldl (cleanStep (Rooted p)) [] (Split CHR ''/'' p))"

definition unparse :: "bool \<Rightarrow> string list \<Rightarrow> string" where
  "unparse rooted cs =
     (if rooted then ''/'' @ Join cs ''/'' else if cs = [] then ''.'' else Join cs ''/'')"

definition Clean :: "string \<Rightarrow> string" where
  "Clean p = unparse (Rooted p) (cleanComps p)"

definition filepathJoin :: "string list \<Rightarrow> string" where
  "filepathJoin elems =
     (case filter (\<lambda>e. e \<noteq> []) elems of [] \<Rightarrow> [] | es \<Rightarrow> Clean (Join es ''/''))"

text \<open>\<open>filepath.Dir\<close> and \<open>filepath.Base\<close> of a cleaned path.\<close>

definition filepathDir :: "string \<Rightarrow> string" where
  "filepathDir p = Clean (Join (butlast (Split CHR ''/'' p)) ''/'' @
     (if length (Split CHR ''/'' p) = 1 then [] else ''/''))"

text \<open>The components left after the common leading ones.\<close>

fun stripCommon :: "string list \<Rightarrow> string list \<Rightarrow> string list \<times> string list" where
  "stripCommon (b # bs) (t # ts) = (if b = t then stripCommon bs ts else (b # bs, t # ts))"
| "stripCommon bs ts = (bs, ts)"

definition Rel :: "string \<Rightarrow> string \<Rightarrow> string result" where
  "Rel base targ =
     (if Clean base = Clean targ then Inr ''.''
      else if Rooted base \<noteq> Rooted targ then Inl (Foreign ''Rel'')
      else let (bs, ts) = stripCommon (cleanComps base) (cleanComps targ)
           in if bs \<noteq> [] \<and> ts \<noteq> [] \<and> hd bs = ''..'' then Inl (Foreign ''Rel'')
              else Inr (Join (replicate (length bs) ''..'' @ ts) ''/''))"

definition relEscapesBase :: "string \<Rightarrow> bool" where
  "relEscapesBase rel \<longleftrightarrow> rel = ''..'' \<or> HasPrefix rel ''../''"

definition safeJoin :: "string \<Rightarrow> string \<Rightarrow> string result" where
  "safeJoin base archivePath =
     (let cleanBase = Clean base;
          cleanOut = Clean (filepathJoin [base, archivePath])
      in case Rel cleanBase cleanOut of
           Inl e \<Rightarrow> Inl (Errorf [Sentinel ErrUnsafePath])
         | Inr rel \<Rightarrow>
             if rel = ''.'' \<or> relEscapesBase rel then Inl (Errorf [Sentinel ErrUnsafePath])
             else Inr cleanOut)"

section \<open>Cleaned components\<close>

definition plain :: "string \<Rightarrow> bool" where
  "plain c \<longleftrightarrow> c \<noteq> [] \<and> c \<noteq> ''.'' \<and> c \<noteq> ''..'' \<and> CHR ''/'' \<notin> set c"

text \<open>Leading \<open>..\<close> components (none in a rooted path), then plain ones.\<close>

definition clean_list :: "bool \<Rightarrow> string list \<Rightarrow> bool" where
  "clean_list rooted cs \<longleftrightarrow>
     (\<exists>n ps. cs = replicate n ''..'' @ ps \<and> list_all plain ps \<and> (rooted \<longrightarrow> n = 0))"

lemma valid_name_plain: "valid_name n \<Longrightarrow> plain n"
  by (simp add: valid_name_iff plain_def)

lemma cleanStep_plain [simp]: "plain c \<Longrightarrow> cleanStep r out c = c # out"
  by (simp add: cleanStep_def plain_def)

lemma foldl_plain: "list_all plain cs \<Longrightarrow> foldl (cleanStep r) out cs = rev cs @ out"
  by (induction cs arbitrary: out) auto

lemma clean_list_step:
  assumes "clean_list r (rev out)" and "CHR ''/'' \<notin> set c"
  shows "clean_list r (rev (cleanStep r out c))"
proof -
  obtain n ps where out: "out = rev ps @ replicate n ''..''" and ps: "list_all plain ps" and n: "r \<longrightarrow> n = 0"
    using assms(1) by (auto simp: clean_list_def rev_swap)
  show ?thesis
  proof (cases "c = ''..''")
    case True
    show ?thesis
    proof (cases ps rule: rev_cases)
      case Nil
      have "rev (cleanStep r out c) = replicate (if r then 0 else Suc n) ''..'' @ []"
        using True out n Nil by (cases n) (auto simp: cleanStep_def replicate_append_same)
      moreover have "clean_list r (replicate (if r then 0 else Suc n) ''..'' @ [])"
        unfolding clean_list_def by (rule exI [of _ "if r then 0 else Suc n"], rule exI [of _ "[]"]) simp
      ultimately show ?thesis by simp
    next
      case (snoc qs q)
      then have "q \<noteq> ''..''" using ps by (simp add: plain_def)
      then show ?thesis
        using True out n ps snoc by (auto simp: cleanStep_def clean_list_def)
    qed
  next
    case False
    then show ?thesis
      using out ps n assms(2)
      by (auto simp: cleanStep_def clean_list_def plain_def intro: exI [of _ n] exI [of _ "ps @ [c]"])
  qed
qed

lemma clean_list_cleanComps: "clean_list (Rooted p) (cleanComps p)"
proof -
  have "clean_list r (rev (foldl (cleanStep r) out cs))"
    if "clean_list r (rev out)" "\<forall>c \<in> set cs. CHR ''/'' \<notin> set c" for r out cs
    using that by (induction cs arbitrary: out) (auto intro: clean_list_step)
  moreover have "clean_list r []" for r
    by (simp add: clean_list_def)
  ultimately show ?thesis
    unfolding cleanComps_def by (metis Split_sep_free rev.simps(1))
qed

lemma foldl_clean_list:
  assumes "clean_list r cs"
  shows "foldl (cleanStep r) [] cs = rev cs"
proof -
  obtain n ps where cs: "cs = replicate n ''..'' @ ps" and ps: "list_all plain ps" and n: "r \<longrightarrow> n = 0"
    using assms by (auto simp: clean_list_def)
  have "foldl (cleanStep r) [] (replicate n ''..'') = replicate n ''..''"
  proof (cases r)
    case False
    have "foldl (cleanStep False) (replicate m ''..'') (replicate n ''..'') = replicate (n + m) ''..''" for m
    proof (induction n arbitrary: m)
      case (Suc n)
      have "cleanStep False (replicate m ''..'') ''..'' = replicate (Suc m) ''..''"
        by (cases m) (auto simp: cleanStep_def)
      with Suc.IH [of "Suc m"] show ?case by simp
    qed simp
    from this [of 0] False show ?thesis by simp
  qed (use n in simp)
  then show ?thesis
    using ps by (simp add: cs foldl_plain)
qed

lemma clean_list_comps: "clean_list r cs \<Longrightarrow> c \<in> set cs \<Longrightarrow> c \<noteq> [] \<and> c \<noteq> ''.'' \<and> CHR ''/'' \<notin> set c"
proof -
  assume "clean_list r cs" "c \<in> set cs"
  then obtain n ps where "c \<in> set (replicate n ''..'') \<or> c \<in> set ps" "list_all plain ps"
    unfolding clean_list_def by (metis UnE set_append)
  then have "c = ''..'' \<or> plain c" by (auto simp: list_all_iff)
  then show ?thesis by (auto simp: plain_def)
qed

lemma Split_Join_clean: "clean_list r cs \<Longrightarrow> cs \<noteq> [] \<Longrightarrow> Split CHR ''/'' (Join cs ''/'') = cs"
  by (intro Split_Join) (auto dest: clean_list_comps)

lemma Rooted_unparse: "clean_list r cs \<Longrightarrow> Rooted (unparse r cs) = r"
proof (cases cs)
  case (Cons c cs')
  assume cl: "clean_list r cs"
  then have "c \<noteq> []" "CHR ''/'' \<notin> set c" using Cons clean_list_comps by auto
  then show ?thesis
    using Cons by (cases c; cases cs') (auto simp: unparse_def Rooted_def HasPrefix_def)
qed (auto simp: unparse_def Rooted_def HasPrefix_def)

lemma cleanComps_unparse: "clean_list r cs \<Longrightarrow> cleanComps (unparse r cs) = cs"
proof -
  assume cl: "clean_list r cs"
  have "foldl (cleanStep r) [] (Split CHR ''/'' (unparse r cs)) = rev cs"
  proof (cases "cs = []")
    case True
    then show ?thesis by (simp add: unparse_def cleanStep_def)
  next
    case False
    have "foldl (cleanStep r) [] ([] # cs) = rev cs"
      using foldl_clean_list [OF cl] by (simp add: cleanStep_def)
    with False Split_Join_clean [OF cl] foldl_clean_list [OF cl] show ?thesis
      by (cases r) (simp_all add: unparse_def)
  qed
  then show ?thesis by (simp add: cleanComps_def Rooted_unparse [OF cl])
qed

lemma cleanComps_Clean [simp]: "cleanComps (Clean p) = cleanComps p" "Rooted (Clean p) = Rooted p"
  unfolding Clean_def by (rule cleanComps_unparse Rooted_unparse, rule clean_list_cleanComps)+

lemma Clean_Clean [simp]: "Clean (Clean p) = Clean p"
  by (subst (1 3) Clean_def) simp

lemma Clean_eq_iff: "Clean p = Clean q \<longleftrightarrow> Rooted p = Rooted q \<and> cleanComps p = cleanComps q"
proof
  assume "Clean p = Clean q"
  then show "Rooted p = Rooted q \<and> cleanComps p = cleanComps q"
    using cleanComps_Clean [of p] cleanComps_Clean [of q] by simp
qed (simp add: Clean_def)

lemma join_comps:
  assumes "base \<noteq> []" and "p \<noteq> []"
  shows "Rooted (filepathJoin [base, p]) = Rooted base"
    and "cleanComps (filepathJoin [base, p]) =
      rev (foldl (cleanStep (Rooted base)) (rev (cleanComps base)) (Split CHR ''/'' p))"
proof -
  have j: "filepathJoin [base, p] = Clean (base @ CHR ''/'' # p)"
    using assms by (simp add: filepathJoin_def)
  have r: "Rooted (base @ CHR ''/'' # p) = Rooted base"
    using assms(1) by (cases base) (auto simp: Rooted_def HasPrefix_def)
  show "Rooted (filepathJoin [base, p]) = Rooted base" by (simp add: j r)
  show "cleanComps (filepathJoin [base, p]) =
      rev (foldl (cleanStep (Rooted base)) (rev (cleanComps base)) (Split CHR ''/'' p))"
    by (simp add: j) (simp add: cleanComps_def r Split_append_sep)
qed

lemma join_plain:
  assumes "list_all plain (Split CHR ''/'' p)"
  shows "Rooted (filepathJoin [base, p]) = Rooted base"
    and "cleanComps (filepathJoin [base, p]) = cleanComps base @ Split CHR ''/'' p"
proof -
  have p: "p \<noteq> []" using assms by (auto simp: plain_def)
  have "\<not> Rooted p"
  proof
    assume "Rooted p"
    then obtain q where "p = CHR ''/'' # q" by (auto simp: Rooted_def HasPrefix_iff)
    then show False using assms by (simp add: plain_def)
  qed
  moreover have "cleanComps [] = []" by (simp add: cleanComps_def cleanStep_def)
  moreover have "cleanComps p = Split CHR ''/'' p" if "\<not> Rooted p"
    using assms by (simp add: cleanComps_def foldl_plain)
  moreover have "filepathJoin [[], p] = Clean p" using p by (simp add: filepathJoin_def)
  moreover have "\<not> Rooted []" by (simp add: Rooted_def HasPrefix_def)
  ultimately show "Rooted (filepathJoin [base, p]) = Rooted base"
    and "cleanComps (filepathJoin [base, p]) = cleanComps base @ Split CHR ''/'' p"
    using join_comps [of base p] p foldl_plain [OF assms] by (cases "base = []"; simp)+
qed

section \<open>Joined paths stay inside\<close>

lemma stripCommon_spec:
  "stripCommon bs ts = (bs', ts') \<Longrightarrow> \<exists>cs. bs = cs @ bs' \<and> ts = cs @ ts'"
  by (induction bs ts rule: stripCommon.induct) (auto split: if_splits intro: exI [of _ "_ # _"])

lemma stripCommon_prefix: "stripCommon bs (bs @ ts) = ([], ts)"
  by (induction bs) (cases ts, auto)

text \<open>\<open>out\<close> is a path strictly below \<open>base\<close>.\<close>

definition below :: "string \<Rightarrow> string \<Rightarrow> bool" where
  "below base out \<longleftrightarrow>
     (\<exists>ts. ts \<noteq> [] \<and> list_all plain ts \<and> out = unparse (Rooted base) (cleanComps base @ ts))"

lemma escape_iff:
  assumes "list_all (\<lambda>c. c \<noteq> [] \<and> CHR ''/'' \<notin> set c) ts" and "ts \<noteq> []"
  shows "relEscapesBase (Join ts ''/'') \<longleftrightarrow> hd ts = ''..''"
proof
  have sp: "Split CHR ''/'' (Join ts ''/'') = ts"
    using assms by (intro Split_Join) (auto simp: list_all_iff)
  assume "relEscapesBase (Join ts ''/'')"
  then have "hd (Split CHR ''/'' (Join ts ''/'')) = ''..''"
    by (auto simp: relEscapesBase_def HasPrefix_iff)
  then show "hd ts = ''..''" by (simp only: sp)
next
  assume "hd ts = ''..''"
  with assms(2) obtain cs where "ts = ''..'' # cs" by (cases ts) auto
  then show "relEscapesBase (Join ts ''/'')"
    by (cases cs) (auto simp: relEscapesBase_def HasPrefix_def)
qed

lemma safeJoin_below: "safeJoin base p = Inr out \<Longrightarrow> below base out"
proof -
  assume sj: "safeJoin base p = Inr out"
  define o' where "o' = filepathJoin [base, p]"
  from sj obtain rel where rel: "Rel (Clean base) (Clean o') = Inr rel" "rel \<noteq> ''.''" "\<not> relEscapesBase rel"
    and out: "out = Clean o'"
    by (auto simp: safeJoin_def Let_def o'_def split: sum.splits if_splits)
  obtain bs ts where st: "stripCommon (cleanComps base) (cleanComps o') = (bs, ts)" by fastforce
  from rel st have neq: "Clean base \<noteq> Clean o'" and r: "Rooted base = Rooted o'"
    and rel': "rel = Join (replicate (length bs) ''..'' @ ts) ''/''"
    by (auto simp: Rel_def split: if_splits)
  obtain cs where cs: "cleanComps base = cs @ bs" "cleanComps o' = cs @ ts"
    using stripCommon_spec [OF st] by blast
  have clean: "clean_list (Rooted base) (cs @ ts)" using clean_list_cleanComps [of o'] cs r by simp
  have comps: "list_all (\<lambda>c. c \<noteq> [] \<and> CHR ''/'' \<notin> set c) (replicate (length bs) ''..'' @ ts)"
    using clean_list_comps [OF clean] by (auto simp: list_all_iff)
  have ne: "bs \<noteq> [] \<or> ts \<noteq> []" using neq r cs by (auto simp: Clean_eq_iff)
  then have hd: "hd (replicate (length bs) ''..'' @ ts) \<noteq> ''..''"
    using rel(3) escape_iff [OF comps] unfolding rel' by (cases bs) auto
  then have bs: "bs = []" by (cases bs) auto
  with ne hd have ts: "ts \<noteq> []" "hd ts \<noteq> ''..''" by auto
  have "list_all plain ts"
  proof -
    obtain n ps where d: "cs @ ts = replicate n ''..'' @ ps" "list_all plain ps"
      using clean by (auto simp: clean_list_def)
    have "n \<le> length cs"
    proof (rule ccontr)
      assume "\<not> n \<le> length cs"
      then have "(cs @ ts) ! length cs = ''..''" using d(1) by (simp add: nth_append)
      with ts show False by (simp add: nth_append hd_conv_nth)
    qed
    then have "ts = drop (length cs - n) ps" using d(1) by (metis append_eq_conv_conj drop_append length_replicate drop_all append_Nil)
    with d(2) show ?thesis by (auto simp: list_all_iff dest: in_set_dropD)
  qed
  with ts show ?thesis
    by (auto simp: below_def out Clean_def cs bs r)
qed

text \<open>Every path that a tree walk returns is accepted.\<close>

lemma safeJoin_accepts:
  assumes "list_all valid_name (Split CHR ''/'' p)"
  shows "safeJoin base p = Inr (unparse (Rooted base) (cleanComps base @ Split CHR ''/'' p))"
proof -
  have pl: "list_all plain (Split CHR ''/'' p)"
    using assms by (auto simp: list_all_iff intro: valid_name_plain)
  define o' where "o' = filepathJoin [base, p]"
  note j = join_plain [OF pl, of base, folded o'_def]
  have neq: "Clean base \<noteq> Clean o'" by (simp add: Clean_eq_iff j)
  have rel: "Rel (Clean base) (Clean o') = Inr (Join (Split CHR ''/'' p) ''/'')"
    using neq by (simp add: Rel_def j stripCommon_prefix)
  have "\<not> relEscapesBase (Join (Split CHR ''/'' p) ''/'')"
    using pl by (subst escape_iff) (auto simp: list_all_iff plain_def)
  moreover have "Join (Split CHR ''/'' p) ''/'' \<noteq> ''.''"
  proof
    assume "Join (Split CHR ''/'' p) ''/'' = ''.''"
    then have "p = ''.''" by simp
    with pl show False by (simp add: plain_def)
  qed
  ultimately show ?thesis
    using rel by (simp add: safeJoin_def Let_def o'_def [symmetric] j Clean_def [of o'])
qed

end
