(* ===== verification/LocalStorage.thy ===== *)
theory LocalStorage
  imports Paths Storage
begin

text \<open>
  Local storage (\<open>LocalStorage\<close> and \<open>localAtomicWriter\<close> in \<open>src/tsync/storage.go\<close>) over a
  model of the file system: a map from absolute cleaned paths to nodes, with a script that makes
  any system call or context check fail. Files are written to a temporary file in the
  destination directory and renamed into place; the interpretation at the end shows that this
  implements the \<open>storage\<close> contract, whatever fails.
\<close>

section \<open>The file system\<close>

datatype fnode = FFile bytes int | FDir int | FOther int

text \<open>
  \<open>fs_faults\<close> holds the outcome of the coming system calls and context checks: \<open>Some (e, n)\<close>
  fails with \<open>e\<close>, for a write after \<open>n\<close> bytes. \<open>fs_rand\<close> are the random parts of temporary
  names, \<open>fs_now\<close> the clock.
\<close>

record fsWorld =
  fs_nodes :: "(string, fnode) gomap"
  fs_faults :: "(err \<times> nat) option list"
  fs_rand :: "string list"
  fs_now :: int

definition notExist :: err where "notExist = Errorf [Sentinel ErrNotExist]"

definition tick :: "fsWorld \<Rightarrow> (err \<times> nat) option \<times> fsWorld" where
  "tick s = (case fs_faults s of [] \<Rightarrow> (None, s) | f # fs \<Rightarrow> (f, s\<lparr>fs_faults := fs\<rparr>))"

text \<open>A call that fails with the scripted error or runs \<open>act\<close>.\<close>

definition syscall :: "(fsWorld \<Rightarrow> 'a result \<times> fsWorld) \<Rightarrow> fsWorld \<Rightarrow> 'a result \<times> fsWorld" where
  "syscall act s = (case tick s of (Some (e, n), s') \<Rightarrow> (Inl e, s') | (None, s') \<Rightarrow> act s')"

definition ctxErr :: "ctx \<Rightarrow> fsWorld \<Rightarrow> unit result \<times> fsWorld" where
  "ctxErr c s = syscall (\<lambda>s. (Inr (), s)) s"

definition osStat :: "string \<Rightarrow> fsWorld \<Rightarrow> fnode result \<times> fsWorld" where
  "osStat p s = syscall (\<lambda>s. (case gm_get (fs_nodes s) p of None \<Rightarrow> Inl notExist | Some n \<Rightarrow> Inr n, s)) s"

definition osReadFile :: "string \<Rightarrow> fsWorld \<Rightarrow> bytes result \<times> fsWorld" where
  "osReadFile p s = syscall (\<lambda>s.
     (case gm_get (fs_nodes s) p of
        None \<Rightarrow> Inl notExist
      | Some (FFile d t) \<Rightarrow> Inr d
      | Some _ \<Rightarrow> Inl (Foreign ''is a directory''), s)) s"

definition osRemove :: "string \<Rightarrow> fsWorld \<Rightarrow> unit result \<times> fsWorld" where
  "osRemove p s = syscall (\<lambda>s.
     case gm_get (fs_nodes s) p of
       None \<Rightarrow> (Inl notExist, s)
     | Some (FDir t) \<Rightarrow>
         if list_ex (\<lambda>x. HasPrefix (fst x) (p @ ''/'')) (fs_nodes s)
         then (Inl (Foreign ''directory not empty''), s)
         else (Inr (), s\<lparr>fs_nodes := gm_del p (fs_nodes s)\<rparr>)
     | Some _ \<Rightarrow> (Inr (), s\<lparr>fs_nodes := gm_del p (fs_nodes s)\<rparr>)) s"

text \<open>\<open>os.MkdirAll\<close>, one ancestor after the other.\<close>

fun mkdirs :: "string list \<Rightarrow> fsWorld \<Rightarrow> unit result \<times> fsWorld" where
  "mkdirs [] s = (Inr (), s)"
| "mkdirs (d # ds) s =
     (case gm_get (fs_nodes s) d of
        Some (FDir t) \<Rightarrow> mkdirs ds s
      | Some _ \<Rightarrow> (Inl (Foreign ''not a directory''), s)
      | None \<Rightarrow> mkdirs ds (s\<lparr>fs_nodes := gm_put d (FDir (fs_now s)) (fs_nodes s)\<rparr>))"

definition ancestors :: "string \<Rightarrow> string list" where
  "ancestors dir = map (\<lambda>n. unparse (Rooted dir) (take n (cleanComps dir))) [0..<Suc (length (cleanComps dir))]"

definition osMkdirAll :: "string \<Rightarrow> fsWorld \<Rightarrow> unit result \<times> fsWorld" where
  "osMkdirAll dir s = syscall (mkdirs (ancestors dir)) s"

text \<open>\<open>os.CreateTemp\<close>: random names until one is new.\<close>

fun createTemp_loop :: "string \<Rightarrow> string list \<Rightarrow> fsWorld \<Rightarrow> string result \<times> fsWorld" where
  "createTemp_loop px [] s = (Inl (Foreign ''file exists''), s\<lparr>fs_rand := []\<rparr>)"
| "createTemp_loop px (r # rs) s =
     (if gm_has (fs_nodes s) (px @ r) then createTemp_loop px rs s
      else (Inr (px @ r), s\<lparr>fs_rand := rs, fs_nodes := gm_put (px @ r) (FFile [] (fs_now s)) (fs_nodes s)\<rparr>))"

definition osCreateTemp :: "string \<Rightarrow> string \<Rightarrow> fsWorld \<Rightarrow> string result \<times> fsWorld" where
  "osCreateTemp dir px s = syscall (\<lambda>s. createTemp_loop (dir @ ''/'' @ px) (fs_rand s) s) s"

definition appendTo :: "string \<Rightarrow> bytes \<Rightarrow> fsWorld \<Rightarrow> fsWorld" where
  "appendTo p b s =
     (case gm_get (fs_nodes s) p of
        Some (FFile d t) \<Rightarrow> s\<lparr>fs_nodes := gm_put p (FFile (d @ b) (fs_now s)) (fs_nodes s)\<rparr>
      | _ \<Rightarrow> s)"

definition fWrite :: "string \<Rightarrow> bytes \<Rightarrow> fsWorld \<Rightarrow> (int \<times> err option) \<times> fsWorld" where
  "fWrite p b s =
     (case tick s of
        (Some (e, n), s') \<Rightarrow> ((int (min n (length b)), Some e), appendTo p (take n b) s')
      | (None, s') \<Rightarrow> ((int (length b), None), appendTo p b s'))"

definition fSync :: "string \<Rightarrow> fsWorld \<Rightarrow> unit result \<times> fsWorld" where
  "fSync p s = syscall (\<lambda>s. (Inr (), s)) s"

definition fClose :: "string \<Rightarrow> fsWorld \<Rightarrow> unit result \<times> fsWorld" where
  "fClose p s = syscall (\<lambda>s. (Inr (), s)) s"

definition osRename :: "string \<Rightarrow> string \<Rightarrow> fsWorld \<Rightarrow> unit result \<times> fsWorld" where
  "osRename old new s = syscall (\<lambda>s.
     case gm_get (fs_nodes s) old of
       None \<Rightarrow> (Inl notExist, s)
     | Some n \<Rightarrow>
         (case gm_get (fs_nodes s) new of
            Some (FDir t) \<Rightarrow> (Inl (Foreign ''is a directory''), s)
          | _ \<Rightarrow> (Inr (), s\<lparr>fs_nodes := gm_put new n (gm_del old (fs_nodes s))\<rparr>))) s"

definition syncDir :: "string \<Rightarrow> fsWorld \<Rightarrow> fsWorld" where
  "syncDir dir s = snd (syscall (\<lambda>s. (Inr (), s)) s)"

section \<open>The storage\<close>

definition localTempPrefix :: string where "localTempPrefix = ''.tsync-tmp-''"

definition resolvePath :: "string \<Rightarrow> string \<Rightarrow> string" where
  "resolvePath rootDir p = filepathJoin [rootDir, p]"

definition localErr :: "err \<Rightarrow> err" where
  "localErr e = (if errIs e ErrNotExist then Errorf [Sentinel ErrNotFound, e] else e)"

definition lExists :: "string \<Rightarrow> ctx \<Rightarrow> string \<Rightarrow> fsWorld \<Rightarrow> bool result \<times> fsWorld" where
  "lExists root c p s =
     (case ctxErr c s of
        (Inl e, s) \<Rightarrow> (Inl e, s)
      | (Inr _, s) \<Rightarrow>
          (case osStat (resolvePath root p) s of
             (Inr n, s) \<Rightarrow> (Inr True, s)
           | (Inl e, s) \<Rightarrow> (if errIs e ErrNotExist then Inr False else Inl e, s)))"

definition lRead :: "string \<Rightarrow> ctx \<Rightarrow> string \<Rightarrow> fsWorld \<Rightarrow> bytes result \<times> fsWorld" where
  "lRead root c p s =
     (case ctxErr c s of
        (Inl e, s) \<Rightarrow> (Inl e, s)
      | (Inr _, s) \<Rightarrow>
          (case osReadFile (resolvePath root p) s of
             (Inl e, s) \<Rightarrow> (Inl (localErr e), s)
           | (Inr d, s) \<Rightarrow> (Inr d, s)))"

record localAtomicWriter =
  lw_ctx :: ctx
  lw_tmp :: string
  lw_finalPath :: string
  lw_done :: bool

definition openAtomicWriter :: "string \<Rightarrow> ctx \<Rightarrow> string \<Rightarrow> fsWorld \<Rightarrow> localAtomicWriter result \<times> fsWorld" where
  "openAtomicWriter root c p s =
     (let fullPath = resolvePath root p; dir = filepathDir fullPath in
      case osMkdirAll dir s of
        (Inl e, s) \<Rightarrow> (Inl e, s)
      | (Inr _, s) \<Rightarrow>
          (case osCreateTemp dir (localTempPrefix @ pathBase fullPath @ ''-'') s of
             (Inl e, s) \<Rightarrow> (Inl e, s)
           | (Inr tmp, s) \<Rightarrow> (Inr \<lparr>lw_ctx = c, lw_tmp = tmp, lw_finalPath = fullPath, lw_done = False\<rparr>, s)))"

definition lwWrite :: "localAtomicWriter \<Rightarrow> bytes \<Rightarrow> fsWorld \<Rightarrow> (int \<times> err option) \<times> localAtomicWriter \<times> fsWorld" where
  "lwWrite w b s =
     (if lw_done w then ((0, Some (Sentinel ErrWriterClosed)), w, s)
      else case ctxErr (lw_ctx w) s of
             (Inl e, s) \<Rightarrow> ((0, Some e), w, s)
           | (Inr _, s) \<Rightarrow> (case fWrite (lw_tmp w) b s of (r, s) \<Rightarrow> (r, w, s)))"

definition lwClose :: "localAtomicWriter \<Rightarrow> fsWorld \<Rightarrow> err option \<times> localAtomicWriter \<times> fsWorld" where
  "lwClose w s =
     (if lw_done w then (None, w, s)
      else
        let w = w\<lparr>lw_done := True\<rparr>; tmp = lw_tmp w in
        case ctxErr (lw_ctx w) s of
          (Inl e, s) \<Rightarrow> (Some e, w, snd (osRemove tmp (snd (fClose tmp s))))
        | (Inr _, s) \<Rightarrow>
            (case fSync tmp s of
               (Inl e, s) \<Rightarrow> (Some e, w, snd (osRemove tmp (snd (fClose tmp s))))
             | (Inr _, s) \<Rightarrow>
                 (case fClose tmp s of
                    (Inl e, s) \<Rightarrow> (Some e, w, snd (osRemove tmp s))
                  | (Inr _, s) \<Rightarrow>
                      (case osRename tmp (lw_finalPath w) s of
                         (Inl e, s) \<Rightarrow> (Some e, w, snd (osRemove tmp s))
                       | (Inr _, s) \<Rightarrow> (None, w, syncDir (filepathDir (lw_finalPath w)) s)))))"

definition lwAbort :: "localAtomicWriter \<Rightarrow> fsWorld \<Rightarrow> err option \<times> localAtomicWriter \<times> fsWorld" where
  "lwAbort w s =
     (if lw_done w then (None, w, s)
      else
        let w = w\<lparr>lw_done := True\<rparr>;
            (closeErr, s) = fClose (lw_tmp w) s;
            ce = (case closeErr of Inl e \<Rightarrow> Some e | Inr _ \<Rightarrow> None)
        in case osRemove (lw_tmp w) s of
             (Inl e, s) \<Rightarrow> (if errIs e ErrNotExist then ce else Some e, w, s)
           | (Inr _, s) \<Rightarrow> (ce, w, s))"

definition lWrite :: "string \<Rightarrow> ctx \<Rightarrow> string \<Rightarrow> bytes \<Rightarrow> fsWorld \<Rightarrow> err option \<times> fsWorld" where
  "lWrite root c p d s =
     (case ctxErr c s of
        (Inl e, s) \<Rightarrow> (Some e, s)
      | (Inr _, s) \<Rightarrow>
          (case openAtomicWriter root c p s of
             (Inl e, s) \<Rightarrow> (Some e, s)
           | (Inr w, s) \<Rightarrow>
               (case fWrite (lw_tmp w) d s of
                  ((n, Some e), s) \<Rightarrow> (Some e, snd (snd (lwAbort w s)))
                | ((n, None), s) \<Rightarrow> (case lwClose w s of (e, w, s) \<Rightarrow> (e, s)))))"

definition lDelete :: "string \<Rightarrow> ctx \<Rightarrow> string \<Rightarrow> fsWorld \<Rightarrow> err option \<times> fsWorld" where
  "lDelete root c p s =
     (case ctxErr c s of
        (Inl e, s) \<Rightarrow> (Some e, s)
      | (Inr _, s) \<Rightarrow>
          (case osRemove (resolvePath root p) s of
             (Inl e, s) \<Rightarrow> (if errIs e ErrNotExist then None else Some e, s)
           | (Inr _, s) \<Rightarrow> (None, s)))"

text \<open>
  \<open>List\<close>: \<open>filepath.WalkDir\<close> visits \<open>searchDir\<close> and everything below it; the order of
  \<open>fs_nodes\<close> stands for the order of the visit. \<open>listVisit\<close> is the callback, run for every
  visited node until one fails.
\<close>

definition underDir :: "string \<Rightarrow> string \<Rightarrow> bool" where
  "underDir dir p \<longleftrightarrow> p = dir \<or> HasPrefix p (if dir = ''/'' then dir else dir @ ''/'')"

definition nodeTime :: "fnode \<Rightarrow> int" where
  "nodeTime n = (case n of FFile d t \<Rightarrow> t | FDir t \<Rightarrow> t | FOther t \<Rightarrow> t)"

definition nodeSize :: "fnode \<Rightarrow> int" where
  "nodeSize n = (case n of FFile d t \<Rightarrow> int (length d) | _ \<Rightarrow> 0)"

definition isDirNode :: "fnode \<Rightarrow> bool" where
  "isDirNode n = (case n of FDir t \<Rightarrow> True | _ \<Rightarrow> False)"

definition isRegular :: "fnode \<Rightarrow> bool" where
  "isRegular n = (case n of FFile d t \<Rightarrow> True | _ \<Rightarrow> False)"

definition listVisit :: "string \<Rightarrow> ctx \<Rightarrow> string \<Rightarrow> string \<times> fnode \<Rightarrow> fsWorld \<Rightarrow> FileInfo list result \<times> fsWorld" where
  "listVisit root c px x s =
     (let (p, n) = x in
      case ctxErr c s of
        (Inl e, s) \<Rightarrow> (Inl e, s)
      | (Inr _, s) \<Rightarrow>
          (case Rel root p of
             Inl e \<Rightarrow> (Inl e, s)
           | Inr relSlash \<Rightarrow>
               if relSlash = ''.'' \<or> relSlash = [] then (Inr [], s)
               else if \<not> isRegular n \<and> \<not> isDirNode n then (Inr [], s)
               else if \<not> isDirNode n \<and> HasPrefix (pathBase p) localTempPrefix then (Inr [], s)
               else let relSlash = (if isDirNode n then relSlash @ ''/'' else relSlash)
                    in if HasPrefix relSlash px
                       then syscall (\<lambda>s. (Inr [\<lparr>fi_Name = relSlash, fi_Size = nodeSize n, fi_LastModified = nodeTime n\<rparr>], s)) s
                       else (Inr [], s)))"

fun listWalk ::
  "string \<Rightarrow> ctx \<Rightarrow> string \<Rightarrow> (string \<times> fnode) list \<Rightarrow> FileInfo list \<Rightarrow> fsWorld \<Rightarrow> (FileInfo list \<times> err option) \<times> fsWorld" where
  "listWalk root c px [] acc s = ((acc, None), s)"
| "listWalk root c px (x # xs) acc s =
     (case listVisit root c px x s of
        (Inl e, s) \<Rightarrow> ((acc, Some e), s)
      | (Inr fs, s) \<Rightarrow> listWalk root c px xs (acc @ fs) s)"

definition lList :: "string \<Rightarrow> ctx \<Rightarrow> string \<Rightarrow> fsWorld \<Rightarrow> FileInfo list result \<times> fsWorld" where
  "lList root c px s =
     (case ctxErr c s of
        (Inl e, s) \<Rightarrow> (Inl e, s)
      | (Inr _, s) \<Rightarrow>
          let fullPrefix = resolvePath root px;
              searchDir = (if \<not> HasSuffix px ''/'' \<and> px \<noteq> [] then filepathDir fullPrefix else fullPrefix)
          in case osStat searchDir s of
               (Inl e, s) \<Rightarrow> (if errIs e ErrNotExist then Inr [] else Inl e, s)
             | (Inr _, s) \<Rightarrow>
                 (case listWalk root c px (filter (\<lambda>x. underDir searchDir (fst x)) (fs_nodes s)) [] s of
                    ((files, None), s) \<Rightarrow> (Inr files, s)
                  | ((files, Some e), s) \<Rightarrow> (if errIs e ErrNotExist then Inr files else Inl e, s)))"

text \<open>
  An open file read to its end; a read fails with the scripted error after \<open>n\<close> bytes. Opening
  a directory succeeds and reading it fails.
\<close>

definition readerOf :: "bytes \<Rightarrow> fsWorld \<Rightarrow> reader \<times> fsWorld" where
  "readerOf d s =
     (case tick s of (Some (e, n), s') \<Rightarrow> ((take n d, Some e), s') | (None, s') \<Rightarrow> ((d, None), s'))"

definition lOpenReader :: "string \<Rightarrow> ctx \<Rightarrow> string \<Rightarrow> fsWorld \<Rightarrow> reader result \<times> fsWorld" where
  "lOpenReader root c p s =
     (case ctxErr c s of
        (Inl e, s) \<Rightarrow> (Inl e, s)
      | (Inr _, s) \<Rightarrow>
          (case osStat (resolvePath root p) s of
             (Inl e, s) \<Rightarrow> (Inl (localErr e), s)
           | (Inr (FFile d t), s) \<Rightarrow> (case readerOf d s of (r, s) \<Rightarrow> (Inr r, s))
           | (Inr _, s) \<Rightarrow> (Inr ([], Some (Foreign ''is a directory'')), s)))"

definition lOpenWriter :: "string \<Rightarrow> ctx \<Rightarrow> string \<Rightarrow> fsWorld \<Rightarrow> localAtomicWriter result \<times> fsWorld" where
  "lOpenWriter root c p s =
     (case ctxErr c s of
        (Inl e, s) \<Rightarrow> (Inl e, s)
      | (Inr _, s) \<Rightarrow> openAtomicWriter root c p s)"

definition lSize :: "string \<Rightarrow> ctx \<Rightarrow> string \<Rightarrow> fsWorld \<Rightarrow> int result \<times> fsWorld" where
  "lSize root c p s =
     (case ctxErr c s of
        (Inl e, s) \<Rightarrow> (Inl e, s)
      | (Inr _, s) \<Rightarrow>
          (case osStat (resolvePath root p) s of
             (Inl e, s) \<Rightarrow> (Inl (localErr e), s)
           | (Inr n, s) \<Rightarrow> (Inr (nodeSize n), s)))"

definition lReadRange :: "string \<Rightarrow> ctx \<Rightarrow> string \<Rightarrow> int \<Rightarrow> int \<Rightarrow> fsWorld \<Rightarrow> reader result \<times> fsWorld" where
  "lReadRange root c p off len s =
     (case ctxErr c s of
        (Inl e, s) \<Rightarrow> (Inl e, s)
      | (Inr _, s) \<Rightarrow>
          (case osStat (resolvePath root p) s of
             (Inl e, s) \<Rightarrow> (Inl (localErr e), s)
           | (Inr (FDir t), s) \<Rightarrow> (Inr ([], Some (Foreign ''is a directory'')), s)
           | (Inr (FOther t), s) \<Rightarrow> (Inr ([], Some (Foreign ''is a directory'')), s)
           | (Inr (FFile d t), s) \<Rightarrow>
               (case (if 0 < off then ctxErr c s else (Inr (), s)) of
                  (Inl e, s) \<Rightarrow> (Inl e, s)
                | (Inr _, s) \<Rightarrow>
                    let d = drop (nat off) d;
                        d = (if 0 \<le> len then take (nat len) d else d)
                    in (case readerOf d s of (r, s) \<Rightarrow> (Inr r, s)))))"

definition LocalStorage :: "string \<Rightarrow> (fsWorld, localAtomicWriter) Storage" where
  "LocalStorage root =
     \<lparr>st_Exists = lExists root, st_Read = lRead root, st_Write = lWrite root,
      st_Delete = lDelete root, st_List = lList root, st_OpenReader = lOpenReader root,
      st_OpenWriter = lOpenWriter root, st_Size = lSize root, st_ReadRange = lReadRange root,
      wr_Write = lwWrite, wr_Close = lwClose, wr_Abort = lwAbort\<rparr>"

section \<open>The view of a caller\<close>

text \<open>The paths a store uses: plain components, none of them a temporary name.\<close>

definition local_key :: "string \<Rightarrow> bool" where
  "local_key p \<longleftrightarrow> list_all (\<lambda>c. plain c \<and> \<not> HasPrefix c localTempPrefix) (Split CHR ''/'' p)"

definition abs_root :: "string \<Rightarrow> bool" where
  "abs_root root \<longleftrightarrow> Rooted root \<and> Clean root = root"

definition fileData :: "fsWorld \<Rightarrow> string \<Rightarrow> bytes option" where
  "fileData s p = (case gm_get (fs_nodes s) p of Some (FFile d t) \<Rightarrow> Some d | _ \<Rightarrow> None)"

definition local_contents :: "string \<Rightarrow> fsWorld \<Rightarrow> string \<Rightarrow> bytes option" where
  "local_contents root s p = fileData s (resolvePath root p)"

text \<open>No scripted failure pretends that a path does not exist; random name parts are names.\<close>

definition fs_ok :: "fsWorld \<Rightarrow> bool" where
  "fs_ok s \<longleftrightarrow>
     list_all (\<lambda>f. case f of None \<Rightarrow> True | Some (e, n) \<Rightarrow> \<not> errIs e ErrNotFound \<and> \<not> errIs e ErrNotExist) (fs_faults s) \<and>
     list_all (\<lambda>r. CHR ''/'' \<notin> set r) (fs_rand s)"

text \<open>A temporary path: its last component has the prefix of temporary names.\<close>

definition temp_path :: "string \<Rightarrow> bool" where
  "temp_path p \<longleftrightarrow> HasPrefix (last (Split CHR ''/'' p)) localTempPrefix"

section \<open>Paths of a store\<close>

lemma local_key_plain: "local_key p \<Longrightarrow> list_all plain (Split CHR ''/'' p)"
  by (auto simp: local_key_def list_all_iff)

lemma resolve_clean:
  assumes "abs_root root" and "local_key p"
  shows "resolvePath root p = ''/'' @ Join (cleanComps root @ Split CHR ''/'' p) ''/''"
proof -
  note j = join_plain [OF local_key_plain [OF assms(2)], of root]
  have "p \<noteq> []" using assms(2) by (auto simp: local_key_def plain_def)
  then have "Clean (filepathJoin [root, p]) = filepathJoin [root, p]"
    by (cases "root = []") (simp_all add: filepathJoin_def)
  then have "filepathJoin [root, p] = unparse (Rooted root) (cleanComps root @ Split CHR ''/'' p)"
    by (metis Clean_def j)
  then show ?thesis
    using assms(1) by (simp add: resolvePath_def unparse_def abs_root_def)
qed

lemma Split_resolve:
  assumes "abs_root root" and "local_key p"
  shows "Split CHR ''/'' (resolvePath root p) = [] # cleanComps root @ Split CHR ''/'' p"
proof -
  have sepfree: "CHR ''/'' \<notin> set c" if "c \<in> set (cleanComps root @ Split CHR ''/'' p)" for c
    using that Split_sep_free [of c _ p] clean_list_comps [OF clean_list_cleanComps, of c root] by auto
  have "Split CHR ''/'' (Join (cleanComps root @ Split CHR ''/'' p) ''/'') = cleanComps root @ Split CHR ''/'' p"
    by (rule Split_Join) (use sepfree in auto)
  then show ?thesis by (simp add: resolve_clean [OF assms])
qed

lemma resolve_inj:
  "abs_root root \<Longrightarrow> local_key p \<Longrightarrow> local_key q \<Longrightarrow> resolvePath root p = resolvePath root q \<longleftrightarrow> p = q"
  by (metis Split_inj Split_resolve list.inject same_append_eq)

lemma resolve_not_temp:
  assumes "abs_root root" and "local_key p"
  shows "\<not> temp_path (resolvePath root p)"
proof -
  have "last (Split CHR ''/'' (resolvePath root p)) \<in> set (Split CHR ''/'' p)"
    by (simp add: Split_resolve [OF assms])
  with assms(2) show ?thesis by (auto simp: temp_path_def local_key_def list_all_iff)
qed

lemma Split_last_append: "CHR ''/'' \<notin> set b \<Longrightarrow> last (Split CHR ''/'' (a @ ''/'' @ b)) = b"
  by (simp add: Split_append_sep Split_no_sep)

lemma pathBase_resolve:
  assumes "abs_root root" and "local_key p"
  shows "pathBase (resolvePath root p) = last (Split CHR ''/'' p)"
proof -
  have l: "last (Split CHR ''/'' (resolvePath root p)) = last (Split CHR ''/'' p)"
    by (simp add: Split_resolve [OF assms])
  have ne: "last (Split CHR ''/'' p) \<noteq> []"
    using assms(2) by (auto simp: local_key_def list_all_iff plain_def)
  have "resolvePath root p = y @ [x] \<Longrightarrow> x \<noteq> CHR ''/''" for y x
    using l ne Split_append_sep [of "CHR ''/''" y "[]"] by auto
  moreover have "resolvePath root p \<noteq> []" by (simp add: resolve_clean [OF assms])
  ultimately have "dropWhile (\<lambda>c. c = CHR ''/'') (rev (resolvePath root p)) = rev (resolvePath root p)"
    by (cases "resolvePath root p" rule: rev_cases) auto
  with \<open>resolvePath root p \<noteq> []\<close> l show ?thesis by (simp add: pathBase_def)
qed

section \<open>System calls\<close>

text \<open>\<open>s'\<close> follows \<open>s\<close> with the files outside \<open>K\<close> unchanged and no other node removed.\<close>

definition fs_step :: "string set \<Rightarrow> fsWorld \<Rightarrow> fsWorld \<Rightarrow> bool" where
  "fs_step K s s' \<longleftrightarrow> fs_ok s' \<and>
     (\<forall>q. q \<notin> K \<longrightarrow> fileData s' q = fileData s q \<and> (gm_has (fs_nodes s) q \<longrightarrow> gm_has (fs_nodes s') q))"

lemma fs_step_refl: "fs_ok s \<Longrightarrow> fs_step K s s"
  by (simp add: fs_step_def)

lemma fs_step_trans: "fs_step K a b \<Longrightarrow> fs_step K b c \<Longrightarrow> fs_step K a c"
  by (simp add: fs_step_def)

lemma fs_step_ok: "fs_step K a b \<Longrightarrow> fs_ok b"
  by (simp add: fs_step_def)

lemma fs_step_mono: "fs_step K a b \<Longrightarrow> K \<subseteq> L \<Longrightarrow> fs_step L a b"
  by (auto simp: fs_step_def)

lemma tick_ok:
  assumes "fs_ok s" and "tick s = (f, s')"
  shows "fs_ok s'" and "fs_nodes s' = fs_nodes s" and "fs_rand s' = fs_rand s"
    and "\<And>e n. f = Some (e, n) \<Longrightarrow> \<not> errIs e ErrNotFound \<and> \<not> errIs e ErrNotExist"
proof -
  show "fs_ok s'" and "fs_nodes s' = fs_nodes s" and "fs_rand s' = fs_rand s"
    using assms by (auto simp: tick_def fs_ok_def split: list.splits)
  show "\<not> errIs e ErrNotFound \<and> \<not> errIs e ErrNotExist" if "f = Some (e, n)" for e n
    using assms that by (auto simp: tick_def fs_ok_def split: list.splits)
qed

lemma fileData_nodes: "fs_nodes s' = fs_nodes s \<Longrightarrow> fileData s' = fileData s"
  by (simp add: fileData_def fun_eq_iff)

lemma fs_step_nodes: "fs_ok s' \<Longrightarrow> fs_nodes s' = fs_nodes s \<Longrightarrow> fs_step K s s'"
  by (simp add: fs_step_def fileData_nodes [of s' s])

lemma fs_ok_nodes [simp]: "fs_ok (s\<lparr>fs_nodes := x\<rparr>) = fs_ok s"
  by (simp add: fs_ok_def)

lemma fs_ok_rand: "fs_ok s \<Longrightarrow> list_all (\<lambda>r. CHR ''/'' \<notin> set r) rs \<Longrightarrow> fs_ok (s\<lparr>fs_rand := rs\<rparr>)"
  by (simp add: fs_ok_def)

lemma fs_ok_faults: "fs_ok s \<Longrightarrow> fs_faults s = f # fs \<Longrightarrow> fs_ok (s\<lparr>fs_faults := fs\<rparr>)"
  by (simp add: fs_ok_def)

text \<open>A call either fails as scripted, with nothing changed, or runs.\<close>

lemma syscall_elim:
  assumes "syscall act s = (r, s')" and "fs_ok s"
  obtains (fault) e where "r = Inl e" "\<not> errIs e ErrNotFound" "\<not> errIs e ErrNotExist" "fs_ok s'"
      "fs_nodes s' = fs_nodes s"
    | (runs) s1 where "act s1 = (r, s')" "fs_ok s1" "fs_nodes s1 = fs_nodes s" "fs_rand s1 = fs_rand s"
proof -
  obtain f s1 where t: "tick s = (f, s1)" by fastforce
  show ?thesis
  proof (cases f)
    case None
    then show ?thesis using assms t tick_ok [OF assms(2) t] by (intro runs [of s1]) (auto simp: syscall_def)
  next
    case (Some en)
    then show ?thesis using assms t tick_ok [OF assms(2) t]
      by (cases en) (intro fault, auto simp: syscall_def)
  qed
qed

lemma quiet_call:
  assumes "syscall (\<lambda>s. (g s, s)) s = (r, s')" and "fs_ok s"
  shows "fs_step {} s s'"
  using assms(1,2) by (rule syscall_elim) (auto intro: fs_step_nodes)

lemma ctxErr_step: "ctxErr c s = (r, s') \<Longrightarrow> fs_ok s \<Longrightarrow>
    fs_step {} s s' \<and> (\<forall>e. r = Inl e \<longrightarrow> \<not> errIs e ErrNotFound)"
  unfolding ctxErr_def by (erule (1) syscall_elim) (auto intro: fs_step_nodes)

lemma fSync_step: "fSync p s = (r, s') \<Longrightarrow> fs_ok s \<Longrightarrow> fs_step {} s s'"
  unfolding fSync_def by (rule quiet_call)

lemma fClose_step: "fClose p s = (r, s') \<Longrightarrow> fs_ok s \<Longrightarrow> fs_step {} s s'"
  unfolding fClose_def by (rule quiet_call)

lemma syncDir_step: "fs_ok s \<Longrightarrow> fs_step {} s (syncDir d s)"
  unfolding syncDir_def using quiet_call [of "\<lambda>s. Inr ()" s] by (metis prod.collapse)

lemma osRemove_step:
  assumes "osRemove p s = (r, s')" and "fs_ok s"
  shows "fs_step {p} s s'" and "r = Inr () \<Longrightarrow> fileData s' p = None"
    and "\<And>e. r = Inl e \<Longrightarrow> fileData s' = fileData s \<and> (errIs e ErrNotExist \<longrightarrow> fileData s p = None)"
proof -
  have "fs_step {p} s s' \<and> (r = Inr () \<longrightarrow> fileData s' p = None) \<and>
    (\<forall>e. r = Inl e \<longrightarrow> fileData s' = fileData s \<and> (errIs e ErrNotExist \<longrightarrow> fileData s p = None))"
    using assms(1) [unfolded osRemove_def] assms(2)
  proof (rule syscall_elim)
    fix e assume "r = Inl e" "\<not> errIs e ErrNotExist" "fs_ok s'" "fs_nodes s' = fs_nodes s"
    then show ?thesis by (simp add: fs_step_nodes fileData_nodes [of s' s])
  next
    fix s1 assume act: "(case gm_get (fs_nodes s1) p of
       None \<Rightarrow> (Inl notExist, s1)
     | Some (FDir t) \<Rightarrow>
         if list_ex (\<lambda>x. HasPrefix (fst x) (p @ ''/'')) (fs_nodes s1)
         then (Inl (Foreign ''directory not empty''), s1)
         else (Inr (), s1\<lparr>fs_nodes := gm_del p (fs_nodes s1)\<rparr>)
     | Some _ \<Rightarrow> (Inr (), s1\<lparr>fs_nodes := gm_del p (fs_nodes s1)\<rparr>)) = (r, s')"
      and s1: "fs_ok s1" "fs_nodes s1 = fs_nodes s"
    have del: "fs_step {p} s (s1\<lparr>fs_nodes := gm_del p (fs_nodes s1)\<rparr>) \<and>
        fileData (s1\<lparr>fs_nodes := gm_del p (fs_nodes s1)\<rparr>) p = None"
      using s1 by (simp add: fs_step_def fileData_def gm_get_del)
    have same: "fs_step {p} s s1" "fileData s1 = fileData s"
      using s1 by (auto intro: fs_step_nodes fileData_nodes)
    have no: "gm_get (fs_nodes s) p = None \<Longrightarrow> fileData s p = None" by (simp add: fileData_def)
    show ?thesis
      using act del no same s1(2)
      by (auto simp: notExist_def split: option.splits fnode.splits if_splits)
  qed
  then show "fs_step {p} s s'" "r = Inr () \<Longrightarrow> fileData s' p = None"
    "\<And>e. r = Inl e \<Longrightarrow> fileData s' = fileData s \<and> (errIs e ErrNotExist \<longrightarrow> fileData s p = None)"
    by auto
qed

lemma mkdirs_step: "mkdirs ds s = (r, s') \<Longrightarrow> fs_ok s \<Longrightarrow> fs_step {} s s' \<and> fs_rand s' = fs_rand s"
proof (induction ds arbitrary: s)
  case (Cons d ds)
  let ?s = "s\<lparr>fs_nodes := gm_put d (FDir (fs_now s)) (fs_nodes s)\<rparr>"
  have new: "fs_step {} s ?s" "fs_ok ?s" if "gm_get (fs_nodes s) d = None"
    using that Cons.prems(2) by (auto simp: fs_step_def fileData_def gm_get_put)
  show ?case
  proof (cases "gm_get (fs_nodes s) d")
    case None
    with Cons.prems(1) have "mkdirs ds ?s = (r, s')" by simp
    from Cons.IH [OF this new(2) [OF None]] new(1) [OF None] show ?thesis
      by (auto intro: fs_step_trans)
  next
    case (Some n)
    with Cons show ?thesis by (cases n) (auto simp: fs_step_refl)
  qed
qed (simp add: fs_step_refl)

lemma osMkdirAll_step: "osMkdirAll d s = (r, s') \<Longrightarrow> fs_ok s \<Longrightarrow> fs_step {} s s'"
  unfolding osMkdirAll_def
  by (erule (1) syscall_elim)
    (auto intro: fs_step_nodes dest!: mkdirs_step intro: fs_step_trans [OF fs_step_nodes])

lemma createTemp_step:
  "createTemp_loop px rs s = (r, s') \<Longrightarrow> fs_ok s \<Longrightarrow> list_all (\<lambda>r. CHR ''/'' \<notin> set r) rs \<Longrightarrow>
     (case r of
        Inl e \<Rightarrow> fs_step {} s s'
      | Inr tmp \<Rightarrow> fs_step {tmp} s s' \<and> fileData s' tmp = Some [] \<and>
          \<not> gm_has (fs_nodes s) tmp \<and> (\<exists>x. CHR ''/'' \<notin> set x \<and> tmp = px @ x))"
proof (induction px rs s rule: createTemp_loop.induct)
  case (1 px s)
  then have "r = Inl (Foreign ''file exists'')" "s' = s\<lparr>fs_rand := []\<rparr>" by auto
  with 1 show ?case by (simp add: fs_step_nodes fs_ok_rand)
next
  case (2 px x rs s)
  let ?s = "s\<lparr>fs_rand := rs, fs_nodes := gm_put (px @ x) (FFile [] (fs_now s)) (fs_nodes s)\<rparr>"
  have "fs_step {px @ x} s ?s" "fileData ?s (px @ x) = Some []"
    using "2.prems"(2,3) fs_ok_rand [of s rs] by (simp_all add: fs_step_def fileData_def gm_get_put)
  with 2 show ?case by (cases "gm_has (fs_nodes s) (px @ x)") auto
qed

lemma osCreateTemp_step:
  assumes "osCreateTemp d px s = (r, s')" and "fs_ok s"
  shows "case r of
      Inl e \<Rightarrow> fs_step {} s s'
    | Inr tmp \<Rightarrow> fs_step {tmp} s s' \<and> fileData s' tmp = Some [] \<and>
        \<not> gm_has (fs_nodes s) tmp \<and> (\<exists>x. CHR ''/'' \<notin> set x \<and> tmp = d @ ''/'' @ px @ x)"
  using assms(1) [unfolded osCreateTemp_def] assms(2)
proof (rule syscall_elim)
  fix s1 assume a: "createTemp_loop (d @ ''/'' @ px) (fs_rand s1) s1 = (r, s')" "fs_ok s1" "fs_nodes s1 = fs_nodes s"
  have st: "fs_step K s s1" for K using a(2,3) by (rule fs_step_nodes)
  have "list_all (\<lambda>r. CHR ''/'' \<notin> set r) (fs_rand s1)" using a(2) by (simp add: fs_ok_def)
  from createTemp_step [OF a(1,2) this] show ?thesis
    using fs_step_trans [OF st] a(3) by (auto split: sum.splits)
qed (auto intro: fs_step_nodes)

lemma appendTo_step:
  "fs_ok s \<Longrightarrow> fs_step {p} s (appendTo p b s)"
  "fileData s p = Some d \<Longrightarrow> fileData (appendTo p b s) p = Some (d @ b)"
  by (auto simp: appendTo_def fs_step_def fileData_def gm_get_put split: option.splits fnode.splits)

lemma fWrite_step:
  assumes "fWrite p b s = ((n, e), s')" and "fs_ok s" and "fileData s p = Some d"
  shows "fs_step {p} s s'" and "e = None \<Longrightarrow> fileData s' p = Some (d @ b)"
proof -
  obtain f s1 where t: "tick s = (f, s1)" by fastforce
  note to = tick_ok [OF assms(2) t]
  have st: "fs_step {p} s (appendTo p x s1)" for x
    using fs_step_trans [OF fs_step_nodes [OF to(1,2)] appendTo_step(1) [OF to(1)]] .
  have "fileData s1 = fileData s" using to(2) by (rule fileData_nodes)
  then have "fs_step {p} s s' \<and> (e = None \<longrightarrow> fileData s' p = Some (d @ b))"
    using assms(1,3) t st appendTo_step(2) [of s1 p]
    by (auto simp: fWrite_def split: option.splits prod.splits)
  then show "fs_step {p} s s'" and "e = None \<Longrightarrow> fileData s' p = Some (d @ b)" by auto
qed

lemma osRename_step:
  assumes "osRename old new s = (r, s')" and "fs_ok s" and "fileData s old = Some d" and "old \<noteq> new"
  shows "fs_ok s'" and "\<And>e. r = Inl e \<Longrightarrow> fileData s' = fileData s"
    and "r = Inr () \<Longrightarrow> fileData s' new = Some d \<and> fs_step {old, new} s s'"
    and "\<And>e. r = Inl e \<Longrightarrow> fs_step {} s s'"
proof -
  obtain t where t: "gm_get (fs_nodes s) old = Some (FFile d t)"
    using assms(3) by (auto simp: fileData_def split: option.splits fnode.splits)
  have "fs_ok s' \<and> (\<forall>e. r = Inl e \<longrightarrow> fileData s' = fileData s \<and> fs_step {} s s') \<and>
    (r = Inr () \<longrightarrow> fileData s' new = Some d \<and> fs_step {old, new} s s')"
    using assms(1) [unfolded osRename_def] assms(2)
  proof (rule syscall_elim)
    fix s1 assume act: "(case gm_get (fs_nodes s1) old of
       None \<Rightarrow> (Inl notExist, s1)
     | Some n \<Rightarrow>
         (case gm_get (fs_nodes s1) new of
            Some (FDir t) \<Rightarrow> (Inl (Foreign ''is a directory''), s1)
          | _ \<Rightarrow> (Inr (), s1\<lparr>fs_nodes := gm_put new n (gm_del old (fs_nodes s1))\<rparr>))) = (r, s')"
      and s1: "fs_ok s1" "fs_nodes s1 = fs_nodes s"
    have mv: "fs_ok s2 \<and> fileData s2 new = Some d \<and> fs_step {old, new} s s2"
      if "s2 = s1\<lparr>fs_nodes := gm_put new (FFile d t) (gm_del old (fs_nodes s))\<rparr>" for s2
      using that s1 by (simp add: fs_step_def fileData_def gm_get_put gm_get_del)
    have "fileData s1 = fileData s" "fs_step {} s s1"
      using s1 by (auto intro: fileData_nodes fs_step_nodes)
    then show ?thesis
      using act s1 mv t by (auto split: option.splits fnode.splits)
  qed (auto intro: fileData_nodes fs_step_nodes)
  then show "fs_ok s'" "\<And>e. r = Inl e \<Longrightarrow> fileData s' = fileData s"
    "r = Inr () \<Longrightarrow> fileData s' new = Some d \<and> fs_step {old, new} s s'"
    "\<And>e. r = Inl e \<Longrightarrow> fs_step {} s s'"
    by auto
qed

section \<open>Atomic replacement\<close>

text \<open>The invariant of the store: the scripts are admissible and its directory exists.\<close>

definition root_ok :: "string \<Rightarrow> fsWorld \<Rightarrow> bool" where
  "root_ok root s \<longleftrightarrow> fs_ok s \<and> gm_has (fs_nodes s) root"

lemma fs_step_root: "fs_step K s s' \<Longrightarrow> root_ok root s \<Longrightarrow> root \<notin> K \<Longrightarrow> root_ok root s'"
  by (auto simp: fs_step_def root_ok_def)

lemma root_ok_fs: "root_ok root s \<Longrightarrow> fs_ok s"
  by (simp add: root_ok_def)

lemma resolve_not_root: "local_key p \<Longrightarrow> resolvePath root p \<noteq> root"
  using join_plain(2) [OF local_key_plain, of p root] Split_not_Nil [of "CHR ''/''" p]
  by (metis append_self_conv resolvePath_def)

definition local_open :: "string \<Rightarrow> fsWorld \<Rightarrow> localAtomicWriter \<Rightarrow> string \<Rightarrow> bytes option \<Rightarrow> bool" where
  "local_open root s w p od \<longleftrightarrow>
     \<not> lw_done w \<and> local_key p \<and> lw_finalPath w = resolvePath root p \<and> temp_path (lw_tmp w) \<and>
     lw_tmp w \<noteq> root \<and>
     (case od of None \<Rightarrow> True | Some d \<Rightarrow> fileData s (lw_tmp w) = Some d)"

lemma fs_step_visible:
  "fs_step K s s' \<Longrightarrow> (\<And>k. k \<in> K \<Longrightarrow> temp_path k) \<Longrightarrow> abs_root root \<Longrightarrow> local_key q \<Longrightarrow>
     local_contents root s' q = local_contents root s q"
  unfolding local_contents_def fs_step_def using resolve_not_temp by blast

lemma remove_tmp: "fs_ok s \<Longrightarrow> fs_step {p} s (snd (osRemove p s))"
  using osRemove_step(1) [of p s "fst (osRemove p s)" "snd (osRemove p s)"] by simp

lemma close_remove_tmp: "fs_ok s \<Longrightarrow> fs_step {p} s (snd (osRemove p (snd (fClose p s))))"
proof -
  assume s: "fs_ok s"
  have "fs_step {} s (snd (fClose p s))" using fClose_step [of p s] s by (metis prod.collapse)
  then have c: "fs_step {p} s (snd (fClose p s))" by (rule fs_step_mono) simp
  from fs_step_trans [OF c remove_tmp [OF fs_step_ok [OF c]]] show ?thesis .
qed

lemma openAtomicWriter_step:
  assumes "openAtomicWriter root c p s = (r, s')" and "root_ok root s" and "abs_root root" and "local_key p"
  shows "root_ok root s' \<and> (\<forall>q. local_key q \<longrightarrow> local_contents root s' q = local_contents root s q) \<and>
    (\<forall>w. r = Inr w \<longrightarrow> local_open root s' w p (Some []))"
proof -
  let ?d = "filepathDir (resolvePath root p)" and ?b = "localTempPrefix @ pathBase (resolvePath root p) @ ''-''"
  obtain r1 s1 where mk: "osMkdirAll ?d s = (r1, s1)" by fastforce
  note st1 = osMkdirAll_step [OF mk root_ok_fs [OF assms(2)]]
  have r1: "root_ok root s1" using fs_step_root [OF st1 assms(2)] by simp
  obtain r2 s2 where ct: "osCreateTemp ?d ?b s1 = (r2, s2)" by fastforce
  note st2 = osCreateTemp_step [OF ct fs_step_ok [OF st1]]
  have base: "CHR ''/'' \<notin> set (pathBase (resolvePath root p))"
    unfolding pathBase_resolve [OF assms(3,4)] by (rule Split_sep_free) (rule last_in_set, simp)
  have vis: "\<forall>q. local_key q \<longrightarrow> local_contents root s1 q = local_contents root s q"
    using fs_step_visible [OF st1 _ assms(3)] by simp
  have tmp: "temp_path t" if "t = ?d @ ''/'' @ ?b @ x" "CHR ''/'' \<notin> set x" for t x
  proof -
    have "CHR ''/'' \<notin> set (?b @ x)" using that(2) base by (simp add: localTempPrefix_def)
    then show ?thesis
      unfolding temp_path_def that(1) using Split_last_append [of "?b @ x" ?d] by simp
  qed
  show ?thesis
  proof (cases r1)
    case (Inl e)
    with assms(1) mk vis r1 show ?thesis by (auto simp: openAtomicWriter_def Let_def)
  next
    case u: (Inr u)
    show ?thesis
    proof (cases r2)
      case (Inl e)
      with assms(1) mk ct u have s': "s' = s2" "r = Inl e" by (auto simp: openAtomicWriter_def Let_def)
      from st2 Inl have "fs_step {} s1 s2" by simp
      then show ?thesis
        using vis s' fs_step_visible [OF _ _ assms(3), of "{}" s1 s2] fs_step_root [OF _ r1, of "{}" s2] by simp
    next
      case (Inr t)
      with assms(1) mk ct u have s': "s' = s2"
        "r = Inr \<lparr>lw_ctx = c, lw_tmp = t, lw_finalPath = resolvePath root p, lw_done = False\<rparr>"
        by (auto simp: openAtomicWriter_def Let_def)
      from st2 Inr obtain x where t: "fs_step {t} s1 s2" "fileData s2 t = Some []"
        "CHR ''/'' \<notin> set x" "t = ?d @ ''/'' @ ?b @ x" and "\<not> gm_has (fs_nodes s1) t" by auto
      then have "t \<noteq> root" using r1 by (auto simp: root_ok_def)
      moreover have "temp_path t" by (rule tmp [OF t(4,3)])
      ultimately show ?thesis
        using vis s' t(1,2) fs_step_visible [OF t(1) _ assms(3)] assms(4) fs_step_root [OF t(1) r1]
        by (simp add: local_open_def)
    qed
  qed
qed

lemma lwWrite_step:
  assumes "lwWrite w b s = ((n, e), w', s')" and "root_ok root s" and "abs_root root" and "local_open root s w p (Some d)"
  shows "root_ok root s' \<and> (\<forall>q. local_key q \<longrightarrow> local_contents root s' q = local_contents root s q) \<and>
    local_open root s' w' p (if e = None then Some (d @ b) else None)"
proof -
  have tmp: "temp_path (lw_tmp w)" and data: "fileData s (lw_tmp w) = Some d" and nd: "\<not> lw_done w"
    using assms(4) by (auto simp: local_open_def)
  obtain r1 s1 where c: "ctxErr (lw_ctx w) s = (r1, s1)" by fastforce
  then have st1: "fs_step {} s s1" using ctxErr_step [OF c root_ok_fs [OF assms(2)]] by simp
  have data1: "fileData s1 (lw_tmp w) = Some d" using st1 data by (simp add: fs_step_def)
  obtain n2 e2 s2 where wr: "fWrite (lw_tmp w) b s1 = ((n2, e2), s2)" by (metis prod_cases3 prod.collapse)
  note st2 = fWrite_step [OF wr fs_step_ok [OF st1] data1]
  have st12: "fs_step {lw_tmp w} s s2"
    using fs_step_mono [OF st1] st2(1) by (blast intro: fs_step_trans)
  show ?thesis
  proof (cases r1)
    case (Inl x)
    with assms(1) nd c have "s' = s1" "e \<noteq> None" "w' = w" by (auto simp: lwWrite_def)
    then show ?thesis
      using fs_step_visible [OF st1 _ assms(3)] fs_step_root [OF st1 assms(2)] assms(4) by (auto simp: local_open_def)
  next
    case (Inr u)
    with assms(1) nd c wr have "s' = s2" "e = e2" "w' = w" by (auto simp: lwWrite_def)
    then show ?thesis
      using fs_step_visible [OF st12 _ assms(3)] fs_step_root [OF st12 assms(2)] assms(4) st2(2) tmp
      by (auto simp: local_open_def)
  qed
qed

text \<open>\<open>Close\<close>: every exit but the last leaves the destination alone.\<close>

lemma lwClose_cases:
  assumes "lwClose w s = (e, w', s')" and "\<not> lw_done w" and "fs_ok s"
    and "fileData s (lw_tmp w) = Some d" and "lw_tmp w \<noteq> lw_finalPath w"
  shows "fs_step {lw_tmp w} s s' \<and> e \<noteq> None \<or>
    fs_step {lw_tmp w, lw_finalPath w} s s' \<and> e = None \<and> fileData s' (lw_finalPath w) = Some d"
proof -
  let ?t = "lw_tmp w" and ?f = "lw_finalPath w"
  obtain r1 s1 where c: "ctxErr (lw_ctx w) s = (r1, s1)" by fastforce
  obtain r2 s2 where sy: "fSync ?t s1 = (r2, s2)" by fastforce
  obtain r3 s3 where cl: "fClose ?t s2 = (r3, s3)" by fastforce
  obtain r4 s4 where rn: "osRename ?t ?f s3 = (r4, s4)" by fastforce
  have st1: "fs_step {} s s1" using ctxErr_step [OF c assms(3)] by simp
  have st2: "fs_step {} s s2" using fSync_step [OF sy fs_step_ok [OF st1]] st1 by (blast intro: fs_step_trans)
  have st3: "fs_step {} s s3" using fClose_step [OF cl fs_step_ok [OF st2]] st2 by (blast intro: fs_step_trans)
  have "fileData s3 ?t = Some d" using st3 assms(4) by (simp add: fs_step_def)
  note st4 = osRename_step [OF rn fs_step_ok [OF st3] this assms(5)]
  have gone: "fs_step {?t} s (snd (osRemove ?t x))" "fs_step {?t} s (snd (osRemove ?t (snd (fClose ?t x))))"
    if "fs_step {?t} s x" for x
    using that remove_tmp close_remove_tmp by (blast intro: fs_step_trans dest: fs_step_ok)+
  note wide = fs_step_mono [of "{}" _ _ "{?t}", simplified]
  have fin: "lwClose w s =
      (case r1 of Inl e \<Rightarrow> (Some e, w\<lparr>lw_done := True\<rparr>, snd (osRemove ?t (snd (fClose ?t s1))))
       | Inr _ \<Rightarrow> (case r2 of Inl e \<Rightarrow> (Some e, w\<lparr>lw_done := True\<rparr>, snd (osRemove ?t (snd (fClose ?t s2))))
       | Inr _ \<Rightarrow> (case r3 of Inl e \<Rightarrow> (Some e, w\<lparr>lw_done := True\<rparr>, snd (osRemove ?t s3))
       | Inr _ \<Rightarrow> (case r4 of Inl e \<Rightarrow> (Some e, w\<lparr>lw_done := True\<rparr>, snd (osRemove ?t s4))
       | Inr _ \<Rightarrow> (None, w\<lparr>lw_done := True\<rparr>, syncDir (filepathDir ?f) s4)))))"
    using assms(2) by (simp add: lwClose_def Let_def c sy cl rn split: sum.splits)
  have ren_fail: "fs_step {?t} s s4" if "r4 = Inl x" for x
    using wide [OF fs_step_trans [OF st3 st4(4) [OF that]]] .
  have ren_ok: "fs_step {?t, ?f} s (syncDir (filepathDir ?f) s4) \<and>
      fileData (syncDir (filepathDir ?f) s4) ?f = Some d" if "r4 = Inr u" for u
    using st3 st4(3) syncDir_step [OF st4(1), of "filepathDir ?f"] that by (simp add: fs_step_def)
  show ?thesis
    using assms(1) unfolding fin
    using gone [OF wide [OF st1]] gone [OF wide [OF st2]] gone [OF wide [OF st3]] gone [OF ren_fail] ren_ok
    by (auto split: sum.splits)
qed

lemma lwAbort_step:
  assumes "lwAbort w s = (e, w', s')" and "fs_ok s"
  shows "fs_step {lw_tmp w} s s'"
proof (cases "lw_done w")
  case True
  with assms show ?thesis by (simp add: lwAbort_def fs_step_refl)
next
  case False
  with assms(1) have "s' = snd (osRemove (lw_tmp w) (snd (fClose (lw_tmp w) s)))"
    by (auto simp: lwAbort_def Let_def split: prod.splits sum.splits)
  with close_remove_tmp [OF assms(2)] show ?thesis by simp
qed

lemma lwClose_step:
  assumes "lwClose w s = (e, w', s')" and "root_ok root s" and "abs_root root" and "local_open root s w p (Some d)"
  shows "root_ok root s' \<and> (\<forall>q. local_key q \<and> q \<noteq> p \<longrightarrow> local_contents root s' q = local_contents root s q) \<and>
    (local_contents root s' p = Some d \<or> e \<noteq> None \<and> local_contents root s' p = local_contents root s p)"
proof -
  have w: "\<not> lw_done w" "local_key p" "lw_finalPath w = resolvePath root p" "temp_path (lw_tmp w)"
    "fileData s (lw_tmp w) = Some d" "lw_tmp w \<noteq> root"
    using assms(4) by (auto simp: local_open_def)
  have ne: "resolvePath root q \<noteq> lw_tmp w" if "local_key q" for q
    using w(4) resolve_not_temp [OF assms(3) that] by auto
  have other: "resolvePath root q \<noteq> resolvePath root p" if "local_key q" "q \<noteq> p" for q
    using resolve_inj [OF assms(3) that(1) w(2)] that(2) by simp
  have cases: "fs_step {lw_tmp w} s s' \<and> e \<noteq> None \<or>
      fs_step {lw_tmp w, resolvePath root p} s s' \<and> e = None \<and> fileData s' (resolvePath root p) = Some d"
    using lwClose_cases [OF assms(1) w(1) root_ok_fs [OF assms(2)] w(5)] ne [OF w(2)] w(3) by simp
  then have "root_ok root s'"
    using fs_step_root [OF _ assms(2)] w(6) resolve_not_root [OF w(2), of root] by (metis insertE singletonD)
  with cases show ?thesis
    using ne other w(2) by (fastforce simp: fs_step_def local_contents_def)
qed

lemma lRead_step:
  assumes "lRead root c p s = (r, s')" and "fs_ok s"
  shows "fs_step {} s s' \<and> (\<forall>d. r = Inr d \<longrightarrow> local_contents root s p = Some d) \<and>
    (\<forall>e. r = Inl e \<and> errIs e ErrNotFound \<longrightarrow> local_contents root s p = None)"
proof -
  obtain r1 s1 where c: "ctxErr c s = (r1, s1)" by fastforce
  note st1 = ctxErr_step [OF c assms(2)]
  obtain r2 s2 where rf: "osReadFile (resolvePath root p) s1 = (r2, s2)" by fastforce
  have same: "fileData s1 = fileData s" using st1 by (auto simp: fs_step_def)
  have st2: "fs_step {} s1 s2 \<and> (\<forall>d. r2 = Inr d \<longrightarrow> local_contents root s p = Some d) \<and>
      (\<forall>e. r2 = Inl e \<longrightarrow> \<not> errIs e ErrNotFound \<and> (errIs e ErrNotExist \<longrightarrow> local_contents root s p = None))"
    using rf [unfolded osReadFile_def] fs_step_ok [OF conjunct1 [OF st1]]
  proof (rule syscall_elim)
    fix t assume t: "(case gm_get (fs_nodes t) (resolvePath root p) of
        None \<Rightarrow> Inl notExist | Some (FFile d t) \<Rightarrow> Inr d | Some _ \<Rightarrow> Inl (Foreign ''is a directory''), t) = (r2, s2)"
      "fs_ok t" "fs_nodes t = fs_nodes s1"
    have "local_contents root s p = fileData t (resolvePath root p)"
      using fileData_nodes [OF t(3)] same by (simp add: local_contents_def)
    with t show ?thesis
      by (auto simp: fileData_def notExist_def intro: fs_step_nodes split: option.splits fnode.splits)
  qed (auto intro: fs_step_nodes)
  show ?thesis
  proof (cases r1)
    case (Inl e)
    with assms(1) c st1 show ?thesis by (auto simp: lRead_def)
  next
    case (Inr u)
    with assms(1) c rf st1 st2 show ?thesis
      by (auto simp: lRead_def localErr_def intro: fs_step_trans split: sum.splits)
  qed
qed

lemma lDelete_step:
  assumes "lDelete root c p s = (e, s')" and "fs_ok s"
  shows "fs_step {resolvePath root p} s s'" and
    "local_contents root s' p = None \<or> e \<noteq> None \<and> local_contents root s' p = local_contents root s p"
proof -
  let ?p = "resolvePath root p"
  obtain r1 s1 where c: "ctxErr c s = (r1, s1)" by fastforce
  have st1: "fs_step {} s s1" using ctxErr_step [OF c assms(2)] by simp
  obtain r2 s2 where rm: "osRemove ?p s1 = (r2, s2)" by fastforce
  note st2 = osRemove_step [OF rm fs_step_ok [OF st1]]
  have "fs_step {?p} s s' \<and> (fileData s' ?p = None \<or> e \<noteq> None \<and> fileData s' ?p = fileData s ?p)"
  proof (cases r1)
    case (Inl x)
    with assms(1) c have "e \<noteq> None" "s' = s1" by (auto simp: lDelete_def)
    with st1 show ?thesis by (simp add: fs_step_def)
  next
    case (Inr u)
    then have run: "(e, s') = (case r2 of Inl x \<Rightarrow> (if errIs x ErrNotExist then None else Some x, s2) | Inr _ \<Rightarrow> (None, s2))"
      using assms(1) c rm by (simp add: lDelete_def split: sum.splits)
    have "fs_step {?p} s s2" using fs_step_mono [OF st1] st2(1) by (blast intro: fs_step_trans)
    with run st2(2,3) st1 show ?thesis
      by (cases r2) (auto simp: fs_step_def split: if_splits)
  qed
  then show "fs_step {?p} s s'"
    "local_contents root s' p = None \<or> e \<noteq> None \<and> local_contents root s' p = local_contents root s p"
    by (auto simp: local_contents_def)
qed

lemma lWrite_step:
  assumes "lWrite root c p d s = (e, s')" and "root_ok root s" and "abs_root root" and "local_key p"
  shows "root_ok root s' \<and> (\<forall>q. local_key q \<and> q \<noteq> p \<longrightarrow> local_contents root s' q = local_contents root s q) \<and>
    (local_contents root s' p = Some d \<or> e \<noteq> None \<and> local_contents root s' p = local_contents root s p)"
proof -
  obtain r1 s1 where c: "ctxErr c s = (r1, s1)" by fastforce
  have st1: "fs_step {} s s1" using ctxErr_step [OF c root_ok_fs [OF assms(2)]] by simp
  have ro1: "root_ok root s1" using fs_step_root [OF st1 assms(2)] by simp
  have vis1: "local_contents root s1 q = local_contents root s q" for q
    using st1 by (simp add: fs_step_def local_contents_def)
  obtain r2 s2 where op: "openAtomicWriter root c p s1 = (r2, s2)" by fastforce
  note st2 = openAtomicWriter_step [OF op ro1 assms(3,4)]
  show ?thesis
  proof (cases r1)
    case (Inl x)
    with assms(1) c ro1 vis1 show ?thesis by (auto simp: lWrite_def)
  next
    case r1: (Inr u)
    show ?thesis
    proof (cases r2)
      case (Inl x)
      with assms(1,4) c op r1 st2 vis1 show ?thesis by (auto simp: lWrite_def)
    next
      case (Inr w)
      then have w: "local_open root s2 w p (Some [])" using st2 by simp
      then have tmp: "temp_path (lw_tmp w)" "fileData s2 (lw_tmp w) = Some []" "lw_tmp w \<noteq> root" by (auto simp: local_open_def)
      obtain n e3 s3 where wr: "fWrite (lw_tmp w) d s2 = ((n, e3), s3)" by (metis prod_cases3 prod.collapse)
      note st3 = fWrite_step [OF wr root_ok_fs [OF conjunct1 [OF st2]] tmp(2)]
      have ro3: "root_ok root s3" using fs_step_root [OF st3(1) conjunct1 [OF st2]] tmp(3) by simp
      have vis3: "local_contents root s3 q = local_contents root s q" if "local_key q" for q
        using fs_step_visible [OF st3(1) _ assms(3) that] tmp st2 vis1 that by simp
      show ?thesis
      proof (cases e3)
        case None
        then have "local_open root s3 w p (Some d)" using w st3(2) by (simp add: local_open_def)
        moreover obtain w' where "lwClose w s3 = (e, w', s')"
          using assms(1) c op r1 Inr wr None by (auto simp: lWrite_def split: prod.splits)
        ultimately show ?thesis
          using lwClose_step [OF _ ro3 assms(3)] vis3 assms(4) by metis
      next
        case (Some x)
        then have s': "s' = snd (snd (lwAbort w s3))" "e \<noteq> None"
          using assms(1) c op r1 Inr wr by (auto simp: lWrite_def)
        have "fs_step {lw_tmp w} s3 s'"
          using lwAbort_step [OF _ fs_step_ok [OF st3(1)]] s'(1) by (metis prod.collapse)
        with fs_step_visible [OF this _ assms(3)] fs_step_root [OF this ro3] tmp vis3 assms(4) s'(2) show ?thesis
          by simp
      qed
    qed
  qed
qed

section \<open>Listing\<close>

lemma Rel_resolve:
  assumes "local_key q"
  shows "Rel root (resolvePath root q) = Inr q"
proof -
  note j = join_plain [OF local_key_plain [OF assms], of root, folded resolvePath_def]
  then have "Clean root \<noteq> Clean (resolvePath root q)" by (simp add: Clean_eq_iff)
  then show ?thesis by (simp add: Rel_def j stripCommon_prefix)
qed

lemma Rel_error: "Rel b t = Inl e \<Longrightarrow> \<not> errIs e ErrNotExist"
  by (auto simp: Rel_def split: if_splits prod.splits)

lemma underDir_resolve:
  assumes "abs_root root" and "local_key q"
  shows "underDir root (resolvePath root q)"
proof -
  have "Clean root = root" "Rooted root" using assms(1) by (simp_all add: abs_root_def)
  then have root: "root = ''/'' @ Join (cleanComps root) ''/''"
    by (simp add: Clean_def unparse_def)
  show ?thesis
  proof (cases "cleanComps root = []")
    case True
    with root have "root = ''/''" by simp
    moreover have "HasPrefix (resolvePath root q) ''/''"
      unfolding resolve_clean [OF assms] by (rule HasPrefix_append)
    ultimately show ?thesis by (simp add: underDir_def)
  next
    case False
    have "resolvePath root q = (root @ ''/'') @ Join (Split CHR ''/'' q) ''/''"
      using False root by (simp add: resolve_clean [OF assms] Join_append)
    moreover have "root \<noteq> ''/''"
    proof
      assume "root = ''/''"
      then have "cleanComps root = []" by (simp add: cleanComps_def cleanStep_def)
      with False show False by simp
    qed
    ultimately show ?thesis by (simp add: underDir_def) (metis HasPrefix_append append.assoc append_Cons append_Nil)
  qed
qed

lemma listVisit_step:
  assumes "listVisit root c [] x s = (r, s')" and "fs_ok s"
  shows "fs_step {} s s' \<and> (\<forall>e. r = Inl e \<longrightarrow> \<not> errIs e ErrNotExist)"
proof -
  obtain p n where x: "x = (p, n)" by fastforce
  obtain r1 s1 where c: "ctxErr c s = (r1, s1)" by fastforce
  have st1: "fs_step {} s s1 \<and> (\<forall>e. r1 = Inl e \<longrightarrow> \<not> errIs e ErrNotExist)"
    using c [unfolded ctxErr_def] assms(2) by (rule syscall_elim) (auto intro: fs_step_nodes)
  have info: "fs_step {} s s2 \<and> (\<forall>e. r2 = Inl e \<longrightarrow> \<not> errIs e ErrNotExist)"
    if "syscall (\<lambda>s. (Inr y, s)) s1 = (r2, s2)" for y :: "FileInfo list" and r2 s2
  proof -
    have "fs_step {} s1 s2 \<and> (\<forall>e. r2 = Inl e \<longrightarrow> \<not> errIs e ErrNotExist)"
      using that fs_step_ok [OF conjunct1 [OF st1]] by (rule syscall_elim) (auto intro: fs_step_nodes)
    with st1 show ?thesis by (blast intro: fs_step_trans)
  qed
  have run: "(r, s') = (case r1 of Inl e \<Rightarrow> (Inl e, s1) | Inr _ \<Rightarrow> (case Rel root p of Inl e \<Rightarrow> (Inl e, s1)
      | Inr rel \<Rightarrow> if rel = ''.'' \<or> rel = [] then (Inr [], s1)
         else if \<not> isRegular n \<and> \<not> isDirNode n then (Inr [], s1)
         else if \<not> isDirNode n \<and> HasPrefix (pathBase p) localTempPrefix then (Inr [], s1)
         else if HasPrefix (if isDirNode n then rel @ ''/'' else rel) []
         then syscall (\<lambda>s. (Inr [\<lparr>fi_Name = (if isDirNode n then rel @ ''/'' else rel), fi_Size = nodeSize n,
                fi_LastModified = nodeTime n\<rparr>], s)) s1
         else (Inr [], s1)))"
    using assms(1) [symmetric] unfolding listVisit_def x c Let_def prod.case .
  show ?thesis
  proof (cases r1)
    case (Inl e)
    with run st1 show ?thesis by simp
  next
    case r1: (Inr u)
    show ?thesis
    proof (cases "Rel root p")
      case (Inl e)
      with run r1 st1 Rel_error [OF Inl] show ?thesis by simp
    next
      case (Inr rel)
      then have "(r, s') = (Inr [], s1) \<or> (\<exists>y. syscall (\<lambda>s. (Inr y, s)) s1 = (r, s'))"
        using run r1 by (auto split: if_splits)
      with st1 info show ?thesis by blast
    qed
  qed
qed

lemma listVisit_key:
  assumes "listVisit root c [] (resolvePath root q, FFile d t) s = (Inr fs, s')" and "abs_root root" and "local_key q"
  shows "q \<in> fi_Name ` set fs"
proof -
  have ok: "plain c \<and> \<not> HasPrefix c localTempPrefix" if "c \<in> set (Split CHR ''/'' q)" for c
    using assms(3) that by (simp add: local_key_def list_all_iff)
  have base: "\<not> HasPrefix (last (Split CHR ''/'' q)) localTempPrefix"
    using ok [OF last_in_set] by simp
  have q: "q \<noteq> ''.''" "q \<noteq> []"
    using ok [of "''.''"] ok [of "[]"] by (auto simp: plain_def)
  have pre: "HasPrefix q []" by (simp add: HasPrefix_def)
  obtain r1 s1 where c: "ctxErr c s = (r1, s1)" by fastforce
  have run: "(Inr fs, s') = (case r1 of Inl e \<Rightarrow> (Inl e, s1) | Inr _ \<Rightarrow>
      syscall (\<lambda>s. (Inr [\<lparr>fi_Name = q, fi_Size = nodeSize (FFile d t), fi_LastModified = nodeTime (FFile d t)\<rparr>], s)) s1)"
    using assms(1) q base pre
    by (cases r1) (simp_all add: listVisit_def c Rel_resolve [OF assms(3)] isRegular_def isDirNode_def
        pathBase_resolve [OF assms(2,3)])
  obtain f s2 where t: "tick s1 = (f, s2)" by fastforce
  show ?thesis
    using run by (cases r1; cases f) (auto simp: syscall_def t)
qed

lemma listWalk_step:
  "listWalk root c [] xs acc s = ((files, e), s') \<Longrightarrow> fs_ok s \<Longrightarrow> abs_root root \<Longrightarrow>
   fs_step {} s s' \<and> (\<forall>x. e = Some x \<longrightarrow> \<not> errIs x ErrNotExist) \<and> set acc \<subseteq> set files \<and>
   (e = None \<longrightarrow> (\<forall>q d t. local_key q \<and> (resolvePath root q, FFile d t) \<in> set xs \<longrightarrow> q \<in> fi_Name ` set files))"
proof (induction xs arbitrary: acc s)
  case Nil
  then show ?case by (simp add: fs_step_refl)
next
  case (Cons x xs)
  obtain r1 s1 where v: "listVisit root c [] x s = (r1, s1)" by fastforce
  note st1 = listVisit_step [OF v Cons.prems(2)]
  show ?case
  proof (cases r1)
    case (Inl y)
    with v Cons.prems(1) st1 show ?thesis by auto
  next
    case (Inr fs)
    with v Cons.prems(1) have "listWalk root c [] xs (acc @ fs) s1 = ((files, e), s')" by simp
    note IH = Cons.IH [OF this fs_step_ok [OF conjunct1 [OF st1]] Cons.prems(3)]
    have here: "q \<in> fi_Name ` set files" if "local_key q" "x = (resolvePath root q, FFile d t)" for q d t
      using listVisit_key [of root c q d t s fs s1] v Inr that Cons.prems(3) IH by auto
    have rest: "q \<in> fi_Name ` set files" if "e = None" "local_key q" "(resolvePath root q, FFile d t) \<in> set xs" for q d t
      using IH that by blast
    have "fs_step {} s s'" using IH st1 by (blast intro: fs_step_trans)
    then show ?thesis
      using IH here rest by (auto simp del: image_iff)
  qed
qed

lemma lList_step:
  assumes "lList root c [] s = (rl, s')" and "root_ok root s" and "abs_root root"
  shows "root_ok root s' \<and> (\<forall>q. local_contents root s' q = local_contents root s q) \<and>
    (\<forall>fs. rl = Inr fs \<longrightarrow> (\<forall>q. local_key q \<and> local_contents root s q \<noteq> None \<longrightarrow> q \<in> fi_Name ` set fs))"
proof -
  have dir: "resolvePath root [] = root"
    using assms(3) by (auto simp: resolvePath_def filepathJoin_def abs_root_def Rooted_def HasPrefix_def)
  obtain r1 s1 where c: "ctxErr c s = (r1, s1)" by fastforce
  have st1: "fs_step {} s s1" using ctxErr_step [OF c root_ok_fs [OF assms(2)]] by simp
  have ro1: "root_ok root s1" using fs_step_root [OF st1 assms(2)] by simp
  obtain r2 s2 where os: "osStat root s1 = (r2, s2)" by fastforce
  have st2: "fs_step {} s s2 \<and> fs_nodes s2 = fs_nodes s1 \<and> (\<forall>e. r2 = Inl e \<longrightarrow> \<not> errIs e ErrNotExist)"
  proof -
    have "fs_ok s2 \<and> fs_nodes s2 = fs_nodes s1 \<and> (\<forall>e. r2 = Inl e \<longrightarrow> \<not> errIs e ErrNotExist)"
      using os [unfolded osStat_def] root_ok_fs [OF ro1]
      by (rule syscall_elim) (use ro1 in \<open>auto simp: root_ok_def split: option.splits\<close>)
    then show ?thesis using fs_step_trans [OF st1 fs_step_nodes] by blast
  qed
  let ?xs = "filter (\<lambda>x. underDir root (fst x)) (fs_nodes s2)"
  obtain files e s3 where w: "listWalk root c [] ?xs [] s2 = ((files, e), s3)" by (metis prod.collapse)
  note st3 = listWalk_step [OF w fs_step_ok [OF conjunct1 [OF st2]] assms(3)]
  have st13: "fs_step {} s s3" using st2 st3 by (blast intro: fs_step_trans)
  have names: "q \<in> fi_Name ` set files" if "e = None" "local_key q" "local_contents root s q \<noteq> None" for q
  proof -
    have "fileData s2 (resolvePath root q) \<noteq> None"
      using that(3) st2 by (simp add: fs_step_def local_contents_def)
    then obtain d t where "(resolvePath root q, FFile d t) \<in> set (fs_nodes s2)"
      by (auto simp: fileData_def split: option.splits fnode.splits dest: map_of_SomeD)
    with st3 that underDir_resolve [OF assms(3) that(2)] show ?thesis by auto
  qed
  have run: "(rl, s') = (case r1 of Inl e \<Rightarrow> (Inl e, s1) | Inr _ \<Rightarrow> (case r2 of
      Inl e \<Rightarrow> (if errIs e ErrNotExist then Inr [] else Inl e, s2)
    | Inr _ \<Rightarrow> (case e of None \<Rightarrow> (Inr files, s3) | Some e \<Rightarrow> (if errIs e ErrNotExist then Inr files else Inl e, s3))))"
    using assms(1) unfolding lList_def c dir
    by (cases r1; cases r2; cases e) (simp_all add: Let_def os w)
  have cont: "local_contents root t q = local_contents root s q" if "fs_step {} s t" for t q
    using that by (simp add: fs_step_def local_contents_def)
  have "fs_step {} s s'"
    using run st1 st2 st13 by (auto split: sum.splits option.splits)
  moreover have "q \<in> fi_Name ` set fs" if "rl = Inr fs" "local_key q" "local_contents root s q \<noteq> None" for fs q
    using run that names st2 st3 by (auto split: sum.splits option.splits if_splits)
  ultimately show ?thesis
    using cont fs_step_root [OF _ assms(2), of "{}" s'] by auto
qed

section \<open>A local store is a storage\<close>

lemma LocalStorage_storage:
  assumes "abs_root root"
  shows "storage (LocalStorage root) (local_contents root) local_key (root_ok root) (local_open root)"
proof (unfold_locales, goal_cases)
  case (1 s p c r s')
  then show ?case
    using lRead_step [of root c p s r s'] fs_step_root [of "{}" s s' root]
    by (auto simp: LocalStorage_def root_ok_fs fs_step_def local_contents_def)
next
  case (2 s p c d e s')
  then show ?case using lWrite_step [of root c p d s e s'] assms by (simp add: LocalStorage_def)
next
  case (3 s p c e s')
  then have run: "lDelete root c p s = (e, s')" by (simp add: LocalStorage_def)
  note d = lDelete_step [OF run root_ok_fs [OF 3(1)]]
  have "resolvePath root q \<noteq> resolvePath root p" if "local_key q" "q \<noteq> p" for q
    using resolve_inj [OF assms that(1) 3(2)] that(2) by simp
  with d fs_step_root [OF d(1) 3(1)] resolve_not_root [OF 3(2), of root] show ?case
    by (auto simp: fs_step_def local_contents_def)
next
  case (4 s c rl s')
  then show ?case using lList_step [of root c s rl s'] assms by (simp add: LocalStorage_def)
next
  case (5 s p c rw s')
  obtain r1 s1 where c: "ctxErr c s = (r1, s1)" by fastforce
  have st1: "fs_step {} s s1" using ctxErr_step [OF c root_ok_fs [OF 5(1)]] by simp
  have ro1: "root_ok root s1" using fs_step_root [OF st1 5(1)] by simp
  have vis: "local_contents root s1 q = local_contents root s q" for q
    using st1 by (simp add: fs_step_def local_contents_def)
  show ?case
    using 5 c ro1 vis openAtomicWriter_step [OF _ ro1 assms 5(2), of c rw s']
    by (auto simp: LocalStorage_def lOpenWriter_def split: sum.splits)
next
  case (6 s w p d b n e w' s')
  then show ?case using lwWrite_step [of w b s n e w' s' root p d] assms by (simp add: LocalStorage_def)
next
  case (7 s w p d e w' s')
  then show ?case using lwClose_step [of w s e w' s' root p d] assms by (simp add: LocalStorage_def)
next
  case (8 s w p od e w' s')
  then have ab: "fs_step {lw_tmp w} s s'"
    using lwAbort_step [of w s e w' s'] by (simp add: LocalStorage_def root_ok_fs)
  have "temp_path (lw_tmp w)" "lw_tmp w \<noteq> root" using 8(2) by (auto simp: local_open_def)
  with fs_step_visible [OF ab _ assms] fs_step_root [OF ab 8(1)] show ?case by auto
qed

text \<open>\<open>NewLocalStorage\<close> makes its directory absolute, from the working directory \<open>/wd\<close>.\<close>

definition filepathAbs :: "string \<Rightarrow> string \<Rightarrow> string" where
  "filepathAbs wd p = (if Rooted p then Clean p else filepathJoin [''/'' @ wd, p])"

definition NewLocalStorage :: "string \<Rightarrow> string \<Rightarrow> (fsWorld, localAtomicWriter) Storage" where
  "NewLocalStorage wd rootDir = LocalStorage (filepathAbs wd rootDir)"

lemma abs_root_filepathAbs: "abs_root (filepathAbs wd p)"
proof (cases "Rooted p")
  case True
  then show ?thesis by (simp add: filepathAbs_def abs_root_def)
next
  case False
  have "filepathJoin [''/'' @ wd, p] = Clean (''/'' @ wd @ (if p = [] then [] else ''/'' @ p))"
    by (simp add: filepathJoin_def)
  moreover have "Rooted (''/'' @ x)" for x
    unfolding Rooted_def by (rule HasPrefix_append)
  ultimately have "\<exists>q. Rooted q \<and> filepathJoin [''/'' @ wd, p] = Clean q" by blast
  with False show ?thesis by (auto simp: filepathAbs_def abs_root_def)
qed

lemma local_key_tsync: "local_key ''.tsync''"
  by (simp add: local_key_def plain_def localTempPrefix_def HasPrefix_def)

lemma local_key_part: "rx_match partKeyRegex p \<Longrightarrow> local_key p"
proof -
  assume "rx_match partKeyRegex p"
  then obtain a k where p: "p = a @ ''/'' @ k" and a: "length a = 2" "list_all is_hex_digit a"
    and k: "isValidFileKey k"
    by (auto simp: partKeyRegex_iff)
  have slash: "CHR ''/'' \<notin> set a" "CHR ''/'' \<notin> set k"
    using a(2) is_hex_digit_neq_slash isValidFileKey_slash_free [OF k] by (auto simp: list_all_iff)
  have dot: "\<not> is_hex_digit CHR ''.''" by (simp add: is_hex_digit_def less_eq_char_def)
  have hd_hex: "\<exists>c cs. x = c # cs \<and> is_hex_digit c" if "x = a \<or> x = k" for x
  proof -
    obtain h d where "k = h @ CHR ''_'' # d" "length h = 8" "list_all is_hex_digit h"
      using k by (auto simp: isValidFileKey_iff)
    with a that show ?thesis by (cases a; cases h) auto
  qed
  have ok: "plain x \<and> \<not> HasPrefix x localTempPrefix" if x: "x = a \<or> x = k" for x
    using hd_hex [OF x] dot slash x by (auto simp: plain_def HasPrefix_def localTempPrefix_def)
  have "Split CHR ''/'' p = [a, k]"
    using slash by (simp add: p Split_append_sep Split_no_sep)
  then show ?thesis using ok by (simp add: local_key_def)
qed

interpretation ls: storage "NewLocalStorage wd rootDir" "local_contents (filepathAbs wd rootDir)" local_key
  "root_ok (filepathAbs wd rootDir)" "local_open (filepathAbs wd rootDir)" for wd rootDir
  unfolding NewLocalStorage_def by (rule LocalStorage_storage) (rule abs_root_filepathAbs)

end
