(* ===== verification/SourceSafe.thy ===== *)
theory SourceSafe
  imports Sources ZipSpec BackupCommit LocalStorage
begin

text \<open>
  What the sources promise a backup: an entry of an archive that is read to its end without error has
  the size and the checksum of the directory, and a folder in a local storage is a source that a backup
  may use with a store on the same file system: reading it changes no file.
\<close>

section \<open>Entries of an archive\<close>

lemma zesReadAll_verified:
  "zesReadAll f ps fin z = (b, None) \<Longrightarrow> ze_err z = None \<Longrightarrow>
   b = concat ps \<and> fin = Sentinel EOF \<and> ze_n z + word_of_nat (length b) = zf_UncompressedSize64 f \<and> crc32_update (ze_hash z) b = zf_CRC32 f"
proof (induction ps arbitrary: z b)
  case Nil
  then show ?case by (auto simp: zesRead_def Let_def crc32_update_def split: if_splits)
next
  case (Cons p ps)
  let ?z = "z\<lparr>ze_hash := crc32_update (ze_hash z) p, ze_n := ze_n z + word_of_nat (length p), ze_err := None\<rparr>"
  obtain c where c: "zesReadAll f ps fin ?z = (c, None)" "b = p @ c"
    using Cons.prems by (auto simp: zesRead_def Let_def split: if_splits prod.splits)
  have "ze_err ?z = None" by simp
  from Cons.IH [OF c(1) this] c(2) show ?case by (auto simp: crc32_update_append add.assoc)
qed

lemma zipEntry_verified:
  assumes "openZipEntryStream inflate pieces S c zipPath pr s = (Inr (b, None), s')"
  shows "word_of_nat (length b) = zf_UncompressedSize64 (zr_File pr) \<and> crc32 b = zf_CRC32 (zr_File pr)"
proof -
  obtain rc where "zipEntryBody inflate pieces (zr_File pr) rc = Inr (b, None)"
    using assms by (auto simp: openZipEntryStream_def split: prod.splits sum.splits)
  then obtain ps fin where "zesReadAll (zr_File pr) ps fin \<lparr>ze_hash = 0, ze_n = 0, ze_err = None\<rparr> = (b, None)"
    by (auto simp: zipEntryBody_def Let_def split: prod.splits option.splits if_splits)
  from zesReadAll_verified [OF this] show ?thesis by (auto simp: crc32_def)
qed

section \<open>Reading a local storage\<close>

text \<open>Operations of the file system that change no file.\<close>

definition harmless :: "(fsWorld \<Rightarrow> 'a \<times> fsWorld) \<Rightarrow> bool" where
  "harmless f \<longleftrightarrow> (\<forall>s r s'. fs_ok s \<longrightarrow> f s = (r, s') \<longrightarrow> fs_step {} s s')"

lemma harmlessI: "(\<And>s r s'. f s = (r, s') \<Longrightarrow> fs_ok s \<Longrightarrow> fs_step {} s s') \<Longrightarrow> harmless f"
  by (simp add: harmless_def)

lemma harmless_return [intro!]: "harmless (\<lambda>s. (x, s))"
  by (auto simp: harmless_def fs_step_refl)

lemma harmless_bind:
  assumes "harmless f" and "\<And>r. harmless (g r)"
  shows "harmless (\<lambda>s. case f s of (r, s) \<Rightarrow> g r s)"
proof (rule harmlessI)
  fix s x s'
  assume run: "(case f s of (r, s) \<Rightarrow> g r s) = (x, s')" and "fs_ok s"
  obtain r s1 where f: "f s = (r, s1)" by fastforce
  have "fs_step {} s s1" using assms(1) f \<open>fs_ok s\<close> by (simp add: harmless_def)
  moreover have "fs_step {} s1 s'" using assms(2) [of r] run f fs_step_ok [OF calculation] by (simp add: harmless_def)
  ultimately show "fs_step {} s s'" by (rule fs_step_trans)
qed

lemma harmless_calls: "harmless (ctxErr c)" "harmless (osStat p)" "harmless (readerOf d)"
  "harmless (syscall (\<lambda>s. (g s, s)))"
proof -
  show "harmless (ctxErr c)" using ctxErr_step by (blast intro: harmlessI)
  show sc: "harmless (syscall (\<lambda>s. (g s, s)))" for g :: "fsWorld \<Rightarrow> 'b result" by (blast intro: harmlessI quiet_call)
  show "harmless (osStat p)" unfolding osStat_def by (rule sc)
  show "harmless (readerOf d)"
    by (rule harmlessI) (auto simp: readerOf_def tick_def fs_ok_def split: list.splits prod.splits option.splits intro: fs_step_nodes)
qed

lemmas harmless_ops = harmless_return harmless_bind harmless_calls

text \<open>A case distinction on what a call returned.\<close>

lemma harmless_case_sum:
  "(\<And>e. harmless (g e)) \<Longrightarrow> (\<And>x. harmless (h x)) \<Longrightarrow> harmless (\<lambda>s. case r of Inl e \<Rightarrow> g e s | Inr x \<Rightarrow> h x s)"
  by (cases r) auto

lemma harmless_case_fnode:
  "(\<And>d t. harmless (g d t)) \<Longrightarrow> (\<And>t. harmless (h t)) \<Longrightarrow> (\<And>t. harmless (k t)) \<Longrightarrow>
   harmless (\<lambda>s. case n of FFile d t \<Rightarrow> g d t s | FDir t \<Rightarrow> h t s | FOther t \<Rightarrow> k t s)"
  by (cases n) auto

lemma harmless_OpenReader: "harmless (lOpenReader root c p)"
  unfolding lOpenReader_def [abs_def]
  by (rule harmless_bind harmless_calls harmless_case_sum harmless_return harmless_case_fnode)+

lemma harmless_visit: "harmless (listVisit root c px x)"
proof (rule harmlessI)
  fix s r s'
  assume run: "listVisit root c px x s = (r, s')" and ok: "fs_ok s"
  obtain p n where x: "x = (p, n)" by fastforce
  obtain r1 s1 where c: "ctxErr c s = (r1, s1)" by fastforce
  note q1 = conjunct1 [OF ctxErr_step [OF c ok]]
  let ?f = "\<lambda>rel s. syscall (\<lambda>s. (Inr [\<lparr>fi_Name = rel, fi_Size = nodeSize n, fi_LastModified = nodeTime n\<rparr>], s)) s"
  have "s' = s1 \<or> (\<exists>rel. ?f rel s1 = (r, s'))"
    using run c by (auto simp: listVisit_def x Let_def split: sum.splits if_splits)
  then show "fs_step {} s s'"
  proof (elim disjE exE)
    fix rel
    assume "?f rel s1 = (r, s')"
    from quiet_call [OF this fs_step_ok [OF q1]] show ?thesis by (rule fs_step_trans [OF q1])
  qed (use q1 in simp)
qed

lemma listWalk_harmless: "harmless (listWalk root c px xs acc)"
proof (induction xs arbitrary: acc)
  case Nil
  have "listWalk root c px [] acc = (\<lambda>s. ((acc, None), s))" by (rule ext) simp
  then show ?case by (simp add: harmless_return)
next
  case (Cons x xs)
  have "listWalk root c px (x # xs) acc = (\<lambda>s. case listVisit root c px x s of (r, s) \<Rightarrow>
      (case r of Inl e \<Rightarrow> ((acc, Some e), s) | Inr fs \<Rightarrow> listWalk root c px xs (acc @ fs) s))"
    by (rule ext) simp
  then show ?case by (simp only:) (rule harmless_bind harmless_visit harmless_case_sum harmless_return Cons.IH)+
qed

lemma listVisit_sizes: "listVisit root c px x s = (Inr fs, s') \<Longrightarrow> f \<in> set fs \<Longrightarrow> 0 \<le> fi_Size f"
  by (auto simp: listVisit_def Let_def syscall_def nodeSize_def split: prod.splits sum.splits if_splits option.splits fnode.splits)

lemma listWalk_sizes:
  "listWalk root c px xs acc s = ((files, e), s') \<Longrightarrow> (\<And>f. f \<in> set acc \<Longrightarrow> 0 \<le> fi_Size f) \<Longrightarrow> f \<in> set files \<Longrightarrow> 0 \<le> fi_Size f"
proof (induction xs arbitrary: acc s)
  case (Cons x xs)
  obtain r1 s1 where v: "listVisit root c px x s = (r1, s1)" by fastforce
  show ?case
  proof (cases r1)
    case (Inl y)
    with v Cons.prems show ?thesis by auto
  next
    case (Inr fs)
    with v Cons.prems(1) have "listWalk root c px xs (acc @ fs) s1 = ((files, e), s')" by simp
    moreover have "0 \<le> fi_Size g" if "g \<in> set (acc @ fs)" for g
      using that Cons.prems(2) listVisit_sizes [OF v [unfolded Inr]] by auto
    ultimately show ?thesis using Cons.IH Cons.prems(3) by blast
  qed
qed simp

lemma lList_result:
  assumes "lList root c px s = (r, s')"
  obtains (early) "isl r \<or> r = Inr []" | (walked) xs files e s2 where "listWalk root c px xs [] s2 = ((files, e), s')" "isl r \<or> r = Inr files"
  using assms by (auto simp: lList_def Let_def split: prod.splits sum.splits option.splits if_splits)

lemma lList_harmless: "harmless (lList root c px)"
proof (rule harmlessI)
  fix s r s'
  assume run: "lList root c px s = (r, s')" and ok: "fs_ok s"
  obtain r1 s1 where c: "ctxErr c s = (r1, s1)" by fastforce
  note q1 = conjunct1 [OF ctxErr_step [OF c ok]]
  define dir where "dir = (if \<not> HasSuffix px ''/'' \<and> px \<noteq> [] then filepathDir (resolvePath root px) else resolvePath root px)"
  obtain r2 s2 where st: "osStat dir s1 = (r2, s2)" by fastforce
  have q2: "fs_step {} s s2"
    using harmless_calls(2) [of dir] st fs_step_ok [OF q1] fs_step_trans [OF q1] unfolding harmless_def by blast
  obtain fs e s3 where w: "listWalk root c px (filter (\<lambda>x. underDir dir (fst x)) (fs_nodes s2)) [] s2 = ((fs, e), s3)" by (metis surj_pair)
  have q3: "fs_step {} s s3"
    using listWalk_harmless w fs_step_ok [OF q2] fs_step_trans [OF q2] unfolding harmless_def by blast
  have "s' = s1 \<or> s' = s2 \<or> s' = s3"
    using run by (auto simp: lList_def c dir_def [symmetric] st w Let_def split: sum.splits option.splits if_splits)
  with q1 q2 q3 show "fs_step {} s s'" by blast
qed

lemma lList_sizes: "lList root c px s = (Inr files, s') \<Longrightarrow> f \<in> set files \<Longrightarrow> 0 \<le> fi_Size f"
  by (erule lList_result) (auto dest: listWalk_sizes)

text \<open>Harmless reading is quiet for every store on the file system.\<close>

lemma harmless_quiet: "harmless f \<Longrightarrow> quiet (local_contents root) local_key (root_ok root) f"
  unfolding quiet_def harmless_def root_ok_def fs_step_def local_contents_def by (metis empty_iff prod.collapse)

lemma folder_source_ok:
  "source_ok (local_contents root) local_key (root_ok root) (FolderSource (LocalStorage src) c px)"
proof -
  have "harmless (FolderSource (LocalStorage src) c px)"
    by (rule harmlessI)
      (use lList_harmless [of src c px] in \<open>auto simp: FolderSource_def LocalStorage_def harmless_def split: prod.splits sum.splits\<close>)
  moreover have "list_all (entry_quiet (local_contents root) local_key (root_ok root)) es"
    if ls: "fst (FolderSource (LocalStorage src) c px s) = Inr es" for s es
  proof -
    obtain files s' where f: "lList src c px s = (Inr files, s')" "es = map (folderEntry (LocalStorage src) c) files"
      using ls by (auto simp: FolderSource_def LocalStorage_def split: prod.splits sum.splits)
    have "quiet (local_contents root) local_key (root_ok root) (lOpenReader src c p)" for p
      by (rule harmless_quiet [OF harmless_OpenReader])
    then show ?thesis
      using lList_sizes [OF f(1)] by (auto simp: f(2) list_all_iff entry_quiet_def folderEntry_def LocalStorage_def Let_def)
  qed
  ultimately show ?thesis unfolding source_ok_def using harmless_quiet by blast
qed

end
