(* ===== verification/BackupSafe.thy ===== *)
theory BackupSafe
  imports BackupCommit
begin

text \<open>
  What a backup run does to a store, for every storage that keeps the contract, every source,
  every interleaving of the workers and every failure: the versions that were there stay
  restorable, and a version that was reported as made is restorable and complete.
\<close>

section \<open>Trees that only grow\<close>

text \<open>A tree that could be walked is walked the same way when more trees are stored.\<close>

lemma walkEntries_mono:
  assumes "\<And>x px st r. walkTree mar n x px trees False st = Some (Inr r) \<Longrightarrow> walkTree mar n x px trees' False st = Some (Inr r)"
  shows "walkEntries mar n es px trees False st = Some (Inr r) \<Longrightarrow> walkEntries mar n es px trees' False st = Some (Inr r)"
proof (induction es arbitrary: st)
  case (Cons e es)
  then show ?case
    by (auto simp: Let_def corrupt_def split: option.splits TreeEntry_Node.splits if_splits sum.splits dest!: assms)
qed simp

lemma walk_mono:
  assumes "\<And>h node. gm_get trees h = Some node \<Longrightarrow> gm_get trees' h = Some node"
  shows "walkTree mar n h px trees False st = Some (Inr r) \<Longrightarrow> walkTree mar n h px trees' False st = Some (Inr r)"
proof (induction n arbitrary: h px st r)
  case (Suc n)
  obtain node m where node: "gm_get trees h = Some node" "mar node = Some m" "sha256_hex m = h" "entries_sorted (tn_Entries node)"
    using Suc.prems by (simp add: corrupt_def split: option.splits if_splits)
  have step: "walkTree mar (Suc n) h px t False st =
      (if tn_Entries node = [] \<and> px \<noteq> [] then Some (Inr (fst st, snd st @ [px]))
       else walkEntries mar n (tn_Entries node) px t False st)" if "gm_get t h = Some node" for t
    using node that by simp
  note steps = step [OF node(1)] step [OF assms [OF node(1)]]
  show ?case
  proof (cases "tn_Entries node = [] \<and> px \<noteq> []")
    case True
    with Suc.prems show ?thesis unfolding steps by simp
  next
    case False
    then have "walkEntries mar n (tn_Entries node) px trees False st = Some (Inr r)"
      using Suc.prems unfolding steps if_not_P [OF False] by simp
    then show ?thesis
      unfolding steps if_not_P [OF False] by (rule walkEntries_mono [OF Suc.IH, rotated])
  qed
qed simp

definition trees_hashed :: "tree_marshal \<Rightarrow> (string, TreeNode) gomap \<Rightarrow> bool" where
  "trees_hashed mar trees \<longleftrightarrow> list_all (\<lambda>(h, node). map_option sha256_hex (mar node) = Some h) trees"

lemma gm_copy_SomeD: "gm_get (gm_copy d s) k = Some v \<Longrightarrow> gm_get d k = Some v \<or> (k, v) \<in> set s"
  by (induction d s rule: gm_copy.induct) (auto simp: gm_get_put split: if_splits)

lemma newTrees_hashed:
  assumes "buildAndHash mar n [] = Inr (h, newTrees)" and "gm_get newTrees x = Some node"
  shows "node \<in> emittedNodes mar n" and "map_option sha256_hex (mar node) = Some x"
proof -
  obtain out where out: "emitNode mar n = Some (h, out)" "newTrees = gm_copy [] out"
    using assms(1) by (auto simp: buildAndHash_emit split: option.splits)
  then have mem: "(x, node) \<in> set out" using gm_copy_SomeD [of "[]" out x node] assms(2) by simp
  then show "node \<in> emittedNodes mar n" by (force simp: emittedNodes_def out)
  show "map_option sha256_hex (mar node) = Some x"
    using emitNode_hashed [OF out(1) mem] by auto
qed

lemma trees_grow:
  assumes "trees_hashed mar old" and "buildAndHash mar n [] = Inr (h, newTrees)"
    and "no_collision mar (snd ` set old \<union> emittedNodes mar n)" and "gm_get old x = Some node"
  shows "(gm_get old ++ gm_get newTrees) x = Some node"
proof (cases "gm_get newTrees x")
  case (Some node')
  note new = newTrees_hashed [OF assms(2) Some]
  have "(x, node) \<in> set old" using assms(4) by (rule map_of_SomeD)
  then have "map_option sha256_hex (mar node) = Some x" "node \<in> snd ` set old"
    using assms(1) by (force simp: trees_hashed_def list_all_iff)+
  with new assms(3) have "node' = node" unfolding no_collision_def by (metis UnI1 UnI2)
  with Some show ?thesis by simp
qed (use assms(4) in \<open>simp add: map_add_def\<close>)

text \<open>The maps of the metadata that a run writes.\<close>

lemma written_maps:
  assumes "md_wf md" and "buildAndHash mar n [] = Inr (h, newTrees)"
    and "md_same (finalMetadata env opts (mergeKeys opts hasOld md) v newTrees (ga_pool (gather rs))) md'"
  shows "gm_get (Versions md') =
      (if bo_SingleVersionMode opts then Map.empty else gm_get (Versions md))(FormatUint (SnowflakeId v) \<mapsto> v)"
    and "gm_get (Trees md') = (if bo_SingleVersionMode opts then Map.empty else gm_get (Trees md)) ++ gm_get newTrees"
    and "gm_get (Files md') = (if bo_SingleVersionMode opts then Map.empty else gm_get (Files md)) ++ gm_get (ga_pool (gather rs))"
proof -
  let ?md1 = "mergeKeys opts hasOld md"
  have m1: "Versions ?md1 = Versions md" "Trees ?md1 = Trees md" "Files ?md1 = Files md"
    by (simp_all add: mergeKeys_def)
  have wfs: "gm_wf (Versions ?md1)" "gm_wf (Trees ?md1)" "gm_wf (Files ?md1)" "gm_wf newTrees" "gm_wf (ga_pool (gather rs))"
    using assms(1) gather_wf [of rs] buildAndHash_wf [OF assms(2)] by (simp_all add: md_wf_def m1)
  note fm = finalMetadata_maps(1-3) [OF wfs, of env opts v, unfolded m1, symmetric]
  have same: "gm_same (Versions (finalMetadata env opts ?md1 v newTrees (ga_pool (gather rs)))) (Versions md')"
    "gm_same (Trees (finalMetadata env opts ?md1 v newTrees (ga_pool (gather rs)))) (Trees md')"
    "gm_same (Files (finalMetadata env opts ?md1 v newTrees (ga_pool (gather rs)))) (Files md')"
    using assms(3) by (simp_all only: md_same_def)
  show "gm_get (Versions md') =
      (if bo_SingleVersionMode opts then Map.empty else gm_get (Versions md))(FormatUint (SnowflakeId v) \<mapsto> v)"
    "gm_get (Trees md') = (if bo_SingleVersionMode opts then Map.empty else gm_get (Trees md)) ++ gm_get newTrees"
    "gm_get (Files md') = (if bo_SingleVersionMode opts then Map.empty else gm_get (Files md)) ++ gm_get (ga_pool (gather rs))"
    unfolding fm using same by (simp_all only: gm_same_def)
qed

section \<open>The gathered results\<close>

definition recs_keyed :: "BackupMetadata \<Rightarrow> bool" where
  "recs_keyed md \<longleftrightarrow> list_all (\<lambda>(k, rec). rec_keyed k rec) (Files md)"

lemma recs_keyedD: "recs_keyed md \<Longrightarrow> gm_get (Files md) k = Some rec \<Longrightarrow> rec_keyed k rec"
  by (auto simp: recs_keyed_def list_all_iff dest: map_of_SomeD)

context keyed_storage
begin

text \<open>Every key in the pool has a record that is the stored one, or is new with its part uploaded.\<close>

definition pool_ok :: "(string, FileRecord) gomap \<Rightarrow> 's \<Rightarrow> (string, FileRecord) gomap \<Rightarrow> bool" where
  "pool_ok ex s pool \<longleftrightarrow>
     (\<forall>k rec. gm_get pool k = Some rec \<longrightarrow>
        isValidFileKey k \<and> (gm_get ex k = Some rec \<or> gm_get ex k = None \<and> uploaded s k rec))"

lemma gather_pool:
  assumes "\<forall>x \<in> set rs. rs_err x = None" and "list_all (result_ok ex s) rs"
  shows "pool_ok ex s (ga_pool (gather rs))"
    and "\<And>p k. gm_get (ga_paths (gather rs)) p = Some k \<Longrightarrow> gm_has (ga_pool (gather rs)) k"
    and "dom (gm_get (ga_paths (gather rs))) = {rs_path x | x. x \<in> set rs \<and> \<not> rs_isDir x}"
proof -
  note m = gather_maps [OF assms(1)]
  have ok: "isValidFileKey (rs_key x) \<and> (\<exists>rec. rs_record x = Some rec \<and>
      (gm_get ex (rs_key x) = Some rec \<or> gm_get ex (rs_key x) = None \<and> uploaded s (rs_key x) rec))"
    if "x \<in> set (file_results rs)" for x
    using assms that by (auto simp: file_results_def list_all_iff result_ok_def)
  then have all: "filter (\<lambda>x. rs_record x \<noteq> None) (file_results rs) = file_results rs"
    by (intro filter_True) auto
  show "pool_ok ex s (ga_pool (gather rs))"
    unfolding pool_ok_def
  proof (intro allI impI)
    fix k rec assume "gm_get (ga_pool (gather rs)) k = Some rec"
    then obtain x where "x \<in> set (file_results rs)" "k = rs_key x" "rec = the (rs_record x)"
      unfolding m(2) all by (auto dest!: map_of_SomeD)
    with ok show "isValidFileKey k \<and> (gm_get ex k = Some rec \<or> gm_get ex k = None \<and> uploaded s k rec)"
      by fastforce
  qed
  show "gm_has (ga_pool (gather rs)) k" if u: "gm_get (ga_paths (gather rs)) p = Some k" for p k
  proof -
    obtain x where "x \<in> set (file_results rs)" "k = rs_key x"
      using u unfolding m(1) by (auto dest!: map_of_SomeD)
    then have "k \<in> fst ` set (rev (map (\<lambda>x. (rs_key x, the (rs_record x))) (file_results rs)))" by force
    then show ?thesis unfolding m(2) all by (simp only: map_of_eq_None_iff not_not)
  qed
  show "dom (gm_get (ga_paths (gather rs))) = {rs_path x | x. x \<in> set rs \<and> \<not> rs_isDir x}"
    unfolding m(1) dom_map_of_conv_image_fst by (force simp: file_results_def)
qed

lemma pool_old: "pool_ok ex s pool \<Longrightarrow> gm_get ex k = Some rec \<Longrightarrow> (gm_get ex ++ gm_get pool) k = Some rec"
proof (cases "gm_get pool k")
  case (Some rec')
  assume "pool_ok ex s pool" "gm_get ex k = Some rec"
  with Some have "rec' = rec" unfolding pool_ok_def by fastforce
  with Some show ?thesis by simp
qed (simp add: map_add_def)

section \<open>The outcomes of a run\<close>

text \<open>
  A run either leaves the metadata alone (and then returns an error), or has written the metadata
  of the new version over parts that are all there.
\<close>

lemma run_cases:
  assumes codec: "md_codec unmarshal marshal" and "inv s" and src: "source_ok contents key_ok inv listSrc"
    and keys: "gm_wf (bo_PublicKeys opts)"
    and run: "backupRuns unmarshal marshal mar Z env listSrc S opts s p st res s'"
  obtains (unwritten) md e where "start_md (stored unmarshal contents) s (pr_hasOld p) md" "md_wf md"
      "res = Inl e" "frame (Files md) s s'"
    | (written) md md' n h newTrees vid seq where
      "start_md (stored unmarshal contents) s (pr_hasOld p) md" "md_wf md" "inv s'"
      "frame (Files md) s (wk_world st)" "pool_ok (Files md) (wk_world st) (ga_pool (gather (wk_results st)))"
      "list_all (result_ok (Files md) (wk_world st)) (wk_results st)" "\<forall>x \<in> set (wk_results st). rs_err x = None"
      "mset (map (\<lambda>x. (rs_path x, rs_isDir x)) (wk_results st)) = mset (map (\<lambda>e. (se_Path e, isDirEntry e)) (pr_entries p))"
      "list_all entry_path_ok (pr_entries p)" "checkOrdering opts md = None" "pr_latest p = latestVersion md"
      "resultTree (gather (wk_results st)) = Inr n" "buildAndHash mar n [] = Inr (h, newTrees)"
      "chooseVersionID env opts (Versions md) = Some (vid, seq)"
      "stored unmarshal contents s' = Some md'" "md_wf md'"
      "md_same (finalMetadata env opts (mergeKeys opts (pr_hasOld p) md) (newVersion env opts (latestVersion md) vid h)
         newTrees (ga_pool (gather (wk_results st)))) md'"
      "\<forall>k. isValidFileKey k \<and> (gm_has (Files md') k \<or> \<not> bo_SingleVersionMode opts \<or> (\<exists>e. res = Inl e)) \<longrightarrow>
         contents s' (partKeyFor k) = contents (wk_world st) (partKeyFor k)"
      "\<forall>v. res = Inr v \<longrightarrow> v = newVersion env opts (latestVersion md) vid h"
      "\<forall>e. res = Inl e \<longrightarrow> (\<exists>x b. e = Errorf [x] \<and> unmarshal b = Some md' \<and>
         st_Write S CallerCtx metadataPath b (wk_world st) = (Some x, s'))"
      "\<forall>x \<in> set (wk_results st). \<not> rs_isDir x \<longrightarrow> (\<exists>e \<in> set (pr_entries p). \<not> isDirEntry e \<and> rs_path x = se_Path e \<and>
         run_key unmarshal Z env listSrc S opts s p st e (rs_key x))"
proof -
  obtain s1 cause where prep: "prepareBackup unmarshal env listSrc S CallerCtx opts s = (Inr p, s1)"
    and reach: "wreach Z (pr_run p) S (startWorkers opts (pr_entries p) cause s1) st" and ex: "all_exited st"
    and fin: "finishBackup marshal mar env S CallerCtx opts p (wk_results st) (wk_parent st) (wk_cause st) (wk_world st) = Some (res, s')"
    using run unfolding backupRuns_def by blast
  note pu = prepare_unchanged [OF assms(2) src prep]
  obtain md where md: "start_md (stored unmarshal contents) s (pr_hasOld p) md" "checkOrdering opts md = None"
    "pr_latest p = latestVersion md" "pr_metadata p = mergeKeys opts (pr_hasOld p) md"
    "br_existing (pr_run p) = Files md" "list_all (entry_quiet contents key_ok inv) (pr_entries p)"
    "list_all entry_path_ok (pr_entries p)"
    using prepare_spec [OF assms(2) src prep] by metis
  have wf: "md_wf md"
  proof (cases "pr_hasOld p")
    case True
    with md(1) codec show ?thesis by (auto simp: start_md_def md_codec_def stored_def bind_eq_Some_conv)
  next
    case False
    then have "PublicKeys md = bo_PublicKeys opts"
      using prep md(4) by (auto simp: prepareBackup_def initMetadata_def mergeKeys_def Let_def
          split: option.splits prod.splits sum.splits if_splits)
    with False md(1) keys show ?thesis by (simp add: start_md_def md_wf_def)
  qed
  have wi: "wk_inv (pr_entries p) st" by (rule wreach_inv [OF reach wk_inv_start])
  have "store_inv (Files md) s1 st"
    using wreach_store [OF reach, unfolded md(5)] store_inv_start [OF pu(1) md(6)] by blast
  then have sto: "frame (Files md) s1 (wk_world st)" "list_all (result_ok (Files md) (wk_world st)) (wk_results st)"
    by (auto simp: store_inv_def)
  then have fr: "frame (Files md) s (wk_world st)" using pu(2) by (simp add: frame_def)
  have src_keys: "\<forall>x \<in> set (wk_results st). \<not> rs_isDir x \<longrightarrow> (\<exists>e \<in> set (pr_entries p). \<not> isDirEntry e \<and> rs_path x = se_Path e \<and>
      run_key unmarshal Z env listSrc S opts s p st e (rs_key x))" if "\<forall>x \<in> set (wk_results st). rs_err x = None"
    unfolding run_key_def using results_keyed [OF reach] that prep by blast
  have wfm: "md_wf (mergeKeys opts (pr_hasOld p) md)" using wf by (simp add: md_wf_def mergeKeys_def)
  from fin show thesis
  proof (cases rule: finish_cases)
    case (failed e)
    with md(1) wf fr show thesis by (intro unwritten) auto
  next
    case (commits n h newTrees vid seq)
    have vs: "Versions (pr_metadata p) = Versions md" by (simp add: md(4) mergeKeys_def)
    let ?v = "newVersion env opts (latestVersion md) vid h"
    let ?newMd = "finalMetadata env opts (mergeKeys opts (pr_hasOld p) md) ?v newTrees (ga_pool (gather (wk_results st)))"
    have "gm_wf newTrees" using buildAndHash_wf [OF commits(5)] by simp
    then have wfn: "md_wf ?newMd"
      using wfm gather_wf [of "wk_results st"] by (intro finalMetadata_maps(5)) (auto simp: md_wf_def)
    have inv_w: "inv (wk_world st)" using fr by (simp add: frame_def)
    have run': "commitBackup marshal S CallerCtx opts (pr_hasOld p) (pr_metadata p) ?newMd ?v (wk_world st) = (res, s')"
      using commits(7) by (simp add: md(3,4))
    from codec inv_w wfn run' show thesis
    proof (cases rule: commit_cases)
      case (unwritten e)
      have "frame (Files md) s s'"
        using fr unwritten(2,3) by (simp add: frame_def)
      with unwritten md(1) wf that(1) show thesis by blast
    next
      case (written md')
      have "gm_has (Files md') k = gm_has (Files ?newMd) k" for k
        using written(3) by (simp add: md_same_def gm_same_def)
      note w = written [folded this]
      show thesis
        by (rule that(2) [OF md(1) wf w(1) fr gather_pool(1) [OF commits(2) sto(2)] sto(2) commits(2) _ md(7,2,3) commits(4,5)
            commits(6) [unfolded vs] w(2,4,3,5,6,7) src_keys [OF commits(2)]])
          (use results_complete(3) [OF wi ex commits(1)] in blast)
    qed
  qed
qed

section \<open>Old versions\<close>

lemma frame_part:
  assumes "frame ex s s'" and "isValidFileKey k" and "gm_has ex k"
  shows "contents s' (partKeyFor k) = contents s (partKeyFor k)"
proof -
  have "partKeyFor k \<noteq> partKeyFor k'" if "isValidFileKey k'" "gm_get ex k' = None" for k'
    using that assms(2,3) partKeyFor_valid_inj by metis
  with assms(1) key_partKeyFor [OF assms(2)] show ?thesis unfolding frame_def by blast
qed

lemma frame_tsync: "frame ex s s' \<Longrightarrow> stored unmarshal contents s' = stored unmarshal contents s"
  using key_tsync metadataPath_not_part by (simp add: frame_def stored_def)

text \<open>The versions, trees, records and parts of \<open>md\<close> are still there in \<open>md'\<close> and \<open>s'\<close>.\<close>

definition extends :: "'s \<Rightarrow> BackupMetadata \<Rightarrow> 's \<Rightarrow> BackupMetadata \<Rightarrow> bool" where
  "extends s md s' md' \<longleftrightarrow>
     gm_get (Versions md) \<subseteq>\<^sub>m gm_get (Versions md') \<and> gm_get (Trees md) \<subseteq>\<^sub>m gm_get (Trees md') \<and>
     gm_get (Files md) \<subseteq>\<^sub>m gm_get (Files md') \<and>
     (\<forall>k. isValidFileKey k \<and> gm_has (Files md) k \<longrightarrow> contents s' (partKeyFor k) = contents s (partKeyFor k))"

lemma map_le_Some: "m \<subseteq>\<^sub>m m' \<Longrightarrow> m k = Some v \<Longrightarrow> m' k = Some v"
  by (metis domI map_le_def)

lemma extends_resolve:
  assumes "extends s md s' md'" and "ResolveVersionTree mar fuel md vid False = Some (Inr r)"
  shows "ResolveVersionTree mar fuel md' vid False = Some (Inr r)"
proof -
  obtain v where v: "gm_get (Versions md) (FormatUint vid) = Some v"
    "walkTree mar fuel (RootTreeHash v) [] (Trees md) False ([], []) = Some (Inr r)"
    using assms(2) by (auto simp: ResolveVersionTree_def split: option.splits)
  have le: "gm_get (Trees md) \<subseteq>\<^sub>m gm_get (Trees md')" "gm_get (Versions md) \<subseteq>\<^sub>m gm_get (Versions md')"
    using assms(1) by (simp_all add: extends_def)
  have "walkTree mar fuel (RootTreeHash v) [] (Trees md') False ([], []) = Some (Inr r)"
    by (rule walk_mono [OF map_le_Some [OF le(1)] v(2)])
  moreover have "gm_get (Versions md') (FormatUint vid) = Some v"
    by (rule map_le_Some [OF le(2) v(1)])
  ultimately show ?thesis by (simp add: ResolveVersionTree_def)
qed

lemma run_extends:
  assumes codec: "md_codec unmarshal marshal" and "inv s" and src: "source_ok contents key_ok inv listSrc"
    and keys: "gm_wf (bo_PublicKeys opts)" and multi: "\<not> bo_SingleVersionMode opts"
    and run: "backupRuns unmarshal marshal mar Z env listSrc S opts s p st res s'"
    and md: "stored unmarshal contents s = Some md" and hashed: "trees_hashed mar (Trees md)"
    and nc: "\<And>n. resultTree (gather (wk_results st)) = Inr n \<Longrightarrow> no_collision mar (snd ` set (Trees md) \<union> emittedNodes mar n)"
  shows "inv s' \<and> (\<exists>md'. stored unmarshal contents s' = Some md' \<and> extends s md s' md')"
  using codec assms(2) src keys run
proof (cases rule: run_cases)
  case (unwritten md0 e)
  then have "md0 = md" using md by (auto simp: start_md_def split: if_splits)
  with unwritten md show ?thesis
    using frame_tsync [OF unwritten(4), of unmarshal] frame_part [OF unwritten(4)]
    by (auto simp: extends_def frame_def)
next
  case (written md0 md' n h newTrees vid seq)
  have md0: "md0 = md" using written(1) md by (auto simp: start_md_def split: if_splits)
  have maps: "gm_get (Versions md') = (gm_get (Versions md))(FormatUint vid \<mapsto> newVersion env opts (latestVersion md) vid h)"
    "gm_get (Trees md') = gm_get (Trees md) ++ gm_get newTrees"
    "gm_get (Files md') = gm_get (Files md) ++ gm_get (ga_pool (gather (wk_results st)))"
    unfolding written_maps [OF written(2,13,17)] using multi by (simp_all add: md0 newVersion_def)
  have "\<not> gm_has (Versions md) (FormatUint vid)"
    using chooseVersionID_fresh [OF written(14,10)] by (simp add: md0)
  then have "gm_get (Versions md) \<subseteq>\<^sub>m gm_get (Versions md')" by (auto simp: maps map_le_def)
  moreover have "gm_get (Trees md) \<subseteq>\<^sub>m gm_get (Trees md')"
    using trees_grow [OF hashed written(13) nc [OF written(12)]] by (auto simp: maps map_le_def dom_def)
  moreover have "gm_get (Files md) \<subseteq>\<^sub>m gm_get (Files md')"
    using pool_old [OF written(5)] by (auto simp: maps md0 map_le_def dom_def)
  moreover have "contents s' (partKeyFor k) = contents s (partKeyFor k)" if "isValidFileKey k" "gm_has (Files md) k" for k
    using written(18) multi frame_part [OF written(4) that(1)] that by (simp add: md0)
  ultimately show ?thesis
    using written(3,15) by (auto simp: extends_def)
qed

end

section \<open>The new version\<close>

text \<open>The directories and the files of the entries of a run.\<close>

definition entryDirs :: "'s SourceEntry list \<Rightarrow> string list" where
  "entryDirs es = map (\<lambda>e. TrimSuffix (se_Path e) ''/'') (filter isDirEntry es)"

definition entryFiles :: "'s SourceEntry list \<Rightarrow> (string \<times> FileLeaf) list" where
  "entryFiles es = map (\<lambda>e. (se_Path e, \<lparr>fl_Crc32 = se_CRC32 e, fl_UncompressedSize = se_Size e\<rparr>)) (filter (\<lambda>e. \<not> isDirEntry e) es)"

lemma emptyDirs_cong:
  "set ds = set ds' \<Longrightarrow> fst ` set fs = fst ` set fs' \<Longrightarrow> emptyDirs ds fs = emptyDirs ds' fs'"
proof -
  assume eq: "set ds = set ds'" "fst ` set fs = fst ` set fs'"
  have all: "list_all (\<lambda>x. P (fst x)) gs \<longleftrightarrow> (\<forall>y \<in> fst ` set gs. P y)" for P and gs :: "(string \<times> FileLeaf) list"
    by (simp add: list_all_iff)
  show ?thesis
    unfolding emptyDirs_def all [where P = "\<lambda>y. \<not> strict_prefix _ (Split CHR ''/'' y)"] eq list_all_iff [of _ ds] list_all_iff [of _ ds'] ..
qed

text \<open>The results of a complete run are for exactly the entries.\<close>

lemma results_sets:
  assumes "mset (map (\<lambda>x. (rs_path x, rs_isDir x)) rs) = mset (map (\<lambda>e. (se_Path e, isDirEntry e)) es)"
  shows "{rs_path x | x. x \<in> set rs \<and> \<not> rs_isDir x} = {se_Path e | e. e \<in> set es \<and> \<not> isDirEntry e}"
    and "(\<lambda>x. TrimSuffix (rs_path x) ''/'') ` {x \<in> set rs. rs_isDir x} = set (entryDirs es)"
proof -
  have eq: "(\<lambda>x. (rs_path x, rs_isDir x)) ` set rs = (\<lambda>e. (se_Path e, isDirEntry e)) ` set es"
    using mset_eq_setD [OF assms] by simp
  have sel: "{rs_path x | x. x \<in> set rs \<and> rs_isDir x = b} = {se_Path e | e. e \<in> set es \<and> isDirEntry e = b}" for b
  proof -
    have "{rs_path x | x. x \<in> set rs \<and> rs_isDir x = b} = {p. (p, b) \<in> (\<lambda>x. (rs_path x, rs_isDir x)) ` set rs}" by auto
    also have "\<dots> = {se_Path e | e. e \<in> set es \<and> isDirEntry e = b}" unfolding eq by auto
    finally show ?thesis .
  qed
  show "{rs_path x | x. x \<in> set rs \<and> \<not> rs_isDir x} = {se_Path e | e. e \<in> set es \<and> \<not> isDirEntry e}"
    using sel [of False] by simp
  have "(\<lambda>x. TrimSuffix (rs_path x) ''/'') ` {x \<in> set rs. rs_isDir x} = (\<lambda>p. TrimSuffix p ''/'') ` {rs_path x | x. x \<in> set rs \<and> rs_isDir x = True}"
    by auto
  also have "\<dots> = set (entryDirs es)" unfolding sel by (auto simp: entryDirs_def)
  finally show "(\<lambda>x. TrimSuffix (rs_path x) ''/'') ` {x \<in> set rs. rs_isDir x} = set (entryDirs es)" .
qed

text \<open>Leaves carry the key their path was gathered with.\<close>

lemma leafKey_leafFor: "gm_get pool k = Some rec \<Longrightarrow> rec_keyed k rec \<Longrightarrow> leafKey (leafFor pool k) = k"
  by (simp add: leafKey_def leafFor_def rec_keyed_def)

lemma map_of_map_snd: "map_of (map (\<lambda>(q, k). (q, f k)) xs) q = map_option f (map_of xs q)"
  by (induction xs) auto

text \<open>The tree of the gathered results resolves to the gathered paths.\<close>

lemma resultTree_resolves:
  assumes tree: "resultTree (gather rs) = Inr n" and hash: "buildAndHash mar n [] = Inr (h, newTrees)"
    and nc: "no_collision mar (emittedNodes mar n)" and errs: "\<forall>x \<in> set rs. rs_err x = None"
    and sets: "mset (map (\<lambda>x. (rs_path x, rs_isDir x)) rs) = mset (map (\<lambda>e. (se_Path e, isDirEntry e)) es)"
    and paths: "list_all entry_path_ok es"
    and keyed: "\<And>p k. gm_get (ga_paths (gather rs)) p = Some k \<Longrightarrow> \<exists>rec. gm_get (ga_pool (gather rs)) k = Some rec \<and> rec_keyed k rec"
    and dom: "dom (gm_get (ga_paths (gather rs))) = {rs_path x | x. x \<in> set rs \<and> \<not> rs_isDir x}"
    and grow: "\<And>k v. gm_get newTrees k = Some v \<Longrightarrow> gm_get trees k = Some v" and fuel: "dn_depth n \<le> fuel"
  shows "\<exists>fs ds. walkTree mar fuel h [] trees False ([], []) = Some (Inr (fs, ds)) \<and>
    gm_get fs = gm_get (ga_paths (gather rs)) \<and> dom (gm_get fs) = {se_Path e | e. e \<in> set es \<and> \<not> isDirEntry e} \<and>
    set ds = emptyDirs (entryDirs es) (entryFiles es)"
proof -
  let ?g = "gather rs"
  let ?F = "map (\<lambda>(q, k). (q, leafFor (ga_pool ?g) k)) (ga_paths ?g)" and ?D = "map fst (ga_dirs ?g)"
  note rsets = results_sets [OF sets]
  have dirs: "set ?D = set (entryDirs es)" using gather_maps(3) [OF errs] rsets(2) by simp
  have fpaths: "fst ` set ?F = {se_Path e | e. e \<in> set es \<and> \<not> isDirEntry e}"
  proof -
    have "fst ` set ?F = fst ` set (ga_paths ?g)" by force
    then show ?thesis using dom rsets(1) by (simp add: dom_map_of_conv_image_fst)
  qed
  have wf: "gm_wf ?F"
    using gather_wf [of rs] by (simp add: gm_wf_def comp_def case_prod_unfold)
  have dvalid: "list_all valid_name (Split CHR ''/'' d)" if "d \<in> set ?D" for d
    using that paths unfolding dirs by (auto simp: entryDirs_def list_all_iff entry_path_ok_def)
  have fvalid: "list_all (\<lambda>x. list_all valid_name (Split CHR ''/'' (fst x))) ?F"
    unfolding list_all_iff [of "\<lambda>x. list_all valid_name (Split CHR ''/'' (fst x))"]
  proof
    fix x assume "x \<in> set ?F"
    then obtain e where e: "fst x = se_Path e" "e \<in> set es" "\<not> isDirEntry e" using fpaths by blast
    with paths have "entry_path_ok e" by (simp add: list_all_iff)
    from file_path_ok [OF this e(3)] show "list_all valid_name (Split CHR ''/'' (fst x))" by (simp only: e(1))
  qed
  obtain fs ds where walk: "walkTree mar fuel h [] trees False ([], []) = Some (Inr (fs, ds))"
    "gm_get fs = map_option leafKey \<circ> gm_get ?F" "set ds = emptyDirs ?D ?F"
    using build_walk_in [OF tree [unfolded resultTree_def] wf dvalid fvalid hash nc fuel grow] by blast
  have "gm_get fs q = gm_get (ga_paths ?g) q" for q
    using keyed [of q] leafKey_leafFor
    by (cases "gm_get (ga_paths ?g) q") (auto simp: walk(2) map_of_map_snd)
  then have "gm_get fs = gm_get (ga_paths ?g)" ..
  moreover have "emptyDirs ?D ?F = emptyDirs (entryDirs es) (entryFiles es)"
    by (rule emptyDirs_cong [OF dirs]) (use fpaths in \<open>auto simp: entryFiles_def image_iff\<close>)
  ultimately show ?thesis
    using walk dom rsets(1) by auto
qed

text \<open>
  What a store promises once the metadata of a run is written: the new version is listed beside the
  old ones (alone in single-version mode) and resolves to the files and empty directories of the
  entries, each file under the key the run found for that very entry and with a record; and a part
  is missing only where the old metadata recorded it and it was missing already.
\<close>

definition part_lost :: "('s \<Rightarrow> BackupMetadata option) \<Rightarrow> ('s \<Rightarrow> string \<Rightarrow> bytes option) \<Rightarrow> 's \<Rightarrow> string \<Rightarrow> bool" where
  "part_lost st_md contents s k \<longleftrightarrow> contents s (partKeyFor k) = None \<and> (\<exists>md. st_md s = Some md \<and> gm_has (Files md) k)"

definition versions_of :: "BackupMetadata option \<Rightarrow> string \<Rightarrow> Version option" where
  "versions_of st_md = (case st_md of None \<Rightarrow> Map.empty | Some md \<Rightarrow> gm_get (Versions md))"

definition backup_written ::
  "md_unmarshal \<Rightarrow> tree_marshal \<Rightarrow> zipLib \<Rightarrow> backupEnv \<Rightarrow> ('s \<Rightarrow> 's SourceEntry list result \<times> 's) \<Rightarrow> ('s, 'w) Storage \<Rightarrow>
     ('s \<Rightarrow> string \<Rightarrow> bytes option) \<Rightarrow> BackupOptions \<Rightarrow> 's \<Rightarrow> 's prepared \<Rightarrow> 's workers \<Rightarrow> Version \<Rightarrow> 's \<Rightarrow> BackupMetadata \<Rightarrow> bool" where
  "backup_written unmarshal mar Z env listSrc S contents opts s p st v s' md' \<longleftrightarrow>
     stored unmarshal contents s' = Some md' \<and> recs_keyed md' \<and>
     gm_get (Versions md') =
       (if bo_SingleVersionMode opts then Map.empty else versions_of (stored unmarshal contents s))(FormatUint (SnowflakeId v) \<mapsto> v) \<and>
     (\<forall>k. isValidFileKey k \<and> gm_has (Files md') k \<and> contents s' (partKeyFor k) = None \<longrightarrow> part_lost (stored unmarshal contents) contents s k) \<and>
     (\<exists>N. \<forall>fuel \<ge> N. \<exists>fs ds. ResolveVersionTree mar fuel md' (SnowflakeId v) False = Some (Inr (fs, ds)) \<and>
        dom (gm_get fs) = {se_Path e | e. e \<in> set (pr_entries p) \<and> \<not> isDirEntry e} \<and>
        set ds = emptyDirs (entryDirs (pr_entries p)) (entryFiles (pr_entries p)) \<and>
        (\<forall>q k. gm_get fs q = Some k \<longrightarrow> isValidFileKey k \<and> gm_has (Files md') k \<and>
           (\<exists>e \<in> set (pr_entries p). se_Path e = q \<and> \<not> isDirEntry e \<and> run_key unmarshal Z env listSrc S opts s p st e k)))"

lemma recs_keyedI: "gm_wf (Files md) \<Longrightarrow> (\<And>k rec. gm_get (Files md) k = Some rec \<Longrightarrow> rec_keyed k rec) \<Longrightarrow> recs_keyed md"
  by (auto simp: recs_keyed_def list_all_iff gm_wf_def)

context keyed_storage
begin

text \<open>The records and the parts, after the metadata of a run is written.\<close>

lemma written_records:
  assumes fr: "frame (Files md) s w" and pool: "pool_ok (Files md) w pool" and old: "recs_keyed md" and "md_wf md'"
    and files: "gm_get (Files md') = (if single then Map.empty else gm_get (Files md)) ++ gm_get pool"
    and parts: "\<And>k. isValidFileKey k \<Longrightarrow> gm_has (Files md') k \<Longrightarrow> contents s' (partKeyFor k) = contents w (partKeyFor k)"
  shows "recs_keyed md'"
    and "\<And>k. isValidFileKey k \<Longrightarrow> gm_has (Files md') k \<Longrightarrow> contents s' (partKeyFor k) = None \<Longrightarrow>
      contents s (partKeyFor k) = None \<and> gm_has (Files md) k"
proof -
  have cases: "gm_get (Files md) k = Some rec \<or> uploaded w k rec" if "gm_get (Files md') k = Some rec" for k rec
    using that pool unfolding files pool_ok_def by (auto simp: map_add_Some_iff split: if_splits)
  show "recs_keyed md'"
  proof (rule recs_keyedI)
    show "gm_wf (Files md')" using assms(4) by (simp add: md_wf_def)
    show "rec_keyed k rec" if "gm_get (Files md') k = Some rec" for k rec
      using cases [OF that] recs_keyedD [OF old] by (auto simp: uploaded_def)
  qed
  show "contents s (partKeyFor k) = None \<and> gm_has (Files md) k"
    if k: "isValidFileKey k" "gm_has (Files md') k" "contents s' (partKeyFor k) = None" for k
  proof -
    obtain rec where "gm_get (Files md') k = Some rec" using k(2) by blast
    moreover have "contents w (partKeyFor k) = None" using parts [OF k(1,2)] k(3) by simp
    ultimately have "gm_get (Files md) k = Some rec" using cases by (fastforce simp: uploaded_def)
    then have "gm_has (Files md) k" by simp
    with frame_part [OF fr k(1)] \<open>contents w (partKeyFor k) = None\<close> show ?thesis by simp
  qed
qed

text \<open>The key under which a path was gathered is the one found for an entry of that path.\<close>

lemma gathered_entry:
  assumes "\<forall>x \<in> set rs. rs_err x = None"
    and "\<forall>x \<in> set rs. \<not> rs_isDir x \<longrightarrow> (\<exists>e \<in> E. \<not> isDirEntry e \<and> rs_path x = se_Path e \<and> F e (rs_key x))"
    and "gm_get (ga_paths (gather rs)) q = Some k"
  shows "\<exists>e \<in> E. se_Path e = q \<and> \<not> isDirEntry e \<and> F e k"
proof -
  obtain x where "x \<in> set (file_results rs)" "q = rs_path x" "k = rs_key x"
    using assms(3) unfolding gather_maps(1) [OF assms(1)] by (auto dest!: map_of_SomeD)
  with assms(1,2) show ?thesis by (fastforce simp: file_results_def)
qed

lemma run_written:
  assumes codec: "md_codec unmarshal marshal" and "inv s" and src: "source_ok contents key_ok inv listSrc"
    and keys: "gm_wf (bo_PublicKeys opts)"
    and run: "backupRuns unmarshal marshal mar Z env listSrc S opts s p st res s'"
    and old: "\<And>md. stored unmarshal contents s = Some md \<Longrightarrow> recs_keyed md"
    and nc: "\<And>n. resultTree (gather (wk_results st)) = Inr n \<Longrightarrow> no_collision mar (emittedNodes mar n)"
  obtains (unwritten) md e where "start_md (stored unmarshal contents) s (pr_hasOld p) md" "res = Inl e" "frame (Files md) s s'"
    | (written) v md' where "inv s'" "backup_written unmarshal mar Z env listSrc S contents opts s p st v s' md'"
      "\<forall>v'. res = Inr v' \<longrightarrow> v' = v"
      "\<forall>e. res = Inl e \<longrightarrow> (\<exists>x b. e = Errorf [x] \<and> unmarshal b = Some md' \<and>
         st_Write S CallerCtx metadataPath b (wk_world st) = (Some x, s')) \<and>
         (\<forall>md k. stored unmarshal contents s = Some md \<and> isValidFileKey k \<and> gm_has (Files md) k \<longrightarrow>
            contents s' (partKeyFor k) = contents s (partKeyFor k))"
  using codec assms(2) src keys run
proof (cases rule: run_cases)
  case (unwritten md e)
  then show thesis by (intro that(1)) auto
next
  case (written md0 md' n h newTrees vid seq)
  let ?g = "gather (wk_results st)" and ?v = "newVersion env opts (latestVersion md0) vid h"
  note maps = written_maps [OF written(2,13,17)]
  have md0: "md0 = md" if "stored unmarshal contents s = Some md" for md
    using that written(1) by (simp add: start_md_def split: if_splits)
  have start: "stored unmarshal contents s = Some md0 \<or> Files md0 = []" "versions_of (stored unmarshal contents s) = gm_get (Versions md0)"
    using written(1) by (auto simp: start_md_def versions_of_def split: if_splits)
  have "recs_keyed md0" using start(1) old by (auto simp: recs_keyed_def)
  note recs = written_records [OF written(4,5) this written(16) maps(3)]
  have kept: "contents s' (partKeyFor k) = contents (wk_world st) (partKeyFor k)" if "isValidFileKey k" "gm_has (Files md') k" for k
    using written(18) that by blast
  have lost: "part_lost (stored unmarshal contents) contents s k"
    if "isValidFileKey k" "gm_has (Files md') k" "contents s' (partKeyFor k) = None" for k
    using recs(2) [OF kept that] start(1) by (auto simp: part_lost_def)
  have pool: "\<exists>rec. gm_get (ga_pool ?g) k = Some rec \<and> rec_keyed k rec \<and> isValidFileKey k \<and> gm_has (Files md') k"
    if u: "gm_get (ga_paths ?g) q = Some k" for q k
  proof -
    obtain rec where rec: "gm_get (ga_pool ?g) k = Some rec"
      using gather_pool(2) [OF written(7,6) u] by blast
    then have "gm_get (Files md') k = Some rec" unfolding maps by simp
    with recs(1) [OF kept] rec written(5) show ?thesis by (auto simp: pool_ok_def dest: recs_keyedD)
  qed
  have grow: "gm_get (Trees md') k = Some x" if "gm_get newTrees k = Some x" for k x
    using that unfolding maps by simp
  have res: "\<exists>fs ds. ResolveVersionTree mar fuel md' (SnowflakeId ?v) False = Some (Inr (fs, ds)) \<and>
      gm_get fs = gm_get (ga_paths ?g) \<and> dom (gm_get fs) = {se_Path e | e. e \<in> set (pr_entries p) \<and> \<not> isDirEntry e} \<and>
      set ds = emptyDirs (entryDirs (pr_entries p)) (entryFiles (pr_entries p))" if fuel: "dn_depth n \<le> fuel" for fuel
  proof -
    have "ResolveVersionTree mar fuel md' (SnowflakeId ?v) False = walkTree mar fuel h [] (Trees md') False ([], [])"
      unfolding ResolveVersionTree_def maps by (simp add: newVersion_def)
    then show ?thesis
      using resultTree_resolves [OF written(12,13) nc [OF written(12)] written(7,8,9) _ gather_pool(3) [OF written(7,6)] grow fuel] pool
      by (metis (no_types, lifting))
  qed
  have "backup_written unmarshal mar Z env listSrc S contents opts s p st ?v s' md'"
    unfolding backup_written_def
  proof (intro conjI exI [of _ "dn_depth n"] allI impI)
    fix fuel assume "dn_depth n \<le> fuel"
    note r = res [OF this]
    have gk: "isValidFileKey k \<and> gm_has (Files md') k \<and>
        (\<exists>e \<in> set (pr_entries p). se_Path e = q \<and> \<not> isDirEntry e \<and> run_key unmarshal Z env listSrc S opts s p st e k)"
      if "gm_get (ga_paths ?g) q = Some k" for q k
      using pool [OF that] gathered_entry [OF written(7,21) that] by blast
    from r show "\<exists>fs ds. ResolveVersionTree mar fuel md' (SnowflakeId ?v) False = Some (Inr (fs, ds)) \<and>
        dom (gm_get fs) = {se_Path e | e. e \<in> set (pr_entries p) \<and> \<not> isDirEntry e} \<and>
        set ds = emptyDirs (entryDirs (pr_entries p)) (entryFiles (pr_entries p)) \<and>
        (\<forall>q k. gm_get fs q = Some k \<longrightarrow> isValidFileKey k \<and> gm_has (Files md') k \<and>
           (\<exists>e \<in> set (pr_entries p). se_Path e = q \<and> \<not> isDirEntry e \<and> run_key unmarshal Z env listSrc S opts s p st e k))"
    proof (elim ex_forward conjE, intro conjI)
      fix fs ds assume "gm_get fs = gm_get (ga_paths ?g)"
      with gk show "\<forall>q k. gm_get fs q = Some k \<longrightarrow> isValidFileKey k \<and> gm_has (Files md') k \<and>
           (\<exists>e \<in> set (pr_entries p). se_Path e = q \<and> \<not> isDirEntry e \<and> run_key unmarshal Z env listSrc S opts s p st e k)"
        by simp
    qed
  qed (use written(15) recs(1) [OF kept] lost maps(1) start(2) in auto)
  moreover have "contents s' (partKeyFor k) = contents s (partKeyFor k)"
    if "res = Inl e" "stored unmarshal contents s = Some md" "isValidFileKey k" "gm_has (Files md) k" for e md k
    using written(18) that frame_part [OF written(4) that(3)] md0 by simp
  ultimately show thesis
    using written(3,19,20) by (intro that(2)) blast+
qed

lemma run_restorable:
  assumes codec: "md_codec unmarshal marshal" and "inv s" and src: "source_ok contents key_ok inv listSrc"
    and keys: "gm_wf (bo_PublicKeys opts)"
    and run: "backupRuns unmarshal marshal mar Z env listSrc S opts s p st (Inr v) s'"
    and old: "\<And>md. stored unmarshal contents s = Some md \<Longrightarrow> recs_keyed md"
    and nc: "\<And>n. resultTree (gather (wk_results st)) = Inr n \<Longrightarrow> no_collision mar (emittedNodes mar n)"
  shows "\<exists>md'. backup_written unmarshal mar Z env listSrc S contents opts s p st v s' md'"
  using assms by (cases rule: run_written) auto

text \<open>A run whose result is an error has left the metadata alone, or the write that failed had replaced it.\<close>

lemma run_error:
  assumes codec: "md_codec unmarshal marshal" and "inv s" and src: "source_ok contents key_ok inv listSrc"
    and keys: "gm_wf (bo_PublicKeys opts)" and run: "RunBackup unmarshal marshal mar Z env listSrc S opts s (Inl e) s'"
    and old: "\<And>md. stored unmarshal contents s = Some md \<Longrightarrow> recs_keyed md"
    and nc: "\<And>p st n. backupRuns unmarshal marshal mar Z env listSrc S opts s p st (Inl e) s' \<Longrightarrow>
      resultTree (gather (wk_results st)) = Inr n \<Longrightarrow> no_collision mar (emittedNodes mar n)"
  shows "inv s' \<and>
    (\<forall>md k. stored unmarshal contents s = Some md \<and> isValidFileKey k \<and> gm_has (Files md) k \<longrightarrow>
       contents s' (partKeyFor k) = contents s (partKeyFor k)) \<and>
    (stored unmarshal contents s' = stored unmarshal contents s \<or>
     (\<exists>p st v md' x b. backupRuns unmarshal marshal mar Z env listSrc S opts s p st (Inl e) s' \<and>
        e = Errorf [x] \<and> unmarshal b = Some md' \<and> st_Write S CallerCtx metadataPath b (wk_world st) = (Some x, s') \<and>
        backup_written unmarshal mar Z env listSrc S contents opts s p st v s' md'))"
proof -
  consider (refused) "prepareBackup unmarshal env listSrc S CallerCtx opts s = (Inl e, s')"
    | (ran) p st where "backupRuns unmarshal marshal mar Z env listSrc S opts s p st (Inl e) s'"
    using run by (auto elim: RunBackup_err)
  then show ?thesis
  proof cases
    case refused
    note pu = prepare_unchanged [OF assms(2) src refused]
    have "stored unmarshal contents s' = stored unmarshal contents s" using pu key_tsync by (simp add: stored_def)
    with pu key_partKeyFor show ?thesis by auto
  next
    case (ran p st)
    show ?thesis
    proof (rule run_written [OF codec assms(2) src keys ran], goal_cases keyed hash unwritten written)
      case (keyed md)
      then show ?case by (rule old)
    next
      case (hash n)
      then show ?case by (rule nc [OF ran])
    next
      case (unwritten md e')
      have "md1 = md" if "stored unmarshal contents s = Some md1" for md1
        using that unwritten(1) by (simp add: start_md_def split: if_splits)
      with frame_tsync [OF unwritten(3)] frame_part [OF unwritten(3)] unwritten(3) show ?thesis
        by (auto simp: frame_def)
    next
      case (written v md')
      with ran show ?thesis by blast
    qed
  qed
qed

text \<open>The metadata of a successful run, whatever the store held before.\<close>

lemma run_label:
  assumes codec: "md_codec unmarshal marshal" and "inv s" and src: "source_ok contents key_ok inv listSrc"
    and keys: "gm_wf (bo_PublicKeys opts)" and run: "RunBackup unmarshal marshal mar Z env listSrc S opts s (Inr v) s'"
  shows "\<exists>md'. stored unmarshal contents s' = Some md' \<and> gm_has (Versions md') (FormatUint (SnowflakeId v)) \<and> StoreLabel md' = None"
proof -
  obtain p st where "backupRuns unmarshal marshal mar Z env listSrc S opts s p st (Inr v) s'"
    using run by (auto elim: RunBackup_ok)
  with codec assms(2) src keys show ?thesis
  proof (cases rule: run_cases)
    case (written md md' n h newTrees vid seq)
    have "v = newVersion env opts (latestVersion md) vid h" using written(19) by simp
    then have "gm_has (Versions md') (FormatUint (SnowflakeId v))"
      unfolding written_maps(1) [OF written(2,13,17)] by simp
    moreover have "StoreLabel md' = None" using written(17) by (simp add: md_same_def finalMetadata_def Let_def)
    ultimately show ?thesis using written(15) by blast
  qed simp
qed

end

text \<open>A prepared run can always be completed.\<close>

lemma backup_completes:
  assumes "prepareBackup unmarshal env listSrc S CallerCtx opts s = (Inr p, s1)"
    and "chooseVersionID env opts (Versions (pr_metadata p)) \<noteq> None"
  shows "\<exists>st res s'. backupRuns unmarshal marshal mar Z env listSrc S opts s p st res s'"
proof -
  obtain st where st: "wreach Z (pr_run p) S (startWorkers opts (pr_entries p) None s1) st" "all_exited st"
    using workers_finish [OF wk_inv_start [of "pr_entries p" opts None s1], of Z "pr_run p" S] by blast
  have "\<exists>x. finishBackup marshal mar env S CallerCtx opts p (wk_results st) (wk_parent st) (wk_cause st) (wk_world st) = Some x"
    using assms(2) by (auto simp: finishBackup_def Let_def split: option.splits sum.splits)
  with st assms(1) show ?thesis unfolding backupRuns_def by (metis surj_pair)
qed

end
