(* ===== verification/ObjectStorage.thy ===== *)
theory ObjectStorage
  imports Storage
begin

text \<open>
  Object storage (\<open>ObjectStorage\<close> and \<open>objectStorageWriter\<close> in \<open>src/tsync/storage.go\<close>) over
  any \<open>ObjectStorageClient\<close>. The writer buffers one part at a time, starts a multipart upload
  when a full buffer is followed by more data, and commits with one \<open>PutObject\<close> or one
  \<open>Complete\<close>. The locale \<open>object_client\<close> states what a provider promises; in it the whole
  \<open>storage\<close> contract is derived.
\<close>

section \<open>Part sizes\<close>

definition initialPartSize :: int where "initialPartSize = 8 * 2 ^ 20"
definition maxPartSize :: int where "maxPartSize = 5 * 2 ^ 30"
definition partSizeStep :: int where "partSizeStep = 1000"
definition maxMultipartParts :: int where "maxMultipartParts = 10000"

fun partSize_loop :: "nat \<Rightarrow> int \<Rightarrow> int" where
  "partSize_loop 0 sz = sz"
| "partSize_loop (Suc shift) sz =
     (if sz < maxPartSize then partSize_loop shift (wrap64 (sz * 2)) else sz)"

definition partSizeFor :: "int \<Rightarrow> int" where
  "partSizeFor n =
     (let shift = go_quot (n - 1) partSizeStep;
          shift = (if shift < 0 then 0 else shift);
          sz = partSize_loop (nat shift) initialPartSize
      in if maxPartSize < sz then maxPartSize else sz)"

lemma partSize_loop_bounds:
  "0 < sz \<Longrightarrow> sz < 2 * maxPartSize \<Longrightarrow>
     sz \<le> partSize_loop k sz \<and> partSize_loop k sz < 2 * maxPartSize"
proof (induction k arbitrary: sz)
  case (Suc k)
  show ?case
  proof (cases "sz < maxPartSize")
    case True
    then have "wrap64 (sz * 2) = sz * 2"
      using Suc.prems by (intro wrap64_id) (simp add: is_int64_def maxPartSize_def)
    with True Suc.IH [of "sz * 2"] Suc.prems show ?thesis by auto
  qed (use Suc.prems in simp)
qed simp

lemma partSize_loop_pow:
  "0 < sz \<Longrightarrow> sz < 2 * maxPartSize \<Longrightarrow>
     min (partSize_loop k sz) maxPartSize = min (sz * 2 ^ k) maxPartSize"
proof (induction k arbitrary: sz)
  case (Suc k)
  show ?case
  proof (cases "sz < maxPartSize")
    case True
    then have "wrap64 (sz * 2) = sz * 2"
      using Suc.prems by (intro wrap64_id) (simp add: is_int64_def maxPartSize_def)
    with True Suc.IH [of "sz * 2"] Suc.prems show ?thesis by (simp add: mult.assoc)
  next
    case False
    have "sz * 1 \<le> sz * 2 ^ Suc k"
      using Suc.prems(1) by (intro mult_left_mono) (simp_all del: power_Suc)
    with False show ?thesis by simp
  qed
qed simp

text \<open>The loop computes the doubled size with the cap, for every part number.\<close>

lemma partSizeFor_eq:
  "partSizeFor n = min (initialPartSize * 2 ^ nat (go_quot (n - 1) partSizeStep)) maxPartSize"
proof -
  have "min (partSize_loop k initialPartSize) maxPartSize = min (initialPartSize * 2 ^ k) maxPartSize" for k
    by (rule partSize_loop_pow) (simp_all add: initialPartSize_def maxPartSize_def)
  then have loop: "(if maxPartSize < partSize_loop k initialPartSize then maxPartSize
      else partSize_loop k initialPartSize) = min (initialPartSize * 2 ^ k) maxPartSize" for k
    by (metis min.strict_order_iff min.commute not_less min_def)
  have "nat (if x < 0 then 0 else x) = nat x" for x by simp
  then show ?thesis
    unfolding partSizeFor_def Let_def loop by simp
qed

lemma partSizeFor_pos [simp]: "0 < partSizeFor n"
  by (simp add: partSizeFor_eq initialPartSize_def maxPartSize_def)

lemma partSizeFor_le: "partSizeFor n \<le> maxPartSize"
  by (simp add: partSizeFor_eq)

lemma partSizeFor_one: "partSizeFor 1 = initialPartSize"
  by (simp add: partSizeFor_eq go_quot_def initialPartSize_def maxPartSize_def)

lemma partSizeFor_ge: "initialPartSize \<le> partSizeFor n"
proof -
  have "(1::int) \<le> 2 ^ k" for k :: nat by simp
  then have "initialPartSize * 1 \<le> initialPartSize * 2 ^ k" for k :: nat
    by (intro mult_left_mono) (simp_all add: initialPartSize_def)
  then show ?thesis
    by (simp add: partSizeFor_eq) (simp add: initialPartSize_def maxPartSize_def)
qed

text \<open>The capacity of \<open>n\<close> parts, by blocks of \<open>partSizeStep\<close> parts.\<close>

lemma partSizeFor_block:
  "int b * 1000 < n \<Longrightarrow> n \<le> (int b + 1) * 1000 \<Longrightarrow>
     partSizeFor n = min (initialPartSize * 2 ^ b) maxPartSize"
proof -
  assume n: "int b * 1000 < n" "n \<le> (int b + 1) * 1000"
  then have "go_quot (n - 1) partSizeStep = (n - 1) div 1000"
    by (subst go_quot_nonneg) (auto simp: partSizeStep_def)
  also have "\<dots> = (int b * 1000 + (n - 1 - int b * 1000)) div 1000" by simp
  also have "\<dots> = int b"
    using n by (simp only: div_mult_self3 div_pos_pos_trivial) simp
  finally show ?thesis by (simp add: partSizeFor_eq)
qed

lemma sum_block:
  "(\<Sum>n\<in>{int b * 1000 <.. (int b + 1) * 1000}. partSizeFor n) =
     1000 * min (initialPartSize * 2 ^ b) maxPartSize"
proof -
  have "(\<Sum>n\<in>{int b * 1000 <.. (int b + 1) * 1000}. partSizeFor n) =
      (\<Sum>n\<in>{int b * 1000 <.. (int b + 1) * 1000}. min (initialPartSize * 2 ^ b) maxPartSize)"
    by (intro sum.cong) (auto intro: partSizeFor_block)
  then show ?thesis by simp
qed

lemma sum_blocks:
  "(\<Sum>n\<in>{0 <.. int k * 1000}. partSizeFor n) =
     (\<Sum>b<k. 1000 * min (initialPartSize * 2 ^ b) maxPartSize)"
proof (induction k)
  case (Suc k)
  have "{0 <.. int (Suc k) * 1000} = {0 <.. int k * 1000} \<union> {int k * 1000 <.. (int k + 1) * 1000}"
    by auto
  then have "(\<Sum>n\<in>{0 <.. int (Suc k) * 1000}. partSizeFor n) =
      (\<Sum>n\<in>{0 <.. int k * 1000}. partSizeFor n) + (\<Sum>n\<in>{int k * 1000 <.. (int k + 1) * 1000}. partSizeFor n)"
    by (simp only:) (intro sum.union_disjoint, auto)
  then show ?case by (simp only: Suc.IH sum_block sum.lessThan_Suc)
qed simp

lemma total_capacity:
  "(\<Sum>n\<in>{0 <.. maxMultipartParts}. partSizeFor n) = 8184000 * 2 ^ 20"
proof -
  have parts: "maxMultipartParts = int 10 * 1000" by (simp add: maxMultipartParts_def)
  have "{..<10::nat} = {0, 1, 2, 3, 4, 5, 6, 7, 8, 9}" by auto
  then show ?thesis
    unfolding parts sum_blocks by (simp add: initialPartSize_def maxPartSize_def)
qed


section \<open>The buffered writer\<close>

record objectStorageWriter =
  ow_ctx :: ctx
  ow_bucket :: string
  ow_key :: string
  ow_uploadID :: string
  ow_partNumber :: int
  ow_buf :: bytes
  ow_cap :: int
  ow_pooled :: bool
  ow_etags :: "(int, string) gomap"
  ow_err :: "err option"
  ow_closed :: bool

definition newObjectStorageWriter :: "ctx \<Rightarrow> string \<Rightarrow> string \<Rightarrow> objectStorageWriter" where
  "newObjectStorageWriter c bucket key =
     \<lparr>ow_ctx = c, ow_bucket = bucket, ow_key = key, ow_uploadID = [], ow_partNumber = 1,
      ow_buf = [], ow_cap = 0, ow_pooled = False, ow_etags = [], ow_err = None, ow_closed = False\<rparr>"

text \<open>
  The buffer is its contents, its capacity and whether it belongs to \<open>partBufPool\<close> (whose
  buffers all have capacity \<open>initialPartSize\<close>).
\<close>

definition releaseBuffer :: "objectStorageWriter \<Rightarrow> objectStorageWriter" where
  "releaseBuffer w = w\<lparr>ow_pooled := False, ow_buf := [], ow_cap := 0\<rparr>"

definition ensureBuffer :: "int \<Rightarrow> objectStorageWriter \<Rightarrow> objectStorageWriter" where
  "ensureBuffer sz w =
     (if sz \<le> ow_cap w then w
      else if sz = initialPartSize
      then (releaseBuffer w)\<lparr>ow_pooled := True, ow_buf := [], ow_cap := initialPartSize\<rparr>
      else (releaseBuffer w)\<lparr>ow_buf := [], ow_cap := sz\<rparr>)"

definition uploadBufferedPart ::
  "'s ObjectStorageClient \<Rightarrow> objectStorageWriter \<Rightarrow> 's \<Rightarrow> err option \<times> objectStorageWriter \<times> 's" where
  "uploadBufferedPart C w s =
     (if maxMultipartParts < ow_partNumber w then (Some (Errorf []), w, s)
      else
        let put = (\<lambda>w s.
          case UploadPart C (ow_ctx w) (ow_bucket w) (ow_key w) (ow_uploadID w) (ow_partNumber w) (ow_buf w) s of
            (Inl e, s) \<Rightarrow> (Some (Errorf [e]), w, s)
          | (Inr etag, s) \<Rightarrow>
              (None, w\<lparr>ow_etags := gm_put (ow_partNumber w) etag (ow_etags w),
                       ow_partNumber := ow_partNumber w + 1, ow_buf := []\<rparr>, s))
        in if ow_uploadID w = [] then
             (case Initiate C (ow_ctx w) (ow_bucket w) (ow_key w) s of
                (Inl e, s) \<Rightarrow> (Some (Errorf [e]), w, s)
              | (Inr uid, s) \<Rightarrow> put (w\<lparr>ow_uploadID := uid, ow_etags := []\<rparr>) s)
           else put w s)"

text \<open>
  The loop of \<open>Write\<close>. An append of a negative number of bytes would panic; it is kept as the
  last branch and shown unreachable.
\<close>

definition slice_panic :: err where "slice_panic = Foreign ''slice bounds out of range''"

definition fillBuffer :: "int \<Rightarrow> bytes \<Rightarrow> objectStorageWriter \<Rightarrow> nat \<times> objectStorageWriter" where
  "fillBuffer sz p w =
     (let w = (if ow_buf w = [] then ensureBuffer sz w else w);
          n = nat (min (int (length p)) (sz - int (length (ow_buf w))))
      in (n, w\<lparr>ow_buf := ow_buf w @ take n p\<rparr>))"

lemma fst_fillBuffer:
  "fst (fillBuffer sz p w) = nat (min (int (length p)) (sz - int (length (ow_buf w))))"
  by (simp add: fillBuffer_def Let_def ensureBuffer_def releaseBuffer_def)

lemma uploadBufferedPart_buf:
  "uploadBufferedPart C w s = (None, w', s') \<Longrightarrow> ow_buf w' = []"
  by (auto simp: uploadBufferedPart_def Let_def split: if_splits sum.splits prod.splits)

lemma fillBuffer_pos:
  "(n, w') = fillBuffer sz p w \<Longrightarrow> int (length (ow_buf w)) < sz \<Longrightarrow> p \<noteq> [] \<Longrightarrow> 0 < n"
  using fst_fillBuffer [of sz p w] by (auto dest: arg_cong [of _ _ fst])

function owWrite_loop ::
  "'s ObjectStorageClient \<Rightarrow> bytes \<Rightarrow> int \<Rightarrow> objectStorageWriter \<Rightarrow> 's \<Rightarrow>
     (int \<times> err option) \<times> objectStorageWriter \<times> 's" where
  "owWrite_loop C p written w s =
     (if p = [] then ((written, None), w, s)
      else if int (length (ow_buf w)) = partSizeFor (ow_partNumber w) then
        (case uploadBufferedPart C w s of
           (Some e, w', s') \<Rightarrow> ((written, Some e), w'\<lparr>ow_err := Some e\<rparr>, s')
         | (None, w', s') \<Rightarrow>
             let (n, w'') = fillBuffer (partSizeFor (ow_partNumber w')) p w'
             in owWrite_loop C (drop n p) (written + int n) w'' s')
      else if int (length (ow_buf w)) < partSizeFor (ow_partNumber w) then
        let (n, w'') = fillBuffer (partSizeFor (ow_partNumber w)) p w
        in owWrite_loop C (drop n p) (written + int n) w'' s
      else ((written, Some slice_panic), w, s))"
  by pat_completeness auto
termination
  by (relation "measure (\<lambda>(C, p, written, w, s). length p)")
    (auto dest!: fillBuffer_pos dest: uploadBufferedPart_buf [OF sym])

definition owWrite ::
  "'s ObjectStorageClient \<Rightarrow> objectStorageWriter \<Rightarrow> bytes \<Rightarrow> 's \<Rightarrow>
     (int \<times> err option) \<times> objectStorageWriter \<times> 's" where
  "owWrite C w p s =
     (if ow_closed w then ((0, Some (Sentinel ErrWriterClosed)), w, s)
      else case ow_err w of
             Some e \<Rightarrow> ((0, Some e), w, s)
           | None \<Rightarrow> owWrite_loop C p 0 w s)"

definition abortUpload ::
  "'s ObjectStorageClient \<Rightarrow> objectStorageWriter \<Rightarrow> 's \<Rightarrow> err option \<times> 's" where
  "abortUpload C w s =
     (if ow_uploadID w = [] then (None, s)
      else case Abort C (cleanupContext (ow_ctx w)) (ow_bucket w) (ow_key w) (ow_uploadID w) s of
             (None, s') \<Rightarrow> (None, s')
           | (Some e, s') \<Rightarrow>
               if errIs e ErrUploadNotFound then (None, s') else (Some (Errorf [e]), s'))"

definition owAbort ::
  "'s ObjectStorageClient \<Rightarrow> objectStorageWriter \<Rightarrow> 's \<Rightarrow> err option \<times> objectStorageWriter \<times> 's" where
  "owAbort C w s =
     (if ow_closed w then (None, w, s)
      else let w = releaseBuffer (w\<lparr>ow_closed := True\<rparr>);
               (e, s') = abortUpload C w s
           in (e, w, s'))"

text \<open>The error exits of \<open>Close\<close> and its last step.\<close>

definition owFail ::
  "'s ObjectStorageClient \<Rightarrow> err \<Rightarrow> objectStorageWriter \<Rightarrow> 's \<Rightarrow> err option \<times> objectStorageWriter \<times> 's" where
  "owFail C e w s = (case abortUpload C w s of (ae, s') \<Rightarrow> (joinErr (Some e) ae, releaseBuffer w, s'))"

definition owComplete ::
  "'s ObjectStorageClient \<Rightarrow> objectStorageWriter \<Rightarrow> 's \<Rightarrow> err option \<times> objectStorageWriter \<times> 's" where
  "owComplete C w s =
     (case Complete C (ow_ctx w) (ow_bucket w) (ow_key w) (ow_uploadID w) (ow_etags w) s of
        (Some e, s') \<Rightarrow> owFail C (Errorf [e]) w s'
      | (None, s') \<Rightarrow> (None, releaseBuffer w, s'))"

definition owClose ::
  "'s ObjectStorageClient \<Rightarrow> objectStorageWriter \<Rightarrow> 's \<Rightarrow> err option \<times> objectStorageWriter \<times> 's" where
  "owClose C w s =
     (if ow_closed w then (None, w, s)
      else
        let w = w\<lparr>ow_closed := True\<rparr>
        in case ow_err w of
             Some e \<Rightarrow> owFail C e w s
           | None \<Rightarrow>
               if ow_uploadID w = [] then
                 (case PutObject C (ow_ctx w) (ow_bucket w) (ow_key w) (ow_buf w) s of
                    (e, s') \<Rightarrow> (e, releaseBuffer w, s'))
               else if ow_buf w = [] then owComplete C w s
               else (case uploadBufferedPart C w s of
                       (Some e, w', s') \<Rightarrow> owFail C (Errorf [e]) w' s'
                     | (None, w', s') \<Rightarrow> owComplete C w' s'))"

section \<open>The storage over a client\<close>

definition NewObjectStorage_prefix :: "string \<Rightarrow> string" where
  "NewObjectStorage_prefix px = (if px \<noteq> [] \<and> \<not> HasSuffix px ''/'' then px @ ''/'' else px)"

definition resolveKey :: "string \<Rightarrow> string \<Rightarrow> string" where
  "resolveKey px p = px @ TrimPrefix p ''/''"

definition oExists :: "'s ObjectStorageClient \<Rightarrow> string \<Rightarrow> string \<Rightarrow> ctx \<Rightarrow> string \<Rightarrow> 's \<Rightarrow> bool result \<times> 's" where
  "oExists C bucket px c p s =
     (case GetObjectSize C c bucket (resolveKey px p) s of
        (Inr n, s') \<Rightarrow> (Inr True, s')
      | (Inl e, s') \<Rightarrow> (if errIs e ErrNotFound then Inr False else Inl e, s'))"

definition oRead :: "'s ObjectStorageClient \<Rightarrow> string \<Rightarrow> string \<Rightarrow> ctx \<Rightarrow> string \<Rightarrow> 's \<Rightarrow> bytes result \<times> 's" where
  "oRead C bucket px c p s =
     (case GetObjectRange C c bucket (resolveKey px p) 0 (-1) s of
        (Inl e, s') \<Rightarrow> (Inl e, s')
      | (Inr rc, s') \<Rightarrow> (ReadAll rc, s'))"

definition oWrite :: "'s ObjectStorageClient \<Rightarrow> string \<Rightarrow> string \<Rightarrow> ctx \<Rightarrow> string \<Rightarrow> bytes \<Rightarrow> 's \<Rightarrow> err option \<times> 's" where
  "oWrite C bucket px c p d s = PutObject C c bucket (resolveKey px p) d s"

definition oDelete :: "'s ObjectStorageClient \<Rightarrow> string \<Rightarrow> string \<Rightarrow> ctx \<Rightarrow> string \<Rightarrow> 's \<Rightarrow> err option \<times> 's" where
  "oDelete C bucket px c p s =
     (case DeleteObject C c bucket (resolveKey px p) s of
        (Some e, s') \<Rightarrow> (if errIs e ErrNotFound then None else Some e, s')
      | (None, s') \<Rightarrow> (None, s'))"

text \<open>\<open>clock s\<close> is \<open>time.Now()\<close>, the modification time given to every listed object.\<close>

definition oList ::
  "'s ObjectStorageClient \<Rightarrow> string \<Rightarrow> string \<Rightarrow> ('s \<Rightarrow> int) \<Rightarrow> ctx \<Rightarrow> string \<Rightarrow> 's \<Rightarrow> FileInfo list result \<times> 's" where
  "oList C bucket px clock c pre s =
     (case ListObjects C c bucket (resolveKey px pre) s of
        (Inl e, s') \<Rightarrow> (Inl e, s')
      | (Inr objs, s') \<Rightarrow>
          (Inr (map (\<lambda>o'. \<lparr>fi_Name = TrimPrefix (oi_Name o') px, fi_Size = oi_Size o', fi_LastModified = clock s'\<rparr>) objs), s'))"

definition oOpenReader :: "'s ObjectStorageClient \<Rightarrow> string \<Rightarrow> string \<Rightarrow> ctx \<Rightarrow> string \<Rightarrow> 's \<Rightarrow> reader result \<times> 's" where
  "oOpenReader C bucket px c p s = GetObjectRange C c bucket (resolveKey px p) 0 (-1) s"

definition oOpenWriter :: "string \<Rightarrow> string \<Rightarrow> ctx \<Rightarrow> string \<Rightarrow> 's \<Rightarrow> objectStorageWriter result \<times> 's" where
  "oOpenWriter bucket px c p s = (Inr (newObjectStorageWriter c bucket (resolveKey px p)), s)"

definition oSize :: "'s ObjectStorageClient \<Rightarrow> string \<Rightarrow> string \<Rightarrow> ctx \<Rightarrow> string \<Rightarrow> 's \<Rightarrow> int result \<times> 's" where
  "oSize C bucket px c p s = GetObjectSize C c bucket (resolveKey px p) s"

definition oReadRange ::
  "'s ObjectStorageClient \<Rightarrow> string \<Rightarrow> string \<Rightarrow> ctx \<Rightarrow> string \<Rightarrow> int \<Rightarrow> int \<Rightarrow> 's \<Rightarrow> reader result \<times> 's" where
  "oReadRange C bucket px c p off len s =
     (if len = 0 then (Inr ([], None), s)
      else let endByte = (if 0 < len then wrap64 (off + len - 1) else -1)
           in GetObjectRange C c bucket (resolveKey px p) off endByte s)"

definition ObjectStorage ::
  "'s ObjectStorageClient \<Rightarrow> string \<Rightarrow> string \<Rightarrow> ('s \<Rightarrow> int) \<Rightarrow> ('s, objectStorageWriter) Storage" where
  "ObjectStorage C bucket px clock =
     \<lparr>st_Exists = oExists C bucket px, st_Read = oRead C bucket px, st_Write = oWrite C bucket px,
      st_Delete = oDelete C bucket px, st_List = oList C bucket px clock,
      st_OpenReader = oOpenReader C bucket px, st_OpenWriter = oOpenWriter bucket px,
      st_Size = oSize C bucket px, st_ReadRange = oReadRange C bucket px,
      wr_Write = owWrite C, wr_Close = owClose C, wr_Abort = owAbort C\<rparr>"

section \<open>What a provider promises\<close>

text \<open>
  \<open>obj s b k\<close> is the object at key \<open>k\<close> of bucket \<open>b\<close>; \<open>parts s b k u\<close> the parts of the
  multipart upload \<open>u\<close>, with the tag and the data of each. \<open>Complete\<close> with tags of uploaded
  parts creates the object from them, in the order of the part numbers; nothing else of a
  multipart upload is visible. \<open>nm b k\<close> are the names the client can address without changing them.
\<close>

definition assemble :: "(int \<rightharpoonup> string \<times> bytes) \<Rightarrow> (int, string) gomap \<Rightarrow> bytes" where
  "assemble m etags = concat (map (\<lambda>n. snd (the (m n))) (sort (map fst etags)))"

text \<open>The part numbers a provider accepts.\<close>

definition part_number :: "int \<Rightarrow> bool" where
  "part_number n \<longleftrightarrow> 1 \<le> n \<and> n \<le> maxMultipartParts"

definition tags_of :: "(int \<rightharpoonup> string \<times> bytes) \<Rightarrow> (int, string) gomap \<Rightarrow> bool" where
  "tags_of m etags \<longleftrightarrow> list_all (\<lambda>(n, t). map_option fst (m n) = Some t) etags"

locale object_client =
  fixes C :: "'s ObjectStorageClient"
    and obj :: "'s \<Rightarrow> string \<Rightarrow> string \<Rightarrow> bytes option"
    and parts :: "'s \<Rightarrow> string \<Rightarrow> string \<Rightarrow> string \<Rightarrow> (int \<rightharpoonup> string \<times> bytes) option"
    and nm :: "string \<Rightarrow> string \<Rightarrow> bool"
    and inv :: "'s \<Rightarrow> bool"
  assumes get_law: "inv s \<Longrightarrow> nm b k \<Longrightarrow> GetObjectRange C c b k 0 (-1) s = (rr, s') \<Longrightarrow>
      inv s' \<and> obj s' = obj s \<and>
      (\<forall>d. rr = Inr (d, None) \<longrightarrow> obj s b k = Some d) \<and>
      (\<forall>d e. rr = Inr (d, Some e) \<longrightarrow> \<not> errIs e ErrNotFound) \<and>
      (\<forall>e. rr = Inl e \<and> errIs e ErrNotFound \<longrightarrow> obj s b k = None)"
    and list_law: "inv s \<Longrightarrow> ListObjects C c b px s = (rl, s') \<Longrightarrow>
      inv s' \<and> obj s' = obj s \<and>
      (\<forall>os. rl = Inr os \<longrightarrow> (\<forall>k. nm b k \<and> HasPrefix k px \<and> obj s b k \<noteq> None \<longrightarrow> k \<in> oi_Name ` set os))"
    and initiate_law: "inv s \<Longrightarrow> nm b k \<Longrightarrow> Initiate C c b k s = (ri, s') \<Longrightarrow>
      inv s' \<and> obj s' = obj s \<and>
      (\<forall>u. ri = Inr u \<longrightarrow> u \<noteq> [] \<and> parts s' b k u = Some Map.empty)"
    and upload_law: "inv s \<Longrightarrow> nm b k \<Longrightarrow> part_number n \<Longrightarrow> parts s b k u = Some m \<Longrightarrow> UploadPart C c b k u n d s = (ri, s') \<Longrightarrow>
      inv s' \<and> obj s' = obj s \<and>
      (\<forall>t. ri = Inr t \<longrightarrow> parts s' b k u = Some (m(n \<mapsto> (t, d))))"
    and complete_law: "inv s \<Longrightarrow> nm b k \<Longrightarrow> list_all (part_number \<circ> fst) etags \<Longrightarrow> parts s b k u = Some m \<Longrightarrow> tags_of m etags \<Longrightarrow>
      Complete C c b k u etags s = (oe, s') \<Longrightarrow>
      inv s' \<and> (\<forall>b' k'. (b', k') \<noteq> (b, k) \<longrightarrow> obj s' b' k' = obj s b' k') \<and>
      (obj s' b k = Some (assemble m etags) \<or> oe \<noteq> None \<and> obj s' b k = obj s b k)"
    and abort_law: "inv s \<Longrightarrow> nm b k \<Longrightarrow> u \<noteq> [] \<Longrightarrow> Abort C c b k u s = (oe, s') \<Longrightarrow> inv s' \<and> obj s' = obj s"
    and put_law: "inv s \<Longrightarrow> nm b k \<Longrightarrow> PutObject C c b k d s = (oe, s') \<Longrightarrow>
      inv s' \<and> (\<forall>b' k'. (b', k') \<noteq> (b, k) \<longrightarrow> obj s' b' k' = obj s b' k') \<and>
      (obj s' b k = Some d \<or> oe \<noteq> None \<and> obj s' b k = obj s b k)"
    and remove_law: "inv s \<Longrightarrow> nm b k \<Longrightarrow> DeleteObject C c b k s = (oe, s') \<Longrightarrow>
      inv s' \<and> (\<forall>b' k'. (b', k') \<noteq> (b, k) \<longrightarrow> obj s' b' k' = obj s b' k') \<and>
      (obj s' b k = None \<or> oe \<noteq> None \<and> \<not> errIs (the oe) ErrNotFound \<and> obj s' b k = obj s b k)"


section \<open>The writer commits all or nothing\<close>

text \<open>The bytes \<open>sh\<close> of an open writer that are already uploaded as parts.\<close>

definition ow_shipped ::
  "('s \<Rightarrow> string \<Rightarrow> string \<Rightarrow> string \<Rightarrow> (int \<rightharpoonup> string \<times> bytes) option) \<Rightarrow> 's \<Rightarrow> objectStorageWriter \<Rightarrow> bytes \<Rightarrow> bool" where
  "ow_shipped parts s w sh \<longleftrightarrow>
     (if ow_uploadID w = [] then ow_partNumber w = 1 \<and> sh = []
      else 1 \<le> ow_partNumber w \<and> ow_partNumber w \<le> maxMultipartParts + 1 \<and> map fst (ow_etags w) = [1..ow_partNumber w - 1] \<and>
           (\<exists>m. parts s (ow_bucket w) (ow_key w) (ow_uploadID w) = Some m \<and> tags_of m (ow_etags w) \<and>
                concat (map (\<lambda>n. snd (the (m n))) [1..ow_partNumber w - 1]) = sh))"

definition ow_holds ::
  "('s \<Rightarrow> string \<Rightarrow> string \<Rightarrow> string \<Rightarrow> (int \<rightharpoonup> string \<times> bytes) option) \<Rightarrow> 's \<Rightarrow> objectStorageWriter \<Rightarrow> bytes \<Rightarrow> bool" where
  "ow_holds parts s w d \<longleftrightarrow>
     ow_err w = None \<and> int (length (ow_buf w)) \<le> partSizeFor (ow_partNumber w) \<and>
     (\<exists>sh. ow_shipped parts s w sh \<and> d = sh @ ow_buf w)"

definition ow_open ::
  "('s \<Rightarrow> string \<Rightarrow> string \<Rightarrow> string \<Rightarrow> (int \<rightharpoonup> string \<times> bytes) option) \<Rightarrow> string \<Rightarrow> string \<Rightarrow>
     's \<Rightarrow> objectStorageWriter \<Rightarrow> string \<Rightarrow> bytes option \<Rightarrow> bool" where
  "ow_open parts bucket px s w p od \<longleftrightarrow>
     \<not> ow_closed w \<and> ow_bucket w = bucket \<and> ow_key w = resolveKey px p \<and>
     (case od of None \<Rightarrow> True | Some d \<Rightarrow> ow_holds parts s w d)"

definition same_target :: "objectStorageWriter \<Rightarrow> objectStorageWriter \<Rightarrow> bool" where
  "same_target w w' \<longleftrightarrow> ow_bucket w' = ow_bucket w \<and> ow_key w' = ow_key w \<and>
     ow_closed w' = ow_closed w \<and> ow_ctx w' = ow_ctx w"

definition readyBuffer :: "int \<Rightarrow> objectStorageWriter \<Rightarrow> objectStorageWriter" where
  "readyBuffer sz w = (if ow_buf w = [] then ensureBuffer sz w else w)"

lemma readyBuffer_simps [simp]:
  "ow_buf (readyBuffer sz w) = ow_buf w" "ow_bucket (readyBuffer sz w) = ow_bucket w"
  "ow_key (readyBuffer sz w) = ow_key w" "ow_closed (readyBuffer sz w) = ow_closed w"
  "ow_ctx (readyBuffer sz w) = ow_ctx w" "ow_err (readyBuffer sz w) = ow_err w"
  "ow_uploadID (readyBuffer sz w) = ow_uploadID w" "ow_etags (readyBuffer sz w) = ow_etags w"
  "ow_partNumber (readyBuffer sz w) = ow_partNumber w"
  by (simp_all add: readyBuffer_def ensureBuffer_def releaseBuffer_def)

lemma fillBuffer_eq:
  "fillBuffer sz p w = (n, w') \<Longrightarrow>
     n = nat (min (int (length p)) (sz - int (length (ow_buf w)))) \<and>
     w' = (readyBuffer sz w)\<lparr>ow_buf := ow_buf w @ take n p\<rparr>"
  by (simp add: fillBuffer_def Let_def flip: readyBuffer_def) (metis readyBuffer_simps(1))

lemma fillBuffer_length:
  assumes "fillBuffer sz p w = (n, w')" and "int (length (ow_buf w)) \<le> sz"
  shows "int (length (ow_buf w')) \<le> sz"
proof -
  have "int n \<le> sz - int (length (ow_buf w))"
    using fillBuffer_eq [OF assms(1)] assms(2) by simp
  moreover have "length (ow_buf w') \<le> length (ow_buf w) + n"
    using fillBuffer_eq [OF assms(1)] by simp
  ultimately show ?thesis by linarith
qed

lemma fillBuffer_spec:
  assumes "fillBuffer sz p w = (n, w')"
  shows "ow_buf w' = ow_buf w @ take n p" and "same_target w w'" and "ow_err w' = ow_err w"
    and "ow_shipped parts s w' sh = ow_shipped parts s w sh" and "ow_partNumber w' = ow_partNumber w"
  using fillBuffer_eq [OF assms] by (simp_all add: same_target_def ow_shipped_def)

text \<open>An append never outgrows the buffer that \<open>ensureBuffer\<close> provided.\<close>

definition buf_fits :: "objectStorageWriter \<Rightarrow> bool" where
  "buf_fits w \<longleftrightarrow> int (length (ow_buf w)) \<le> ow_cap w \<and>
     (ow_buf w \<noteq> [] \<longrightarrow> partSizeFor (ow_partNumber w) \<le> ow_cap w)"

lemma readyBuffer_cap: "buf_fits w \<Longrightarrow> partSizeFor (ow_partNumber w) \<le> ow_cap (readyBuffer (partSizeFor (ow_partNumber w)) w)"
  by (auto simp: readyBuffer_def ensureBuffer_def releaseBuffer_def buf_fits_def)

lemma fillBuffer_fits:
  assumes "fillBuffer (partSizeFor (ow_partNumber w)) p w = (n, w')" and "buf_fits w"
    and "int (length (ow_buf w)) \<le> partSizeFor (ow_partNumber w)"
  shows "buf_fits w'"
proof -
  have "ow_cap w' = ow_cap (readyBuffer (partSizeFor (ow_partNumber w)) w)"
    using fillBuffer_eq [OF assms(1)] by simp
  with readyBuffer_cap [OF assms(2)] fillBuffer_length [OF assms(1,3)] fillBuffer_spec(5) [OF assms(1)]
  show ?thesis by (simp add: buf_fits_def)
qed

context object_client
begin

lemma upload_spec:
  assumes "inv s" and "ow_shipped parts s w sh" and "uploadBufferedPart C w s = (e, w', s')"
    and nm: "nm (ow_bucket w) (ow_key w)"
  shows "inv s'" and "obj s' = obj s" and "same_target w w'" and "ow_err w' = ow_err w"
    and "e = None \<Longrightarrow> ow_shipped parts s' w' (sh @ ow_buf w) \<and> ow_uploadID w' \<noteq> [] \<and> ow_buf w' = []"
proof -
  show "same_target w w'" "ow_err w' = ow_err w"
    using assms(3) by (auto simp: uploadBufferedPart_def Let_def same_target_def
        split: if_splits sum.splits prod.splits)
  have step: "inv s2 \<and> obj s2 = obj s1 \<and> (\<forall>t. r = Inr t \<longrightarrow> ow_shipped parts s2
      (w1\<lparr>ow_etags := gm_put (ow_partNumber w1) t (ow_etags w1), ow_partNumber := ow_partNumber w1 + 1, ow_buf := []\<rparr>)
      (sh @ ow_buf w1))"
    if u: "inv s1" "ow_shipped parts s1 w1 sh" "ow_uploadID w1 \<noteq> []" "nm (ow_bucket w1) (ow_key w1)"
      "ow_partNumber w1 \<le> maxMultipartParts"
      "UploadPart C (ow_ctx w1) (ow_bucket w1) (ow_key w1) (ow_uploadID w1) (ow_partNumber w1) (ow_buf w1) s1 = (r, s2)"
    for s1 w1 r s2
  proof -
    obtain m where m: "parts s1 (ow_bucket w1) (ow_key w1) (ow_uploadID w1) = Some m" "tags_of m (ow_etags w1)"
      "concat (map (\<lambda>n. snd (the (m n))) [1..ow_partNumber w1 - 1]) = sh"
      and pn: "1 \<le> ow_partNumber w1" "map fst (ow_etags w1) = [1..ow_partNumber w1 - 1]"
      using u(2,3) by (auto simp: ow_shipped_def)
    have new: "ow_partNumber w1 \<notin> set (map fst (ow_etags w1))"
      unfolding pn(2) by simp
    have put: "gm_put (ow_partNumber w1) t (ow_etags w1) = ow_etags w1 @ [(ow_partNumber w1, t)]" for t
      using new by (rule gm_put_new)
    have upto: "[1..ow_partNumber w1] = [1..ow_partNumber w1 - 1] @ [ow_partNumber w1]"
      using pn(1) by (simp add: upto_rec2)
    have frame: "map (\<lambda>n. snd (the (if n = ow_partNumber w1 then Some v else m n))) [1..ow_partNumber w1 - 1] =
        map (\<lambda>n. snd (the (m n))) [1..ow_partNumber w1 - 1]" for v
      by (rule map_cong) auto
    have tags: "tags_of (m(ow_partNumber w1 \<mapsto> (t, d))) (ow_etags w1 @ [(ow_partNumber w1, t)])" for t d
      using m(2) new by (auto simp: tags_of_def list_all_iff rev_image_eqI)
    have "part_number (ow_partNumber w1)" using pn(1) u(5) by (simp add: part_number_def)
    from upload_law [OF u(1,4) this m(1) u(6)] show ?thesis
      using u(3,5) pn m(3) by (auto simp: ow_shipped_def put upto frame tags)
  qed
  have "inv s' \<and> obj s' = obj s \<and>
    (e = None \<longrightarrow> ow_shipped parts s' w' (sh @ ow_buf w) \<and> ow_uploadID w' \<noteq> [] \<and> ow_buf w' = [])"
  proof (cases "maxMultipartParts < ow_partNumber w")
    case True
    then show ?thesis using assms by (auto simp: uploadBufferedPart_def)
  next
    case small: False
    show ?thesis
    proof (cases "ow_uploadID w = []")
      case False
      then show ?thesis
        using small assms(3) step [OF assms(1,2) False nm] small
        by (auto simp: uploadBufferedPart_def Let_def split: sum.splits prod.splits)
    next
      case True
      obtain ri s1 where init: "Initiate C (ow_ctx w) (ow_bucket w) (ow_key w) s = (ri, s1)"
        by fastforce
      note init_ok = initiate_law [OF assms(1) nm init]
      show ?thesis
      proof (cases ri)
        case (Inl x)
        then show ?thesis using small True assms(3) init init_ok by (auto simp: uploadBufferedPart_def)
      next
        case (Inr u)
        let ?w1 = "w\<lparr>ow_uploadID := u, ow_etags := []\<rparr>"
        have "ow_shipped parts s1 ?w1 sh"
          using init_ok Inr assms(2) True by (auto simp: ow_shipped_def tags_of_def maxMultipartParts_def)
        from step [OF _ this] nm init_ok Inr show ?thesis
          using small True assms(3) init
          by (auto simp: uploadBufferedPart_def Let_def split: sum.splits prod.splits)
      qed
    qed
  qed
  then show "inv s'" "obj s' = obj s"
    "e = None \<Longrightarrow> ow_shipped parts s' w' (sh @ ow_buf w) \<and> ow_uploadID w' \<noteq> [] \<and> ow_buf w' = []"
    by simp_all
qed

lemma fill_holds:
  assumes "fillBuffer (partSizeFor (ow_partNumber w)) b w = (n, w')" and "ow_holds parts s w d"
  shows "ow_holds parts s w' (d @ take n b)"
proof -
  from assms(2) obtain sh where "ow_shipped parts s w sh" "d = sh @ ow_buf w"
    and le: "int (length (ow_buf w)) \<le> partSizeFor (ow_partNumber w)"
    by (auto simp: ow_holds_def)
  with fillBuffer_spec(1-3,5) [OF assms(1)] fillBuffer_spec(4) [OF assms(1), of parts s sh] assms(2)
    fillBuffer_length [OF assms(1) le]
  show ?thesis
    by (auto simp: ow_holds_def)
qed

lemma upload_holds:
  assumes "inv s" and "ow_holds parts s w d" and "uploadBufferedPart C w s = (e, w', s')" and nm: "nm (ow_bucket w) (ow_key w)"
  shows "inv s'" and "obj s' = obj s" and "same_target w w'"
    and "e = None \<Longrightarrow> ow_holds parts s' w' d \<and> ow_buf w' = [] \<and> ow_uploadID w' \<noteq> []"
proof -
  from assms(2) obtain sh where sh: "ow_shipped parts s w sh" "d = sh @ ow_buf w"
    by (auto simp: ow_holds_def)
  with upload_spec [OF assms(1) sh(1) assms(3) nm] assms(2)
  show "inv s'" and "obj s' = obj s" and "same_target w w'"
    and "e = None \<Longrightarrow> ow_holds parts s' w' d \<and> ow_buf w' = [] \<and> ow_uploadID w' \<noteq> []"
    by (auto simp: ow_holds_def less_imp_le)
qed

lemma loop_spec:
  "inv s \<Longrightarrow> ow_holds parts s w d \<Longrightarrow> owWrite_loop C b written w s = ((n, e), w', s') \<Longrightarrow> nm (ow_bucket w) (ow_key w) \<Longrightarrow>
   inv s' \<and> obj s' = obj s \<and> same_target w w' \<and> (e = None \<longrightarrow> ow_holds parts s' w' (d @ b))"
proof (induction b arbitrary: written w s d rule: length_induct)
  case (1 b)
  have next_step: "inv s' \<and> obj s' = obj s1 \<and> same_target w1 w' \<and> (e = None \<longrightarrow> ow_holds parts s' w' (d @ b))"
    if u: "inv s1" "ow_holds parts s1 w1 d" "int (length (ow_buf w1)) < partSizeFor (ow_partNumber w1)"
      "b \<noteq> []" "fillBuffer (partSizeFor (ow_partNumber w1)) b w1 = (k, w2)"
      "owWrite_loop C (drop k b) wr w2 s1 = ((n, e), w', s')" "nm (ow_bucket w1) (ow_key w1)" for s1 w1 k w2 wr
  proof -
    have "0 < k" using fillBuffer_pos u(3-5) by metis
    then have "length (drop k b) < length b" using u(4) by simp
    from "1.IH" [rule_format, OF this u(1) fill_holds [OF u(5,2)] u(6)] u(7) fillBuffer_spec(2) [OF u(5)]
    show ?thesis by (simp add: same_target_def)
  qed
  note loop = "1.prems"(3) [unfolded owWrite_loop.simps [of C b written w s]]
  have le: "int (length (ow_buf w)) \<le> partSizeFor (ow_partNumber w)"
    using "1.prems"(2) by (simp add: ow_holds_def)
  show ?case
  proof (cases "b = []")
    case True
    then show ?thesis using loop "1.prems" by (simp add: same_target_def)
  next
    case False
    show ?thesis
    proof (cases "int (length (ow_buf w)) = partSizeFor (ow_partNumber w)")
      case True
      obtain e1 w1 s1 where up: "uploadBufferedPart C w s = (e1, w1, s1)" by (metis prod_cases3)
      obtain k w2 where fill: "fillBuffer (partSizeFor (ow_partNumber w1)) b w1 = (k, w2)" by fastforce
      note uo = upload_holds [OF "1.prems"(1,2) up "1.prems"(4)]
      show ?thesis
      proof (cases e1)
        case None
        have "inv s' \<and> obj s' = obj s1 \<and> same_target w1 w' \<and> (e = None \<longrightarrow> ow_holds parts s' w' (d @ b))"
          by (rule next_step [OF uo(1) _ _ False fill]) (use loop None True up fill False uo(3,4) "1.prems"(4) in \<open>auto simp: same_target_def\<close>)
        with uo show ?thesis by (simp add: same_target_def)
      next
        case (Some x)
        with uo loop True up False show ?thesis
          by (auto simp: same_target_def)
      qed
    next
      case less: False
      obtain k w2 where fill: "fillBuffer (partSizeFor (ow_partNumber w)) b w = (k, w2)" by fastforce
      show ?thesis
        by (rule next_step [OF "1.prems"(1,2) _ False fill]) (use less le loop False fill "1.prems"(4) in auto)
    qed
  qed
qed

lemma write_spec:
  "inv s \<Longrightarrow> nm bucket (resolveKey px p) \<Longrightarrow> ow_open parts bucket px s w p (Some d) \<Longrightarrow> owWrite C w b s = ((n, e), w', s') \<Longrightarrow>
   inv s' \<and> obj s' = obj s \<and> ow_open parts bucket px s' w' p (if e = None then Some (d @ b) else None)"
  using loop_spec [of s w d b 0 n e w' s']
  by (auto simp: owWrite_def ow_open_def ow_holds_def same_target_def split: option.splits)

lemma abortUpload_spec: "inv s \<Longrightarrow> nm (ow_bucket w) (ow_key w) \<Longrightarrow> abortUpload C w s = (e, s') \<Longrightarrow> inv s' \<and> obj s' = obj s"
  by (auto simp: abortUpload_def split: if_splits option.splits prod.splits dest: abort_law)

lemma abort_spec: "inv s \<Longrightarrow> nm (ow_bucket w) (ow_key w) \<Longrightarrow> owAbort C w s = (e, w', s') \<Longrightarrow> inv s' \<and> obj s' = obj s"
  by (auto simp: owAbort_def releaseBuffer_def Let_def split: if_splits prod.splits dest: abortUpload_spec [rotated 2])

lemma fail_spec: "inv s \<Longrightarrow> nm (ow_bucket w) (ow_key w) \<Longrightarrow> owFail C x w s = (e, w', s') \<Longrightarrow> inv s' \<and> obj s' = obj s \<and> e \<noteq> None"
  by (auto simp: owFail_def joinErr_def split: prod.splits option.splits dest: abortUpload_spec)

text \<open>The outcome of a commit of \<open>d\<close> at key \<open>k\<close>.\<close>

definition committed :: "'s \<Rightarrow> string \<Rightarrow> string \<Rightarrow> bytes \<Rightarrow> err option \<Rightarrow> 's \<Rightarrow> bool" where
  "committed s b k d e s' \<longleftrightarrow>
     inv s' \<and> (\<forall>b' k'. (b', k') \<noteq> (b, k) \<longrightarrow> obj s' b' k' = obj s b' k') \<and>
     (obj s' b k = Some d \<or> e \<noteq> None \<and> obj s' b k = obj s b k)"

lemma complete_spec:
  assumes "inv s" and "ow_holds parts s w d" and "ow_uploadID w \<noteq> []" and "ow_buf w = []"
    and "owComplete C w s = (e, w', s')" and nm: "nm (ow_bucket w) (ow_key w)"
  shows "committed s (ow_bucket w) (ow_key w) d e s'"
proof -
  obtain m where m: "parts s (ow_bucket w) (ow_key w) (ow_uploadID w) = Some m" "tags_of m (ow_etags w)"
    and d: "d = concat (map (\<lambda>n. snd (the (m n))) [1..ow_partNumber w - 1])"
    and tags: "map fst (ow_etags w) = [1..ow_partNumber w - 1]" and few: "ow_partNumber w \<le> maxMultipartParts + 1"
    using assms(2-4) by (auto simp: ow_holds_def ow_shipped_def)
  have "list_all part_number (map fst (ow_etags w))"
    unfolding tags using few by (auto simp: list_all_iff part_number_def)
  then have nums: "list_all (part_number \<circ> fst) (ow_etags w)" by (simp add: list_all_iff)
  have "sort [1..ow_partNumber w - 1] = [1..ow_partNumber w - 1]"
    by (intro sorted_sort_id) simp
  then have d: "assemble m (ow_etags w) = d"
    by (simp add: assemble_def tags d)
  obtain ce s1 where ce: "Complete C (ow_ctx w) (ow_bucket w) (ow_key w) (ow_uploadID w) (ow_etags w) s = (ce, s1)"
    by fastforce
  note fin = complete_law [OF assms(1) nm nums m ce, unfolded d]
  show ?thesis
  proof (cases ce)
    case None
    with fin ce assms(5) show ?thesis by (auto simp: owComplete_def committed_def)
  next
    case (Some x)
    with ce assms(5) have "owFail C (Errorf [x]) w s1 = (e, w', s')" by (simp add: owComplete_def)
    from fail_spec [OF _ nm this] fin show ?thesis by (auto simp: committed_def)
  qed
qed

lemma close_spec:
  assumes "inv s" and "ow_open parts bucket px s w p (Some d)" and "owClose C w s = (e, w', s')"
    and nm: "nm bucket (resolveKey px p)"
  shows "committed s bucket (resolveKey px p) d e s'"
proof -
  let ?w = "w\<lparr>ow_closed := True\<rparr>"
  have w: "\<not> ow_closed w" "ow_bucket w = bucket" "ow_key w = resolveKey px p" "ow_err w = None"
    and holds: "ow_holds parts s ?w d"
    using assms(2) by (auto simp: ow_open_def ow_holds_def ow_shipped_def)
  have small: ?thesis if "ow_uploadID w = []"
  proof -
    have "d = ow_buf w" using that holds by (auto simp: ow_holds_def ow_shipped_def)
    with that assms(3) w show ?thesis
      using put_law [OF assms(1) nm] by (auto simp: owClose_def committed_def split: prod.splits)
  qed
  have flushed: ?thesis if "ow_uploadID w \<noteq> []" "ow_buf w = []"
    using complete_spec [OF assms(1) holds, of e w' s'] that assms(3) w nm by (simp add: owClose_def)
  have last_part: ?thesis if mp: "ow_uploadID w \<noteq> []" "ow_buf w \<noteq> []"
  proof -
    obtain e1 w1 s1 where up: "uploadBufferedPart C ?w s = (e1, w1, s1)" by (metis prod_cases3)
    have nmw: "nm (ow_bucket ?w) (ow_key ?w)" using nm w by simp
    note uo = upload_holds [OF assms(1) holds up nmw]
    show ?thesis
    proof (cases e1)
      case None
      with up mp assms(3) w have "owComplete C w1 s1 = (e, w', s')" by (simp add: owClose_def)
      with complete_spec [OF uo(1), of w1 d e w' s'] uo None w nm show ?thesis
        by (simp add: committed_def same_target_def)
    next
      case (Some x)
      with up mp assms(3) w have "owFail C (Errorf [x]) w1 s1 = (e, w', s')" by (simp add: owClose_def)
      from fail_spec [OF uo(1) _ this] uo(2,3) nm w show ?thesis by (simp add: committed_def same_target_def)
    qed
  qed
  show ?thesis using small flushed last_part by blast
qed

end

section \<open>An object storage is a storage\<close>

lemma resolveKey_plain: "\<not> HasPrefix p ''/'' \<Longrightarrow> resolveKey px p = px @ p"
  by (simp add: resolveKey_def TrimPrefix_def)

context object_client
begin

lemma oRead_spec:
  assumes "inv s" and nm: "nm bucket (resolveKey px p)" and "oRead C bucket px c p s = (r, s')"
  shows "inv s' \<and> obj s' = obj s \<and> (\<forall>d. r = Inr d \<longrightarrow> obj s bucket (resolveKey px p) = Some d) \<and>
    (\<forall>e. r = Inl e \<and> errIs e ErrNotFound \<longrightarrow> obj s bucket (resolveKey px p) = None)"
proof -
  obtain rr s1 where g: "GetObjectRange C c bucket (resolveKey px p) 0 (-1) s = (rr, s1)" by fastforce
  note law = get_law [OF assms(1) nm g]
  show ?thesis
  proof (cases rr)
    case (Inl e)
    with law g assms(3) show ?thesis by (auto simp: oRead_def)
  next
    case (Inr rc)
    obtain d oe where rc: "rc = (d, oe)" by fastforce
    from law Inr g assms(3) show ?thesis
      by (cases oe) (auto simp: oRead_def ReadAll_def rc)
  qed
qed

lemma oDelete_spec:
  assumes "inv s" and nm: "nm bucket (resolveKey px p)" and "oDelete C bucket px c p s = (e, s')"
  shows "inv s' \<and> (\<forall>b' k'. (b', k') \<noteq> (bucket, resolveKey px p) \<longrightarrow> obj s' b' k' = obj s b' k') \<and>
    (obj s' bucket (resolveKey px p) = None \<or>
      e \<noteq> None \<and> obj s' bucket (resolveKey px p) = obj s bucket (resolveKey px p))"
proof -
  obtain oe s1 where g: "DeleteObject C c bucket (resolveKey px p) s = (oe, s1)" by fastforce
  from remove_law [OF assms(1) nm g] g assms(3) show ?thesis
    by (cases oe) (auto simp: oDelete_def split: if_splits)
qed

lemma oList_spec:
  assumes "inv s" and "oList C bucket px clock c [] s = (rl, s')"
  shows "inv s' \<and> obj s' = obj s \<and>
    (\<forall>fs. rl = Inr fs \<longrightarrow> (\<forall>q. nm bucket (px @ q) \<and> obj s bucket (px @ q) \<noteq> None \<longrightarrow> q \<in> fi_Name ` set fs))"
proof -
  have px: "resolveKey px [] = px" by (simp add: resolveKey_def TrimPrefix_def)
  obtain ro s1 where g: "ListObjects C c bucket px s = (ro, s1)" by fastforce
  note law = list_law [OF assms(1) g]
  have names: "q \<in> (\<lambda>x. TrimPrefix (oi_Name x) px) ` set os"
    if u: "ro = Inr os" "nm bucket (px @ q)" "obj s bucket (px @ q) \<noteq> None" for os q
  proof -
    have "px @ q \<in> oi_Name ` set os" using law u HasPrefix_append by blast
    then obtain x where "x \<in> set os" "oi_Name x = px @ q" by (metis imageE)
    then show ?thesis by (metis TrimPrefix_append image_eqI)
  qed
  show ?thesis
  proof (cases ro)
    case (Inl e)
    with law g assms(2) show ?thesis by (auto simp: oList_def px)
  next
    case (Inr os)
    with law g assms(2) names [OF Inr] show ?thesis
      by (auto simp: oList_def px image_image)
  qed
qed

end

locale object_store = object_client C obj parts nm inv
  for C :: "'s ObjectStorageClient" and obj and parts and nm and inv +
  fixes bucket :: string and px :: string and clock :: "'s \<Rightarrow> int"

text \<open>The paths a store promises something for: not rooted, and with a name the provider serves.\<close>

definition object_key :: "(string \<Rightarrow> string \<Rightarrow> bool) \<Rightarrow> string \<Rightarrow> string \<Rightarrow> string \<Rightarrow> bool" where
  "object_key nm bucket px p \<longleftrightarrow> \<not> HasPrefix p ''/'' \<and> nm bucket (px @ p)"

lemma object_key_resolve: "object_key nm bucket px p \<Longrightarrow> resolveKey px p = px @ p \<and> nm bucket (px @ p)"
  by (simp add: object_key_def resolveKey_plain)

sublocale object_store \<subseteq> storage "ObjectStorage C bucket px clock" "\<lambda>s p. obj s bucket (px @ p)"
  "object_key nm bucket px" inv
  "\<lambda>s w p d. object_key nm bucket px p \<and> ow_open parts bucket px s w p d"
proof (unfold_locales, goal_cases)
  case (1 s p c r s')
  then show ?case using oRead_spec [of s bucket px p c r s'] object_key_resolve [OF 1(2)] by (simp add: ObjectStorage_def)
next
  case (2 s p c d e s')
  then show ?case using put_law [of s bucket "px @ p" c d e s'] object_key_resolve [OF 2(2)]
    by (auto simp: ObjectStorage_def oWrite_def)
next
  case (3 s p c e s')
  then show ?case using oDelete_spec [of s bucket px p c e s'] object_key_resolve [OF 3(2)]
    by (auto simp: ObjectStorage_def)
next
  case (4 s c rl s')
  then show ?case using oList_spec [of s bucket px clock c rl s'] by (simp add: ObjectStorage_def object_key_def)
next
  case (5 s p c rw s')
  then show ?case
    by (auto simp: ObjectStorage_def oOpenWriter_def newObjectStorageWriter_def ow_open_def ow_holds_def
        ow_shipped_def less_imp_le)
next
  case (6 s w p d b n e w' s')
  then show ?case using write_spec [of s bucket px p w d b n e w' s'] object_key_resolve [of nm bucket px p] by (simp add: ObjectStorage_def)
next
  case (7 s w p d e w' s')
  then show ?case using close_spec [of s bucket px w p d e w' s'] object_key_resolve [of nm bucket px p]
    by (auto simp: ObjectStorage_def committed_def)
next
  case (8 s w p od e w' s')
  then show ?case using abort_spec [of s w e w' s'] object_key_resolve [of nm bucket px p]
    by (simp add: ObjectStorage_def ow_open_def)
qed

end
