(* ===== verification/Bucket.thy ===== *)
theory Bucket
  imports ObjectStorage
begin

text \<open>
  A reference provider for \<open>ObjectStorageClient\<close> (\<open>src/storage_clients/registry.go\<close>): buckets
  of objects with multipart uploads, and a script of failures that strike before or after an
  operation has taken effect. It is the server against which the object storage runs in the
  witnesses, and shows that the laws of \<open>object_client\<close> allow both kinds of failure.
\<close>

datatype fault = NoFault | FailBefore err | FailAfter err

record bucketWorld =
  bw_objs :: "string \<Rightarrow> string \<Rightarrow> bytes option"
  bw_keys :: "(string \<times> string) list"
  bw_ups :: "string \<Rightarrow> string \<Rightarrow> string \<Rightarrow> (int \<rightharpoonup> string \<times> bytes) option"
  bw_next :: nat
  bw_faults :: "fault list"

definition faulty :: "(bucketWorld \<Rightarrow> 'a result \<times> bucketWorld) \<Rightarrow> bucketWorld \<Rightarrow> 'a result \<times> bucketWorld" where
  "faulty act s =
     (case bw_faults s of
        [] \<Rightarrow> act s
      | NoFault # fs \<Rightarrow> act (s\<lparr>bw_faults := fs\<rparr>)
      | FailBefore e # fs \<Rightarrow> (Inl e, s\<lparr>bw_faults := fs\<rparr>)
      | FailAfter e # fs \<Rightarrow> (Inl e, snd (act (s\<lparr>bw_faults := fs\<rparr>))))"

definition errOf :: "'a result \<times> 's \<Rightarrow> err option \<times> 's" where
  "errOf r = (case fst r of Inl e \<Rightarrow> Some e | Inr _ \<Rightarrow> None, snd r)"

definition notFound :: err where "notFound = StatusError 404 None 0"

text \<open>\<open>startByte..endByte\<close>, both inclusive; \<open>endByte = -1\<close> is the end of the object.\<close>

definition byteRange :: "int \<Rightarrow> int \<Rightarrow> bytes \<Rightarrow> bytes" where
  "byteRange a b d = (if b = -1 then drop (nat a) d else take (nat (b - a + 1)) (drop (nat a) d))"

definition put_obj :: "string \<Rightarrow> string \<Rightarrow> bytes option \<Rightarrow> bucketWorld \<Rightarrow> bucketWorld" where
  "put_obj b k v s =
     s\<lparr>bw_objs := (bw_objs s)(b := (bw_objs s b)(k := v)), bw_keys := List.insert (b, k) (bw_keys s)\<rparr>"

definition put_up ::
  "string \<Rightarrow> string \<Rightarrow> string \<Rightarrow> (int \<rightharpoonup> string \<times> bytes) option \<Rightarrow> bucketWorld \<Rightarrow> bucketWorld" where
  "put_up b k u v s = s\<lparr>bw_ups := (bw_ups s)(b := (bw_ups s b)(k := (bw_ups s b k)(u := v)))\<rparr>"

definition bucketClient :: "bucketWorld ObjectStorageClient" where
  "bucketClient =
     \<lparr>ListObjects = (\<lambda>c b px. faulty (\<lambda>s. (Inr (map (\<lambda>x. \<lparr>oi_Name = snd x, oi_Size = int (length (the (bw_objs s b (snd x))))\<rparr>)
          (filter (\<lambda>x. fst x = b \<and> HasPrefix (snd x) px \<and> bw_objs s b (snd x) \<noteq> None) (bw_keys s))), s))),
      GetObjectSize = (\<lambda>c b k. faulty (\<lambda>s. (case bw_objs s b k of None \<Rightarrow> Inl notFound | Some d \<Rightarrow> Inr (int (length d)), s))),
      GetObjectRange = (\<lambda>c b k a e. faulty (\<lambda>s. (case bw_objs s b k of None \<Rightarrow> Inl notFound | Some d \<Rightarrow> Inr (byteRange a e d, None), s))),
      Initiate = (\<lambda>c b k. faulty (\<lambda>s. let u = CHR ''u'' # FormatNat (bw_next s)
          in (Inr u, put_up b k u (Some Map.empty) (s\<lparr>bw_next := Suc (bw_next s)\<rparr>)))),
      UploadPart = (\<lambda>c b k u n d. faulty (\<lambda>s. (case bw_ups s b k u of
          None \<Rightarrow> (Inl (Sentinel ErrUploadNotFound), s)
        | Some m \<Rightarrow> (Inr (CHR ''e'' # FormatInt n), put_up b k u (Some (m(n \<mapsto> (CHR ''e'' # FormatInt n, d)))) s)))),
      Complete = (\<lambda>c b k u etags s. errOf (faulty (\<lambda>s. (case bw_ups s b k u of
          None \<Rightarrow> (Inl (Sentinel ErrUploadNotFound), s)
        | Some m \<Rightarrow> if tags_of m etags then (Inr (), put_up b k u None (put_obj b k (Some (assemble m etags)) s))
                   else (Inl (StatusError 400 None 0), s))) s)),
      Abort = (\<lambda>c b k u s. errOf (faulty (\<lambda>s. (case bw_ups s b k u of
          None \<Rightarrow> (Inl (Sentinel ErrUploadNotFound), s)
        | Some m \<Rightarrow> (Inr (), put_up b k u None s))) s)),
      PutObject = (\<lambda>c b k d s. errOf (faulty (\<lambda>s. (Inr (), put_obj b k (Some d) s)) s)),
      DeleteObject = (\<lambda>c b k s. errOf (faulty (\<lambda>s. (Inr (), put_obj b k None s)) s))\<rparr>"

text \<open>Scripted failures do not claim that an object is missing, and every object has a key; a \<open>calm\<close>
  provider has no failures.\<close>

definition bucket_ok :: "bool \<Rightarrow> bucketWorld \<Rightarrow> bool" where
  "bucket_ok calm s \<longleftrightarrow> (calm \<longrightarrow> bw_faults s = []) \<and>
     list_all (\<lambda>f. case f of NoFault \<Rightarrow> True | FailBefore e \<Rightarrow> \<not> errIs e ErrNotFound | FailAfter e \<Rightarrow> \<not> errIs e ErrNotFound)
       (bw_faults s) \<and>
     (\<forall>b k. bw_objs s b k \<noteq> None \<longrightarrow> (b, k) \<in> set (bw_keys s))"

lemma faulty_elim:
  assumes "faulty act s = (r, s')" and "bucket_ok calm s"
  obtains (runs) s1 where "act s1 = (r, s')" "bucket_ok calm s1" "bw_objs s1 = bw_objs s" "bw_ups s1 = bw_ups s" "bw_keys s1 = bw_keys s"
    | (before) e where "r = Inl e" "\<not> errIs e ErrNotFound" "bucket_ok calm s'" "bw_objs s' = bw_objs s" "bw_ups s' = bw_ups s"
    | (after) s1 e r' where "r = Inl e" "\<not> errIs e ErrNotFound" "act s1 = (r', s')" "bucket_ok calm s1"
        "bw_objs s1 = bw_objs s" "bw_ups s1 = bw_ups s" "bw_keys s1 = bw_keys s"
proof (cases "bw_faults s")
  case Nil
  with assms show ?thesis by (intro runs [of s]) (auto simp: faulty_def)
next
  case (Cons f fs)
  let ?s = "s\<lparr>bw_faults := fs\<rparr>"
  have ok: "bucket_ok calm ?s" using assms(2) Cons by (simp add: bucket_ok_def)
  show ?thesis
  proof (cases f)
    case NoFault
    then show ?thesis using assms(1) Cons ok by (intro runs [of ?s]) (auto simp: faulty_def)
  next
    case (FailBefore e)
    then show ?thesis using assms Cons ok by (intro before [of e]) (auto simp: faulty_def bucket_ok_def)
  next
    case (FailAfter e)
    then show ?thesis using assms Cons ok
      by (intro after [of e ?s "fst (act ?s)"]) (auto simp: faulty_def bucket_ok_def)
  qed
qed

lemma put_obj_simps [simp]:
  "bw_objs (put_obj b k v s) = (bw_objs s)(b := (bw_objs s b)(k := v))" "bw_ups (put_obj b k v s) = bw_ups s"
  "bucket_ok calm s \<Longrightarrow> bucket_ok calm (put_obj b k v s)"
  by (auto simp: put_obj_def bucket_ok_def)

lemma put_up_simps [simp]:
  "bw_objs (put_up b k u v s) = bw_objs s" "bw_ups (put_up b k u v s) b k u = v"
  "bucket_ok calm (put_up b k u v s) = bucket_ok calm s"
  by (auto simp: put_up_def bucket_ok_def)

lemma bucket_ok_next [simp]: "bucket_ok calm (s\<lparr>bw_next := n\<rparr>) = bucket_ok calm s"
  by (simp add: bucket_ok_def)

lemma errOf_eq: "errOf x = (oe, s') \<Longrightarrow> \<exists>r. x = (r, s') \<and> oe = (case r of Inl e \<Rightarrow> Some e | Inr _ \<Rightarrow> None)"
  by (cases x) (auto simp: errOf_def)

text \<open>The reference provider serves every name.\<close>

definition any_name :: "string \<Rightarrow> string \<Rightarrow> bool" where "any_name b k \<longleftrightarrow> True"

lemma any_name [simp]: "any_name b k" by (simp add: any_name_def)

interpretation bc: object_client bucketClient bw_objs bw_ups any_name "bucket_ok calm" for calm
proof (unfold_locales, goal_cases)
  case (1 s b k c rr s')
  then have "faulty (\<lambda>s. (case bw_objs s b k of None \<Rightarrow> Inl notFound | Some d \<Rightarrow> Inr (byteRange 0 (-1) d, None), s)) s = (rr, s')"
    by (simp add: bucketClient_def)
  from this 1(1) show ?case
    by (rule faulty_elim) (auto simp: byteRange_def notFound_def split: option.splits)
next
  case (2 s c b px rl s')
  then have "faulty (\<lambda>s. (Inr (map (\<lambda>x. \<lparr>oi_Name = snd x, oi_Size = int (length (the (bw_objs s b (snd x))))\<rparr>)
          (filter (\<lambda>x. fst x = b \<and> HasPrefix (snd x) px \<and> bw_objs s b (snd x) \<noteq> None) (bw_keys s))), s)) s = (rl, s')"
    by (simp add: bucketClient_def)
  from this 2(1) show ?case
  proof (rule faulty_elim)
    fix s1 assume a: "(Inr (map (\<lambda>x. \<lparr>oi_Name = snd x, oi_Size = int (length (the (bw_objs s1 b (snd x))))\<rparr>)
          (filter (\<lambda>x. fst x = b \<and> HasPrefix (snd x) px \<and> bw_objs s1 b (snd x) \<noteq> None) (bw_keys s1))), s1) = (rl, s')"
      "bucket_ok calm s1" "bw_objs s1 = bw_objs s"
    have "(b, k) \<in> set (bw_keys s1)" if "bw_objs s b k \<noteq> None" for k
      using a(2,3) that by (simp add: bucket_ok_def)
    with a show ?case by (force simp: image_iff)
  qed auto
next
  case (3 s b k c ri s')
  then have "faulty (\<lambda>s. let u = CHR ''u'' # FormatNat (bw_next s)
          in (Inr u, put_up b k u (Some Map.empty) (s\<lparr>bw_next := Suc (bw_next s)\<rparr>))) s = (ri, s')"
    by (simp add: bucketClient_def)
  from this 3(1) show ?case by (rule faulty_elim) (auto simp: Let_def)
next
  case (4 s b k n u m c d ri s')
  then have "faulty (\<lambda>s. (case bw_ups s b k u of
          None \<Rightarrow> (Inl (Sentinel ErrUploadNotFound), s)
        | Some m \<Rightarrow> (Inr (CHR ''e'' # FormatInt n), put_up b k u (Some (m(n \<mapsto> (CHR ''e'' # FormatInt n, d)))) s))) s = (ri, s')"
    by (simp add: bucketClient_def)
  from this 4(1) show ?case by (rule faulty_elim) (use 4(4) in auto)
next
  case (5 s b k etags u m c oe s')
  then have "errOf (faulty (\<lambda>s. (case bw_ups s b k u of
          None \<Rightarrow> (Inl (Sentinel ErrUploadNotFound), s)
        | Some m \<Rightarrow> if tags_of m etags then (Inr (), put_up b k u None (put_obj b k (Some (assemble m etags)) s))
                   else (Inl (StatusError 400 None 0), s))) s) = (oe, s')"
    by (simp add: bucketClient_def)
  from errOf_eq [OF this] obtain r where r: "faulty (\<lambda>s. (case bw_ups s b k u of
          None \<Rightarrow> (Inl (Sentinel ErrUploadNotFound), s)
        | Some m \<Rightarrow> if tags_of m etags then (Inr (), put_up b k u None (put_obj b k (Some (assemble m etags)) s))
                   else (Inl (StatusError 400 None 0), s))) s = (r, s')"
    and oe: "oe = (case r of Inl e \<Rightarrow> Some e | Inr _ \<Rightarrow> None)" by blast
  from r 5(1) show ?case by (rule faulty_elim) (use 5(4,5) oe in auto)
next
  case (6 s b k u c oe s')
  then have "errOf (faulty (\<lambda>s. (case bw_ups s b k u of
          None \<Rightarrow> (Inl (Sentinel ErrUploadNotFound), s)
        | Some m \<Rightarrow> (Inr (), put_up b k u None s))) s) = (oe, s')"
    by (simp add: bucketClient_def)
  from errOf_eq [OF this] obtain r where "faulty (\<lambda>s. (case bw_ups s b k u of
          None \<Rightarrow> (Inl (Sentinel ErrUploadNotFound), s)
        | Some m \<Rightarrow> (Inr (), put_up b k u None s))) s = (r, s')" by blast
  from this 6(1) show ?case by (rule faulty_elim) (auto split: option.splits)
next
  case (7 s b k c d oe s')
  then have "errOf (faulty (\<lambda>s. (Inr (), put_obj b k (Some d) s)) s) = (oe, s')"
    by (simp add: bucketClient_def)
  from errOf_eq [OF this] obtain r where r: "faulty (\<lambda>s. (Inr (), put_obj b k (Some d) s)) s = (r, s')"
    and oe: "oe = (case r of Inl e \<Rightarrow> Some e | Inr _ \<Rightarrow> None)" by blast
  from r 7(1) show ?case by (rule faulty_elim) (use oe in auto)
next
  case (8 s b k c oe s')
  then have "errOf (faulty (\<lambda>s. (Inr (), put_obj b k None s)) s) = (oe, s')"
    by (simp add: bucketClient_def)
  from errOf_eq [OF this] obtain r where r: "faulty (\<lambda>s. (Inr (), put_obj b k None s)) s = (r, s')"
    and oe: "oe = (case r of Inl e \<Rightarrow> Some e | Inr _ \<Rightarrow> None)" by blast
  from r 8(1) show ?case by (rule faulty_elim) (use oe in auto)
qed

interpretation bo: object_store bucketClient bw_objs bw_ups any_name "bucket_ok calm" bucket px clock for calm bucket px clock
  by unfold_locales

end
