(* ===== verification/Stores.thy ===== *)
theory Stores
  imports BackupSafe LocalStorage Bucket
begin

text \<open>
  The client operations on the storages of the SDK: the interface laws of \<open>keyed_storage\<close> hold
  for a local store, and for an object store over every client that keeps the laws of
  \<open>object_client\<close>, so what is proved of \<open>DeleteVersion\<close>, \<open>GC\<close> and \<open>RunBackup\<close> holds there,
  whichever calls fail.
\<close>

interpretation lstore: keyed_storage "NewLocalStorage wd rootDir" "local_contents (filepathAbs wd rootDir)" local_key
  "root_ok (filepathAbs wd rootDir)" "local_open (filepathAbs wd rootDir)" for wd rootDir
proof (unfold_locales, goal_cases)
  case 1
  show ?case unfolding metadataPath_def by (rule local_key_tsync)
next
  case (2 p)
  then show ?case by (rule local_key_part)
qed

lemma object_key_tsync: "\<not> HasPrefix metadataPath ''/''"
  by (simp add: metadataPath_def HasPrefix_def)

lemma object_key_part: "rx_match partKeyRegex p \<Longrightarrow> \<not> HasPrefix p ''/''"
proof
  assume "rx_match partKeyRegex p" "HasPrefix p ''/''"
  then obtain a k t where "p = a @ ''/'' @ k" "length a = 2" "list_all is_hex_digit a" "p = ''/'' @ t"
    by (auto simp: partKeyRegex_iff HasPrefix_iff)
  then have "is_hex_digit CHR ''/''" by (cases a) auto
  then show False using is_hex_digit_neq_slash by blast
qed

definition object_contents :: "('s \<Rightarrow> string \<Rightarrow> string \<Rightarrow> bytes option) \<Rightarrow> string \<Rightarrow> string \<Rightarrow> 's \<Rightarrow> string \<Rightarrow> bytes option" where
  "object_contents obj bucket px s p = obj s bucket (px @ p)"

definition object_open ::
  "('s \<Rightarrow> string \<Rightarrow> string \<Rightarrow> string \<Rightarrow> (int \<rightharpoonup> string \<times> bytes) option) \<Rightarrow> (string \<Rightarrow> string \<Rightarrow> bool) \<Rightarrow> string \<Rightarrow> string \<Rightarrow>
     's \<Rightarrow> objectStorageWriter \<Rightarrow> string \<Rightarrow> bytes option \<Rightarrow> bool" where
  "object_open parts nm bucket px s w p d \<longleftrightarrow> object_key nm bucket px p \<and> ow_open parts bucket px s w p d"

text \<open>The provider serves the names a store uses: the metadata object and the part objects.\<close>

definition store_names :: "(string \<Rightarrow> string \<Rightarrow> bool) \<Rightarrow> string \<Rightarrow> string \<Rightarrow> bool" where
  "store_names nm bucket px \<longleftrightarrow> nm bucket (px @ metadataPath) \<and> (\<forall>p. rx_match partKeyRegex p \<longrightarrow> nm bucket (px @ p))"

lemma store_names_any [simp]: "store_names any_name bucket px"
  by (simp add: store_names_def)

context object_store
begin

lemma object_is_storage:
  "storage (ObjectStorage C bucket px clock) (object_contents obj bucket px) (object_key nm bucket px) inv (object_open parts nm bucket px)"
  unfolding object_contents_def object_open_def by (rule storage_axioms)

lemma object_keyed:
  "store_names nm bucket px \<Longrightarrow> keyed_storage (ObjectStorage C bucket px clock) (object_contents obj bucket px)
     (object_key nm bucket px) inv (object_open parts nm bucket px)"
  by (intro keyed_storage.intro keyed_storage_axioms.intro object_is_storage)
    (auto simp: object_key_def object_key_tsync object_key_part store_names_def)

end

lemmas object_keyed_storage = object_store.object_keyed [OF object_store.intro]

interpretation bstore: keyed_storage "ObjectStorage bucketClient bucket px clock" "object_contents bw_objs bucket px"
  "object_key any_name bucket px" "bucket_ok calm" "object_open bw_ups any_name bucket px" for calm bucket px clock
  by (rule bo.object_keyed) simp

end
