(* ===== verification/Retry.thy ===== *)
theory Retry
  imports Errors
begin

text \<open>
  The retry layer of the storage clients (\<open>src/storage_clients/retry.go\<close>). Durations are
  \<open>int\<close> nanoseconds, an \<open>int64\<close> in Go; the two places where they can overflow have the
  wrap-around written out. What an attempt observes of the outside (the result of the
  request function, the contexts, the random jitter) is one \<open>attempt\<close> record per attempt,
  so the loop of \<open>Do\<close> is a function of a sequence of attempts.
\<close>

definition Millisecond :: int where "Millisecond = 1000000"
definition Second :: int where "Second = 1000 * Millisecond"

definition uploadBaseTimeout :: int where "uploadBaseTimeout = 60 * Second"
definition uploadMinThroughput :: int where "uploadMinThroughput = 256 * 1024"

definition UploadAttemptTimeout :: "int \<Rightarrow> int" where
  "UploadAttemptTimeout n =
     wrap64 (uploadBaseTimeout + go_quot (wrap64 (n * Second)) uploadMinThroughput)"

record RetryPolicy =
  MaxAttempts :: int
  MaxStatusAttempts :: int
  BaseDelay :: int
  MaxDelay :: int
  MaxRetryAfter :: int

definition DefaultRetryPolicy :: RetryPolicy where
  "DefaultRetryPolicy =
     \<lparr>MaxAttempts = 4, MaxStatusAttempts = 8, BaseDelay = 500 * Millisecond,
      MaxDelay = 20 * Second, MaxRetryAfter = 60 * Second\<rparr>"

text \<open>The delay before jitter; \<open>retry\<close> is the number of attempts made, at least 1.\<close>

definition backoff_cap :: "RetryPolicy \<Rightarrow> nat \<Rightarrow> int" where
  "backoff_cap p retry =
     (if BaseDelay p \<le> 0 then 0
      else
        let shift = retry - 1;
            v = wrap64 (BaseDelay p * 2 ^ shift);
            d = (if shift < 32 \<and> 0 < v \<and> (MaxDelay p \<le> 0 \<or> v < MaxDelay p)
                 then v else MaxDelay p)
        in if d \<le> 0 then 0 else d)"

text \<open>\<open>rand.N(n)\<close> of \<open>math/rand/v2\<close> is the argument \<open>rnd\<close>.\<close>

definition backoff :: "RetryPolicy \<Rightarrow> (int \<Rightarrow> int) \<Rightarrow> nat \<Rightarrow> int" where
  "backoff p rnd retry =
     (let d = backoff_cap p retry in if d \<le> 0 then 0 else d div 2 + rnd (d div 2 + 1))"

definition attemptLimit :: "RetryPolicy \<Rightarrow> err \<Rightarrow> int" where
  "attemptLimit p e =
     (let limit = (if 0 < MaxStatusAttempts p \<and>
                      (case asStatusError e of Some (code, ra) \<Rightarrow> Retryable code | None \<Rightarrow> False)
                   then MaxStatusAttempts p else MaxAttempts p)
      in max limit 1)"

definition wait :: "RetryPolicy \<Rightarrow> (int \<Rightarrow> int) \<Rightarrow> nat \<Rightarrow> err \<Rightarrow> int" where
  "wait p rnd retry e =
     (let d = backoff p rnd retry
      in case asStatusError e of
           Some (code, ra) \<Rightarrow>
             if 0 < MaxRetryAfter p \<and> 0 < ra then max d (min ra (MaxRetryAfter p)) else d
         | None \<Rightarrow> d)"

text \<open>
  One attempt: the result of \<open>fn\<close>, \<open>ctx.Err()\<close> and \<open>actx.Err()\<close> as \<open>runAttempt\<close> reads
  them, \<open>ctx.Err()\<close> as \<open>Do\<close> reads it afterwards, the jitter source, and whether \<open>ctx\<close> is
  done before the backoff timer fires (then with which error).
\<close>

record attempt =
  fn_err :: "err option"
  att_ctx :: "sentinel option"
  att_actx :: "sentinel option"
  do_ctx :: "sentinel option"
  jitter :: "int \<Rightarrow> int"
  wait_ctx :: "sentinel option"

definition runAttempt :: "int \<Rightarrow> attempt \<Rightarrow> err option" where
  "runAttempt attemptTimeout a =
     (if attemptTimeout \<le> 0 then fn_err a
      else case fn_err a of
             None \<Rightarrow> None
           | Some e \<Rightarrow>
               if att_ctx a = None \<and> att_actx a = Some DeadlineExceeded
               then Some (Errorf [Sentinel ErrAttemptTimeout, e]) else Some e)"

text \<open>The outcome of \<open>Do\<close>: its error, the number of attempts made, the delays slept.\<close>

record do_result =
  do_err :: "err option"
  do_attempts :: nat
  do_waits :: "int list"

definition attempt_bound :: "RetryPolicy \<Rightarrow> nat" where
  "attempt_bound p = nat (max 1 (max (MaxAttempts p) (MaxStatusAttempts p)))"

lemma attemptLimit_le_bound: "nat (attemptLimit p e) \<le> attempt_bound p"
  by (auto simp: attemptLimit_def attempt_bound_def Let_def split: option.splits)

function Do :: "RetryPolicy \<Rightarrow> int \<Rightarrow> (nat \<Rightarrow> attempt) \<Rightarrow> nat \<Rightarrow> int list \<Rightarrow> do_result" where
  "Do p timeout env n ws =
     (let a = env n in
      case runAttempt timeout a of
        None \<Rightarrow> \<lparr>do_err = None, do_attempts = n, do_waits = ws\<rparr>
      | Some e \<Rightarrow>
          (case do_ctx a of
             Some ce \<Rightarrow>
               \<lparr>do_err = Some (if errIs e ce then Errorf [e] else Errorf [Sentinel ce, e]),
                do_attempts = n, do_waits = ws\<rparr>
           | None \<Rightarrow>
               if isPermanent e \<or> (\<not> errIs e ErrAttemptTimeout \<and> \<not> IsRetryable (Some e))
               then \<lparr>do_err = Some (Errorf [e]), do_attempts = n, do_waits = ws\<rparr>
               else if nat (attemptLimit p e) \<le> n
               then \<lparr>do_err = Some (Errorf [e]), do_attempts = n, do_waits = ws\<rparr>
               else (case wait_ctx a of
                       Some ce \<Rightarrow>
                         \<lparr>do_err = Some (Errorf [Sentinel ce, e]), do_attempts = n,
                          do_waits = ws\<rparr>
                     | None \<Rightarrow> Do p timeout env (Suc n) (ws @ [wait p (jitter a) n e]))))"
  by pat_completeness auto
termination
proof (relation "measure (\<lambda>(p, timeout, env, n, ws). attempt_bound p - n)", goal_cases)
  case 1
  show ?case by simp
next
  case (2 p timeout env n ws a e)
  then have "n < nat (attemptLimit p e)" by simp
  also have "\<dots> \<le> attempt_bound p" by (rule attemptLimit_le_bound)
  finally show ?case by simp
qed

declare Do.simps [simp del]

text \<open>The call \<open>p.Do(ctx, op, attemptTimeout, fn)\<close>: the first attempt has number 1.\<close>

definition runDo :: "RetryPolicy \<Rightarrow> int \<Rightarrow> (nat \<Rightarrow> attempt) \<Rightarrow> do_result" where
  "runDo p timeout env = Do p timeout env 1 []"

subsection \<open>What the loop does\<close>

definition retried :: "RetryPolicy \<Rightarrow> int \<Rightarrow> (nat \<Rightarrow> attempt) \<Rightarrow> nat \<Rightarrow> bool" where
  "retried p timeout env k \<longleftrightarrow>
     (\<exists>e. runAttempt timeout (env k) = Some e \<and> do_ctx (env k) = None \<and>
          wait_ctx (env k) = None \<and> \<not> isPermanent e \<and>
          (errIs e ErrAttemptTimeout \<or> IsRetryable (Some e)) \<and> k < nat (attemptLimit p e))"

definition wait_after :: "RetryPolicy \<Rightarrow> int \<Rightarrow> (nat \<Rightarrow> attempt) \<Rightarrow> nat \<Rightarrow> int" where
  "wait_after p timeout env k =
     wait p (jitter (env k)) k (the (runAttempt timeout (env k)))"

text \<open>
  The whole behaviour of the loop: every attempt before the last one was retried for a
  reason the policy allows, the last one was not, the delays slept are those of the
  retried attempts, and the result is that of the last attempt.
\<close>

lemma Do_spec:
  fixes p timeout env n ws
  defines "r \<equiv> Do p timeout env n ws"
  shows "n \<le> do_attempts r \<and>
    (\<forall>k. n \<le> k \<and> k < do_attempts r \<longrightarrow> retried p timeout env k) \<and>
    \<not> retried p timeout env (do_attempts r) \<and>
    do_waits r = ws @ map (wait_after p timeout env) [n..<do_attempts r] \<and>
    (case runAttempt timeout (env (do_attempts r)) of
       None \<Rightarrow> do_err r = None
     | Some e \<Rightarrow> \<exists>e'. do_err r = Some e' \<and> (\<forall>t. errIs e t \<longrightarrow> errIs e' t))"
  unfolding r_def
proof (induction p timeout env n ws rule: Do.induct)
  case (1 p timeout env n ws)
  show ?case
  proof (cases "retried p timeout env n")
    case True
    then obtain e where e: "runAttempt timeout (env n) = Some e" "do_ctx (env n) = None"
      "wait_ctx (env n) = None" "\<not> isPermanent e"
      "errIs e ErrAttemptTimeout \<or> IsRetryable (Some e)" "\<not> nat (attemptLimit p e) \<le> n"
      by (auto simp: retried_def)
    define r' where "r' = Do p timeout env (Suc n) (ws @ [wait p (jitter (env n)) n e])"
    have step: "Do p timeout env n ws = r'"
      unfolding r'_def using e by (subst Do.simps) (auto simp: Let_def)
    note IH = "1.IH" [OF refl e(1) e(2) _ e(6) e(3), folded r'_def]
    have IH1: "Suc n \<le> do_attempts r'"
      and IH2: "\<forall>k. Suc n \<le> k \<and> k < do_attempts r' \<longrightarrow> retried p timeout env k"
      and IH3: "do_waits r' = (ws @ [wait p (jitter (env n)) n e]) @
        map (wait_after p timeout env) [Suc n..<do_attempts r']"
      using IH e(4,5) by blast+
    have "[n..<do_attempts r'] = n # [Suc n..<do_attempts r']"
      using IH1 by (simp add: upt_conv_Cons)
    with IH3 have "do_waits r' = ws @ map (wait_after p timeout env) [n..<do_attempts r']"
      by (simp add: wait_after_def e(1))
    moreover have "\<forall>k. n \<le> k \<and> k < do_attempts r' \<longrightarrow> retried p timeout env k"
      using IH2 True by (metis le_antisym not_less_eq_eq)
    ultimately show ?thesis
      unfolding step using IH e(4,5) IH1 by auto
  next
    case False
    have "do_attempts (Do p timeout env n ws) = n \<and> do_waits (Do p timeout env n ws) = ws \<and>
      (case runAttempt timeout (env n) of
         None \<Rightarrow> do_err (Do p timeout env n ws) = None
       | Some e \<Rightarrow> \<exists>e'. do_err (Do p timeout env n ws) = Some e' \<and>
                     (\<forall>t. errIs e t \<longrightarrow> errIs e' t))"
      using False
      by (subst (1 2 3 4) Do.simps)
        (auto simp: Let_def retried_def split: option.splits)
    with False show ?thesis by auto
  qed
qed

lemma retried_below_bound: "retried p timeout env k \<Longrightarrow> k < attempt_bound p"
  using attemptLimit_le_bound by (auto simp: retried_def intro: less_le_trans)

lemma runDo_attempts: "1 \<le> do_attempts (runDo p timeout env)"
  "do_attempts (runDo p timeout env) \<le> attempt_bound p"
proof -
  let ?a = "do_attempts (runDo p timeout env)"
  have spec: "1 \<le> ?a" "\<And>k. 1 \<le> k \<Longrightarrow> k < ?a \<Longrightarrow> retried p timeout env k"
    using Do_spec [where n = 1] by (simp_all add: runDo_def)
  then show "1 \<le> ?a" by simp
  show "?a \<le> attempt_bound p"
  proof (cases "?a = 1")
    case True
    then show ?thesis by (simp add: attempt_bound_def)
  next
    case False
    with spec have "retried p timeout env (?a - 1)" by simp
    then show ?thesis using retried_below_bound False spec(1) by fastforce
  qed
qed

subsection \<open>Delays\<close>

lemma backoff_le_cap:
  assumes "\<And>n. 0 < n \<Longrightarrow> 0 \<le> rnd n \<and> rnd n < n"
  shows "0 \<le> backoff p rnd k" and "backoff p rnd k \<le> backoff_cap p k"
proof -
  let ?d = "backoff_cap p k"
  have nonneg: "0 \<le> ?d" by (simp add: backoff_cap_def Let_def)
  then have "0 \<le> ?d div 2" by simp
  with assms [of "?d div 2 + 1"] have r: "0 \<le> rnd (?d div 2 + 1)" "rnd (?d div 2 + 1) \<le> ?d div 2"
    by auto
  from r nonneg show "0 \<le> backoff p rnd k" by (simp add: backoff_def Let_def)
  from r nonneg show "backoff p rnd k \<le> ?d"
    unfolding backoff_def Let_def by auto
qed

lemma wait_le:
  assumes "\<And>n. 0 < n \<Longrightarrow> 0 \<le> rnd n \<and> rnd n < n"
  shows "wait p rnd k e \<le> max (backoff_cap p k) (MaxRetryAfter p)"
  using backoff_le_cap(2) [OF assms, of p k]
  by (auto simp: wait_def Let_def split: option.splits)

lemma wait_no_hint:
  assumes "\<And>n. 0 < n \<Longrightarrow> 0 \<le> rnd n \<and> rnd n < n" and "\<And>c ra. asStatusError e = Some (c, ra) \<Longrightarrow> ra \<le> 0"
  shows "wait p rnd k e \<le> backoff_cap p k"
  using backoff_le_cap(2) [OF assms(1), of p k] assms(2)
  by (fastforce simp: wait_def Let_def split: option.splits)

lemma sum_list_map_mono:
  "(\<And>x. x \<in> set xs \<Longrightarrow> f x \<le> (g x :: int)) \<Longrightarrow> sum_list (map f xs) \<le> sum_list (map g xs)"
  by (induction xs) (auto intro: add_mono)

lemma sum_list_upt_mono:
  fixes g :: "nat \<Rightarrow> int"
  assumes "a \<le> b" and "\<And>k. 0 \<le> g k"
  shows "sum_list (map g [i..<a]) \<le> sum_list (map g [i..<b])"
proof (cases "i \<le> a")
  have nonneg: "0 \<le> sum_list (map g zs)" for zs
    using assms(2) by (induction zs) auto
  case True
  with assms(1) have "[i..<b] = [i..<a] @ [a..<b]"
    by (metis le_Suc_ex upt_add_eq_append)
  then show ?thesis
    using nonneg by simp
next
  have nonneg: "0 \<le> sum_list (map g zs)" for zs
    using assms(2) by (induction zs) auto
  case False
  then show ?thesis using nonneg by simp
qed

lemma default_caps:
  "map (backoff_cap DefaultRetryPolicy) [1..<8] =
     map (\<lambda>x. x * Millisecond) [500, 1000, 2000, 4000, 8000, 16000, 20000]"
  by (simp add: upt_rec backoff_cap_def DefaultRetryPolicy_def Let_def Millisecond_def
      Second_def wrap64_def)

end
