(* ===== verification/Fixtures.thy ===== *)
theory Fixtures
  imports Stores Retry
begin

text \<open>
  Concrete stores, sources and codecs on which the theorems are instantiated. Tree nodes are
  encoded as the empty byte string, so every tree hash is \<open>sha256_hex []\<close>; the metadata codecs
  know the few messages that occur.
\<close>

definition fx_hash :: string where "fx_hash = sha256_hex []"
definition fx_mar :: tree_marshal where "fx_mar node = Some []"

definition fx_key :: string where "fx_key = ''00000000_0''"

definition fx_rec :: FileRecord where
  "fx_rec = \<lparr>EphemeralPublicKey = [], EncryptedZipPassword = [], KeyId = None, fr_Crc32 = 0,
             fr_CompressedSize = 0, fr_UncompressedSize = 0, fr_LastModified = None\<rparr>"

definition fx_node :: TreeNode where
  "fx_node = \<lparr>tn_Entries = [fileEntry (''f'', \<lparr>fl_Crc32 = 0, fl_UncompressedSize = 0\<rparr>)]\<rparr>"

definition fx_version :: "64 word \<Rightarrow> Version" where
  "fx_version i = \<lparr>SnowflakeId = i, BackupTimestamp = Some 5, RootTreeHash = fx_hash, PrecedingVersionId = 0, Label = []\<rparr>"

definition fx_md :: BackupMetadata where
  "fx_md = \<lparr>Versions = [(''7'', fx_version 7), (''8'', fx_version 8)], Trees = [(fx_hash, fx_node)],
            Files = [(fx_key, fx_rec)], PublicKeys = [(''k'', replicate 32 0)], SchemaVersion = 2,
            StoreLabel = Some ''home'', LastUpdated = None\<rparr>"

text \<open>A local store in \<open>/r\<close> with the metadata \<open>[1]\<close> and one part.\<close>

definition fx_world :: fsWorld where
  "fx_world = \<lparr>fs_nodes = [(''/'', FDir 0), (''/r'', FDir 0), (''/r/.tsync'', FFile [1] 0), (''/r/00'', FDir 0), (''/r/00/00000000_0'', FFile [9] 0)],
               fs_faults = [], fs_rand = [''1'', ''2'', ''3''], fs_now = 0\<rparr>"

definition fx_unmarshal :: "BackupMetadata \<Rightarrow> md_unmarshal" where
  "fx_unmarshal md2 b = (if b = [1] then Some fx_md else if b = [2] then Some md2 else None)"

definition fx_marshal :: "BackupMetadata \<Rightarrow> md_marshal" where
  "fx_marshal md2 md = (if md = md2 then Some [2] else None)"

lemma fx_codec: "md_wf md2 \<Longrightarrow> md_codec (fx_unmarshal md2) (fx_marshal md2)"
  by (auto simp: md_codec_def fx_unmarshal_def fx_marshal_def md_same_def md_wf_def fx_md_def gm_wf_def fx_key_def)

lemma fx_abs: "filepathAbs wd ''/r'' = ''/r''"
  by (simp add: filepathAbs_def Rooted_def HasPrefix_def Clean_def cleanComps_def cleanStep_def unparse_def)

lemma fx_world_ok: "root_ok ''/r'' fx_world"
  by (simp add: root_ok_def fx_world_def fs_ok_def)

section \<open>Removing a version from the local store\<close>

definition fx_md7 :: BackupMetadata where
  "fx_md7 = fx_md\<lparr>Versions := [(''8'', fx_version 8)], LastUpdated := Some 9\<rparr>"

definition fx_stored :: "bytes \<Rightarrow> fsWorld" where
  "fx_stored d = \<lparr>fs_nodes = [(''/'', FDir 0), (''/r'', FDir 0), (''/r/.tsync'', FFile d 0), (''/r/00'', FDir 0), (''/r/00/00000000_0'', FFile [9] 0)],
                  fs_faults = [], fs_rand = [''2'', ''3''], fs_now = 0\<rparr>"

named_theorems fs_eval \<open>definitions to run local storage on a concrete world\<close>

lemmas [fs_eval] = LocalStorage_def lRead_def lWrite_def lDelete_def lOpenWriter_def ctxErr_def syscall_def tick_def osReadFile_def osStat_def
  resolvePath_def filepathJoin_def Clean_def cleanComps_def cleanStep_def unparse_def Rooted_def HasPrefix_def
  openAtomicWriter_def filepathDir_def osMkdirAll_def ancestors_def osCreateTemp_def localTempPrefix_def pathBase_def
  fWrite_def appendTo_def lwWrite_def lwClose_def fSync_def fClose_def osRename_def osRemove_def syncDir_def Let_def

lemma FormatUint_7: "FormatUint 7 = ''7''" by code_simp
lemma FormatUint_9: "FormatUint 9 = ''9''" by code_simp
lemma fx_fileKey: "fileKeyFor 0 0 = fx_key" by code_simp

lemma fx_load: "loadMetadata (fx_unmarshal m) (NewLocalStorage wd ''/r'') c fx_world = (Inr fx_md, fx_world)"
  unfolding NewLocalStorage_def fx_abs
  by (simp add: loadMetadata_def metadataPath_def fs_eval fx_world_def parseMetadata_def fx_unmarshal_def fx_md_def)

lemma fx_write: "st_Write (NewLocalStorage wd ''/r'') c metadataPath d fx_world = (None, fx_stored d)"
  unfolding NewLocalStorage_def fx_abs metadataPath_def by (simp add: fs_eval fx_world_def fx_stored_def)

lemma fx_live: "collectLive fx_mar [(''8'', fx_version 8)] [(fx_hash, fx_node)] ([], []) = Inr ([fx_hash], [fx_key])"
  by (simp add: walkCollect.simps fx_version_def fx_mar_def fx_node_def fx_hash_def [symmetric] fileEntry_def
      validateName_def leafKey_def fx_fileKey)

lemma fx_stored_md: "stored (fx_unmarshal m) (local_contents ''/r'') fx_world = Some fx_md"
  by (simp add: stored_def local_contents_def fileData_def metadataPath_def fs_eval fx_world_def fx_unmarshal_def)

lemma fx_DeleteVersion:
  "DeleteVersion (fx_unmarshal fx_md7) (fx_marshal fx_md7) fx_mar 9 (NewLocalStorage wd ''/r'') CallerCtx 7 fx_world =
     (None, fx_stored [2])"
proof -
  have vs: "gm_del ''7'' (Versions fx_md) = [(''8'', fx_version 8)]" "gm_has (Versions fx_md) ''7''"
    by (simp_all add: fx_md_def)
  have ft: "Trees fx_md = [(fx_hash, fx_node)]" "Files fx_md = [(fx_key, fx_rec)]"
    by (simp_all add: fx_md_def)
  have new: "fx_md\<lparr>Versions := [(''8'', fx_version 8)], LastUpdated := Some 9, Trees := [(fx_hash, fx_node)], Files := [(fx_key, fx_rec)]\<rparr> = fx_md7"
    by (simp add: fx_md7_def fx_md_def)
  show ?thesis
    unfolding DeleteVersion_def fx_load FormatUint_7
    by (simp add: Let_def vs ft fx_live new fx_marshal_def fx_write del: collectLive.simps)
qed

lemma fx_md7_wf: "md_wf fx_md7"
  by (simp add: fx_md7_def fx_md_def md_wf_def gm_wf_def fx_key_def)

section \<open>A first backup into an empty local store\<close>

text \<open>One file of three bytes; the zip library wraps its content in a single chunk.\<close>

definition fx_entry :: "'s SourceEntry" where
  "fx_entry = \<lparr>se_Path = ''f'', se_Size = 3, se_CompressedSize = 0, se_LastModified = 1, se_CRC32 = 5, se_IsDir = False,
     se_Open = Some (\<lambda>s. (Inr ([10, 20, 30], None), s)), se_IsEncryptedRaw = False, se_OpenRaw = None,
     se_CompressionMethod = 8, se_OpenRawCompressed = None\<rparr>"

definition fx_source :: "'s \<Rightarrow> 's SourceEntry list result \<times> 's" where
  "fx_source s = (Inr [fx_entry], s)"

definition fx_zip :: zipLib where
  "fx_zip = \<lparr>zl_CreateFileParts = (\<lambda>fh b. Inr ([80 # b], Inr ([], fh\<lparr>zh_CRC32 := 5, zh_UncompressedSize64 := 3, zh_CompressedSize64 := 4\<rparr>))),
             zl_CreateRawFileParts = (\<lambda>fh b. Inl (Foreign ''raw''))\<rparr>"

definition fx_opts :: "64 word \<Rightarrow> bool \<Rightarrow> BackupOptions" where
  "fx_opts vid single = \<lparr>bo_Label = ''first'', bo_SingleVersionMode = single, bo_FilterFunc = None, bo_Concurrency = 1, bo_KeyID = [],
     bo_PublicKeys = [(''k'', replicate 32 0)], bo_EphPublicKey = [], bo_EncryptedPassword = [], bo_CompressionLevel = None,
     bo_GetCompressionLevel = None, bo_CustomVersionID = vid, bo_CustomBackupTimestamp = zeroTime\<rparr>"

definition fx_env :: backupEnv where
  "fx_env = \<lparr>en_now = 100, en_idClock = (\<lambda>_. 0), en_seq = 0, en_backupTime = 101, en_lastUpdated = 102, en_password = Inr ''pw'',
             en_encrypt = (\<lambda>p k. Inr (replicate 32 1, replicate 40 2))\<rparr>"

definition fx_run :: "(string, FileRecord) gomap \<Rightarrow> backupRun" where
  "fx_run ex = \<lparr>br_opts = fx_opts 9 False, br_compMethod = Deflate, br_compLevel = -1, br_ephPubKey = replicate 32 1,
     br_encryptedZipPass = replicate 40 2, br_clearZipPass = ''pw'', br_keyID = ''k'', br_existing = ex\<rparr>"

definition fx_empty :: fsWorld where
  "fx_empty = \<lparr>fs_nodes = [(''/'', FDir 0), (''/r'', FDir 0)], fs_faults = [], fs_rand = [''1'', ''2'', ''3''], fs_now = 0\<rparr>"

definition fx_md0 :: BackupMetadata where
  "fx_md0 = \<lparr>Versions = [], Trees = [], Files = [], PublicKeys = [(''k'', replicate 32 0)], SchemaVersion = 2,
             StoreLabel = None, LastUpdated = None\<rparr>"

definition fx_prepared :: "'s prepared" where
  "fx_prepared = \<lparr>pr_metadata = fx_md0, pr_hasOld = False, pr_latest = None, pr_entries = [fx_entry], pr_run = fx_run []\<rparr>"

lemma fx_load_empty: "loadMetadata u (NewLocalStorage wd ''/r'') c fx_empty = (Inl (Errorf [localErr notExist]), fx_empty)"
  unfolding NewLocalStorage_def fx_abs
  by (simp add: loadMetadata_def metadataPath_def fs_eval fx_empty_def parseMetadata_def)

lemma fx_prepare:
  "prepareBackup u fx_env fx_source (NewLocalStorage wd ''/r'') CallerCtx (fx_opts 9 False) fx_empty = (Inr fx_prepared, fx_empty)"
proof -
  have v: "validateBackupOptions (en_now fx_env) (fx_opts 9 False) = None"
    by (simp add: validateBackupOptions_def fx_opts_def fx_env_def)
  have i: "initMetadata (fx_opts 9 False) (Inl (Errorf [localErr notExist])) = Inr (False, fx_md0)"
    by (simp add: initMetadata_def localErr_def notExist_def fx_opts_def fx_md0_def)
  have o: "checkOrdering (fx_opts 9 False) fx_md0 = None" "latestVersion fx_md0 = None"
    by (simp_all add: checkOrdering_def latestVersion_def fx_md0_def)
  have f: "filterEntries (fx_opts 9 False) [fx_entry] = Inr [fx_entry]"
    by (simp add: fx_opts_def fx_entry_def validateName_def TrimSuffix_def HasSuffix_def)
  have k: "selectKeys fx_env (fx_opts 9 False) fx_md0 [fx_entry] (newRun (fx_opts 9 False) fx_md0) = Inr (fx_run [])"
    by (simp add: selectKeys_def selectKeyID_def newRun_def fx_entry_def fx_opts_def fx_md0_def fx_env_def fx_run_def isDirEntry_def HasSuffix_def Let_def)
  have m: "mergeKeys (fx_opts 9 False) False fx_md0 = fx_md0" by (simp add: mergeKeys_def)
  show ?thesis
    by (simp add: prepareBackup_def v fx_load_empty i o fx_source_def f k m fx_prepared_def Let_def del: filterEntries.simps)
qed

definition fx_part :: string where "fx_part = ''00000005_3''"

definition fx_rec5 :: FileRecord where
  "fx_rec5 = \<lparr>EphemeralPublicKey = replicate 32 1, EncryptedZipPassword = replicate 40 2, KeyId = Some ''k'', fr_Crc32 = 5,
              fr_CompressedSize = 4, fr_UncompressedSize = 3, fr_LastModified = Some 1\<rparr>"

definition fx_uploaded :: fsWorld where
  "fx_uploaded = \<lparr>fs_nodes = [(''/'', FDir 0), (''/r'', FDir 0), (''/r/00'', FDir 0), (''/r/00/00000005_3'', FFile [80, 10, 20, 30] 0)],
                  fs_faults = [], fs_rand = [''2'', ''3''], fs_now = 0\<rparr>"

lemma fx_fileKey5: "fileKeyFor 5 3 = ''00000005_3''" by code_simp

lemma fx_upload: "uploadPart fx_zip (fx_run []) (NewLocalStorage wd ''/r'') RunCtx fx_part fx_entry fx_empty = (Inr fx_rec5, fx_uploaded)"
  unfolding NewLocalStorage_def fx_abs
  by (simp add: uploadPart_def compressionFor_def fx_run_def fx_opts_def fx_entry_def openFor_def producePart_def
      writeCompressedPart_def zipCopy_def fx_zip_def partKeyFor_def fx_part_def fs_eval fx_empty_def fx_fileKey5
      newFileRecord_def fx_rec5_def fx_uploaded_def)

text \<open>The one worker takes the entry, uploads its part and leaves.\<close>

definition fx_result :: backupResult where
  "fx_result = \<lparr>rs_path = ''f'', rs_isDir = False, rs_key = fx_part, rs_record = Some fx_rec5, rs_err = None\<rparr>"

definition fx_final :: "fsWorld workers" where
  "fx_final = \<lparr>wk_tasks = [], wk_pcs = [Exited], wk_flights = [(fx_part, Some (Inr fx_rec5))], wk_results = [fx_result],
               wk_cause = None, wk_parent = False, wk_world = fx_uploaded\<rparr>"

lemma wreach_step: "wstep Z r S st st' \<Longrightarrow> wreach Z r S st' st'' \<Longrightarrow> wreach Z r S st st''"
  by (rotate_tac, induction rule: wreach.induct) (auto intro: wreach.intros simp: rstep_def)

lemma fx_reach:
  "wreach fx_zip (fx_run []) (NewLocalStorage wd ''/r'') (startWorkers (fx_opts 9 False) [fx_entry] None fx_empty) fx_final"
proof -
  let ?st = "\<lambda>ts pc fl rs w. \<lparr>wk_tasks = ts, wk_pcs = [pc], wk_flights = fl, wk_results = rs, wk_cause = None, wk_parent = False, wk_world = w\<rparr>"
  let ?W = "wstep fx_zip (fx_run []) (NewLocalStorage wd ''/r'')"
  have key: "entryKey fx_entry fx_empty = (Inr fx_part, fx_empty)"
    by (simp add: entryKey_def fx_entry_def fx_fileKey5 fx_part_def)
  have dir: "\<not> isDirEntry fx_entry" by (simp add: isDirEntry_def fx_entry_def HasSuffix_def)
  have path: "se_Path fx_entry = ''f''" by (simp add: fx_entry_def)
  have ex: "br_existing (fx_run []) = []" by (simp add: fx_run_def)
  have st: "startWorkers (fx_opts 9 False) [fx_entry] None fx_empty = ?st [fx_entry] Idle [] [] fx_empty"
    by (simp add: startWorkers_def concurrency_def fx_opts_def)
  have 1: "?W (?st [fx_entry] Idle [] [] fx_empty) (?st [] (Taken fx_entry) [] [] fx_empty)"
    using wstep.receive [of "?st [fx_entry] Idle [] [] fx_empty" 0 fx_entry "[]"] by (simp add: at_pc_def setPc_def)
  have 2: "?W (?st [] (Taken fx_entry) [] [] fx_empty) (?st [] (Keyed fx_entry fx_part) [] [] fx_empty)"
    using wstep.start [of "?st [] (Taken fx_entry) [] [] fx_empty" 0 fx_entry _ "fx_run []"] dir
    by (simp add: at_pc_def setPc_def startFile_def key ex)
  have 3: "?W (?st [] (Keyed fx_entry fx_part) [] [] fx_empty) (?st [] (Uploading fx_entry fx_part) [(fx_part, None)] [] fx_empty)"
    using wstep.fly [of "?st [] (Keyed fx_entry fx_part) [] [] fx_empty" 0 fx_entry fx_part] by (simp add: at_pc_def setPc_def)
  have 4: "?W (?st [] (Uploading fx_entry fx_part) [(fx_part, None)] [] fx_empty)
      (?st [] Idle [(fx_part, Some (Inr fx_rec5))] [fx_result] fx_uploaded)"
    using wstep.land [of "?st [] (Uploading fx_entry fx_part) [(fx_part, None)] [] fx_empty" 0 fx_entry fx_part fx_zip "fx_run []" "NewLocalStorage wd ''/r''"]
    by (simp add: at_pc_def setPc_def endUpload_def fx_upload finishFile_def send_def fx_result_def path)
  have 5: "?W (?st [] Idle [(fx_part, Some (Inr fx_rec5))] [fx_result] fx_uploaded) fx_final"
    using wstep.leave [of "?st [] Idle [(fx_part, Some (Inr fx_rec5))] [fx_result] fx_uploaded" 0] by (simp add: at_pc_def setPc_def fx_final_def)
  show ?thesis
    unfolding st by (rule wreach_step [OF 1] wreach_step [OF 2] wreach_step [OF 3] wreach_step [OF 4] wreach_step [OF 5] wreach.here)+
qed

definition fx_node5 :: TreeNode where
  "fx_node5 = \<lparr>tn_Entries = [fileEntry (''f'', \<lparr>fl_Crc32 = 5, fl_UncompressedSize = 3\<rparr>)]\<rparr>"

definition fx_version9 :: Version where
  "fx_version9 = \<lparr>SnowflakeId = 9, BackupTimestamp = Some 101, RootTreeHash = fx_hash, PrecedingVersionId = 0, Label = ''first''\<rparr>"

definition fx_md9 :: BackupMetadata where
  "fx_md9 = \<lparr>Versions = [(''9'', fx_version9)], Trees = [(fx_hash, fx_node5)], Files = [(fx_part, fx_rec5)],
             PublicKeys = [(''k'', replicate 32 0)], SchemaVersion = 2, StoreLabel = None, LastUpdated = Some 102\<rparr>"

definition fx_done :: fsWorld where
  "fx_done = \<lparr>fs_nodes = [(''/'', FDir 0), (''/r'', FDir 0), (''/r/00'', FDir 0), (''/r/00/00000005_3'', FFile [80, 10, 20, 30] 0),
                         (''/r/.tsync'', FFile [2] 0)],
              fs_faults = [], fs_rand = [''3''], fs_now = 0\<rparr>"

lemma fx_tree: "resultTree (gather [fx_result]) = Inr (TempDirNode [(''f'', \<lparr>fl_Crc32 = 5, fl_UncompressedSize = 3\<rparr>)] [])"
  by (simp add: resultTree_def gather_def gather_step_def fx_result_def leafFor_def fx_rec5_def buildTree_def newTempDirNode_def)

lemma fx_write_done: "st_Write (NewLocalStorage wd ''/r'') c metadataPath [2] fx_uploaded = (None, fx_done)"
  unfolding NewLocalStorage_def fx_abs metadataPath_def by (simp add: fs_eval fx_uploaded_def fx_done_def)

lemma fx_finish:
  "finishBackup (fx_marshal fx_md9) fx_mar fx_env (NewLocalStorage wd ''/r'') CallerCtx (fx_opts 9 False) fx_prepared
     [fx_result] False None fx_uploaded = Some (Inr fx_version9, fx_done)"
proof -
  have g: "runError False None (ga_firstErr (gather [fx_result])) (ga_done (gather [fx_result])) (Suc 0) = None" "ga_pool (gather [fx_result]) = [(fx_part, fx_rec5)]"
    by (simp_all add: runError_def gather_def gather_step_def fx_result_def)
  have b: "buildAndHash fx_mar (TempDirNode [(''f'', \<lparr>fl_Crc32 = 5, fl_UncompressedSize = 3\<rparr>)] []) [] = Inr (fx_hash, [(fx_hash, fx_node5)])"
    by (simp add: fx_mar_def fx_hash_def fx_node5_def Let_def)
  have c: "chooseVersionID fx_env (fx_opts 9 False) (Versions fx_md0) = Some (9, 0)"
    by (simp add: chooseVersionID_def fx_opts_def fx_env_def)
  have v: "newVersion fx_env (fx_opts 9 False) None 9 fx_hash = fx_version9"
    by (simp add: newVersion_def fx_opts_def fx_env_def fx_version9_def)
  have m: "finalMetadata fx_env (fx_opts 9 False) fx_md0 fx_version9 [(fx_hash, fx_node5)] [(fx_part, fx_rec5)] = fx_md9"
    by (simp add: finalMetadata_def fx_opts_def fx_md0_def fx_md9_def fx_version9_def FormatUint_9 fx_env_def)
  have o: "\<not> bo_SingleVersionMode (fx_opts 9 False)" by (simp add: fx_opts_def)
  show ?thesis
    by (simp add: finishBackup_def fx_prepared_def Let_def g fx_tree b c v m commitBackup_def fx_marshal_def fx_write_done o
        del: buildAndHash.simps)
qed

lemma fx_backup:
  "backupRuns (fx_unmarshal fx_md9) (fx_marshal fx_md9) fx_mar fx_zip fx_env fx_source (NewLocalStorage wd ''/r'') (fx_opts 9 False) fx_empty
     fx_prepared fx_final (Inr fx_version9) fx_done"
  unfolding backupRuns_def
  by (rule exI [of _ fx_empty], rule exI [of _ None])
    (use fx_prepare fx_reach [of wd] fx_finish in \<open>simp add: fx_prepared_def fx_final_def all_exited_def\<close>)

lemma fx_md9_wf: "md_wf fx_md9"
  by (simp add: fx_md9_def md_wf_def gm_wf_def)

lemma fx_source_ok: "source_ok contents key_ok ok fx_source"
  by (simp add: source_ok_def quiet_def fx_source_def entry_quiet_def fx_entry_def)

lemma fx_empty_ok: "root_ok ''/r'' fx_empty" "stored u (local_contents ''/r'') fx_empty = None"
  by (simp_all add: root_ok_def fx_empty_def fs_ok_def stored_def local_contents_def fileData_def metadataPath_def fs_eval)

lemma fx_no_collision: "no_collision fx_mar (emittedNodes fx_mar (TempDirNode [(''f'', l)] []))"
  by (simp add: no_collision_def emittedNodes_def fx_mar_def)

section \<open>A backup into an object store with two versions\<close>

text \<open>The file is empty and its record is in the store, so nothing is uploaded.\<close>

definition fx_entry0 :: "'s SourceEntry" where
  "fx_entry0 = fx_entry\<lparr>se_Size := 0, se_CRC32 := 0\<rparr>"

definition fx_source0 :: "'s \<Rightarrow> 's SourceEntry list result \<times> 's" where
  "fx_source0 s = (Inr [fx_entry0], s)"

definition fx_bucket :: "bytes \<Rightarrow> bucketWorld" where
  "fx_bucket d = \<lparr>bw_objs = (\<lambda>b k. None)(''b'' := [''t/.tsync'' \<mapsto> d, ''t/00/00000000_0'' \<mapsto> [9]]),
     bw_keys = [(''b'', ''t/.tsync''), (''b'', ''t/00/00000000_0'')], bw_ups = (\<lambda>_ _ _. None), bw_next = 0, bw_faults = []\<rparr>"

definition fx_ostore :: "(bucketWorld, objectStorageWriter) Storage" where
  "fx_ostore = ObjectStorage bucketClient ''b'' ''t/'' (\<lambda>_. 0)"

definition fx_prepared0 :: "'s prepared" where
  "fx_prepared0 = \<lparr>pr_metadata = fx_md, pr_hasOld = True, pr_latest = Some (fx_version 8), pr_entries = [fx_entry0],
                   pr_run = fx_run [(fx_key, fx_rec)]\<rparr>"

definition fx_result0 :: backupResult where
  "fx_result0 = \<lparr>rs_path = ''f'', rs_isDir = False, rs_key = fx_key, rs_record = Some fx_rec, rs_err = None\<rparr>"

definition fx_final0 :: "bytes \<Rightarrow> bucketWorld workers" where
  "fx_final0 d = \<lparr>wk_tasks = [], wk_pcs = [Exited], wk_flights = [], wk_results = [fx_result0],
                  wk_cause = None, wk_parent = False, wk_world = fx_bucket d\<rparr>"

definition fx_version9' :: Version where
  "fx_version9' = fx_version9\<lparr>PrecedingVersionId := 8\<rparr>"

definition fx_md9' :: BackupMetadata where
  "fx_md9' = fx_md\<lparr>Versions := [(''7'', fx_version 7), (''8'', fx_version 8), (''9'', fx_version9')], StoreLabel := None, LastUpdated := Some 102\<rparr>"

lemma fx_bucket_read: "st_Read fx_ostore c metadataPath (fx_bucket d) = (Inr d, fx_bucket d)"
  by (simp add: fx_ostore_def ObjectStorage_def oRead_def resolveKey_def metadataPath_def bucketClient_def faulty_def fx_bucket_def
      byteRange_def ReadAll_def TrimPrefix_def HasPrefix_def)

lemma fx_bucket_write: "st_Write fx_ostore c metadataPath d' (fx_bucket d) = (None, fx_bucket d')"
  by (simp add: fx_ostore_def ObjectStorage_def oWrite_def resolveKey_def metadataPath_def bucketClient_def faulty_def fx_bucket_def
      errOf_def put_obj_def fun_eq_iff TrimPrefix_def HasPrefix_def List.insert_def)

lemma fx_prepare0:
  "prepareBackup (fx_unmarshal u) fx_env fx_source0 fx_ostore CallerCtx (fx_opts 9 False) (fx_bucket [1]) = (Inr fx_prepared0, fx_bucket [1])"
proof -
  have l: "loadMetadata (fx_unmarshal u) fx_ostore CallerCtx (fx_bucket [1]) = (Inr fx_md, fx_bucket [1])"
    by (simp add: loadMetadata_def fx_bucket_read parseMetadata_def fx_unmarshal_def fx_md_def)
  have v: "validateBackupOptions (en_now fx_env) (fx_opts 9 False) = None"
    by (simp add: validateBackupOptions_def fx_opts_def fx_env_def)
  have i: "initMetadata (fx_opts 9 False) (Inr fx_md) = Inr (True, fx_md)" by (simp add: initMetadata_def)
  have lv: "latestVersion fx_md = Some (fx_version 8)"
    by (simp add: latestVersion_def fx_md_def fx_version_def version_later_def)
  have o: "checkOrdering (fx_opts 9 False) fx_md = None"
    unfolding checkOrdering_def lv by (simp add: fx_opts_def FormatUint_9) (simp add: fx_md_def)
  have f: "filterEntries (fx_opts 9 False) [fx_entry0] = Inr [fx_entry0]"
    by (simp add: fx_opts_def fx_entry_def fx_entry0_def validateName_def TrimSuffix_def HasSuffix_def)
  have m: "mergeKeys (fx_opts 9 False) True fx_md = fx_md" by (simp add: mergeKeys_def fx_md_def fx_opts_def)
  have k: "selectKeys fx_env (fx_opts 9 False) fx_md [fx_entry0] (newRun (fx_opts 9 False) fx_md) = Inr (fx_run [(fx_key, fx_rec)])"
    by (simp add: selectKeys_def selectKeyID_def newRun_def fx_entry_def fx_entry0_def fx_opts_def fx_md_def fx_env_def fx_run_def isDirEntry_def
        HasSuffix_def Let_def)
  show ?thesis
    by (simp add: prepareBackup_def v l i o lv fx_source0_def f k m fx_prepared0_def Let_def del: filterEntries.simps)
qed

lemma fx_reach0:
  "wreach Z (fx_run [(fx_key, fx_rec)]) S (startWorkers (fx_opts 9 False) [fx_entry0] None (fx_bucket d)) (fx_final0 d)"
proof -
  let ?st = "\<lambda>ts pc rs. \<lparr>wk_tasks = ts, wk_pcs = [pc], wk_flights = [], wk_results = rs, wk_cause = None, wk_parent = False, wk_world = fx_bucket d\<rparr>"
  let ?W = "wstep Z (fx_run [(fx_key, fx_rec)]) S"
  have key: "entryKey fx_entry0 (fx_bucket d) = (Inr fx_key, fx_bucket d)"
    by (simp add: entryKey_def fx_entry_def fx_entry0_def fx_fileKey)
  have dir: "\<not> isDirEntry fx_entry0" by (simp add: isDirEntry_def fx_entry_def fx_entry0_def HasSuffix_def)
  have path: "se_Path fx_entry0 = ''f''" by (simp add: fx_entry_def fx_entry0_def)
  have ex: "br_existing (fx_run [(fx_key, fx_rec)]) = [(fx_key, fx_rec)]" by (simp add: fx_run_def)
  have st: "startWorkers (fx_opts 9 False) [fx_entry0] None (fx_bucket d) = ?st [fx_entry0] Idle []"
    by (simp add: startWorkers_def concurrency_def fx_opts_def)
  have 1: "?W (?st [fx_entry0] Idle []) (?st [] (Taken fx_entry0) [])"
    using wstep.receive [of "?st [fx_entry0] Idle []" 0 fx_entry0 "[]"] by (simp add: at_pc_def setPc_def)
  have 2: "?W (?st [] (Taken fx_entry0) []) (?st [] Idle [fx_result0])"
    using wstep.start [of "?st [] (Taken fx_entry0) []" 0 fx_entry0 _ "fx_run [(fx_key, fx_rec)]"] dir
    by (simp add: at_pc_def setPc_def startFile_def key ex finishFile_def send_def fx_result0_def path)
  have 3: "?W (?st [] Idle [fx_result0]) (fx_final0 d)"
    using wstep.leave [of "?st [] Idle [fx_result0]" 0] by (simp add: at_pc_def setPc_def fx_final0_def)
  show ?thesis
    unfolding st by (rule wreach_step [OF 1] wreach_step [OF 2] wreach_step [OF 3] wreach.here)+
qed

lemma fx_tree0: "resultTree (gather [fx_result0]) = Inr (TempDirNode [(''f'', \<lparr>fl_Crc32 = 0, fl_UncompressedSize = 0\<rparr>)] [])"
  by (simp add: resultTree_def gather_def gather_step_def fx_result0_def leafFor_def fx_rec_def buildTree_def newTempDirNode_def)

lemma fx_finish0:
  "finishBackup (fx_marshal fx_md9') fx_mar fx_env fx_ostore CallerCtx (fx_opts 9 False) fx_prepared0
     [fx_result0] False None (fx_bucket [1]) = Some (Inr fx_version9', fx_bucket [2])"
proof -
  have g: "runError False None (ga_firstErr (gather [fx_result0])) (ga_done (gather [fx_result0])) (Suc 0) = None"
    "ga_pool (gather [fx_result0]) = [(fx_key, fx_rec)]"
    by (simp_all add: runError_def gather_def gather_step_def fx_result0_def)
  have b: "buildAndHash fx_mar (TempDirNode [(''f'', \<lparr>fl_Crc32 = 0, fl_UncompressedSize = 0\<rparr>)] []) [] = Inr (fx_hash, [(fx_hash, fx_node)])"
    by (simp add: fx_mar_def fx_hash_def fx_node_def Let_def)
  have c: "chooseVersionID fx_env (fx_opts 9 False) (Versions fx_md) = Some (9, 0)"
    by (simp add: chooseVersionID_def fx_opts_def fx_env_def)
  have v: "newVersion fx_env (fx_opts 9 False) (Some (fx_version 8)) 9 fx_hash = fx_version9'"
    by (simp add: newVersion_def fx_opts_def fx_env_def fx_version9_def fx_version9'_def fx_version_def)
  have m: "finalMetadata fx_env (fx_opts 9 False) fx_md fx_version9' [(fx_hash, fx_node)] [(fx_key, fx_rec)] = fx_md9'"
    by (simp add: finalMetadata_def fx_opts_def fx_md_def fx_md9'_def fx_version9_def fx_version9'_def FormatUint_9 fx_env_def)
  have o: "\<not> bo_SingleVersionMode (fx_opts 9 False)" by (simp add: fx_opts_def)
  show ?thesis
    by (simp add: finishBackup_def fx_prepared0_def Let_def g fx_tree0 b c v m commitBackup_def fx_marshal_def fx_bucket_write o
        del: buildAndHash.simps)
qed

lemma fx_backup0:
  "backupRuns (fx_unmarshal fx_md9') (fx_marshal fx_md9') fx_mar Z fx_env fx_source0 fx_ostore (fx_opts 9 False) (fx_bucket [1])
     fx_prepared0 (fx_final0 [1]) (Inr fx_version9') (fx_bucket [2])"
  unfolding backupRuns_def
  by (rule exI [of _ "fx_bucket [1]"], rule exI [of _ None])
    (use fx_prepare0 fx_reach0 fx_finish0 in \<open>simp add: fx_prepared0_def fx_final0_def all_exited_def\<close>)

lemma fx_source0_ok: "source_ok contents key_ok ok fx_source0"
  by (simp add: source_ok_def quiet_def fx_source0_def entry_quiet_def fx_entry_def fx_entry0_def)

lemma fx_bucket_ok: "bucket_ok True (fx_bucket d)" "stored (fx_unmarshal m) (object_contents bw_objs ''b'' ''t/'') (fx_bucket [1]) = Some fx_md"
  by (auto simp: bucket_ok_def fx_bucket_def stored_def object_contents_def metadataPath_def fx_unmarshal_def)

lemma fx_md9'_wf: "md_wf fx_md9'"
  by (simp add: fx_md9'_def fx_md_def md_wf_def gm_wf_def fx_key_def)

section \<open>Garbage collection in the object store\<close>

lemma fx_sweep: "GC_sweep fx_ostore CallerCtx fx_md (fx_bucket [1]) = (None, fx_bucket [1])"
proof -
  have re: "\<not> rx_match partKeyRegex ''.tsync''" "pathBase ''00/00000000_0'' = fx_key" by code_simp+
  have "st_List fx_ostore CallerCtx [] (fx_bucket [1]) =
      (Inr [\<lparr>fi_Name = ''.tsync'', fi_Size = 1, fi_LastModified = 0\<rparr>, \<lparr>fi_Name = ''00/00000000_0'', fi_Size = 1, fi_LastModified = 0\<rparr>], fx_bucket [1])"
    by (simp add: fx_ostore_def ObjectStorage_def oList_def resolveKey_def bucketClient_def faulty_def fx_bucket_def TrimPrefix_def HasPrefix_def)
  then show ?thesis
    by (simp add: GC_sweep_def fx_md_def re)
qed

lemma fx_GC: "GC (fx_unmarshal fx_md9') (fx_marshal fx_md9') fx_mar 9 fx_ostore CallerCtx (fx_bucket [1]) = (None, fx_bucket [1])"
proof -
  have l: "loadMetadata (fx_unmarshal fx_md9') fx_ostore CallerCtx (fx_bucket [1]) = (Inr fx_md, fx_bucket [1])"
    by (simp add: loadMetadata_def fx_bucket_read parseMetadata_def fx_unmarshal_def fx_md_def)
  have c: "collectLive fx_mar (Versions fx_md) (Trees fx_md) ([], []) = Inr ([fx_hash], [fx_key])"
    by (simp add: walkCollect.simps fx_version_def fx_mar_def fx_node_def fx_hash_def [symmetric] fileEntry_def
        validateName_def leafKey_def fx_fileKey fx_md_def)
  have m: "Trees fx_md = [(fx_hash, fx_node)]" "Files fx_md = [(fx_key, fx_rec)]" by (simp_all add: fx_md_def)
  have same: "fx_md\<lparr>Trees := [(fx_hash, fx_node)], Files := [(fx_key, fx_rec)]\<rparr> = fx_md" by (simp add: fx_md_def)
  show ?thesis
    unfolding GC_def l by (simp add: c [unfolded m] Let_def m same fx_sweep del: collectLive.simps)
qed

section \<open>A request that fails once\<close>

definition fx_flaky :: "nat \<Rightarrow> attempt" where
  "fx_flaky k = \<lparr>fn_err = (if k = 1 then Some (StatusError 503 None 0) else None), att_ctx = None, att_actx = None,
                 do_ctx = None, jitter = (\<lambda>_. 0), wait_ctx = None\<rparr>"

end
