(* ===== verification/Restore.thy ===== *)
theory Restore
  imports Client Crypto LocalStorage
begin

text \<open>
  Restoring (\<open>src/tsync/restore.go\<close>): error classes, the password and the header of a part, the
  extraction of one file through a temporary file, the disk space check, the selection of paths.
  The workers of a restore into a directory are in \<open>RestoreWorkers\<close>, the restore into a zip
  archive in \<open>RestoreZip\<close>. The store and the file system the files are extracted to are two worlds.
  The decoders (the zip library and \<open>compress/flate\<close>) are the fields of \<open>partLib\<close>.
\<close>

record RestoreOptions =
  ro_ZipWriter :: bool
  ro_ExtractDir :: string
  ro_PrivateKey :: bytes
  ro_NewPassword :: string
  ro_SkipDecryptionErrors :: bool
  ro_SkipValidationErrors :: bool
  ro_FilesToRestore :: "string list"
  ro_FilterFunc :: "(string \<Rightarrow> bool) option"
  ro_Concurrency :: int
  ro_NoOverwrite :: bool

section \<open>Errors\<close>

definition isSkippableRestoreError :: "err \<Rightarrow> bool" where
  "isSkippableRestoreError e \<longleftrightarrow>
     \<not> (errIs e Canceled \<or> errIs e DeadlineExceeded) \<and>
     (errIs e ErrDecryptionFailed \<or> errIs e ErrCorruptPart \<or> errIs e ErrPrivateKeyRequired \<or> errIs e ErrUnsupportedMethod)"

text \<open>\<open>srcErr\<close> and \<open>dstErr\<close> are what the tracked reader and writer recorded.\<close>

definition classifyPartError :: "err \<Rightarrow> err option \<Rightarrow> err option \<Rightarrow> err" where
  "classifyPartError e srcErr dstErr =
     (if dstErr \<noteq> None then Errorf [e]
      else if srcErr \<noteq> None then Errorf [e]
      else if errIs e ErrPassword then Errorf [Sentinel ErrDecryptionFailed, e]
      else Errorf [Sentinel ErrCorruptPart, e])"

definition incompleteRunError :: "err option \<Rightarrow> err" where
  "incompleteRunError cause =
     (case cause of Some e \<Rightarrow> Errorf [Sentinel ErrIncompleteRun, e] | None \<Rightarrow> Errorf [Sentinel ErrIncompleteRun])"

section \<open>The head of a part\<close>

record partHeader =
  ph_Flags :: "16 word"
  ph_Method :: nat

text \<open>
  \<open>ReadLocalFileHeader\<close> gives its result, the number of bytes it read and whether it ran into the
  end of the stream; \<open>pl_payload\<close> is the stream that the decryption (for the password) and the
  decompression deliver, and whether they read their input to its end.
\<close>

record partLib =
  pl_ReadLocalFileHeader :: "reader \<Rightarrow> partHeader result \<times> nat \<times> bool"
  pl_payload :: "partHeader \<Rightarrow> string \<Rightarrow> reader \<Rightarrow> reader \<times> bool"
  pl_probe :: "partHeader \<Rightarrow> string \<Rightarrow> bytes \<Rightarrow> err option"

definition decryptPartPassword :: "naclBox \<Rightarrow> FileRecord \<Rightarrow> bytes \<Rightarrow> string result" where
  "decryptPartPassword nb record privateKey =
     (if EncryptedZipPassword record = [] then Inr []
      else if privateKey = [] then Inl (Errorf [Sentinel ErrPrivateKeyRequired])
      else case DecryptPassword nb (EncryptedZipPassword record) (EphemeralPublicKey record) privateKey of
             Inr pass \<Rightarrow> Inr pass
           | Inl e \<Rightarrow> if errIs e ErrDecryptionFailed then Inl (Errorf [e])
                     else Inl (Errorf [Sentinel ErrDecryptionFailed, e]))"

definition encrypted :: "partHeader \<Rightarrow> bool" where
  "encrypted fh \<longleftrightarrow> bit (ph_Flags fh) 0"

definition checkPartHeader :: "partHeader \<Rightarrow> string \<Rightarrow> err option" where
  "checkPartHeader fh password =
     (if ph_Method fh \<noteq> Store \<and> ph_Method fh \<noteq> Deflate then Some (Errorf [Sentinel ErrUnsupportedMethod])
      else if bit (ph_Flags fh) 6 then Some (Errorf [Sentinel ErrUnsupportedMethod])
      else if encrypted fh \<and> password = [] then Some (Errorf [Sentinel ErrDecryptionFailed])
      else None)"

section \<open>Extracting one file\<close>

definition restoreTempPrefix :: string where "restoreTempPrefix = ''.tsync-restore-tmp-''"

text \<open>\<open>calculateFileCRC32\<close>\<close>

definition calculateFileCRC32 :: "string \<Rightarrow> fsWorld \<Rightarrow> 32 word result \<times> fsWorld" where
  "calculateFileCRC32 p f = (case osReadFile p f of (Inl e, f) \<Rightarrow> (Inl e, f) | (Inr d, f) \<Rightarrow> (Inr (crc32 d), f))"

text \<open>Whether the file that is there makes the extraction unnecessary.\<close>

definition keepExisting :: "RestoreOptions \<Rightarrow> FileRecord \<Rightarrow> string \<Rightarrow> fsWorld \<Rightarrow> bool \<times> fsWorld" where
  "keepExisting opts record out f =
     (case osStat out f of
        (Inl e, f) \<Rightarrow> (False, f)
      | (Inr node, f) \<Rightarrow>
          if ro_NoOverwrite opts then (True, f)
          else case node of
                 FFile d t \<Rightarrow>
                   if int (length d) = fr_UncompressedSize record then
                     (case calculateFileCRC32 out f of
                        (Inl e, f) \<Rightarrow> (False, f)
                      | (Inr crc, f) \<Rightarrow> (crc = fr_Crc32 record, f))
                   else (False, f)
               | _ \<Rightarrow> (False, f))"

text \<open>The stream that is extracted; a stored part that is not encrypted is read as it is.\<close>

definition payloadReader :: "partLib \<Rightarrow> partHeader \<Rightarrow> string \<Rightarrow> reader \<Rightarrow> reader \<times> bool" where
  "payloadReader Z fh password cr =
     (if \<not> encrypted fh \<and> ph_Method fh \<noteq> Deflate then (cr, True) else pl_payload Z fh password cr)"

text \<open>\<open>io.Copy\<close> moves 32 KiB at a time.\<close>

definition ioCopyBuf :: nat where "ioCopyBuf = 32 * 1024"

function ioPieces :: "bytes \<Rightarrow> bytes list" where
  "ioPieces b = (if b = [] then [] else take ioCopyBuf b # ioPieces (drop ioCopyBuf b))"
  by pat_completeness auto
termination
  by (relation "measure length") (auto simp: ioCopyBuf_def)

declare ioPieces.simps [simp del]

text \<open>Into the temporary file and the checksum (\<open>io.MultiWriter\<close>).\<close>

fun copyOut :: "string \<Rightarrow> bytes list \<Rightarrow> int \<Rightarrow> 32 word \<Rightarrow> fsWorld \<Rightarrow> (err + int \<times> 32 word) \<times> fsWorld" where
  "copyOut tmp [] written crc f = (Inr (written, crc), f)"
| "copyOut tmp (b # bs) written crc f =
     (case fWrite tmp b f of
        ((n, Some e), f) \<Rightarrow> (Inl e, f)
      | ((n, None), f) \<Rightarrow> copyOut tmp bs (written + n) (crc32_update crc b) f)"

definition corruptPart :: err where "corruptPart = Errorf [Sentinel ErrCorruptPart]"

definition fillTemp ::
  "partLib \<Rightarrow> FileRecord \<Rightarrow> partHeader \<Rightarrow> string \<Rightarrow> reader \<Rightarrow> string \<Rightarrow> fsWorld \<Rightarrow> err option \<times> fsWorld" where
  "fillTemp Z record fh password src tmp f =
     (let cr = limitReader (fr_CompressedSize record) src;
          (payload, met) = payloadReader Z fh password cr
      in case copyOut tmp (ioPieces (fst payload)) 0 0 f of
           (Inl e, f) \<Rightarrow> (Some (Errorf [classifyPartError e None (Some e)]), f)
         | (Inr (written, crc), f) \<Rightarrow>
             (case snd payload of
                Some e \<Rightarrow> (Some (Errorf [classifyPartError e (if met then snd cr else None) None]), f)
              | None \<Rightarrow>
                  (case snd cr of
                     Some e \<Rightarrow> (Some (Errorf [classifyPartError e (Some e) None]), f)
                   | None \<Rightarrow>
                       if int (length (fst cr)) \<noteq> fr_CompressedSize record then (Some corruptPart, f)
                       else if written \<noteq> fr_UncompressedSize record \<or> crc \<noteq> fr_Crc32 record then (Some corruptPart, f)
                       else (None, f))))"

definition fChmod :: "string \<Rightarrow> fsWorld \<Rightarrow> unit result \<times> fsWorld" where
  "fChmod p f = syscall (\<lambda>f. (Inr (), f)) f"

text \<open>The deferred removal of the temporary file.\<close>

definition discardTemp :: "bool \<Rightarrow> string \<Rightarrow> fsWorld \<Rightarrow> fsWorld" where
  "discardTemp closed tmp f = snd (osRemove tmp (if closed then f else snd (fClose tmp f)))"

definition placeFile ::
  "partLib \<Rightarrow> FileRecord \<Rightarrow> partHeader \<Rightarrow> string \<Rightarrow> reader \<Rightarrow> string \<Rightarrow> fsWorld \<Rightarrow> err option \<times> fsWorld" where
  "placeFile Z record fh password src out f =
     (case osMkdirAll (filepathDir out) f of
        (Inl e, f) \<Rightarrow> (Some (Errorf [e]), f)
      | (Inr _, f) \<Rightarrow>
          (case osCreateTemp (filepathDir out) restoreTempPrefix f of
             (Inl e, f) \<Rightarrow> (Some (Errorf [e]), f)
           | (Inr tmp, f) \<Rightarrow>
               (case fillTemp Z record fh password src tmp f of
                  (Some e, f) \<Rightarrow> (Some e, discardTemp False tmp f)
                | (None, f) \<Rightarrow>
                    (case fChmod tmp f of
                       (Inl e, f) \<Rightarrow> (Some (Errorf [e]), discardTemp False tmp f)
                     | (Inr _, f) \<Rightarrow>
                         (case fSync tmp f of
                            (Inl e, f) \<Rightarrow> (Some (Errorf [e]), discardTemp False tmp f)
                          | (Inr _, f) \<Rightarrow>
                              (case fClose tmp f of
                                 (Inl e, f) \<Rightarrow> (Some (Errorf [e]), discardTemp True tmp f)
                               | (Inr _, f) \<Rightarrow>
                                   (case osRename tmp out f of
                                      (Inl e, f) \<Rightarrow> (Some (Errorf [e]), discardTemp True tmp f)
                                    | (Inr _, f) \<Rightarrow> (None, f))))))))"

text \<open>The store, the file system, and the directories to be synced at the end.\<close>

record 's restoreWorld =
  rw_store :: 's
  rw_fs :: fsWorld
  rw_dirs :: "string list"

definition extractOne ::
  "naclBox \<Rightarrow> partLib \<Rightarrow> ('s, 'w) Storage \<Rightarrow> RestoreOptions \<Rightarrow> BackupMetadata \<Rightarrow> string \<times> string \<Rightarrow> 's restoreWorld \<Rightarrow>
     err option \<times> 's restoreWorld" where
  "extractOne nb Z S opts metadata t w =
     (case safeJoin (ro_ExtractDir opts) (fst t) of
        Inl e \<Rightarrow> (Some e, w)
      | Inr out \<Rightarrow>
          (case gm_get (Files metadata) (snd t) of
             None \<Rightarrow> (Some (Errorf [Sentinel ErrCorruptMetadata]), w)
           | Some record \<Rightarrow>
               (case keepExisting opts record out (rw_fs w) of
                  (True, f) \<Rightarrow> (None, w\<lparr>rw_fs := f\<rparr>)
                | (False, f) \<Rightarrow>
                    (case decryptPartPassword nb record (ro_PrivateKey opts) of
                       Inl e \<Rightarrow> (Some (Errorf [e]), w\<lparr>rw_fs := f\<rparr>)
                     | Inr password \<Rightarrow>
                         (case st_OpenReader S RunCtx (take 2 (snd t) @ ''/'' @ snd t) (rw_store w) of
                            (Inl e, s) \<Rightarrow> (Some (Errorf [e]), w\<lparr>rw_fs := f, rw_store := s\<rparr>)
                          | (Inr rc, s) \<Rightarrow>
                              (case pl_ReadLocalFileHeader Z rc of
                                 (Inl e, n, met) \<Rightarrow>
                                   (Some (Errorf [classifyPartError e (if met then snd rc else None) None]), w\<lparr>rw_fs := f, rw_store := s\<rparr>)
                               | (Inr fh, n, met) \<Rightarrow>
                                   (case checkPartHeader fh password of
                                      Some e \<Rightarrow> (Some (Errorf [e]), w\<lparr>rw_fs := f, rw_store := s\<rparr>)
                                    | None \<Rightarrow>
                                        (case placeFile Z record fh password (drop n (fst rc), snd rc) out f of
                                           (Some e, f) \<Rightarrow> (Some e, w\<lparr>rw_fs := f, rw_store := s\<rparr>)
                                         | (None, f) \<Rightarrow>
                                             (None, w\<lparr>rw_fs := f, rw_store := s, rw_dirs := List.insert (filepathDir out) (rw_dirs w)\<rparr>)))))))))"

section \<open>Disk space\<close>

text \<open>\<open>getExistingAncestor\<close>: every step up drops a component, so the length of the path bounds it.\<close>

partial_function (option) getExistingAncestor :: "string \<Rightarrow> fsWorld \<Rightarrow> (string \<times> fsWorld) option" where
  "getExistingAncestor p f =
     (case osStat p f of
        (Inr node, f) \<Rightarrow> Some (p, f)
      | (Inl e, f) \<Rightarrow> if filepathDir p = p then Some (p, f) else getExistingAncestor (filepathDir p) f)"

text \<open>\<open>getFreeSpace\<close> is the argument \<open>free\<close>; sizes add up as \<open>int64\<close>.\<close>

definition sumSizes :: "BackupMetadata \<Rightarrow> (string, string) gomap \<Rightarrow> int \<times> int" where
  "sumSizes metadata filteredMap =
     foldl (\<lambda>(total, mx) (p, k).
              case gm_get (Files metadata) k of
                None \<Rightarrow> (total, mx)
              | Some record \<Rightarrow> (wrap64 (total + fr_UncompressedSize record), max mx (fr_UncompressedSize record)))
       (0, 0) filteredMap"

definition diskCheck ::
  "64 word result \<Rightarrow> RestoreOptions \<Rightarrow> BackupMetadata \<Rightarrow> (string, string) gomap \<Rightarrow> int result" where
  "diskCheck free opts metadata filteredMap =
     (let concurrency = (if ro_Concurrency opts \<le> 0 then 10 else ro_Concurrency opts)
      in case free of
           Inl e \<Rightarrow> Inr concurrency
         | Inr freeSpace \<Rightarrow>
             let (total, mx) = sumSizes metadata filteredMap
             in if freeSpace < word_of_int mx then Inl (Errorf [Sentinel ErrInsufficientDiskSpace])
                else if freeSpace < word_of_int total then Inr 1 else Inr concurrency)"

section \<open>Selecting\<close>

definition selectRestore ::
  "RestoreOptions \<Rightarrow> (string, string) gomap \<times> string list \<Rightarrow> (string, string) gomap \<times> string list" where
  "selectRestore opts r =
     (if ro_FilesToRestore opts \<noteq> [] then
        let targets = ro_FilesToRestore opts @ map (\<lambda>x. TrimSuffix x ''/'') (ro_FilesToRestore opts)
        in (filter (\<lambda>(p, k). p \<in> set targets) (fst r), filter (\<lambda>d. d \<in> set targets \<or> d @ ''/'' \<in> set targets) (snd r))
      else case ro_FilterFunc opts of
             None \<Rightarrow> r
           | Some keep \<Rightarrow> (filter (\<lambda>(p, k). keep p) (fst r), filter (\<lambda>d. keep d \<or> keep (d @ ''/'')) (snd r)))"

end
