(* ===== verification/RestoreFile.thy ===== *)
theory RestoreFile
  imports Restore
begin

text \<open>
  The extraction of one file: whatever fails, nothing changes but the destination path and fresh
  temporary names, except that missing directories above the destination may have been made; the
  destination changes only when the extraction succeeds, and then holds a file with the recorded
  length and checksum.
\<close>

section \<open>What a file system keeps\<close>

text \<open>
  Outside \<open>K\<close> every node is what it was, or is a new directory at a path of \<open>D\<close>. (The times of
  directories are not modelled: a directory node keeps the time of its creation.)
\<close>

definition fs_only :: "string set \<Rightarrow> string set \<Rightarrow> fsWorld \<Rightarrow> fsWorld \<Rightarrow> bool" where
  "fs_only D K f f' \<longleftrightarrow> fs_ok f' \<and>
     (\<forall>q. q \<notin> K \<longrightarrow> gm_get (fs_nodes f') q = gm_get (fs_nodes f) q \<or>
        q \<in> D \<and> gm_get (fs_nodes f) q = None \<and> (\<exists>t. gm_get (fs_nodes f') q = Some (FDir t)))"

lemma only_ok: "fs_only D K f f' \<Longrightarrow> fs_ok f'"
  by (simp add: fs_only_def)

lemma only_nodes: "fs_ok f' \<Longrightarrow> fs_nodes f' = fs_nodes f \<Longrightarrow> fs_only D K f f'"
  by (simp add: fs_only_def)

lemma only_refl: "fs_ok f \<Longrightarrow> fs_only D K f f"
  by (simp add: only_nodes)

lemma only_mono: "fs_only D K f f' \<Longrightarrow> D \<subseteq> D' \<Longrightarrow> K \<subseteq> K' \<Longrightarrow> fs_only D' K' f f'"
  unfolding fs_only_def by blast

lemma only_trans:
  assumes "fs_only D K a b" and "fs_only D K b c"
  shows "fs_only D K a c"
  unfolding fs_only_def
proof (intro conjI allI impI)
  show "fs_ok c" using assms(2) by (rule only_ok)
  fix q assume q: "q \<notin> K"
  with assms have
    "gm_get (fs_nodes b) q = gm_get (fs_nodes a) q \<or> q \<in> D \<and> gm_get (fs_nodes a) q = None \<and> (\<exists>t. gm_get (fs_nodes b) q = Some (FDir t))"
    "gm_get (fs_nodes c) q = gm_get (fs_nodes b) q \<or> q \<in> D \<and> gm_get (fs_nodes b) q = None \<and> (\<exists>t. gm_get (fs_nodes c) q = Some (FDir t))"
    unfolding fs_only_def by blast+
  then show "gm_get (fs_nodes c) q = gm_get (fs_nodes a) q \<or>
      q \<in> D \<and> gm_get (fs_nodes a) q = None \<and> (\<exists>t. gm_get (fs_nodes c) q = Some (FDir t))"
    by auto
qed

lemma only_then: "fs_only D K a b \<Longrightarrow> fs_only D' K' b c \<Longrightarrow> fs_only (D \<union> D') (K \<union> K') a c"
  using only_trans [OF only_mono [of D K a b "D \<union> D'" "K \<union> K'"] only_mono [of D' K' b c "D \<union> D'" "K \<union> K'"]] by simp

lemma only_stays: "fs_only D K f f' \<Longrightarrow> q \<notin> K \<Longrightarrow> gm_get (fs_nodes f) q = Some n \<Longrightarrow> gm_get (fs_nodes f') q = Some n"
  unfolding fs_only_def by fastforce

lemma only_absent: "fs_only D K f f' \<Longrightarrow> q \<notin> K \<Longrightarrow> gm_get (fs_nodes f') q = None \<Longrightarrow> gm_get (fs_nodes f) q = None"
  unfolding fs_only_def by fastforce

lemma only_data: "fs_only D K f f' \<Longrightarrow> q \<notin> K \<Longrightarrow> fileData f' q = fileData f q"
  unfolding fs_only_def fileData_def by fastforce

lemma only_quiet: "syscall (\<lambda>s. (g s, s)) f = (r, f') \<Longrightarrow> fs_ok f \<Longrightarrow> fs_only D K f f'"
  by (erule (1) syscall_elim) (auto intro: only_nodes)

lemma fChmod_only: "fChmod p f = (r, f') \<Longrightarrow> fs_ok f \<Longrightarrow> fs_only D K f f'"
  unfolding fChmod_def by (rule only_quiet)

lemma fSync_only: "fSync p f = (r, f') \<Longrightarrow> fs_ok f \<Longrightarrow> fs_only D K f f'"
  unfolding fSync_def by (rule only_quiet)

lemma fClose_only: "fClose p f = (r, f') \<Longrightarrow> fs_ok f \<Longrightarrow> fs_only D K f f'"
  unfolding fClose_def by (rule only_quiet)

lemma mkdirs_only: "mkdirs ds f = (r, f') \<Longrightarrow> fs_ok f \<Longrightarrow> set ds \<subseteq> D \<Longrightarrow> fs_only D K f f'"
proof (induction ds arbitrary: f)
  case (Cons d ds)
  let ?f = "f\<lparr>fs_nodes := gm_put d (FDir (fs_now f)) (fs_nodes f)\<rparr>"
  show ?case
  proof (cases "gm_get (fs_nodes f) d")
    case None
    have "fs_only D K f ?f" using None Cons.prems(2,3) by (auto simp: fs_only_def gm_get_put)
    moreover have "fs_only D K ?f f'" using None Cons by simp
    ultimately show ?thesis by (rule only_trans)
  next
    case (Some n)
    with Cons show ?thesis by (cases n) (auto simp: only_refl)
  qed
qed (simp add: only_refl)

lemma osMkdirAll_only:
  assumes "osMkdirAll d f = (r, f')" and "fs_ok f" and "set (ancestors d) \<subseteq> D"
  shows "fs_only D K f f'"
  using assms(1) [unfolded osMkdirAll_def] assms(2)
  by (rule syscall_elim)
    (auto intro: only_nodes only_trans [OF only_nodes mkdirs_only [OF _ _ assms(3)]])

lemma createTemp_only:
  "createTemp_loop px rs f = (r, f') \<Longrightarrow> fs_ok f \<Longrightarrow> list_all (\<lambda>r. CHR ''/'' \<notin> set r) rs \<Longrightarrow> (\<And>tmp. r = Inr tmp \<Longrightarrow> tmp \<in> K) \<Longrightarrow>
     fs_only D K f f'"
  by (induction px rs f rule: createTemp_loop.induct)
    (auto simp: fs_only_def gm_get_put fs_ok_rand split: if_splits)

lemma osCreateTemp_only:
  assumes "osCreateTemp d px f = (r, f')" and "fs_ok f" and "\<And>tmp. r = Inr tmp \<Longrightarrow> tmp \<in> K"
  shows "fs_only D K f f'"
  using assms(1) [unfolded osCreateTemp_def] assms(2)
proof (rule syscall_elim)
  fix f1 assume f1: "createTemp_loop (d @ ''/'' @ px) (fs_rand f1) f1 = (r, f')" "fs_ok f1" "fs_nodes f1 = fs_nodes f"
  then have "list_all (\<lambda>r. CHR ''/'' \<notin> set r) (fs_rand f1)" by (simp add: fs_ok_def)
  from createTemp_only [OF f1(1,2) this assms(3)] show ?thesis by (rule only_trans [OF only_nodes [OF f1(2,3)]])
qed (auto intro: only_nodes)

lemma fWrite_only: "fWrite p b f = (r, f') \<Longrightarrow> fs_ok f \<Longrightarrow> fs_only D {p} f f'"
  by (auto simp: fWrite_def appendTo_def fs_only_def gm_get_put dest: tick_ok(1,2)
      split: prod.splits option.splits fnode.splits)

lemma osRemove_only: "osRemove p f = (r, f') \<Longrightarrow> fs_ok f \<Longrightarrow> fs_only D {p} f f'"
  unfolding osRemove_def
  by (erule (1) syscall_elim)
    (auto simp: fs_only_def gm_get_del split: option.splits fnode.splits if_splits)

lemma osRename_only: "osRename p q f = (r, f') \<Longrightarrow> fs_ok f \<Longrightarrow> fs_only D (if isl r then {} else {p, q}) f f'"
  unfolding osRename_def
  by (erule (1) syscall_elim)
    (auto simp: fs_only_def gm_get_del gm_get_put split: option.splits fnode.splits if_splits)

lemma discardTemp_only: "fs_ok f \<Longrightarrow> fs_only D {tmp} f (discardTemp closed tmp f)"
proof -
  assume f: "fs_ok f"
  obtain r1 f1 where c: "fClose tmp f = (r1, f1)" by fastforce
  note st = fClose_only [OF c f, of D "{tmp}"]
  obtain r2 f2 where a: "osRemove tmp f = (r2, f2)" by fastforce
  obtain r3 f3 where b: "osRemove tmp f1 = (r3, f3)" by fastforce
  show ?thesis
    using osRemove_only [OF a f] only_trans [OF st osRemove_only [OF b only_ok [OF st]]] by (simp add: discardTemp_def a b c)
qed

section \<open>Copying\<close>

lemma concat_ioPieces: "concat (ioPieces b) = b"
  by (induction b rule: ioPieces.induct) (subst ioPieces.simps, simp)

lemma copyOut_spec:
  assumes "copyOut tmp bs n c f = (r, f')" and "fs_ok f" and "fileData f tmp = Some d"
  shows "fs_only D {tmp} f f' \<and>
    (\<forall>n' c'. r = Inr (n', c') \<longrightarrow> fileData f' tmp = Some (d @ concat bs) \<and> n' = n + int (length (concat bs)) \<and>
       c' = crc32_update c (concat bs))"
  using assms
proof (induction tmp bs n c f arbitrary: d rule: copyOut.induct)
  case (1 tmp n c f)
  then show ?case by (auto simp: only_refl crc32_update_def)
next
  case (2 tmp b bs n c f)
  obtain k e f1 where w: "fWrite tmp b f = ((k, e), f1)" by (metis surj_pair)
  note st = fWrite_only [OF w "2.prems"(2), of D] fWrite_step(2) [OF w "2.prems"(2,3)]
  have k: "k = int (length b)" if "e = None"
    using w that by (auto simp: fWrite_def split: option.splits prod.splits)
  show ?case
  proof (cases e)
    case (Some x)
    with "2.prems"(1) w st show ?thesis by auto
  next
    case None
    with "2.prems"(1) w have rest: "copyOut tmp bs (n + k) (crc32_update c b) f1 = (r, f')" by simp
    from "2.IH" [OF w [symmetric] refl None rest only_ok [OF st(1)] st(2) [OF None]] k [OF None] st(1) show ?thesis
      by (auto simp: crc32_update_append intro: only_trans)
  qed
qed

definition restored :: "FileRecord \<Rightarrow> bytes \<Rightarrow> bool" where
  "restored rec d \<longleftrightarrow> int (length d) = fr_UncompressedSize rec \<and> crc32 d = fr_Crc32 rec"

lemma fillTemp_spec:
  assumes "fillTemp Z rec fh password src tmp f = (oe, f')" and "fs_ok f" and "fileData f tmp = Some []"
  shows "fs_only D {tmp} f f' \<and> (oe = None \<longrightarrow> (\<exists>d. fileData f' tmp = Some d \<and> restored rec d))"
proof -
  obtain payload met where pl: "payloadReader Z fh password (limitReader (fr_CompressedSize rec) src) = (payload, met)" by fastforce
  obtain r f1 where co: "copyOut tmp (ioPieces (fst payload)) 0 0 f = (r, f1)" by fastforce
  note st = copyOut_spec [OF co assms(2,3), of D]
  show ?thesis
    using assms(1) st
    by (auto simp: fillTemp_def Let_def pl co concat_ioPieces restored_def crc32_def split: sum.splits option.splits if_splits)
qed

section \<open>Placing the file\<close>

definition rtemp_path :: "string \<Rightarrow> bool" where
  "rtemp_path p \<longleftrightarrow> HasPrefix (last (Split CHR ''/'' p)) restoreTempPrefix"

lemma rtemp_created: "CHR ''/'' \<notin> set x \<Longrightarrow> rtemp_path (dir @ ''/'' @ restoreTempPrefix @ x)"
  using Split_last_append [of "restoreTempPrefix @ x" dir] by (simp add: rtemp_path_def restoreTempPrefix_def HasPrefix_iff)

text \<open>The names that may be touched besides the destination: fresh temporary ones.\<close>

definition fresh_temps :: "fsWorld \<Rightarrow> string set \<Rightarrow> bool" where
  "fresh_temps f K \<longleftrightarrow> (\<forall>q \<in> K. rtemp_path q \<and> \<not> gm_has (fs_nodes f) q)"

lemma placeFile_spec:
  assumes place: "placeFile Z rec fh password src out f = (oe, f')" and "fs_ok f" and out: "\<not> rtemp_path out"
    and dirs: "set (ancestors (filepathDir out)) \<subseteq> D"
  shows "\<exists>K. fresh_temps f K \<and>
    (oe \<noteq> None \<and> fs_only D K f f' \<or>
     oe = None \<and> fs_only D (insert out K) f f' \<and> (\<exists>d. fileData f' out = Some d \<and> restored rec d))"
proof -
  let ?dir = "filepathDir out"
  obtain r1 f1 where mk: "osMkdirAll ?dir f = (r1, f1)" by fastforce
  note st1 = osMkdirAll_only [OF mk assms(2) dirs]
  obtain r2 f2 where ct: "osCreateTemp ?dir restoreTempPrefix f1 = (r2, f2)" by fastforce
  note ok1 = only_ok [OF st1 [of "{}"]]
  note st2 = osCreateTemp_step [OF ct ok1]
  show ?thesis
  proof (cases "\<exists>u tmp. r1 = Inr u \<and> r2 = Inr tmp")
    case False
    have "fs_only D {} f f'" "oe \<noteq> None"
      using False place mk ct st1 only_trans [OF st1 osCreateTemp_only [OF ct ok1]]
      by (auto simp: placeFile_def split: sum.splits)
    then show ?thesis by (intro exI [of _ "{}"]) (simp add: fresh_temps_def)
  next
    case True
    then obtain u tmp where r: "r1 = Inr u" "r2 = Inr tmp" by blast
    with st2 obtain x where x: "fs_step {tmp} f1 f2" "fileData f2 tmp = Some []" "\<not> gm_has (fs_nodes f1) tmp"
      "CHR ''/'' \<notin> set x" "tmp = ?dir @ ''/'' @ restoreTempPrefix @ x" by auto
    have rt: "rtemp_path tmp" unfolding x(5) by (rule rtemp_created [OF x(4)])
    then have ne: "tmp \<noteq> out" using out by blast
    have "\<not> gm_has (fs_nodes f) tmp" using x(3) only_absent [OF st1 [of "{}"]] by auto
    then have fresh: "fresh_temps f {tmp}" using rt by (simp add: fresh_temps_def)
    have s2: "fs_only D {tmp} f f2"
      by (rule only_trans [OF st1 osCreateTemp_only [OF ct ok1]]) (use r in simp)
    obtain e3 f3 where fl: "fillTemp Z rec fh password src tmp f2 = (e3, f3)" by fastforce
    note st3 = fillTemp_spec [OF fl only_ok [OF s2] x(2), of D]
    have s3: "fs_only D {tmp} f f3" using only_trans [OF s2] st3 by blast
    obtain r4 f4 where ch: "fChmod tmp f3 = (r4, f4)" by fastforce
    obtain r5 f5 where sy: "fSync tmp f4 = (r5, f5)" by fastforce
    obtain r6 f6 where cl: "fClose tmp f5 = (r6, f6)" by fastforce
    obtain r7 f7 where rn: "osRename tmp out f6 = (r7, f7)" by fastforce
    have q4: "fs_only D {} f3 f4" by (rule fChmod_only [OF ch only_ok [OF s3]])
    have q5: "fs_only D {} f3 f5" using only_trans [OF q4 fSync_only [OF sy only_ok [OF q4]]] .
    have q6: "fs_only D {} f3 f6" using only_trans [OF q5 fClose_only [OF cl only_ok [OF q5]]] .
    have gone: "fs_only D {tmp} f (discardTemp c tmp g)" if "fs_only D {tmp} f g" for c g
      using only_trans [OF that discardTemp_only [OF only_ok [OF that]]] .
    have past: "fs_only D {tmp} f g" if "fs_only D {} f3 g" for g using only_then [OF s3 that] by simp
    note ren = osRename_only [OF rn only_ok [OF q6], of D]
    have head: "placeFile Z rec fh password src out f =
      (case e3 of Some e \<Rightarrow> (Some e, discardTemp False tmp f3) | None \<Rightarrow>
       (case r4 of Inl e \<Rightarrow> (Some (Errorf [e]), discardTemp False tmp f4) | Inr _ \<Rightarrow>
       (case r5 of Inl e \<Rightarrow> (Some (Errorf [e]), discardTemp False tmp f5) | Inr _ \<Rightarrow>
       (case r6 of Inl e \<Rightarrow> (Some (Errorf [e]), discardTemp True tmp f6) | Inr _ \<Rightarrow>
       (case r7 of Inl e \<Rightarrow> (Some (Errorf [e]), discardTemp True tmp f7) | Inr _ \<Rightarrow> (None, f7))))))"
      by (simp add: placeFile_def mk ct r fl ch sy cl rn split: option.splits sum.splits)
    show ?thesis
    proof (cases "\<exists>v. e3 = None \<and> r4 = Inr () \<and> r5 = Inr () \<and> r6 = Inr () \<and> r7 = Inr v")
      case True
      then obtain d where d: "fileData f3 tmp = Some d" "restored rec d" using st3 by blast
      then have "fileData f6 tmp = Some d" using only_data [OF q6] by simp
      from osRename_step(3) [OF rn only_ok [OF q6] this ne] True have data: "fileData f7 out = Some d" by auto
      have "fs_only D {tmp, out} f6 f7" using ren True by auto
      from only_then [OF past [OF q6] this] have "fs_only D {tmp, out} f f7" by (simp add: insert_commute)
      moreover have "oe = None" "f' = f7" using place True by (auto simp: head)
      ultimately show ?thesis
        using fresh data d(2) by (intro exI [of _ "{tmp}"]) (auto simp: insert_commute)
    next
      case False
      have "fs_only D {tmp} f f7" if "r7 = Inl e" for e
        using only_trans [OF q6] ren that by (intro past) simp
      then have "fs_only D {tmp} f f'" "oe \<noteq> None"
        using False place gone [OF s3] gone [OF past [OF q4]] gone [OF past [OF q5]] gone [OF past [OF q6]] gone
        by (auto simp: head split: option.splits sum.splits)
      with fresh show ?thesis by blast
    qed
  qed
qed

section \<open>One file\<close>

lemma quiet_result:
  assumes "syscall (\<lambda>s. (g s, s)) f = (r, f')" and "fs_ok f"
  shows "fs_only D K f f'" and "fs_nodes f' = fs_nodes f" and "r = Inr x \<Longrightarrow> g f' = Inr x"
  using assms only_quiet [OF assms] by (auto elim!: syscall_elim)

lemma osReadFile_result:
  assumes "osReadFile p f = (r, f')" and "fs_ok f"
  shows "fs_only D K f f'" and "fs_nodes f' = fs_nodes f" and "r = Inr d \<Longrightarrow> fileData f' p = Some d"
  using quiet_result [OF assms(1) [unfolded osReadFile_def] assms(2)]
  by (auto simp: fileData_def split: option.splits fnode.splits)

lemma keepExisting_spec:
  assumes "keepExisting opts rec out f = (b, f')" and "fs_ok f"
  shows "fs_only D K f f'"
    and "b \<Longrightarrow> ro_NoOverwrite opts \<and> gm_has (fs_nodes f) out \<or> (\<exists>d. fileData f' out = Some d \<and> restored rec d)"
proof -
  obtain r1 f1 where st: "osStat out f = (r1, f1)" by fastforce
  note q1 = quiet_result [OF st [unfolded osStat_def] assms(2)]
  obtain r2 f2 where rd: "osReadFile out f1 = (r2, f2)" by fastforce
  note q2 = osReadFile_result [OF rd only_ok [OF q1(1)]]
  have same: "fs_nodes f2 = fs_nodes f" using q1(2) q2(2) by simp
  have "f' = f1 \<or> f' = f2"
    using assms(1) st rd by (auto simp: keepExisting_def calculateFileCRC32_def split: sum.splits if_splits fnode.splits)
  then show "fs_only D K f f'" using q1(1) only_trans [OF q1(1) q2(1)] by blast
  show "ro_NoOverwrite opts \<and> gm_has (fs_nodes f) out \<or> (\<exists>d. fileData f' out = Some d \<and> restored rec d)" if holds: b
  proof -
    have r: "\<exists>node. r1 = Inr node" using assms(1) st holds by (auto simp: keepExisting_def split: sum.splits)
    then obtain node where node: "r1 = Inr node" "gm_get (fs_nodes f) out = Some node"
      using q1 by (auto split: option.splits)
    show ?thesis
    proof (cases "ro_NoOverwrite opts")
      case False
      then obtain d t where d: "node = FFile d t" "int (length d) = fr_UncompressedSize rec" "f' = f2"
        "\<exists>d'. r2 = Inr d' \<and> crc32 d' = fr_Crc32 rec"
        using assms(1) st rd node(1) holds
        by (auto simp: keepExisting_def calculateFileCRC32_def split: sum.splits if_splits fnode.splits)
      then have "fileData f' out = Some d" using node(2) same by (simp add: fileData_def)
      with d q2(3) show ?thesis by (auto simp: restored_def)
    qed (use node(2) in \<open>simp\<close>)
  qed
qed

text \<open>
  An extraction that succeeds leaves the recorded content, or the file that was there when
  \<open>NoOverwrite\<close> is set; one that fails leaves the destination alone. In both cases directories above
  the destination may be new, and nothing else.
\<close>

lemma extractOne_spec:
  assumes run: "extractOne nb Z S opts md t w = (oe, w')" and "fs_ok (rw_fs w)"
    and out: "safeJoin (ro_ExtractDir opts) (fst t) = Inr out" and "\<not> rtemp_path out"
    and dirs: "set (ancestors (filepathDir out)) \<subseteq> D"
  shows "\<exists>K. fresh_temps (rw_fs w) K \<and>
    (oe \<noteq> None \<and> fs_only D K (rw_fs w) (rw_fs w') \<or>
     oe = None \<and> fs_only D (insert out K) (rw_fs w) (rw_fs w') \<and>
       (ro_NoOverwrite opts \<and> gm_has (fs_nodes (rw_fs w)) out \<and> fs_only {} {} (rw_fs w) (rw_fs w') \<or>
        (\<exists>rec d. gm_get (Files md) (snd t) = Some rec \<and> fileData (rw_fs w') out = Some d \<and> restored rec d)))"
proof (cases "gm_get (Files md) (snd t)")
  case None
  with run out assms(2) show ?thesis
    by (intro exI [of _ "{}"]) (auto simp: extractOne_def fresh_temps_def only_refl)
next
  case (Some rec)
  let ?f = "rw_fs w"
  obtain b f1 where ke: "keepExisting opts rec out ?f = (b, f1)" by fastforce
  note ks = keepExisting_spec [OF ke assms(2)]
  show ?thesis
  proof (cases b)
    case True
    with run out Some ke have "oe = None" "rw_fs w' = f1" by (auto simp: extractOne_def)
    with ks True Some show ?thesis
      by (intro exI [of _ "{}"]) (auto simp: fresh_temps_def)
  next
    case False
    note start = run out Some ke False
    show ?thesis
    proof (cases "oe \<noteq> None \<and> rw_fs w' = f1")
      case True
      with ks(1) show ?thesis by (intro exI [of _ "{}"]) (simp add: fresh_temps_def)
    next
      case placed: False
      obtain fh password src f2 where pf: "placeFile Z rec fh password src out f1 = (oe, f2)" "rw_fs w' = f2"
        using start placed
        by (auto simp: extractOne_def split: sum.splits prod.splits option.splits)
      obtain K where K: "fresh_temps f1 K"
        "oe \<noteq> None \<and> fs_only D K f1 f2 \<or> oe = None \<and> fs_only D (insert out K) f1 f2 \<and> (\<exists>d. fileData f2 out = Some d \<and> restored rec d)"
        using placeFile_spec [OF pf(1) only_ok [OF ks(1)] assms(4) dirs] by blast
      have "fresh_temps ?f K" using K(1) only_absent [OF ks(1) [of "{}" "{}"]] by (auto simp: fresh_temps_def)
      moreover have "fs_only D L ?f f2" if "fs_only D L f1 f2" for L
        using only_trans [OF ks(1) that] .
      ultimately show ?thesis using K(2) Some pf(2) by blast
    qed
  qed
qed

end
