(* ===== verification/RestoreWorkers.thy ===== *)
theory RestoreWorkers
  imports RestoreFile
begin

text \<open>
  Restoring into a directory (\<open>restoreToDir\<close> and \<open>RunRestore\<close> in \<open>src/tsync/restore.go\<close>): workers
  take tasks from a channel, extract one file each and report one result for each; the first
  failure cancels the others. A step is one worker (or the caller, who may cancel) moving on.
  An extraction takes effect in the step that ends it.
\<close>

section \<open>The workers\<close>

type_synonym task = "string \<times> string"

datatype rpc = RIdle | RTaken task | RRunning task | RDone task "err option" | RExited

record restoreResult =
  rr_path :: string
  rr_err :: "err option"
  rr_cancelled :: bool

text \<open>\<open>rk_ctx\<close> is \<open>workerCtx.Err()\<close>, \<open>rk_parent\<close> is \<open>ctx.Err()\<close>.\<close>

record 's rworkers =
  rk_tasks :: "task list"
  rk_pcs :: "rpc list"
  rk_results :: "restoreResult list"
  rk_ctx :: "err option"
  rk_parent :: "err option"
  rk_world :: "'s restoreWorld"

definition rk_at :: "'s rworkers \<Rightarrow> nat \<Rightarrow> rpc \<Rightarrow> bool" where
  "rk_at st i pc \<longleftrightarrow> i < length (rk_pcs st) \<and> rk_pcs st ! i = pc"

definition rk_set :: "nat \<Rightarrow> rpc \<Rightarrow> 's rworkers \<Rightarrow> 's rworkers" where
  "rk_set i pc st = st\<lparr>rk_pcs := (rk_pcs st)[i := pc]\<rparr>"

definition rk_send :: "nat \<Rightarrow> restoreResult \<Rightarrow> 's rworkers \<Rightarrow> 's rworkers" where
  "rk_send i res st = (rk_set i RIdle st)\<lparr>rk_results := rk_results st @ [res]\<rparr>"

text \<open>The first cause of a context stays.\<close>

definition rk_cancel :: "err \<Rightarrow> 's rworkers \<Rightarrow> 's rworkers" where
  "rk_cancel e st = st\<lparr>rk_ctx := Some (case rk_ctx st of None \<Rightarrow> e | Some x \<Rightarrow> x)\<rparr>"

definition skipError :: "RestoreOptions \<Rightarrow> err option \<Rightarrow> err option" where
  "skipError opts oe =
     (case oe of
        None \<Rightarrow> None
      | Some e \<Rightarrow> if ro_SkipDecryptionErrors opts \<and> isSkippableRestoreError e then None else Some e)"

definition runTask ::
  "naclBox \<Rightarrow> partLib \<Rightarrow> ('s, 'w) Storage \<Rightarrow> RestoreOptions \<Rightarrow> BackupMetadata \<Rightarrow> nat \<Rightarrow> task \<Rightarrow> 's rworkers \<Rightarrow> 's rworkers" where
  "runTask nb Z S opts md i t st =
     (case extractOne nb Z S opts md t (rk_world st) of
        (oe, w) \<Rightarrow> rk_set i (RDone t (skipError opts oe)) (st\<lparr>rk_world := w\<rparr>))"

inductive rwstep ::
  "naclBox \<Rightarrow> partLib \<Rightarrow> ('s, 'w) Storage \<Rightarrow> RestoreOptions \<Rightarrow> BackupMetadata \<Rightarrow> 's rworkers \<Rightarrow> 's rworkers \<Rightarrow> bool"
  for nb Z S opts md where
  receive: "rk_at st i RIdle \<Longrightarrow> rk_tasks st = t # ts \<Longrightarrow> rwstep nb Z S opts md st (rk_set i (RTaken t) (st\<lparr>rk_tasks := ts\<rparr>))"
| leave: "rk_at st i RIdle \<Longrightarrow> rk_tasks st = [] \<Longrightarrow> rwstep nb Z S opts md st (rk_set i RExited st)"
| cancelled: "rk_at st i (RTaken t) \<Longrightarrow> rk_ctx st = Some e \<Longrightarrow>
    rwstep nb Z S opts md st (rk_send i \<lparr>rr_path = fst t, rr_err = Some e, rr_cancelled = True\<rparr> st)"
| begins: "rk_at st i (RTaken t) \<Longrightarrow> rk_ctx st = None \<Longrightarrow> rwstep nb Z S opts md st (rk_set i (RRunning t) st)"
| extracts: "rk_at st i (RRunning t) \<Longrightarrow> rwstep nb Z S opts md st (runTask nb Z S opts md i t st)"
| fails: "rk_at st i (RDone t (Some e)) \<Longrightarrow>
    rwstep nb Z S opts md st (rk_send i \<lparr>rr_path = fst t, rr_err = Some e, rr_cancelled = (rk_ctx st \<noteq> None \<and> errIs e Canceled)\<rparr>
      (rk_cancel (Sentinel Canceled) st))"
| succeeds: "rk_at st i (RDone t None) \<Longrightarrow>
    rwstep nb Z S opts md st (rk_send i \<lparr>rr_path = fst t, rr_err = None, rr_cancelled = False\<rparr> st)"

inductive rk_caller :: "'s rworkers \<Rightarrow> 's rworkers \<Rightarrow> bool" where
  "rk_parent st = None \<Longrightarrow> rk_caller st (rk_cancel e (st\<lparr>rk_parent := Some e\<rparr>))"

inductive rwreach ::
  "naclBox \<Rightarrow> partLib \<Rightarrow> ('s, 'w) Storage \<Rightarrow> RestoreOptions \<Rightarrow> BackupMetadata \<Rightarrow> 's rworkers \<Rightarrow> 's rworkers \<Rightarrow> bool"
  for nb Z S opts md st0 where
  here: "rwreach nb Z S opts md st0 st0"
| there: "rwreach nb Z S opts md st0 st \<Longrightarrow> rwstep nb Z S opts md st st' \<or> rk_caller st st' \<Longrightarrow> rwreach nb Z S opts md st0 st'"

definition startRestore :: "int \<Rightarrow> (string, string) gomap \<Rightarrow> err option \<Rightarrow> 's restoreWorld \<Rightarrow> 's rworkers" where
  "startRestore concurrency filteredMap cause w =
     \<lparr>rk_tasks = filteredMap, rk_pcs = replicate (nat concurrency) RIdle, rk_results = [], rk_ctx = cause, rk_parent = cause, rk_world = w\<rparr>"

definition rk_exited :: "'s rworkers \<Rightarrow> bool" where
  "rk_exited st \<longleftrightarrow> list_all (\<lambda>pc. pc = RExited) (rk_pcs st)"

section \<open>After the workers\<close>

fun hasErrno :: "string \<Rightarrow> err \<Rightarrow> bool" where
  "hasErrno m (Foreign x) = (x = m)"
| "hasErrno m (Errorf es) = list_ex (hasErrno m) es"
| "hasErrno m _ = False"

text \<open>\<open>syncDir\<close> of \<open>disk_space_unix.go\<close>, with its error.\<close>

definition osSyncDir :: "string \<Rightarrow> fsWorld \<Rightarrow> unit result \<times> fsWorld" where
  "osSyncDir dir f =
     (case syscall (\<lambda>f. (if gm_has (fs_nodes f) dir then Inr () else Inl notExist, f)) f of
        (Inl e, f) \<Rightarrow> (Inl e, f)
      | (Inr _, f) \<Rightarrow>
          (case fSync dir f of
             (syncErr, f) \<Rightarrow>
               (case fClose dir f of
                  (closeErr, f) \<Rightarrow>
                    (case syncErr of
                       Inl e \<Rightarrow> if hasErrno ''EINVAL'' e \<or> hasErrno ''ENOTSUP'' e then (closeErr, f) else (Inl e, f)
                     | Inr _ \<Rightarrow> (closeErr, f)))))"

fun makeEmptyDirs :: "RestoreOptions \<Rightarrow> string list \<Rightarrow> fsWorld \<Rightarrow> err option \<times> fsWorld" where
  "makeEmptyDirs opts [] f = (None, f)"
| "makeEmptyDirs opts (d # ds) f =
     (case (case safeJoin (ro_ExtractDir opts) d of Inl e \<Rightarrow> (Inl e, f) | Inr p \<Rightarrow> osMkdirAll p f) of
        (Inl e, f) \<Rightarrow> if ro_SkipValidationErrors opts then makeEmptyDirs opts ds f else (Some (Errorf [e]), f)
      | (Inr _, f) \<Rightarrow> makeEmptyDirs opts ds f)"

fun syncDirs :: "string list \<Rightarrow> fsWorld \<Rightarrow> err option \<times> fsWorld" where
  "syncDirs [] f = (None, f)"
| "syncDirs (d # ds) f = (case osSyncDir d f of (Inl e, f) \<Rightarrow> (Some (Errorf [e]), f) | (Inr _, f) \<Rightarrow> syncDirs ds f)"

definition firstRestoreErr :: "restoreResult list \<Rightarrow> err option" where
  "firstRestoreErr rs = (case filter (\<lambda>r. rr_err r \<noteq> None \<and> \<not> rr_cancelled r) rs of [] \<Rightarrow> None | r # _ \<Rightarrow> rr_err r)"

definition finishRestore ::
  "RestoreOptions \<Rightarrow> nat \<Rightarrow> string list \<Rightarrow> 's rworkers \<Rightarrow> err option \<times> 's restoreWorld" where
  "finishRestore opts tot emptyDs st =
     (let w = rk_world st; ndone = length (filter (\<lambda>r. rr_err r = None) (rk_results st)) in
      case rk_parent st of
        Some e \<Rightarrow> (Some (incompleteRunError (Some e)), w)
      | None \<Rightarrow>
          (case firstRestoreErr (rk_results st) of
             Some e \<Rightarrow> (Some e, w)
           | None \<Rightarrow>
               if ndone \<noteq> tot then (Some (incompleteRunError None), w)
               else (case makeEmptyDirs opts emptyDs (rw_fs w) of
                       (Some e, f) \<Rightarrow> (Some e, w\<lparr>rw_fs := f\<rparr>)
                     | (None, f) \<Rightarrow> (case syncDirs (rw_dirs w) f of (oe, f) \<Rightarrow> (oe, w\<lparr>rw_fs := f\<rparr>)))))"

text \<open>\<open>restoreToDir\<close>: the outcome is that of some run of the workers; \<open>free\<close> is \<open>getFreeSpace\<close>.\<close>

inductive restoreToDir ::
  "naclBox \<Rightarrow> partLib \<Rightarrow> (string \<Rightarrow> 64 word result) \<Rightarrow> ('s, 'w) Storage \<Rightarrow> RestoreOptions \<Rightarrow> BackupMetadata \<Rightarrow> (string, string) gomap \<Rightarrow>
     string list \<Rightarrow> 's restoreWorld \<Rightarrow> err option \<Rightarrow> 's restoreWorld \<Rightarrow> bool"
  for nb Z free S opts md filteredMap emptyDs w where
  no_space: "getExistingAncestor (ro_ExtractDir opts) (rw_fs w) = Some (ancestor, f) \<Longrightarrow>
    diskCheck (free ancestor) opts md filteredMap = Inl e \<Longrightarrow>
    restoreToDir nb Z free S opts md filteredMap emptyDs w (Some e) (w\<lparr>rw_fs := f\<rparr>)"
| extracted: "getExistingAncestor (ro_ExtractDir opts) (rw_fs w) = Some (ancestor, f) \<Longrightarrow>
    diskCheck (free ancestor) opts md filteredMap = Inr concurrency \<Longrightarrow>
    rwreach nb Z S opts md (startRestore concurrency filteredMap cause (w\<lparr>rw_fs := f\<rparr>)) st \<Longrightarrow> rk_exited st \<Longrightarrow>
    finishRestore opts (length filteredMap) emptyDs st = (oe, w') \<Longrightarrow>
    restoreToDir nb Z free S opts md filteredMap emptyDs w oe w'"

section \<open>Progress\<close>

fun rpc_cost :: "rpc \<Rightarrow> nat" where
  "rpc_cost RExited = 0"
| "rpc_cost RIdle = 1"
| "rpc_cost (RDone t oe) = 2"
| "rpc_cost (RRunning t) = 3"
| "rpc_cost (RTaken t) = 4"

definition rk_cost :: "'s rworkers \<Rightarrow> nat" where
  "rk_cost st = 4 * length (rk_tasks st) + sum_list (map rpc_cost (rk_pcs st)) + (if rk_parent st = None then 1 else 0)"

lemma rk_simps [simp]:
  "rk_tasks (rk_set i pc st) = rk_tasks st" "rk_pcs (rk_set i pc st) = (rk_pcs st)[i := pc]"
  "rk_results (rk_set i pc st) = rk_results st" "rk_ctx (rk_set i pc st) = rk_ctx st" "rk_parent (rk_set i pc st) = rk_parent st"
  "rk_world (rk_set i pc st) = rk_world st"
  "rk_tasks (rk_send i r st) = rk_tasks st" "rk_pcs (rk_send i r st) = (rk_pcs st)[i := RIdle]"
  "rk_results (rk_send i r st) = rk_results st @ [r]" "rk_ctx (rk_send i r st) = rk_ctx st" "rk_parent (rk_send i r st) = rk_parent st"
  "rk_world (rk_send i r st) = rk_world st"
  "rk_tasks (rk_cancel e st) = rk_tasks st" "rk_pcs (rk_cancel e st) = rk_pcs st" "rk_results (rk_cancel e st) = rk_results st"
  "rk_parent (rk_cancel e st) = rk_parent st" "rk_world (rk_cancel e st) = rk_world st"
  by (simp_all add: rk_set_def rk_send_def rk_cancel_def)

lemma runTask_simps [simp]:
  "rk_tasks (runTask nb Z S opts md i t st) = rk_tasks st" "rk_results (runTask nb Z S opts md i t st) = rk_results st"
  "rk_parent (runTask nb Z S opts md i t st) = rk_parent st" "rk_ctx (runTask nb Z S opts md i t st) = rk_ctx st"
  "rk_pcs (runTask nb Z S opts md i t st) =
     (rk_pcs st)[i := RDone t (skipError opts (fst (extractOne nb Z S opts md t (rk_world st))))]"
  "rk_world (runTask nb Z S opts md i t st) = snd (extractOne nb Z S opts md t (rk_world st))"
  by (simp_all add: runTask_def case_prod_unfold)

lemma rwstep_progress: "\<not> rk_exited st \<Longrightarrow> \<exists>st'. rwstep nb Z S opts md st st'"
proof -
  assume "\<not> rk_exited st"
  then obtain i where i: "i < length (rk_pcs st)" "rk_pcs st ! i \<noteq> RExited"
    by (auto simp: rk_exited_def list_all_length)
  then have pc: "rk_at st i (rk_pcs st ! i)" by (simp add: rk_at_def)
  show ?thesis
  proof (cases "rk_pcs st ! i")
    case RIdle
    with pc show ?thesis by (cases "rk_tasks st") (metis rwstep.leave, metis rwstep.receive)
  next
    case (RTaken t)
    with pc show ?thesis by (cases "rk_ctx st") (metis rwstep.begins, metis rwstep.cancelled)
  next
    case (RRunning t)
    with pc show ?thesis by (metis rwstep.extracts)
  next
    case (RDone t oe)
    with pc show ?thesis by (cases oe) (metis rwstep.succeeds, metis rwstep.fails)
  qed (use i(2) in simp)
qed

lemma rk_set_cost:
  assumes "rk_at st i pc" and "rpc_cost pc' < rpc_cost pc"
  shows "sum_list (map rpc_cost ((rk_pcs st)[i := pc'])) < sum_list (map rpc_cost (rk_pcs st))"
  using sum_list_update [of i "rk_pcs st" rpc_cost pc'] assms by (simp add: rk_at_def)

lemma rwstep_cost: "rwstep nb Z S opts md st st' \<Longrightarrow> rk_cost st' < rk_cost st"
proof (induction rule: rwstep.induct)
  case (receive st i t ts)
  then show ?case
    using sum_list_update [of i "rk_pcs st" rpc_cost "RTaken t"] by (simp add: rk_cost_def rk_at_def rk_set_def)
qed (auto simp: rk_cost_def dest!: rk_set_cost)

lemma rk_caller_cost: "rk_caller st st' \<Longrightarrow> rk_cost st' < rk_cost st"
  by (induction rule: rk_caller.induct) (simp add: rk_cost_def)

end
