(* ===== verification/RestoreSafe.thy ===== *)
theory RestoreSafe
  imports RestoreWorkers
begin

text \<open>
  A restore into a directory, for every interleaving of its workers and whatever fails: it changes
  no file but the selected destinations and temporary files that did not exist before, it gives one
  result for each task, and when it returns without error every selected file is in place with the
  recorded length and checksum, protected by \<open>NoOverwrite\<close>, or its extraction failed in the run with
  an error that may be skipped.
\<close>

section \<open>Destinations\<close>

definition tasks_ok :: "(string, string) gomap \<Rightarrow> bool" where
  "tasks_ok fm \<longleftrightarrow> gm_wf fm \<and>
     list_all (\<lambda>(p, k). list_all valid_name (Split CHR ''/'' p) \<and> \<not> HasPrefix (last (Split CHR ''/'' p)) restoreTempPrefix) fm"

definition outPath :: "RestoreOptions \<Rightarrow> string \<Rightarrow> string" where
  "outPath opts p = unparse (Rooted (ro_ExtractDir opts)) (cleanComps (ro_ExtractDir opts) @ Split CHR ''/'' p)"

lemma Split_outPath:
  "Split CHR ''/'' (outPath opts p) =
     (if Rooted (ro_ExtractDir opts) then [[]] else []) @ cleanComps (ro_ExtractDir opts) @ Split CHR ''/'' p"
proof -
  let ?cs = "cleanComps (ro_ExtractDir opts) @ Split CHR ''/'' p"
  have "CHR ''/'' \<notin> set c" if "c \<in> set ?cs" for c
    using that Split_sep_free [of c _ p] clean_list_comps [OF clean_list_cleanComps, of c "ro_ExtractDir opts"] by auto
  then have "Split CHR ''/'' (Join ?cs ''/'') = ?cs" by (intro Split_Join) auto
  then show ?thesis by (simp add: outPath_def unparse_def)
qed

lemma outPath_inj: "outPath opts p = outPath opts q \<Longrightarrow> p = q"
  using Split_outPath [of opts p] Split_outPath [of opts q] Split_inj by (metis append_same_eq same_append_eq)

lemma task_target:
  assumes "tasks_ok fm" and "t \<in> set fm"
  shows "safeJoin (ro_ExtractDir opts) (fst t) = Inr (outPath opts (fst t))" and "\<not> rtemp_path (outPath opts (fst t))"
proof -
  have v: "list_all valid_name (Split CHR ''/'' (fst t))" "\<not> HasPrefix (last (Split CHR ''/'' (fst t))) restoreTempPrefix"
    using assms by (auto simp: tasks_ok_def list_all_iff)
  show "safeJoin (ro_ExtractDir opts) (fst t) = Inr (outPath opts (fst t))"
    using safeJoin_accepts [OF v(1)] by (simp add: outPath_def)
  show "\<not> rtemp_path (outPath opts (fst t))" using v(2) by (simp add: rtemp_path_def Split_outPath)
qed

text \<open>
  The file of a task is in place: it has the recorded content, or \<open>NoOverwrite\<close> is set and at the
  destination is the node that was there when the run began, or a directory.
\<close>

definition placed :: "RestoreOptions \<Rightarrow> BackupMetadata \<Rightarrow> fsWorld \<Rightarrow> fsWorld \<Rightarrow> task \<Rightarrow> bool" where
  "placed opts md f0 f t \<longleftrightarrow>
     ro_NoOverwrite opts \<and>
       (\<exists>n. gm_get (fs_nodes f) (outPath opts (fst t)) = Some n \<and>
          (gm_get (fs_nodes f0) (outPath opts (fst t)) = Some n \<or> (\<exists>tm. n = FDir tm))) \<or>
     (\<exists>rec d. gm_get (Files md) (snd t) = Some rec \<and> fileData f (outPath opts (fst t)) = Some d \<and> restored rec d)"

definition taskDirs :: "RestoreOptions \<Rightarrow> (string, string) gomap \<Rightarrow> string set" where
  "taskDirs opts fm = (\<Union>t \<in> set fm. set (ancestors (filepathDir (outPath opts (fst t)))))"

definition outs :: "RestoreOptions \<Rightarrow> task set \<Rightarrow> string set" where
  "outs opts E = (outPath opts \<circ> fst) ` E"

lemma placed_step:
  assumes "placed opts md f0 f t" and "fs_only D K f f'" and "outPath opts (fst t) \<notin> K"
  shows "placed opts md f0 f' t"
proof -
  have "gm_get (fs_nodes f') (outPath opts (fst t)) = Some n" if "gm_get (fs_nodes f) (outPath opts (fst t)) = Some n" for n
    using only_stays [OF assms(2,3) that] .
  with assms(1) only_data [OF assms(2,3)] show ?thesis unfolding placed_def by auto
qed

lemma same_task: "tasks_ok fm \<Longrightarrow> t \<in> set fm \<Longrightarrow> t' \<in> set fm \<Longrightarrow> fst t' = fst t \<Longrightarrow> t' = t"
  unfolding tasks_ok_def by (metis gm_wf_unique prod.collapse)

lemma outs_iff:
  "tasks_ok fm \<Longrightarrow> t \<in> set fm \<Longrightarrow> E \<subseteq> set fm \<Longrightarrow> outPath opts (fst t) \<in> outs opts E \<longleftrightarrow> t \<in> E"
proof
  assume ok: "tasks_ok fm" "t \<in> set fm" "E \<subseteq> set fm" and "outPath opts (fst t) \<in> outs opts E"
  then obtain t' where t': "t' \<in> E" "outPath opts (fst t) = outPath opts (fst t')" by (auto simp: outs_def)
  have "t' = t" by (rule same_task [OF ok(1,2)]) (use t'(1) ok(3) outPath_inj [OF t'(2)] in auto)
  with t'(1) show "t \<in> E" by simp
qed (simp add: outs_def)

lemma outs_not_temp: "tasks_ok fm \<Longrightarrow> E \<subseteq> set fm \<Longrightarrow> q \<in> outs opts E \<Longrightarrow> \<not> rtemp_path q"
  unfolding outs_def using task_target(2) by fastforce

text \<open>
  What the run has done so far, seen from its beginning: besides new directories it has changed only
  the destinations of the tasks \<open>E\<close> and temporary files \<open>K\<close> that did not exist then.
\<close>

definition changed :: "RestoreOptions \<Rightarrow> (string, string) gomap \<Rightarrow> task set \<Rightarrow> fsWorld \<Rightarrow> fsWorld \<Rightarrow> bool" where
  "changed opts fm E f0 f \<longleftrightarrow> (\<exists>K. fresh_temps f0 K \<and> fs_only (taskDirs opts fm) (outs opts E \<union> K) f0 f)"

lemma changed_mono: "changed opts fm E f0 f \<Longrightarrow> E \<subseteq> E' \<Longrightarrow> changed opts fm E' f0 f"
proof -
  assume ch: "changed opts fm E f0 f" and "E \<subseteq> E'"
  then have "outs opts E \<union> K \<subseteq> outs opts E' \<union> K" for K by (auto simp: outs_def)
  then show ?thesis using ch unfolding changed_def by (meson only_mono order_refl)
qed

lemma changed_ok: "changed opts fm E f0 f \<Longrightarrow> fs_ok f"
  unfolding changed_def using only_ok by blast

lemma extract_effect:
  assumes ok: "tasks_ok fm" and t: "t \<in> set fm" "t \<notin> E" and E: "E \<subseteq> set fm" and ch: "changed opts fm E f0 (rw_fs w)"
    and run: "extractOne nb Z S opts md t w = (oe, w')"
  shows "changed opts fm (insert t E) f0 (rw_fs w')"
    and "oe = None \<Longrightarrow> placed opts md f0 (rw_fs w') t"
    and "t' \<in> set fm \<Longrightarrow> placed opts md f0 (rw_fs w) t' \<Longrightarrow> placed opts md f0 (rw_fs w') t'"
proof -
  let ?out = "\<lambda>t. outPath opts (fst t)" and ?f = "rw_fs w" and ?f' = "rw_fs w'"
  note tg = task_target [OF ok t(1), of opts]
  have dirs: "set (ancestors (filepathDir (?out t))) \<subseteq> taskDirs opts fm" using t(1) by (auto simp: taskDirs_def)
  obtain K where K: "fresh_temps f0 K" "fs_only (taskDirs opts fm) (outs opts E \<union> K) f0 ?f" using ch by (auto simp: changed_def)
  obtain L where L: "fresh_temps ?f L" "oe \<noteq> None \<and> fs_only (taskDirs opts fm) L ?f ?f' \<or>
     oe = None \<and> fs_only (taskDirs opts fm) (insert (?out t) L) ?f ?f' \<and>
       (ro_NoOverwrite opts \<and> gm_has (fs_nodes ?f) (?out t) \<and> fs_only {} {} ?f ?f' \<or>
        (\<exists>rec d. gm_get (Files md) (snd t) = Some rec \<and> fileData ?f' (?out t) = Some d \<and> restored rec d))"
    using extractOne_spec [OF run only_ok [OF K(2)] tg dirs] by blast
  have temp: "?out x \<notin> K \<union> L" if "x \<in> set fm" for x
    using task_target(2) [OF ok that] K(1) L(1) by (auto simp: fresh_temps_def)
  have fresh: "fresh_temps f0 (K \<union> L)"
  proof -
    have "gm_get (fs_nodes f0) q = None" if q: "q \<in> L" "q \<notin> K" for q
    proof -
      have "q \<notin> outs opts E" using L(1) q(1) outs_not_temp [OF ok E] by (auto simp: fresh_temps_def)
      with q L(1) show ?thesis by (intro only_absent [OF K(2)]) (auto simp: fresh_temps_def)
    qed
    with K(1) L(1) show ?thesis by (auto simp: fresh_temps_def)
  qed
  have "fs_only (taskDirs opts fm) (insert (?out t) L) ?f ?f'"
    using L(2) only_mono [of "taskDirs opts fm" L] by blast
  from only_then [OF K(2) this] have "fs_only (taskDirs opts fm) (outs opts (insert t E) \<union> (K \<union> L)) f0 ?f'"
    by (rule only_mono) (auto simp: outs_def)
  with fresh show "changed opts fm (insert t E) f0 ?f'" unfolding changed_def by blast
  have kept: "placed opts md f0 ?f' t" if u: "ro_NoOverwrite opts" "gm_has (fs_nodes ?f) (?out t)" "fs_only {} {} ?f ?f'"
  proof -
    obtain n where n: "gm_get (fs_nodes ?f) (?out t) = Some n" using u(2) by blast
    have "?out t \<notin> outs opts E \<union> K" using outs_iff [OF ok t(1) E] t(2) temp [OF t(1)] by simp
    then have "gm_get (fs_nodes ?f) (?out t) = gm_get (fs_nodes f0) (?out t) \<or> (\<exists>tm. n = FDir tm)"
      using K(2) n unfolding fs_only_def by fastforce
    with u(1) n only_stays [OF u(3) _ n] show ?thesis unfolding placed_def by auto
  qed
  show new: "placed opts md f0 ?f' t" if "oe = None"
    using L(2) kept that by (auto simp: placed_def)
  show "placed opts md f0 ?f' t'" if t': "t' \<in> set fm" "placed opts md f0 ?f t'"
  proof (cases "t' = t \<and> oe = None")
    case False
    have "?out t' \<noteq> ?out t" if "t' \<noteq> t" using that same_task [OF ok t(1) t'(1)] outPath_inj by blast
    with False L(2) temp [OF t'(1)] show ?thesis by (auto intro: placed_step [OF t'(2)])
  qed (use new in simp)
qed

section \<open>One result for each task\<close>

text \<open>The task of a worker; one that still waits for its extraction, and one that is past it.\<close>

fun rpc_waits :: "rpc \<Rightarrow> task list" where
  "rpc_waits (RTaken t) = [t]"
| "rpc_waits (RRunning t) = [t]"
| "rpc_waits _ = []"

fun rpc_past :: "rpc \<Rightarrow> task list" where
  "rpc_past (RDone t oe) = [t]"
| "rpc_past _ = []"

definition rpc_task :: "rpc \<Rightarrow> task list" where
  "rpc_task pc = rpc_waits pc @ rpc_past pc"

definition rk_inv :: "(string, string) gomap \<Rightarrow> 's rworkers \<Rightarrow> bool" where
  "rk_inv fm st \<longleftrightarrow>
     set (rk_tasks st) \<subseteq> set fm \<and> set (concat (map rpc_task (rk_pcs st))) \<subseteq> set fm \<and>
     mset (map fst (rk_tasks st)) + mset (map fst (concat (map rpc_task (rk_pcs st)))) + mset (map rr_path (rk_results st)) = mset (map fst fm) \<and>
     rk_pcs st \<noteq> [] \<and> (RExited \<in> set (rk_pcs st) \<longrightarrow> rk_tasks st = [])"

lemma rk_inv_move:
  assumes inv: "rk_inv fm st" and pc: "rk_at st i pc" and pcs: "rk_pcs st' = (rk_pcs st)[i := pc']"
    and tasks: "rk_tasks st = ts @ rk_tasks st'" and results: "rk_results st' = rk_results st @ rs"
    and bal: "mset (map fst (ts @ rpc_task pc)) = mset (map fst (rpc_task pc')) + mset (map rr_path rs)"
    and sub: "set (rpc_task pc') \<subseteq> set (ts @ rpc_task pc)"
    and ex: "pc' = RExited \<Longrightarrow> rk_tasks st' = []"
  shows "rk_inv fm st'"
proof -
  let ?T = "\<lambda>pcs. concat (map rpc_task pcs)"
  have i: "i < length (rk_pcs st)" "rk_pcs st ! i = pc" using pc by (auto simp: rk_at_def)
  then have mem: "pc \<in> set (rk_pcs st)" using nth_mem by blast
  have pcset: "set (rk_pcs st') \<subseteq> insert pc' (set (rk_pcs st))" unfolding pcs by (rule set_update_subset_insert)
  have old: "set (rk_tasks st) \<subseteq> set fm" "set (?T (rk_pcs st)) \<subseteq> set fm"
    "mset (map fst (rk_tasks st)) + mset (map fst (?T (rk_pcs st))) + mset (map rr_path (rk_results st)) = mset (map fst fm)"
    and ne: "rk_pcs st \<noteq> []" and dr: "RExited \<in> set (rk_pcs st) \<Longrightarrow> rk_tasks st = []"
    using inv unfolding rk_inv_def by blast+
  have inpc: "set (rpc_task pc) \<subseteq> set fm" using old(2) mem by auto
  have c2: "set (rk_tasks st') \<subseteq> set fm" using old(1) tasks by auto
  have c3: "set (?T (rk_pcs st')) \<subseteq> set fm"
  proof -
    have "set (?T (rk_pcs st')) \<subseteq> set (rpc_task pc') \<union> set (?T (rk_pcs st))" using pcset by auto
    moreover have "set ts \<subseteq> set fm" using old(1) tasks by simp
    moreover have "set (rpc_task pc') \<subseteq> set ts \<union> set (rpc_task pc)" using sub by simp
    ultimately show ?thesis using inpc old(2) by (meson Un_least order_trans)
  qed
  have up: "mset (map fst (?T (rk_pcs st'))) + mset (map fst (rpc_task pc)) = mset (map fst (?T (rk_pcs st))) + mset (map fst (rpc_task pc'))"
    using arg_cong [OF mset_concat_update [OF i(1), of rpc_task pc'], of "image_mset fst"] i(2) by (simp add: pcs)
  have "mset (map fst (rk_tasks st')) + mset (map fst (?T (rk_pcs st'))) + mset (map rr_path (rk_results st')) + mset (map fst (rpc_task pc)) =
      mset (map fst (rk_tasks st')) + (mset (map fst (?T (rk_pcs st'))) + mset (map fst (rpc_task pc))) + mset (map rr_path (rk_results st)) + mset (map rr_path rs)"
    by (simp add: results)
  also have "\<dots> = mset (map fst (rk_tasks st')) + mset (map fst (?T (rk_pcs st))) + mset (map rr_path (rk_results st)) + mset (map fst (ts @ rpc_task pc))"
    unfolding up bal by (simp only: ac_simps)
  also have "\<dots> = mset (map fst fm) + mset (map fst (rpc_task pc))"
    unfolding old(3) [symmetric] tasks by simp
  finally have c4: "mset (map fst (rk_tasks st')) + mset (map fst (?T (rk_pcs st'))) + mset (map rr_path (rk_results st')) = mset (map fst fm)"
    by (simp only: add_right_cancel)
  have c5: "rk_pcs st' \<noteq> []" "RExited \<in> set (rk_pcs st') \<Longrightarrow> rk_tasks st' = []"
    using ne pcs pcset ex dr tasks by auto
  show ?thesis
    unfolding rk_inv_def using c2 c3 c4 c5 by blast
qed

lemma rwstep_inv:
  assumes "rwstep nb Z S opts md st st'" and inv: "rk_inv fm st"
  shows "rk_inv fm st'"
  using assms(1)
proof cases
  case (receive i t ts)
  show ?thesis
    by (rule rk_inv_move [OF inv receive(2), of _ "RTaken t" "[t]" "[]"]) (use receive in \<open>auto simp: rpc_task_def\<close>)
next
  case (leave i)
  show ?thesis
    by (rule rk_inv_move [OF inv leave(2), of _ RExited "[]" "[]"]) (use leave in \<open>auto simp: rpc_task_def\<close>)
next
  case (cancelled i t e)
  show ?thesis
    by (rule rk_inv_move [OF inv cancelled(2), of _ RIdle "[]" "[\<lparr>rr_path = fst t, rr_err = Some e, rr_cancelled = True\<rparr>]"])
      (use cancelled in \<open>auto simp: rpc_task_def\<close>)
next
  case (begins i t)
  show ?thesis
    by (rule rk_inv_move [OF inv begins(2), of _ "RRunning t" "[]" "[]"]) (use begins in \<open>auto simp: rpc_task_def\<close>)
next
  case (extracts i t)
  show ?thesis
    by (rule rk_inv_move [OF inv extracts(2), of _ "RDone t _" "[]" "[]"]) (use extracts in \<open>auto simp: rpc_task_def\<close>)
next
  case (fails i t e)
  show ?thesis
    by (rule rk_inv_move [OF inv fails(2), of _ RIdle "[]"
          "[\<lparr>rr_path = fst t, rr_err = Some e, rr_cancelled = (rk_ctx st \<noteq> None \<and> errIs e Canceled)\<rparr>]"])
      (use fails in \<open>auto simp: rpc_task_def\<close>)
next
  case (succeeds i t)
  show ?thesis
    by (rule rk_inv_move [OF inv succeeds(2), of _ RIdle "[]" "[\<lparr>rr_path = fst t, rr_err = None, rr_cancelled = False\<rparr>]"])
      (use succeeds in \<open>auto simp: rpc_task_def\<close>)
qed

lemma rk_caller_inv: "rk_caller st st' \<Longrightarrow> rk_inv fm st \<Longrightarrow> rk_inv fm st'"
  by (erule rk_caller.cases) (simp add: rk_inv_def)

lemma rwreach_inv: "rwreach nb Z S opts md st0 st \<Longrightarrow> rk_inv fm st0 \<Longrightarrow> rk_inv fm st"
  by (induction rule: rwreach.induct) (auto dest: rwstep_inv rk_caller_inv)

lemma no_tasks_idle [simp]: "concat (map rpc_waits (replicate n RIdle)) = []" "concat (map rpc_task (replicate n RIdle)) = []"
  by (induction n) (auto simp: rpc_task_def)

lemma rk_inv_start: "1 \<le> c \<Longrightarrow> rk_inv fm (startRestore c fm cause w)"
  by (auto simp: rk_inv_def startRestore_def rpc_task_def)

lemma rk_results_complete:
  assumes "rk_inv fm st" and "rk_exited st"
  shows "mset (map rr_path (rk_results st)) = mset (map fst fm)"
proof -
  obtain x xs where pcs: "rk_pcs st = x # xs" using assms(1) by (cases "rk_pcs st") (auto simp: rk_inv_def)
  have all: "\<And>pc. pc \<in> set (rk_pcs st) \<Longrightarrow> pc = RExited" using assms(2) by (simp add: rk_exited_def list_all_iff)
  then have none: "concat (map rpc_task (rk_pcs st)) = []" by (fastforce simp: rpc_task_def)
  have "RExited \<in> set (rk_pcs st)" using all [of x] pcs by simp
  then have "rk_tasks st = []" using assms(1) unfolding rk_inv_def by blast
  moreover have "mset (map fst (rk_tasks st)) + mset (map fst (concat (map rpc_task (rk_pcs st)))) + mset (map rr_path (rk_results st)) = mset (map fst fm)"
    using assms(1) unfolding rk_inv_def by blast
  ultimately show ?thesis unfolding none by simp
qed

section \<open>The files while the workers run\<close>

text \<open>The tasks that are not extracted yet; none of them is past its extraction elsewhere.\<close>

definition rk_waiting :: "'s rworkers \<Rightarrow> task set" where
  "rk_waiting st = set (rk_tasks st) \<union> set (concat (map rpc_waits (rk_pcs st)))"

lemma rpc_task_mset: "mset (concat (map rpc_task pcs)) = mset (concat (map rpc_waits pcs)) + mset (concat (map rpc_past pcs))"
  by (induction pcs) (auto simp: rpc_task_def)

lemma past_not_waiting:
  assumes "rk_inv fm st" and "tasks_ok fm" and "RDone t oe \<in> set (rk_pcs st)"
  shows "t \<notin> rk_waiting st"
proof
  assume t: "t \<in> rk_waiting st"
  let ?W = "mset (map fst (rk_tasks st)) + mset (map fst (concat (map rpc_waits (rk_pcs st))))"
    and ?P = "mset (map fst (concat (map rpc_past (rk_pcs st))))"
  have "distinct (map fst fm)" using assms(2) by (simp add: tasks_ok_def gm_wf_def)
  then have one: "count (mset (map fst fm)) (fst t) \<le> 1"
    unfolding distinct_count_atmost_1 by (metis le_refl zero_le_one)
  have "?W + ?P + mset (map rr_path (rk_results st)) = mset (map fst fm)"
    using assms(1) arg_cong [OF rpc_task_mset [of "rk_pcs st"], of "image_mset fst"] by (simp add: rk_inv_def ac_simps)
  moreover have "t \<in> set (concat (map rpc_past (rk_pcs st)))" using assms(3) by force
  then have "fst t \<in># ?P" by force
  moreover have "fst t \<in># ?W" using t by (force simp: rk_waiting_def)
  ultimately have "count ?W (fst t) + count ?P (fst t) \<le> count (mset (map fst fm)) (fst t)" "1 \<le> count ?P (fst t)" "1 \<le> count ?W (fst t)"
    by (metis count_union le_add1, simp_all only: count_greater_eq_one_iff)
  with one show False by linarith
qed

text \<open>In the execution from \<open>st0\<close> to \<open>st\<close> some worker extracted \<open>t\<close> and failed with an error that may be skipped.\<close>

definition failed_skippably ::
  "naclBox \<Rightarrow> partLib \<Rightarrow> ('s, 'w) Storage \<Rightarrow> RestoreOptions \<Rightarrow> BackupMetadata \<Rightarrow> 's rworkers \<Rightarrow> 's rworkers \<Rightarrow> task \<Rightarrow> bool" where
  "failed_skippably nb Z S opts md st0 st t \<longleftrightarrow> ro_SkipDecryptionErrors opts \<and>
     (\<exists>st1 i e. rwreach nb Z S opts md st0 st1 \<and> rk_at st1 i (RRunning t) \<and>
        fst (extractOne nb Z S opts md t (rk_world st1)) = Some e \<and> isSkippableRestoreError e \<and>
        rwreach nb Z S opts md (runTask nb Z S opts md i t st1) st)"

lemma failed_step:
  "failed_skippably nb Z S opts md st0 st t \<Longrightarrow> rwstep nb Z S opts md st st' \<or> rk_caller st st' \<Longrightarrow>
     failed_skippably nb Z S opts md st0 st' t"
  unfolding failed_skippably_def by (blast intro: rwreach.there)

definition rk_files ::
  "RestoreOptions \<Rightarrow> BackupMetadata \<Rightarrow> (string, string) gomap \<Rightarrow> fsWorld \<Rightarrow> (task \<Rightarrow> bool) \<Rightarrow> 's rworkers \<Rightarrow> bool" where
  "rk_files opts md fm f0 F st \<longleftrightarrow>
     changed opts fm (set fm - rk_waiting st) f0 (rw_fs (rk_world st)) \<and>
     (\<forall>t. RDone t None \<in> set (rk_pcs st) \<longrightarrow> placed opts md f0 (rw_fs (rk_world st)) t \<or> F t) \<and>
     (\<forall>r \<in> set (rk_results st). rr_err r = None \<longrightarrow>
        (\<exists>k. (rr_path r, k) \<in> set fm \<and> (placed opts md f0 (rw_fs (rk_world st)) (rr_path r, k) \<or> F (rr_path r, k))))"

lemma rk_files_mono: "rk_files opts md fm f0 F st \<Longrightarrow> (\<And>t. F t \<Longrightarrow> G t) \<Longrightarrow> rk_files opts md fm f0 G st"
  unfolding rk_files_def by blast

text \<open>A step that extracts nothing: fewer tasks wait, the world is the same.\<close>

lemma rk_files_move:
  assumes files: "rk_files opts md fm f0 F st" and inv: "rk_inv fm st" and pc: "rk_at st i pc"
    and pcs: "rk_pcs st' = (rk_pcs st)[i := pc']" and world: "rk_world st' = rk_world st"
    and tasks: "rk_tasks st = ts @ rk_tasks st'" and waits: "set (rpc_waits pc') \<subseteq> set ts \<union> set (rpc_waits pc)"
    and past: "\<And>t. pc' \<noteq> RDone t None" and results: "rk_results st' = rk_results st @ rs"
    and sent: "\<And>r. r \<in> set rs \<Longrightarrow> rr_err r = None \<Longrightarrow> \<exists>t. pc = RDone t None \<and> rr_path r = fst t"
  shows "rk_files opts md fm f0 F st'"
proof -
  have mem: "pc \<in> set (rk_pcs st)" using pc by (auto simp: rk_at_def in_set_conv_nth)
  have pcset: "set (rk_pcs st') \<subseteq> insert pc' (set (rk_pcs st))" unfolding pcs by (rule set_update_subset_insert)
  have "rk_waiting st' \<subseteq> rk_waiting st"
    using pcset waits mem by (fastforce simp: rk_waiting_def tasks)
  then have c1: "changed opts fm (set fm - rk_waiting st') f0 (rw_fs (rk_world st'))"
    using files unfolding world rk_files_def by (blast intro: changed_mono)
  have c2: "placed opts md f0 (rw_fs (rk_world st')) t \<or> F t" if "RDone t None \<in> set (rk_pcs st')" for t
    using that pcset past files unfolding world rk_files_def by blast
  have new: "\<exists>k. (rr_path r, k) \<in> set fm \<and> (placed opts md f0 (rw_fs (rk_world st)) (rr_path r, k) \<or> F (rr_path r, k))"
    if "r \<in> set rs" "rr_err r = None" for r
  proof -
    from sent [OF that] obtain t where t: "pc = RDone t None" "rr_path r = fst t" by blast
    then have "t \<in> set (concat (map rpc_task (rk_pcs st)))" using mem by (force simp: rpc_task_def)
    then have "t \<in> set fm" using inv unfolding rk_inv_def by blast
    moreover have "placed opts md f0 (rw_fs (rk_world st)) t \<or> F t" using files mem t(1) unfolding rk_files_def by blast
    ultimately show ?thesis unfolding t(2) by (intro exI [of _ "snd t"]) simp
  qed
  show ?thesis
    using c1 c2 new files unfolding rk_files_def world results by auto
qed

lemma extracts_files:
  assumes ok: "tasks_ok fm" and inv: "rk_inv fm st" and files: "rk_files opts md fm f0 F st" and pc: "rk_at st i (RRunning t)"
    and fail: "\<And>e. fst (extractOne nb Z S opts md t (rk_world st)) = Some e \<Longrightarrow> ro_SkipDecryptionErrors opts \<Longrightarrow>
      isSkippableRestoreError e \<Longrightarrow> F t"
  shows "rk_files opts md fm f0 F (runTask nb Z S opts md i t st)" (is "rk_files opts md fm f0 F ?st'")
proof -
  obtain oe w' where run: "extractOne nb Z S opts md t (rk_world st) = (oe, w')" by fastforce
  have world: "rk_world ?st' = w'" and pcs: "rk_pcs ?st' = (rk_pcs st)[i := RDone t (skipError opts oe)]" by (simp_all add: run)
  have mem: "RRunning t \<in> set (rk_pcs st)" "i < length (rk_pcs st)" using pc by (auto simp: rk_at_def in_set_conv_nth)
  have wait: "t \<in> rk_waiting st" using mem(1) by (force simp: rk_waiting_def)
  have "t \<in> set (concat (map rpc_task (rk_pcs st)))" using mem(1) by (force simp: rpc_task_def)
  then have t: "t \<in> set fm" using inv unfolding rk_inv_def by blast
  have pcset: "set (rk_pcs ?st') \<subseteq> insert (RDone t (skipError opts oe)) (set (rk_pcs st))" unfolding pcs by (rule set_update_subset_insert)
  have "RDone t (skipError opts oe) \<in> set (rk_pcs ?st')" unfolding pcs using mem(2) by (rule set_update_memI)
  from past_not_waiting [OF rwstep_inv [OF rwstep.extracts [OF pc] inv] ok this] have notin: "t \<notin> rk_waiting ?st'" .
  have "rk_waiting ?st' \<subseteq> rk_waiting st" using pcset by (fastforce simp: rk_waiting_def)
  then have sub: "insert t (set fm - rk_waiting st) \<subseteq> set fm - rk_waiting ?st'" using notin t by blast
  have ch: "changed opts fm (set fm - rk_waiting st) f0 (rw_fs (rk_world st))" using files by (simp add: rk_files_def)
  note eff = extract_effect [OF ok t _ Diff_subset ch run]
  have c1: "changed opts fm (set fm - rk_waiting ?st') f0 (rw_fs w')"
    by (rule changed_mono [OF eff(1) sub]) (use wait in simp)
  have keep: "placed opts md f0 (rw_fs w') t' \<or> F t'" if "t' \<in> set fm" "placed opts md f0 (rw_fs (rk_world st)) t' \<or> F t'" for t'
    using that eff(3) wait by blast
  have c2: "placed opts md f0 (rw_fs w') t' \<or> F t'" if "RDone t' None \<in> set (rk_pcs ?st')" for t'
  proof (cases "t' = t \<and> skipError opts oe = None")
    case True
    then show ?thesis
      using eff(2) wait fail by (auto simp: skipError_def run split: option.splits if_splits)
  next
    case False
    with that pcset have u: "RDone t' None \<in> set (rk_pcs st)" by auto
    then have "t' \<in> set (concat (map rpc_task (rk_pcs st)))" by (force simp: rpc_task_def)
    then have "t' \<in> set fm" using inv unfolding rk_inv_def by blast
    with keep u files show ?thesis unfolding rk_files_def by blast
  qed
  have c3: "\<exists>k. (rr_path r, k) \<in> set fm \<and> (placed opts md f0 (rw_fs w') (rr_path r, k) \<or> F (rr_path r, k))"
    if "r \<in> set (rk_results st)" "rr_err r = None" for r
    using that keep files unfolding rk_files_def by blast
  show ?thesis
    unfolding rk_files_def world using c1 c2 c3 by simp
qed

lemma rwstep_files:
  assumes "rwstep nb Z S opts md st st'" and ok: "tasks_ok fm" and inv: "rk_inv fm st" and files: "rk_files opts md fm f0 F st"
    and fail: "\<And>i t e. rk_at st i (RRunning t) \<Longrightarrow> st' = runTask nb Z S opts md i t st \<Longrightarrow>
      fst (extractOne nb Z S opts md t (rk_world st)) = Some e \<Longrightarrow> ro_SkipDecryptionErrors opts \<Longrightarrow> isSkippableRestoreError e \<Longrightarrow> F t"
  shows "rk_files opts md fm f0 F st'"
  using assms(1)
proof cases
  case (receive i t ts)
  show ?thesis
    by (rule rk_files_move [OF files inv receive(2), of _ "RTaken t" "[t]" "[]"]) (use receive in auto)
next
  case (leave i)
  show ?thesis by (rule rk_files_move [OF files inv leave(2), of _ RExited "[]" "[]"]) (use leave in auto)
next
  case (cancelled i t e)
  show ?thesis
    by (rule rk_files_move [OF files inv cancelled(2), of _ RIdle "[]" "[\<lparr>rr_path = fst t, rr_err = Some e, rr_cancelled = True\<rparr>]"])
      (use cancelled in auto)
next
  case (begins i t)
  show ?thesis by (rule rk_files_move [OF files inv begins(2), of _ "RRunning t" "[]" "[]"]) (use begins in auto)
next
  case (extracts i t)
  show ?thesis unfolding extracts(1) by (rule extracts_files [OF ok inv files extracts(2) fail [OF extracts(2,1)]])
next
  case (fails i t e)
  show ?thesis
    by (rule rk_files_move [OF files inv fails(2), of _ RIdle "[]"
          "[\<lparr>rr_path = fst t, rr_err = Some e, rr_cancelled = (rk_ctx st \<noteq> None \<and> errIs e Canceled)\<rparr>]"])
      (use fails in auto)
next
  case (succeeds i t)
  show ?thesis
    by (rule rk_files_move [OF files inv succeeds(2), of _ RIdle "[]" "[\<lparr>rr_path = fst t, rr_err = None, rr_cancelled = False\<rparr>]"])
      (use succeeds in auto)
qed

lemma rk_caller_files: "rk_caller st st' \<Longrightarrow> rk_files opts md fm f0 F st \<Longrightarrow> rk_files opts md fm f0 F st'"
  by (erule rk_caller.cases) (simp add: rk_files_def rk_waiting_def)

lemma rwreach_files:
  assumes "rwreach nb Z S opts md st0 st" and ok: "tasks_ok fm" and inv: "rk_inv fm st0"
    and files: "rk_files opts md fm f0 (failed_skippably nb Z S opts md st0 st0) st0"
  shows "rk_files opts md fm f0 (failed_skippably nb Z S opts md st0 st) st"
  using assms(1)
proof (induction rule: rwreach.induct)
  case (there st st')
  have mono: "rk_files opts md fm f0 (failed_skippably nb Z S opts md st0 st') st"
    by (rule rk_files_mono [OF there.IH failed_step [OF _ there(2)]])
  have now: "failed_skippably nb Z S opts md st0 st' t"
    if "rk_at st i (RRunning t)" "st' = runTask nb Z S opts md i t st" "fst (extractOne nb Z S opts md t (rk_world st)) = Some e"
      "ro_SkipDecryptionErrors opts" "isSkippableRestoreError e" for i t e
    using that there(1) rwreach.here unfolding failed_skippably_def by blast
  from there(2) show ?case
  proof
    assume step: "rwstep nb Z S opts md st st'"
    show ?thesis by (rule rwstep_files [OF step ok rwreach_inv [OF there(1) inv] mono now])
  qed (rule rk_caller_files [OF _ mono])
qed (rule files)

lemma rk_files_start:
  assumes "fs_only {} {} f0 (rw_fs w)"
  shows "rk_files opts md fm f0 F (startRestore c fm cause w)"
proof -
  let ?st = "startRestore c fm cause w"
  have "changed opts fm (set fm - rk_waiting ?st) f0 (rw_fs w)"
    unfolding changed_def by (intro exI [of _ "{}"] conjI only_mono [OF assms]) (auto simp: fresh_temps_def)
  then show ?thesis by (auto simp: rk_files_def startRestore_def)
qed

section \<open>The whole run\<close>

lemma ancestor_only: "getExistingAncestor p f = Some (a, f') \<Longrightarrow> fs_ok f \<Longrightarrow> fs_only {} {} f f'"
proof -
  have "fs_ok f \<longrightarrow> fs_only {} {} f (snd y)" if "getExistingAncestor p f = Some y" for y
  proof (rule getExistingAncestor.raw_induct [OF _ that], intro impI)
    fix again p f y
    assume IH: "\<And>p f y. again p f = Some y \<Longrightarrow> fs_ok f \<longrightarrow> fs_only {} {} f (snd y)" and "fs_ok f"
      and run: "(case osStat p f of
          (Inl e, f) \<Rightarrow> if filepathDir p = p then Some (p, f) else again (filepathDir p) f
        | (Inr node, f) \<Rightarrow> Some (p, f)) = Some y"
    obtain r f1 where st: "osStat p f = (r, f1)" by fastforce
    note q = quiet_result(1) [OF st [unfolded osStat_def] \<open>fs_ok f\<close>]
    show "fs_only {} {} f (snd y)"
      using run st q IH [of "filepathDir p" f1 y] only_ok [OF q] by (auto intro: only_trans split: sum.splits if_splits)
  qed
  then show "getExistingAncestor p f = Some (a, f') \<Longrightarrow> fs_ok f \<Longrightarrow> fs_only {} {} f f'" by fastforce
qed

definition emptyDirPaths :: "RestoreOptions \<Rightarrow> string list \<Rightarrow> string set" where
  "emptyDirPaths opts ds = (\<Union>d \<in> set ds. case safeJoin (ro_ExtractDir opts) d of Inl e \<Rightarrow> {} | Inr p \<Rightarrow> set (ancestors p))"

lemma makeEmptyDirs_only: "makeEmptyDirs opts ds f = (oe, f') \<Longrightarrow> fs_ok f \<Longrightarrow> emptyDirPaths opts ds \<subseteq> D \<Longrightarrow> fs_only D {} f f'"
proof (induction opts ds f rule: makeEmptyDirs.induct)
  case (2 opts d ds f)
  obtain r f1 where m: "(case safeJoin (ro_ExtractDir opts) d of Inl e \<Rightarrow> (Inl e, f) | Inr p \<Rightarrow> osMkdirAll p f) = (r, f1)" by fastforce
  have D: "emptyDirPaths opts ds \<subseteq> D" "safeJoin (ro_ExtractDir opts) d = Inr p \<Longrightarrow> set (ancestors p) \<subseteq> D" for p
    using "2.prems"(3) by (auto simp: emptyDirPaths_def)
  have st: "fs_only D {} f f1"
    using m "2.prems"(2) osMkdirAll_only [OF _ _ D(2)] by (auto simp: only_refl split: sum.splits)
  have "f' = f1 \<or> makeEmptyDirs opts ds f1 = (oe, f') \<and> (\<forall>e. r = Inl e \<longrightarrow> ro_SkipValidationErrors opts)"
    using "2.prems"(1) m by (auto split: sum.splits if_splits)
  then show ?case
    using st "2.IH" [OF m [symmetric]] only_ok [OF st] D(1) by (cases r) (auto intro: only_trans)
qed (simp add: only_refl)

lemma osSyncDir_only: "osSyncDir d f = (r, f') \<Longrightarrow> fs_ok f \<Longrightarrow> fs_only D K f f'"
proof -
  assume run: "osSyncDir d f = (r, f')" and "fs_ok f"
  obtain r1 f1 where op: "syscall (\<lambda>f. (if gm_has (fs_nodes f) d then Inr () else Inl notExist, f)) f = (r1, f1)" by fastforce
  obtain r2 f2 where sy: "fSync d f1 = (r2, f2)" by fastforce
  obtain r3 f3 where cl: "fClose d f2 = (r3, f3)" by fastforce
  have q1: "fs_only D K f f1" by (rule only_quiet [OF op \<open>fs_ok f\<close>])
  have q2: "fs_only D K f f2" using only_trans [OF q1 fSync_only [OF sy only_ok [OF q1]]] .
  have q3: "fs_only D K f f3" using only_trans [OF q2 fClose_only [OF cl only_ok [OF q2]]] .
  have "f' = f1 \<or> f' = f3" using run op sy cl by (auto simp: osSyncDir_def split: sum.splits if_splits)
  then show ?thesis using q1 q3 by blast
qed

lemma syncDirs_only: "syncDirs ds f = (oe, f') \<Longrightarrow> fs_ok f \<Longrightarrow> fs_only D K f f'"
proof (induction ds arbitrary: f)
  case (Cons d ds)
  obtain r f1 where sd: "osSyncDir d f = (r, f1)" by fastforce
  have st: "fs_only D K f f1" by (rule osSyncDir_only [OF sd Cons.prems(2)])
  have "f' = f1 \<or> syncDirs ds f1 = (oe, f')" using Cons.prems(1) sd by (auto split: sum.splits)
  with st Cons.IH [OF _ only_ok [OF st]] show ?case by (auto intro: only_trans)
qed (simp add: only_refl)

lemma finish_only:
  assumes "finishRestore opts n ds st = (oe, w')" and "fs_ok (rw_fs (rk_world st))"
  shows "fs_only (emptyDirPaths opts ds) {} (rw_fs (rk_world st)) (rw_fs w')"
    and "oe = None \<Longrightarrow> length (filter (\<lambda>r. rr_err r = None) (rk_results st)) = n"
proof -
  let ?f = "rw_fs (rk_world st)" and ?D = "emptyDirPaths opts ds"
  obtain e1 f1 where mk: "makeEmptyDirs opts ds ?f = (e1, f1)" by fastforce
  note q1 = makeEmptyDirs_only [OF mk assms(2) order_refl]
  obtain e2 f2 where sy: "syncDirs (rw_dirs (rk_world st)) f1 = (e2, f2)" by fastforce
  have q2: "fs_only ?D {} ?f f2" using only_trans [OF q1 syncDirs_only [OF sy only_ok [OF q1]]] .
  show "fs_only ?D {} ?f (rw_fs w')"
    using assms mk sy q1 q2 by (auto simp: finishRestore_def Let_def only_refl split: option.splits if_splits)
  show "length (filter (\<lambda>r. rr_err r = None) (rk_results st)) = n" if "oe = None"
    using assms(1) that by (auto simp: finishRestore_def Let_def split: option.splits if_splits)
qed

lemma diskCheck_concurrency: "diskCheck free opts md fm = Inr c \<Longrightarrow> 1 \<le> c"
  by (auto simp: diskCheck_def Let_def split: sum.splits prod.splits if_splits)

text \<open>
  Some worker of the run that ended with \<open>oe\<close> and \<open>w'\<close> extracted \<open>t\<close> and failed with an error that
  may be skipped.
\<close>

definition skipped_in_run ::
  "naclBox \<Rightarrow> partLib \<Rightarrow> (string \<Rightarrow> 64 word result) \<Rightarrow> ('s, 'w) Storage \<Rightarrow> RestoreOptions \<Rightarrow> BackupMetadata \<Rightarrow> (string, string) gomap \<Rightarrow>
     string list \<Rightarrow> 's restoreWorld \<Rightarrow> err option \<Rightarrow> 's restoreWorld \<Rightarrow> task \<Rightarrow> bool" where
  "skipped_in_run nb Z free S opts md fm ds w oe w' t \<longleftrightarrow>
     (\<exists>ancestor f c cause st. getExistingAncestor (ro_ExtractDir opts) (rw_fs w) = Some (ancestor, f) \<and>
        diskCheck (free ancestor) opts md fm = Inr c \<and> rk_exited st \<and> finishRestore opts (length fm) ds st = (oe, w') \<and>
        failed_skippably nb Z S opts md (startRestore c fm cause (w\<lparr>rw_fs := f\<rparr>)) st t)"

text \<open>
  Whatever the outcome, besides new directories only destinations and fresh temporary files change;
  a success is complete.
\<close>

lemma restoreToDir_spec:
  assumes "restoreToDir nb Z free S opts md fm ds w oe w'" and "tasks_ok fm" and "fs_ok (rw_fs w)"
  shows "\<exists>K. fresh_temps (rw_fs w) K \<and>
      fs_only (taskDirs opts fm \<union> emptyDirPaths opts ds) (outs opts (set fm) \<union> K) (rw_fs w) (rw_fs w')"
    and "oe = None \<Longrightarrow> t \<in> set fm \<Longrightarrow>
      placed opts md (rw_fs w) (rw_fs w') t \<or> skipped_in_run nb Z free S opts md fm ds w oe w' t"
proof -
  let ?D = "taskDirs opts fm \<union> emptyDirPaths opts ds"
  have "(\<exists>K. fresh_temps (rw_fs w) K \<and> fs_only ?D (outs opts (set fm) \<union> K) (rw_fs w) (rw_fs w')) \<and>
      (oe = None \<longrightarrow> (\<forall>t \<in> set fm. placed opts md (rw_fs w) (rw_fs w') t \<or> skipped_in_run nb Z free S opts md fm ds w oe w' t))"
    using assms(1)
  proof cases
    case (no_space ancestor f e)
    have "fs_only ?D (outs opts (set fm) \<union> {}) (rw_fs w) f"
      using ancestor_only [OF no_space(3) assms(3)] by (rule only_mono) auto
    with no_space(1,2) show ?thesis by (auto simp: fresh_temps_def intro!: exI [of _ "{}"])
  next
    case (extracted ancestor f c cause st)
    let ?st0 = "startRestore c fm cause (w\<lparr>rw_fs := f\<rparr>)"
    have "fs_only {} {} (rw_fs w) f" using ancestor_only [OF extracted(1) assms(3)] .
    then have files0: "rk_files opts md fm (rw_fs w) F ?st0" for F by (intro rk_files_start) simp
    have inv0: "rk_inv fm ?st0" using rk_inv_start [OF diskCheck_concurrency [OF extracted(2)]] .
    note files = rwreach_files [OF extracted(3) assms(2) inv0 files0]
    then have "changed opts fm (set fm) (rw_fs w) (rw_fs (rk_world st))"
      using changed_mono [OF _ Diff_subset] unfolding rk_files_def by blast
    then obtain K where K: "fresh_temps (rw_fs w) K"
      "fs_only (taskDirs opts fm) (outs opts (set fm) \<union> K) (rw_fs w) (rw_fs (rk_world st))"
      unfolding changed_def by blast
    note fin = finish_only [OF extracted(5) only_ok [OF K(2)]]
    have "fs_only ?D (outs opts (set fm) \<union> K) (rw_fs w) (rw_fs w')"
      using only_then [OF K(2) fin(1)] by simp
    moreover have "placed opts md (rw_fs w) (rw_fs w') t \<or> skipped_in_run nb Z free S opts md fm ds w oe w' t"
      if "oe = None" "t \<in> set fm" for t
    proof -
      note complete = rk_results_complete [OF rwreach_inv [OF extracted(3) inv0] extracted(4)]
      have "length (rk_results st) = length fm" using arg_cong [OF complete, of size] by simp
      then have all: "length (filter (\<lambda>r. rr_err r = None) (rk_results st)) = length (rk_results st)"
        using fin(2) [OF that(1)] by argo
      have "fst t \<in> set (map rr_path (rk_results st))"
        using mset_eq_setD [OF complete] that(2) by auto
      then obtain r where r: "r \<in> set (rk_results st)" "rr_path r = fst t" by auto
      then obtain k where k: "(fst t, k) \<in> set fm"
        "placed opts md (rw_fs w) (rw_fs (rk_world st)) (fst t, k) \<or> failed_skippably nb Z S opts md ?st0 st (fst t, k)"
        using files filter_all_length [OF all r(1)] unfolding rk_files_def by metis
      have kt: "(fst t, k) = t" using same_task [OF assms(2) that(2) k(1)] by simp
      from k(2) show ?thesis
      proof
        assume "placed opts md (rw_fs w) (rw_fs (rk_world st)) (fst t, k)"
        then show ?thesis unfolding kt using placed_step [OF _ fin(1)] by blast
      next
        assume "failed_skippably nb Z S opts md ?st0 st (fst t, k)"
        then have "skipped_in_run nb Z free S opts md fm ds w oe w' t"
          unfolding kt skipped_in_run_def using extracted(1,2,4,5) by blast
        then show ?thesis ..
      qed
    qed
    ultimately show ?thesis using K(1) by blast
  qed
  then show "\<exists>K. fresh_temps (rw_fs w) K \<and> fs_only ?D (outs opts (set fm) \<union> K) (rw_fs w) (rw_fs w')"
    and "oe = None \<Longrightarrow> t \<in> set fm \<Longrightarrow>
      placed opts md (rw_fs w) (rw_fs w') t \<or> skipped_in_run nb Z free S opts md fm ds w oe w' t" by blast+
qed

end
