(* ===== verification/RestoreZip.thy ===== *)
theory RestoreZip
  imports Restore
begin

text \<open>
  Restoring into a zip archive (\<open>restoreToZip\<close> in \<open>src/tsync/restore.go\<close>): part after part is
  checked, re-keyed and copied into the output; then come the empty directories and the central
  directory. The writer of the zip library is the record \<open>zipWriter\<close> over an output of type \<open>'z\<close>;
  what is used of it is the predicate \<open>zip_writer_ok\<close>. The context is observed at numbered points:
  \<open>ctxAt n\<close> is what the \<open>n\<close>-th check of \<open>ctx.Err()\<close> returns.
\<close>

section \<open>The zip writer\<close>

text \<open>
  \<open>CopyRawPart\<close> gives its error, the number of bytes it read and whether it met the error of the
  stream; \<open>Create\<close> says whether the writer it returns is a closer; \<open>zw_outErr\<close> is the error that the
  tracked writer under the archive recorded.
\<close>

record 'z zipWriter =
  zw_CopyRawPart :: "reader \<Rightarrow> string \<Rightarrow> string \<Rightarrow> string \<Rightarrow> 'z \<Rightarrow> (err option \<times> nat \<times> bool) \<times> 'z"
  zw_Create :: "string \<Rightarrow> 'z \<Rightarrow> bool result \<times> 'z"
  zw_CloseEntry :: "'z \<Rightarrow> err option \<times> 'z"
  zw_Close :: "'z \<Rightarrow> err option \<times> 'z"
  zw_outErr :: "'z \<Rightarrow> err option"

section \<open>One part\<close>

text \<open>The 12 bytes of the encryption header, which tell whether the password is right.\<close>

definition readEncHeader :: "partLib \<Rightarrow> partHeader \<Rightarrow> string \<Rightarrow> reader \<Rightarrow> bytes result" where
  "readEncHeader Z fh password src =
     (if \<not> encrypted fh then Inr []
      else case ioReadFull 12 src of
             (b, Some e) \<Rightarrow> Inl (Errorf [classifyPartError e (snd src) None])
           | (b, None) \<Rightarrow>
               (case pl_probe Z fh password b of
                  Some e \<Rightarrow> Inl (Errorf [classifyPartError e None None])
                | None \<Rightarrow> Inr b))"

text \<open>What may follow the payload: a data descriptor of one of its four lengths, if announced.\<close>

definition validTrailing :: "partHeader \<Rightarrow> int \<Rightarrow> bool" where
  "validTrailing fh trailing =
     (if bit (ph_Flags fh) 3 then trailing = 12 \<or> trailing = 16 \<or> trailing = 20 \<or> trailing = 24 else trailing = 0)"

text \<open>\<open>copyRaw\<close> is the end of \<open>copyOne\<close>, after the checks; \<open>read\<close> is the count of the tracked reader.\<close>

definition copyRaw ::
  "'z zipWriter \<Rightarrow> RestoreOptions \<Rightarrow> FileRecord \<Rightarrow> partHeader \<Rightarrow> string \<Rightarrow> string \<Rightarrow> bytes \<Rightarrow> bytes \<Rightarrow> reader \<Rightarrow> 'z \<Rightarrow>
     err option \<times> 'z" where
  "copyRaw W opts record fh password path header encHeader src z =
     (case zw_CopyRawPart W (header @ encHeader @ fst src, snd src) password (ro_NewPassword opts) path z of
        ((Some e, n, met), z) \<Rightarrow> (Some (Errorf [classifyPartError e (if met then snd src else None) (zw_outErr W z)]), z)
      | ((None, n, met), z) \<Rightarrow>
          let before = length header + length encHeader;
              read = int (before + (n - before))
          in if validTrailing fh (wrap64 (read - int (length header) - fr_CompressedSize record)) then (None, z)
             else (Some corruptPart, z))"

definition copyOne ::
  "naclBox \<Rightarrow> partLib \<Rightarrow> 'z zipWriter \<Rightarrow> ('s, 'w) Storage \<Rightarrow> RestoreOptions \<Rightarrow> BackupMetadata \<Rightarrow> string \<times> string \<Rightarrow> 's \<times> 'z \<Rightarrow>
     (bool \<times> err option) \<times> 's \<times> 'z" where
  "copyOne nb Z W S opts metadata t sz =
     (case gm_get (Files metadata) (snd t) of
        None \<Rightarrow> ((False, Some (Errorf [Sentinel ErrCorruptMetadata])), sz)
      | Some record \<Rightarrow>
          (case decryptPartPassword nb record (ro_PrivateKey opts) of
             Inl e \<Rightarrow> ((False, Some (Errorf [e])), sz)
           | Inr password \<Rightarrow>
               (case st_OpenReader S CallerCtx (take 2 (snd t) @ ''/'' @ snd t) (fst sz) of
                  (Inl e, s) \<Rightarrow> ((False, Some (Errorf [e])), s, snd sz)
                | (Inr rc, s) \<Rightarrow>
                    (case pl_ReadLocalFileHeader Z rc of
                       (Inl e, h, met) \<Rightarrow>
                         ((False, Some (Errorf [classifyPartError e (if met then snd rc else None) None])), s, snd sz)
                     | (Inr fh, h, met) \<Rightarrow>
                         (case checkPartHeader fh password of
                            Some e \<Rightarrow> ((False, Some (Errorf [e])), s, snd sz)
                          | None \<Rightarrow>
                              (case readEncHeader Z fh password (drop h (fst rc), snd rc) of
                                 Inl e \<Rightarrow> ((False, Some e), s, snd sz)
                               | Inr encHeader \<Rightarrow>
                                   (case copyRaw W opts record fh password (fst t) (take h (fst rc)) encHeader
                                           (drop (h + length encHeader) (fst rc), snd rc) (snd sz) of
                                      (oe, z) \<Rightarrow> ((True, oe), s, z))))))))"

section \<open>The archive\<close>

fun copyParts ::
  "(string \<times> string \<Rightarrow> 'y \<Rightarrow> (bool \<times> err option) \<times> 'y) \<Rightarrow> RestoreOptions \<Rightarrow> (nat \<Rightarrow> err option) \<Rightarrow> nat \<Rightarrow> (string, string) gomap \<Rightarrow>
     'y \<Rightarrow> err option \<times> 'y" where
  "copyParts one opts ctxAt i [] sz =
     (case ctxAt i of Some e \<Rightarrow> (Some (incompleteRunError (Some e)), sz) | None \<Rightarrow> (None, sz))"
| "copyParts one opts ctxAt i (t # ts) sz =
     (case ctxAt i of
        Some e \<Rightarrow> (Some (incompleteRunError (Some e)), sz)
      | None \<Rightarrow>
          (case one t sz of
             ((started, None), sz) \<Rightarrow> copyParts one opts ctxAt (i + 2) ts sz
           | ((started, Some e), sz) \<Rightarrow>
               if \<not> started \<and> ro_SkipDecryptionErrors opts \<and> isSkippableRestoreError e
               then copyParts one opts ctxAt (i + 2) ts sz
               else (case ctxAt (i + 1) of
                       Some c \<Rightarrow> (Some (incompleteRunError (Some (Errorf [c, e]))), sz)
                     | None \<Rightarrow> (Some e, sz))))"

definition dirEntryName :: "string \<Rightarrow> string" where
  "dirEntryName d = (if HasSuffix d ''/'' then d else d @ ''/'')"

fun addEmptyDirs :: "'z zipWriter \<Rightarrow> string list \<Rightarrow> 'z \<Rightarrow> err option \<times> 'z" where
  "addEmptyDirs W [] z = (None, z)"
| "addEmptyDirs W (d # ds) z =
     (case zw_Create W (dirEntryName d) z of
        (Inl e, z) \<Rightarrow> (Some (Errorf [e]), z)
      | (Inr False, z) \<Rightarrow> addEmptyDirs W ds z
      | (Inr True, z) \<Rightarrow>
          (case zw_CloseEntry W z of
             (Some e, z) \<Rightarrow> (Some (Errorf [e]), z)
           | (None, z) \<Rightarrow> addEmptyDirs W ds z))"

definition restoreToZip ::
  "naclBox \<Rightarrow> partLib \<Rightarrow> 'z zipWriter \<Rightarrow> ('s, 'w) Storage \<Rightarrow> RestoreOptions \<Rightarrow> (nat \<Rightarrow> err option) \<Rightarrow> BackupMetadata \<Rightarrow>
     (string, string) gomap \<Rightarrow> string list \<Rightarrow> 's \<times> 'z \<Rightarrow> err option \<times> 's \<times> 'z" where
  "restoreToZip nb Z W S opts ctxAt metadata filteredMap emptyDs sz =
     (case copyParts (copyOne nb Z W S opts metadata) opts ctxAt 0 filteredMap sz of
        (Some e, sz) \<Rightarrow> (Some e, sz)
      | (None, s, z) \<Rightarrow>
          (case addEmptyDirs W emptyDs z of
             (Some e, z) \<Rightarrow> (Some e, s, z)
           | (None, z) \<Rightarrow>
               (case zw_Close W z of
                  (Some e, z) \<Rightarrow> (Some (Errorf [e]), s, z)
                | (None, z) \<Rightarrow> (None, s, z))))"

section \<open>What the archive holds\<close>

text \<open>
  The writer as the zip library documents it: \<open>names\<close> are the entries written so far, \<open>final\<close> says
  that the central directory is there. Only a successful \<open>Close\<close> writes it.
\<close>

definition zip_writer_ok :: "'z zipWriter \<Rightarrow> ('z \<Rightarrow> string list) \<Rightarrow> ('z \<Rightarrow> bool) \<Rightarrow> bool" where
  "zip_writer_ok W names final \<longleftrightarrow>
     (\<forall>rd pw npw nm z r z'. zw_CopyRawPart W rd pw npw nm z = (r, z') \<and> \<not> final z \<longrightarrow>
        \<not> final z' \<and> (fst r = None \<longrightarrow> names z' = names z @ [nm])) \<and>
     (\<forall>nm z r z'. zw_Create W nm z = (r, z') \<and> \<not> final z \<longrightarrow>
        \<not> final z' \<and> (\<not> isl r \<longrightarrow> names z' = names z @ [nm])) \<and>
     (\<forall>z e z'. zw_CloseEntry W z = (e, z') \<and> \<not> final z \<longrightarrow> \<not> final z' \<and> names z' = names z) \<and>
     (\<forall>z e z'. zw_Close W z = (e, z') \<and> \<not> final z \<longrightarrow> names z' = names z \<and> (final z' \<longleftrightarrow> e = None))"

lemma zip_writer_copy:
  assumes "zip_writer_ok W names final" and "zw_CopyRawPart W rd pw npw nm z = (r, z')" and "\<not> final z"
  shows "\<not> final z' \<and> (fst r = None \<longrightarrow> names z' = names z @ [nm])"
  using conjunct1 [OF assms(1) [unfolded zip_writer_ok_def], rule_format, of rd pw npw nm z r z'] assms(2,3) by simp

text \<open>A part that fails before writing has started leaves the output as it was.\<close>

lemma copyOne_cases:
  assumes "copyOne nb Z W S opts md t sz = ((started, oe), sz')"
  obtains (unstarted) "\<not> started" "oe \<noteq> None" "snd sz' = snd sz"
    | (copied) rec fh pw hd enc src where "started" "copyRaw W opts rec fh pw (fst t) hd enc src (snd sz) = (oe, snd sz')"
  using assms unfolding copyOne_def by (auto split: option.splits sum.splits prod.splits)

lemma copyOne_effect:
  assumes W: "zip_writer_ok W names final" and "\<not> final (snd sz)"
    and run: "copyOne nb Z W S opts md t sz = ((started, oe), sz')"
  shows "\<not> final (snd sz')" and "oe = None \<Longrightarrow> names (snd sz') = names (snd sz) @ [fst t]"
proof -
  have raw: "\<not> final z' \<and> (e = None \<longrightarrow> names z' = names (snd sz) @ [fst t])"
    if u: "copyRaw W opts rec fh pw (fst t) hd enc src (snd sz) = (e, z')" for rec fh pw hd enc src e z'
  proof -
    obtain r z1 where cp: "zw_CopyRawPart W (hd @ enc @ fst src, snd src) pw (ro_NewPassword opts) (fst t) (snd sz) = (r, z1)" by fastforce
    have "z' = z1 \<and> (e = None \<longrightarrow> fst r = None)"
      using u by (cases r) (auto simp: copyRaw_def cp Let_def split: option.splits if_splits)
    with zip_writer_copy [OF W cp assms(2)] show ?thesis by blast
  qed
  from run have "\<not> final (snd sz') \<and> (oe = None \<longrightarrow> names (snd sz') = names (snd sz) @ [fst t])"
    by (rule copyOne_cases) (use \<open>\<not> final (snd sz)\<close> raw in auto)
  then show "\<not> final (snd sz')" and "oe = None \<Longrightarrow> names (snd sz') = names (snd sz) @ [fst t]" by blast+
qed

text \<open>
  The outcomes of the tasks of a run that goes on to its end: each task runs in the state that the
  tasks before it have left. A task may end without being copied only if it failed before its entry
  was started, with an error that \<open>SkipDecryptionErrors\<close> lets pass.
\<close>

fun copyRun ::
  "(string \<times> string \<Rightarrow> 'y \<Rightarrow> (bool \<times> err option) \<times> 'y) \<Rightarrow> (string, string) gomap \<Rightarrow> 'y \<Rightarrow>
     ((string \<times> string) \<times> bool \<times> err option) list" where
  "copyRun one [] sz = []"
| "copyRun one (t # ts) sz = (t, fst (one t sz)) # copyRun one ts (snd (one t sz))"

fun copied_or_skipped :: "RestoreOptions \<Rightarrow> (string \<times> string) \<times> bool \<times> err option \<Rightarrow> bool" where
  "copied_or_skipped opts (t, started, None) = True"
| "copied_or_skipped opts (t, started, Some e) = (\<not> started \<and> ro_SkipDecryptionErrors opts \<and> isSkippableRestoreError e)"

definition copiedNames :: "((string \<times> string) \<times> bool \<times> err option) list \<Rightarrow> string list" where
  "copiedNames rs = map (fst \<circ> fst) (filter (\<lambda>r. snd (snd r) = None) rs)"

lemma copyRun_tasks: "map fst (copyRun one ts sz) = ts"
  by (induction one ts sz rule: copyRun.induct) auto

lemma copyParts_effect:
  assumes "copyParts (copyOne nb Z W S opts md) opts ctxAt i ts sz = (oe, sz')"
    and "zip_writer_ok W names final" and "\<not> final (snd sz)"
  shows "\<not> final (snd sz') \<and>
    (oe = None \<longrightarrow> list_all (copied_or_skipped opts) (copyRun (copyOne nb Z W S opts md) ts sz) \<and>
       names (snd sz') = names (snd sz) @ copiedNames (copyRun (copyOne nb Z W S opts md) ts sz))"
  using assms
proof (induction ts arbitrary: i sz)
  case Nil
  then show ?case by (auto simp: copiedNames_def split: option.splits)
next
  case (Cons t ts)
  let ?one = "copyOne nb Z W S opts md"
  show ?case
  proof (cases "ctxAt i")
    case (Some e)
    with Cons.prems show ?thesis by auto
  next
    case None
    obtain started r sz1 where one: "?one t sz = ((started, r), sz1)" by (metis surj_pair)
    note eff = copyOne_effect [OF Cons.prems(2,3) one]
    note IH = Cons.IH [OF _ Cons.prems(2) eff(1)]
    consider (copied) "r = None" "copyParts ?one opts ctxAt (i + 2) ts sz1 = (oe, sz')"
      | (skip) e where "r = Some e" "\<not> started" "ro_SkipDecryptionErrors opts" "isSkippableRestoreError e"
          "copyParts ?one opts ctxAt (i + 2) ts sz1 = (oe, sz')"
      | (stop) "oe \<noteq> None" "sz' = sz1"
      using Cons.prems(1) None one by (fastforce split: option.splits if_splits)
    then show ?thesis
    proof cases
      case copied
      with IH [OF copied(2)] eff(2) one show ?thesis by (auto simp: copiedNames_def)
    next
      case skip
      have "snd sz1 = snd sz" using one skip(2) by (elim copyOne_cases) auto
      with IH [OF skip(5)] skip(1-4) one show ?thesis by (auto simp: copiedNames_def)
    next
      case stop
      with eff(1) show ?thesis by blast
    qed
  qed
qed

lemma addEmptyDirs_effect:
  assumes "addEmptyDirs W ds z = (oe, z')" and "zip_writer_ok W names final" and "\<not> final z"
  shows "\<not> final z' \<and> (oe = None \<longrightarrow> names z' = names z @ map dirEntryName ds)"
  using assms
proof (induction W ds z rule: addEmptyDirs.induct)
  case (2 W d ds z)
  obtain r z1 where cr: "zw_Create W (dirEntryName d) z = (r, z1)" by fastforce
  then have l1: "\<not> final z1" "\<not> isl r \<Longrightarrow> names z1 = names z @ [dirEntryName d]"
    using "2.prems"(2,3) unfolding zip_writer_ok_def by blast+
  obtain e2 z2 where cl: "zw_CloseEntry W z1 = (e2, z2)" by fastforce
  then have l2: "\<not> final z2" "names z2 = names z1"
    using "2.prems"(2) l1(1) unfolding zip_writer_ok_def by blast+
  consider (stop) "oe \<noteq> None" "z' = z1 \<or> z' = z2"
    | (plain) "r = Inr False" "addEmptyDirs W ds z1 = (oe, z')"
    | (closer) "r = Inr True" "e2 = None" "addEmptyDirs W ds z2 = (oe, z')"
    using "2.prems"(1) cr cl by (cases r; cases e2) (auto split: bool.splits)
  then show ?case
  proof cases
    case stop
    with l1(1) l2(1) show ?thesis by auto
  next
    case plain
    from "2.IH"(2) [OF cr [symmetric] plain(1) _ plain(2) "2.prems"(2) l1(1)] l1(2) plain(1) show ?thesis by auto
  next
    case closer
    from "2.IH"(1) [OF cr [symmetric] closer(1) _ cl [symmetric] closer(2) closer(3) "2.prems"(2) l2(1)] l1(2) l2(2) closer(1)
    show ?thesis by auto
  qed
qed simp

lemma restoreToZip_spec:
  assumes "restoreToZip nb Z W S opts ctxAt md fm ds sz = (oe, sz')"
    and W: "zip_writer_ok W names final" and "\<not> final (snd sz)"
  shows "final (snd sz') \<longleftrightarrow> oe = None"
    and "oe = None \<Longrightarrow> list_all (copied_or_skipped opts) (copyRun (copyOne nb Z W S opts md) fm sz) \<and>
      names (snd sz') = names (snd sz) @ copiedNames (copyRun (copyOne nb Z W S opts md) fm sz) @ map dirEntryName ds"
proof -
  obtain r sz1 where cp: "copyParts (copyOne nb Z W S opts md) opts ctxAt 0 fm sz = (r, sz1)" by (metis surj_pair)
  note eff = copyParts_effect [OF cp W assms(3)]
  obtain s z where sz1: "sz1 = (s, z)" by fastforce
  obtain r2 z2 where ad: "addEmptyDirs W ds z = (r2, z2)" by fastforce
  have eff2: "\<not> final z2 \<and> (r2 = None \<longrightarrow> names z2 = names z @ map dirEntryName ds)"
    using addEmptyDirs_effect [OF ad W] eff sz1 by simp
  obtain e3 z3 where cl: "zw_Close W z2 = (e3, z3)" by fastforce
  have eff3: "names z3 = names z2" "final z3 \<longleftrightarrow> e3 = None"
    using W cl eff2 unfolding zip_writer_ok_def by blast+
  have res: "(oe, sz') = (if r \<noteq> None then (r, sz1) else if r2 \<noteq> None then (r2, s, z2)
      else (map_option (\<lambda>e. Errorf [e]) e3, s, z3))"
    using assms(1) unfolding restoreToZip_def cp sz1 by (cases r; cases r2; cases e3) (auto simp: ad cl)
  show "final (snd sz') \<longleftrightarrow> oe = None"
    using res eff eff2 eff3 sz1 by (auto split: if_splits)
  show "list_all (copied_or_skipped opts) (copyRun (copyOne nb Z W S opts md) fm sz) \<and>
      names (snd sz') = names (snd sz) @ copiedNames (copyRun (copyOne nb Z W S opts md) fm sz) @ map dirEntryName ds" if "oe = None"
  proof -
    from res that have "r = None" "r2 = None" "sz' = (s, z3)" by (auto split: if_splits)
    with eff sz1 eff2 eff3 show ?thesis by auto
  qed
qed

end
