(* ===== verification/RunRestore.thy ===== *)
theory RunRestore
  imports RestoreSafe RestoreZip
begin

text \<open>
  \<open>RunRestore\<close> of \<open>src/tsync/restore.go\<close>: the checks of the options, the metadata, the paths of the
  version, the selection, and then one of the two restores. What the walk over the trees gives is
  what the restores rely on: distinct paths of valid names, and keys that are long enough to
  be split. A restore into a directory always ends, for every scheduling of its workers.
\<close>

section \<open>The run\<close>

text \<open>
  The part up to the choice of the restore; \<open>None\<close> is a tree deeper than \<open>fuel\<close>, \<open>ctxErr0\<close> what the
  first check of the context returns.
\<close>

definition prepareRestore ::
  "md_unmarshal \<Rightarrow> tree_marshal \<Rightarrow> nat \<Rightarrow> ('s, 'w) Storage \<Rightarrow> err option \<Rightarrow> 64 word \<Rightarrow> RestoreOptions \<Rightarrow> 's \<Rightarrow>
     ((BackupMetadata \<times> (string, string) gomap \<times> string list) result \<times> 's) option" where
  "prepareRestore unmarshal mar fuel S ctxErr0 versionID opts s =
     (case ctxErr0 of
        Some e \<Rightarrow> Some (Inl e, s)
      | None \<Rightarrow>
          if ro_ExtractDir opts = [] \<and> \<not> ro_ZipWriter opts then Some (Inl (Errorf [Sentinel ErrInvalidOptions]), s)
          else if 0 < length (ro_PrivateKey opts) \<and> length (ro_PrivateKey opts) \<noteq> 32
          then Some (Inl (Errorf [Sentinel ErrInvalidOptions]), s)
          else
            (case loadMetadata unmarshal S CallerCtx s of
               (Inl e, s) \<Rightarrow> Some (Inl e, s)
             | (Inr metadata, s) \<Rightarrow>
                 (case ResolveVersionTree mar fuel metadata versionID (ro_SkipValidationErrors opts) of
                    None \<Rightarrow> None
                  | Some (Inl e) \<Rightarrow> Some (Inl (Errorf [e]), s)
                  | Some (Inr resolved) \<Rightarrow> Some (Inr (metadata, selectRestore opts resolved), s))))"

inductive RunRestore ::
  "md_unmarshal \<Rightarrow> tree_marshal \<Rightarrow> nat \<Rightarrow> naclBox \<Rightarrow> partLib \<Rightarrow> 'z zipWriter \<Rightarrow> (string \<Rightarrow> 64 word result) \<Rightarrow> ('s, 'w) Storage \<Rightarrow>
     (nat \<Rightarrow> err option) \<Rightarrow> err option \<Rightarrow> 64 word \<Rightarrow> RestoreOptions \<Rightarrow> 's restoreWorld \<times> 'z \<Rightarrow> err option \<Rightarrow> 's restoreWorld \<times> 'z \<Rightarrow> bool"
  for unmarshal mar fuel nb Z W free S ctxAt ctxErr0 versionID opts wz where
  refused: "prepareRestore unmarshal mar fuel S ctxErr0 versionID opts (rw_store (fst wz)) = Some (Inl e, s) \<Longrightarrow>
    RunRestore unmarshal mar fuel nb Z W free S ctxAt ctxErr0 versionID opts wz (Some e) ((fst wz)\<lparr>rw_store := s\<rparr>, snd wz)"
| to_dir: "prepareRestore unmarshal mar fuel S ctxErr0 versionID opts (rw_store (fst wz)) = Some (Inr (md, fm, ds), s) \<Longrightarrow>
    ro_ExtractDir opts \<noteq> [] \<Longrightarrow>
    restoreToDir nb Z free S opts md fm ds ((fst wz)\<lparr>rw_store := s\<rparr>) oe w' \<Longrightarrow>
    RunRestore unmarshal mar fuel nb Z W free S ctxAt ctxErr0 versionID opts wz oe (w', snd wz)"
| to_zip: "prepareRestore unmarshal mar fuel S ctxErr0 versionID opts (rw_store (fst wz)) = Some (Inr (md, fm, ds), s) \<Longrightarrow>
    ro_ExtractDir opts = [] \<Longrightarrow>
    restoreToZip nb Z W S opts ctxAt md fm ds (s, snd wz) = (oe, s', z') \<Longrightarrow>
    RunRestore unmarshal mar fuel nb Z W free S ctxAt ctxErr0 versionID opts wz oe ((fst wz)\<lparr>rw_store := s'\<rparr>, z')"

section \<open>The paths of a walk\<close>

definition good_path :: "string \<Rightarrow> bool" where
  "good_path p \<longleftrightarrow> list_all valid_name (Split CHR ''/'' p)"

text \<open>Distinct valid paths; every key has the eight hexadecimal digits and the separator.\<close>

definition walk_wf :: "walk_state \<Rightarrow> bool" where
  "walk_wf st \<longleftrightarrow> gm_wf (fst st) \<and> list_all (\<lambda>(p, k). good_path p \<and> 9 < length k) (fst st) \<and> list_all good_path (snd st)"

lemma good_path_join: "px = [] \<or> good_path px \<Longrightarrow> valid_name n \<Longrightarrow> good_path (joinPath px n)"
  using Split_append_sep [of "CHR ''/''" px n]
  by (auto simp: good_path_def joinPath_def Split_no_sep valid_name_slash_free)

lemma leafKey_length: "9 < length (leafKey leaf)"
  using FormatInt_nonempty [of "fl_UncompressedSize leaf"] by (simp add: leafKey_def fileKeyFor_def)

lemma walk_wf_walk:
  "walkTree mar n h px trees skip st = Some (Inr st') \<Longrightarrow> px = [] \<or> good_path px \<Longrightarrow> walk_wf st \<Longrightarrow> walk_wf st'"
  "walkEntries mar n es px trees skip st = Some (Inr st') \<Longrightarrow> px = [] \<or> good_path px \<Longrightarrow> walk_wf st \<Longrightarrow> walk_wf st'"
proof (induction mar n h px trees skip st and mar n es px trees skip st arbitrary: st' and st' rule: walkTree_walkEntries.induct)
  case (2 mar n h px trees skip st)
  then show ?case
    by (auto simp: corrupt_def walk_wf_def split: option.splits if_splits)
next
  case (4 mar n entry es px trees skip st)
  let ?name = "te_Name entry" and ?rest = "\<lambda>x. walkEntries mar n es px trees skip x = Some (Inr st')"
  note cont = "4.IH"(1) [OF _ "4.prems"(2)]
  consider (skipped) "?rest st"
    | (leaf) leaf where "validateName ?name = None" "?rest (gm_put (joinPath px ?name) (leafKey leaf) (fst st), snd st)"
    | (subtree) h st1 where "validateName ?name = None" "te_Node entry = TreeEntry_SubtreeHash h" "h \<noteq> []"
        "walkTree mar n h (joinPath px ?name) trees skip st = Some (Inr st1)" "?rest st1"
    using "4.prems"(1) by (auto simp: corrupt_def Let_def split: option.splits sum.splits if_splits TreeEntry_Node.splits)
  then show ?case
  proof cases
    case skipped
    then show ?thesis using cont "4.prems"(3) by blast
  next
    case (leaf lf)
    then have "good_path (joinPath px ?name)" using good_path_join "4.prems"(2) by (simp add: valid_name_def)
    with "4.prems"(3) leafKey_length show ?thesis by (intro cont [OF leaf(2)]) (simp add: walk_wf_def list_all_gm_put)
  next
    case subtree
    then have gp: "good_path (joinPath px ?name)" using good_path_join "4.prems"(2) by (simp add: valid_name_def)
    from subtree "4.prems"(3) gp show ?thesis by (intro cont [OF subtree(5)]) (rule "4.IH"(2) [OF refl _ refl _ _ subtree(4)], simp_all)
  qed
qed auto

lemma walk_wf_resolve: "ResolveVersionTree mar fuel md vid skip = Some (Inr r) \<Longrightarrow> walk_wf r"
proof -
  assume "ResolveVersionTree mar fuel md vid skip = Some (Inr r)"
  then obtain v :: Version where "walkTree mar fuel (RootTreeHash v) [] (Trees md) skip ([], []) = Some (Inr r)"
    by (auto simp: ResolveVersionTree_def split: option.splits)
  then show ?thesis by (rule walk_wf_walk(1)) (simp_all add: walk_wf_def gm_wf_def)
qed

lemma walk_wf_select: "walk_wf r \<Longrightarrow> walk_wf (selectRestore opts r)"
  by (auto simp: walk_wf_def selectRestore_def Let_def gm_wf_def list_all_iff intro: distinct_map_filter split: option.splits)

lemma walk_wf_prepare:
  "prepareRestore unmarshal mar fuel S ctxErr0 vid opts s = Some (Inr (md, fm, ds), s') \<Longrightarrow> walk_wf (fm, ds)"
  unfolding prepareRestore_def
  by (auto split: option.splits if_splits prod.splits sum.splits dest!: walk_wf_resolve intro: walk_wf_select)
    (metis walk_wf_resolve walk_wf_select)+

text \<open>
  No selected file is named like a temporary file: renamed into place, such a file could replace the
  temporary file of another worker that is still writing it.
\<close>

definition no_temp_names :: "(string, string) gomap \<Rightarrow> bool" where
  "no_temp_names fm \<longleftrightarrow> list_all (\<lambda>(p, k). \<not> HasPrefix (last (Split CHR ''/'' p)) restoreTempPrefix) fm"

lemma tasks_ok_walk: "walk_wf (fm, ds) \<Longrightarrow> no_temp_names fm \<Longrightarrow> tasks_ok fm"
  by (auto simp: tasks_ok_def walk_wf_def no_temp_names_def good_path_def list_all_iff)

section \<open>Termination\<close>

lemma clean_list_butlast: "clean_list r cs \<Longrightarrow> clean_list r (butlast cs)"
proof -
  assume "clean_list r cs"
  then obtain n ps where cs: "cs = replicate n ''..'' @ ps" "list_all plain ps" "r \<longrightarrow> n = 0"
    unfolding clean_list_def by blast
  show ?thesis
  proof (cases ps rule: rev_cases)
    case Nil
    have "butlast cs = replicate (n - 1) ''..'' @ []" using cs(1) Nil by (simp add: butlast_conv_take)
    with cs(3) show ?thesis unfolding clean_list_def by (intro exI [of _ "n - 1"] exI [of _ "[]"]) simp
  next
    case (snoc qs q)
    with cs show ?thesis by (auto simp: clean_list_def butlast_append)
  qed
qed

lemma foldl_skip_empty: "foldl (cleanStep r) out (cs @ [[]]) = foldl (cleanStep r) out cs"
  by (simp add: cleanStep_def)

lemma Dir_unparse:
  assumes cl: "clean_list r cs"
  shows "filepathDir (unparse r cs) = unparse r (butlast cs)"
proof (cases "cs = []")
  case True
  then show ?thesis by (cases r) (simp_all add: filepathDir_def unparse_def Clean_def cleanComps_def cleanStep_def Rooted_def HasPrefix_def)
next
  case False
  let ?lead = "if r then [[]] else []"
  have sp: "Split CHR ''/'' (unparse r cs) = ?lead @ cs"
    using Split_Join_clean [OF cl False] False by (simp add: unparse_def)
  show ?thesis
  proof (cases "?lead @ butlast cs = []")
    case True
    then obtain c where one: "\<not> r" "cs = [c]" using False by (cases cs rule: rev_cases) (auto split: if_splits)
    show ?thesis unfolding filepathDir_def sp using one by (simp add: unparse_def Clean_def cleanComps_def cleanStep_def Rooted_def HasPrefix_def)
  next
    case ne: False
    let ?q = "Join (?lead @ butlast cs) ''/''"
    have bl: "butlast (?lead @ cs) = ?lead @ butlast cs" using False by (simp add: butlast_append)
    have len: "length (?lead @ cs) \<noteq> 1" using ne False by (cases cs rule: rev_cases) (auto split: if_splits)
    have dir: "filepathDir (unparse r cs) = Clean (?q @ ''/'')"
      unfolding filepathDir_def sp bl using len by simp
    have free: "\<forall>c \<in> set (?lead @ butlast cs). CHR ''/'' \<notin> set c"
      using clean_list_comps [OF cl] by (auto dest: in_set_butlastD split: if_splits)
    have spq: "Split CHR ''/'' (?q @ ''/'') = ?lead @ butlast cs @ [[]]"
      using Split_append_sep [of "CHR ''/''" ?q "[]"] Split_Join [OF ne free] by simp
    have rt: "Rooted (?q @ ''/'') = r"
    proof (cases r)
      case True
      then show ?thesis by (cases "butlast cs") (simp_all add: Rooted_def HasPrefix_def)
    next
      case nr: False
      then obtain c ds where c: "butlast cs = c # ds" using ne by (cases "butlast cs") auto
      then have "c \<noteq> []" "CHR ''/'' \<notin> set c"
        using clean_list_comps [OF cl, of c] by (metis in_set_butlastD list.set_intros(1))+
      then show ?thesis using nr c by (cases c; cases ds) (auto simp: Rooted_def HasPrefix_def)
    qed
    have "cleanComps (?q @ ''/'') = butlast cs"
      unfolding cleanComps_def rt spq
      using foldl_clean_list [OF clean_list_butlast [OF cl]] by (cases r) (simp_all add: cleanStep_def)
    then show ?thesis unfolding dir Clean_def rt by simp
  qed
qed

lemma ancestor_clean: "clean_list r cs \<Longrightarrow> \<exists>y. getExistingAncestor (unparse r cs) f = Some y"
proof (induction "length cs" arbitrary: cs f rule: less_induct)
  case less
  obtain st f1 where st: "osStat (unparse r cs) f = (st, f1)" by fastforce
  have "cs \<noteq> [] \<Longrightarrow> \<exists>y. getExistingAncestor (unparse r (butlast cs)) f1 = Some y"
    by (rule less(1)) (simp_all add: clean_list_butlast less(2))
  then show ?case
    unfolding getExistingAncestor.simps [of "unparse r cs" f] Dir_unparse [OF less(2)] st
    by (cases "cs = []") (auto split: sum.splits)
qed

lemma ancestor_returns: "\<exists>y. getExistingAncestor p f = Some y"
proof -
  obtain st f1 where st: "osStat p f = (st, f1)" by fastforce
  obtain q where q: "filepathDir p = Clean q" by (simp add: filepathDir_def)
  have "\<exists>y. getExistingAncestor (filepathDir p) f1 = Some y"
    unfolding q Clean_def by (rule ancestor_clean [OF clean_list_cleanComps])
  then show ?thesis by (subst getExistingAncestor.simps) (auto simp: st split: sum.splits)
qed

lemma rworkers_run: "\<exists>st'. rwreach nb Z S opts md st st' \<and> rk_exited st'"
proof -
  have "\<exists>st'. rwreach nb Z S opts md st0 st' \<and> rk_exited st'" if "rwreach nb Z S opts md st0 st" for st0 st
    using that
  proof (induction "rk_cost st" arbitrary: st rule: less_induct)
    case less
    show ?case
    proof (cases "rk_exited st")
      case False
      then obtain st1 where "rwstep nb Z S opts md st st1" using rwstep_progress by blast
      with less rwstep_cost rwreach.there show ?thesis by metis
    qed (use less(2) in blast)
  qed
  then show ?thesis using rwreach.here by blast
qed

lemma restoreToDir_returns: "\<exists>oe w'. restoreToDir nb Z free S opts md fm ds w oe w'"
proof -
  obtain a f where anc: "getExistingAncestor (ro_ExtractDir opts) (rw_fs w) = Some (a, f)" using ancestor_returns by (metis surj_pair)
  show ?thesis
  proof (cases "diskCheck (free a) opts md fm")
    case (Inl e)
    with anc show ?thesis using restoreToDir.no_space by blast
  next
    case (Inr c)
    obtain st where "rwreach nb Z S opts md (startRestore c fm None (w\<lparr>rw_fs := f\<rparr>)) st" "rk_exited st" using rworkers_run by blast
    with anc Inr show ?thesis using restoreToDir.extracted by (metis surj_pair)
  qed
qed

text \<open>No execution is longer than four steps for each task, one for each worker, and a cancellation.\<close>

definition rrun :: "naclBox \<Rightarrow> partLib \<Rightarrow> ('s, 'w) Storage \<Rightarrow> RestoreOptions \<Rightarrow> BackupMetadata \<Rightarrow> 's rworkers \<Rightarrow> 's rworkers \<Rightarrow> bool" where
  "rrun nb Z S opts md st st' \<longleftrightarrow> rwstep nb Z S opts md st st' \<or> rk_caller st st'"

lemma rrun_relpow: "((rrun nb Z S opts md) ^^ n) st st' \<Longrightarrow> n + rk_cost st' \<le> rk_cost st"
proof (induction n arbitrary: st')
  case (Suc n)
  then obtain st1 where run: "((rrun nb Z S opts md) ^^ n) st st1" "rrun nb Z S opts md st1 st'" by auto
  then have "rk_cost st' < rk_cost st1" using rwstep_cost rk_caller_cost unfolding rrun_def by blast
  with Suc.IH [OF run(1)] show ?case by simp
qed simp

lemma rrun_bound:
  "((rrun nb Z S opts md) ^^ n) (startRestore c fm cause w) st \<Longrightarrow> n \<le> 4 * length fm + nat c + 1"
  using rrun_relpow [of n nb Z S opts md "startRestore c fm cause w" st]
  by (simp add: rk_cost_def startRestore_def sum_list_replicate split: if_splits)

end
