(* ===== verification/FixturesRestore.thy ===== *)
theory FixturesRestore
  imports Fixtures RunRestore
begin

text \<open>
  A restore of version 7 of the local store \<open>fx_world\<close>: one empty file \<open>f\<close>, whose part is the
  single byte of a header; into the directory \<open>/o\<close> of another file system, and into an archive.
\<close>

definition fx_nacl :: naclBox where
  "fx_nacl = \<lparr>nb_Seal = (\<lambda>_ _ _ _ _. []), nb_Open = (\<lambda>_ _ _ _. None)\<rparr>"

definition fx_lib :: partLib where
  "fx_lib = \<lparr>pl_ReadLocalFileHeader = (\<lambda>rc. (Inr \<lparr>ph_Flags = 0, ph_Method = Store\<rparr>, 1, False)),
             pl_payload = (\<lambda>fh pw rc. (rc, True)), pl_probe = (\<lambda>fh pw b. None)\<rparr>"

definition fx_ropts :: "string \<Rightarrow> RestoreOptions" where
  "fx_ropts dir = \<lparr>ro_ZipWriter = True, ro_ExtractDir = dir, ro_PrivateKey = [], ro_NewPassword = [], ro_SkipDecryptionErrors = False,
     ro_SkipValidationErrors = False, ro_FilesToRestore = [], ro_FilterFunc = None, ro_Concurrency = 1, ro_NoOverwrite = False\<rparr>"

definition fx_out :: fsWorld where
  "fx_out = \<lparr>fs_nodes = [(''/'', FDir 0), (''/o'', FDir 0)], fs_faults = [], fs_rand = [''1''], fs_now = 0\<rparr>"

definition fx_restored :: fsWorld where
  "fx_restored = \<lparr>fs_nodes = [(''/'', FDir 0), (''/o'', FDir 0), (''/o/f'', FFile [] 0)], fs_faults = [], fs_rand = [], fs_now = 0\<rparr>"

abbreviation fx_store :: "(fsWorld, localAtomicWriter) Storage" where "fx_store \<equiv> NewLocalStorage ''/'' ''/r''"

definition fx_tasks :: "(string, string) gomap" where "fx_tasks = [(''f'', fx_key)]"

definition fx_rw :: "fsWorld restoreWorld" where
  "fx_rw = \<lparr>rw_store = fx_world, rw_fs = fx_out, rw_dirs = []\<rparr>"

definition fx_rw' :: "fsWorld restoreWorld" where
  "fx_rw' = \<lparr>rw_store = fx_world, rw_fs = fx_restored, rw_dirs = [''/o'']\<rparr>"

lemma fx_OpenReader: "st_OpenReader fx_store c ''00/00000000_0'' fx_world = (Inr ([9], None), fx_world)"
  unfolding NewLocalStorage_def fx_abs by (simp add: fs_eval lOpenReader_def readerOf_def fx_world_def)

lemma fx_prepareRestore:
  "prepareRestore (fx_unmarshal fx_md7) fx_mar 2 fx_store None 7 (fx_ropts dir) fx_world = Some (Inr (fx_md, fx_tasks, []), fx_world)"
proof -
  have r: "ResolveVersionTree fx_mar 2 fx_md 7 False = Some (Inr (fx_tasks, []))"
    unfolding ResolveVersionTree_def FormatUint_7
    by (simp add: fx_md_def fx_version_def numeral_2_eq_2 fx_mar_def fx_hash_def [symmetric] fx_node_def fileEntry_def validateName_def
        leafKey_def fx_fileKey joinPath_def fx_tasks_def)
  show ?thesis
    by (simp add: prepareRestore_def fx_ropts_def fx_load r selectRestore_def)
qed

lemma fx_head: "pl_ReadLocalFileHeader fx_lib rc = (Inr \<lparr>ph_Flags = 0, ph_Method = Store\<rparr>, 1, False)"
  by (simp add: fx_lib_def)

lemma fx_check: "checkPartHeader \<lparr>ph_Flags = 0, ph_Method = Store\<rparr> [] = None"
  by (simp add: checkPartHeader_def encrypted_def)

lemma fx_extract: "extractOne fx_nacl fx_lib fx_store (fx_ropts ''/o'') fx_md (''f'', fx_key) fx_rw = (None, fx_rw')"
proof -
  have j: "safeJoin ''/o'' ''f'' = Inr ''/o/f''" by code_simp
  have d: "filepathDir ''/o/f'' = ''/o''" by code_simp
  have f: "gm_get (Files fx_md) fx_key = Some fx_rec" by (simp add: fx_md_def)
  have k: "keepExisting (fx_ropts ''/o'') fx_rec ''/o/f'' fx_out = (False, fx_out)"
    by (simp add: keepExisting_def fs_eval fx_out_def)
  have p: "placeFile fx_lib fx_rec \<lparr>ph_Flags = 0, ph_Method = Store\<rparr> [] ([], None) ''/o/f'' fx_out = (None, fx_restored)"
    unfolding placeFile_def d
    by (simp add: fs_eval fillTemp_def fx_rec_def limitReader_def payloadReader_def encrypted_def Store_def Deflate_def ioPieces.simps
        fChmod_def restoreTempPrefix_def fx_out_def fx_restored_def)
  have pw: "decryptPartPassword fx_nacl fx_rec [] = Inr []" by (simp add: decryptPartPassword_def fx_rec_def)
  have o: "ro_ExtractDir (fx_ropts ''/o'') = ''/o''" "ro_PrivateKey (fx_ropts ''/o'') = []" by (simp_all add: fx_ropts_def)
  have r: "st_OpenReader fx_store c (take 2 fx_key @ CHR ''/'' # fx_key) fx_world = (Inr ([9], None), fx_world)" for c
    using fx_OpenReader by (simp add: fx_key_def)
  show ?thesis
    by (simp add: extractOne_def o j f fx_rw_def k pw r fx_head fx_check p d fx_rw'_def)
qed

text \<open>The one worker takes the task, extracts the file and leaves.\<close>

definition fx_rfinal :: "fsWorld rworkers" where
  "fx_rfinal = \<lparr>rk_tasks = [], rk_pcs = [RExited], rk_results = [\<lparr>rr_path = ''f'', rr_err = None, rr_cancelled = False\<rparr>],
                rk_ctx = None, rk_parent = None, rk_world = fx_rw'\<rparr>"

lemma rwreach_step:
  "rwstep nb Z S opts md st st' \<Longrightarrow> rwreach nb Z S opts md st' st'' \<Longrightarrow> rwreach nb Z S opts md st st''"
  by (rotate_tac, induction rule: rwreach.induct) (auto intro: rwreach.intros)

lemma fx_rreach:
  "rwreach fx_nacl fx_lib fx_store (fx_ropts ''/o'') fx_md (startRestore 1 fx_tasks None fx_rw) fx_rfinal"
proof -
  let ?st = "\<lambda>ts pc rs w. \<lparr>rk_tasks = ts, rk_pcs = [pc], rk_results = rs, rk_ctx = None, rk_parent = None, rk_world = w\<rparr> :: fsWorld rworkers"
  let ?W = "rwstep fx_nacl fx_lib fx_store (fx_ropts ''/o'') fx_md" and ?t = "(''f'', fx_key)"
  let ?r = "\<lparr>rr_path = ''f'', rr_err = None, rr_cancelled = False\<rparr>"
  have st: "startRestore 1 fx_tasks None fx_rw = ?st [?t] RIdle [] fx_rw" by (simp add: startRestore_def fx_tasks_def)
  have 1: "?W (?st [?t] RIdle [] fx_rw) (?st [] (RTaken ?t) [] fx_rw)"
    using rwstep.receive [of "?st [?t] RIdle [] fx_rw" 0 ?t "[]"] by (simp add: rk_at_def rk_set_def)
  have 2: "?W (?st [] (RTaken ?t) [] fx_rw) (?st [] (RRunning ?t) [] fx_rw)"
    using rwstep.begins [of "?st [] (RTaken ?t) [] fx_rw" 0 ?t] by (simp add: rk_at_def rk_set_def)
  have 3: "?W (?st [] (RRunning ?t) [] fx_rw) (?st [] (RDone ?t None) [] fx_rw')"
    using rwstep.extracts [of "?st [] (RRunning ?t) [] fx_rw" 0 ?t fx_nacl fx_lib fx_store "fx_ropts ''/o''" fx_md]
    by (simp add: rk_at_def rk_set_def runTask_def fx_extract skipError_def)
  have 4: "?W (?st [] (RDone ?t None) [] fx_rw') (?st [] RIdle [?r] fx_rw')"
    using rwstep.succeeds [of "?st [] (RDone ?t None) [] fx_rw'" 0 ?t] by (simp add: rk_at_def rk_set_def rk_send_def)
  have 5: "?W (?st [] RIdle [?r] fx_rw') fx_rfinal"
    using rwstep.leave [of "?st [] RIdle [?r] fx_rw'" 0] by (simp add: rk_at_def rk_set_def fx_rfinal_def)
  show ?thesis
    unfolding st by (rule rwreach_step [OF 1] rwreach_step [OF 2] rwreach_step [OF 3] rwreach_step [OF 4] rwreach_step [OF 5] rwreach.here)+
qed

definition fx_free :: "string \<Rightarrow> 64 word result" where "fx_free p = Inr 1000"

lemma fx_restoreToDir: "restoreToDir fx_nacl fx_lib fx_free fx_store (fx_ropts ''/o'') fx_md fx_tasks [] fx_rw None fx_rw'"
proof (rule restoreToDir.extracted)
  show "getExistingAncestor (ro_ExtractDir (fx_ropts ''/o'')) (rw_fs fx_rw) = Some (''/o'', fx_out)"
    by (subst getExistingAncestor.simps) (simp add: fx_ropts_def fx_rw_def fs_eval fx_out_def)
  show "diskCheck (fx_free ''/o'') (fx_ropts ''/o'') fx_md fx_tasks = Inr 1"
    by (simp add: diskCheck_def fx_ropts_def fx_free_def sumSizes_def fx_tasks_def fx_md_def fx_rec_def wrap64_def)
  show "rwreach fx_nacl fx_lib fx_store (fx_ropts ''/o'') fx_md (startRestore 1 fx_tasks None (fx_rw\<lparr>rw_fs := fx_out\<rparr>)) fx_rfinal"
    using fx_rreach by (simp add: fx_rw_def)
  show "rk_exited fx_rfinal" by (simp add: rk_exited_def fx_rfinal_def)
  show "finishRestore (fx_ropts ''/o'') (length fx_tasks) [] fx_rfinal = (None, fx_rw')"
    by (simp add: finishRestore_def fx_rfinal_def firstRestoreErr_def fx_tasks_def fx_rw'_def osSyncDir_def fs_eval fx_restored_def)
qed

section \<open>An archive\<close>

text \<open>The output is the list of its entries and whether it is complete.\<close>

definition fx_writer :: "(string list \<times> bool) zipWriter" where
  "fx_writer = \<lparr>zw_CopyRawPart = (\<lambda>rd pw npw nm z. ((None, length (fst rd), False), fst z @ [nm], snd z)),
     zw_Create = (\<lambda>nm z. (Inr True, fst z @ [nm], snd z)), zw_CloseEntry = (\<lambda>z. (None, z)),
     zw_Close = (\<lambda>z. (None, fst z, True)), zw_outErr = (\<lambda>_. None)\<rparr>"

lemma fx_writer_ok: "zip_writer_ok fx_writer fst snd"
  by (auto simp: zip_writer_ok_def fx_writer_def)

lemma fx_restoreToZip:
  "restoreToZip fx_nacl fx_lib fx_writer fx_store (fx_ropts []) (\<lambda>_. None) fx_md fx_tasks [] (fx_world, [], False) = (None, fx_world, [''f''], True)"
proof -
  have f: "gm_get (Files fx_md) fx_key = Some fx_rec" by (simp add: fx_md_def)
  have r: "st_OpenReader fx_store c (take 2 fx_key @ CHR ''/'' # fx_key) fx_world = (Inr ([9], None), fx_world)" for c
    using fx_OpenReader by (simp add: fx_key_def)
  have pw: "decryptPartPassword fx_nacl fx_rec [] = Inr []" by (simp add: decryptPartPassword_def fx_rec_def)
  have k: "ro_PrivateKey (fx_ropts []) = []" by (simp add: fx_ropts_def)
  have raw: "copyRaw fx_writer (fx_ropts []) fx_rec \<lparr>ph_Flags = 0, ph_Method = Store\<rparr> [] ''f'' [9] [] ([], None) ([], False) = (None, [''f''], False)"
    by (simp add: copyRaw_def fx_writer_def validTrailing_def wrap64_def fx_rec_def Let_def)
  have one: "copyOne fx_nacl fx_lib fx_writer fx_store (fx_ropts []) fx_md (''f'', fx_key) (fx_world, [], False) = ((True, None), fx_world, [''f''], False)"
    by (simp add: copyOne_def f k r pw fx_head fx_check readEncHeader_def encrypted_def raw)
  show ?thesis by (simp add: restoreToZip_def fx_tasks_def one) (simp add: fx_writer_def)
qed

end
