(* ===== verification/FixturesZip.thy ===== *)
theory FixturesZip
  imports SourceSafe FixturesRestore
begin

text \<open>
  Small archives: an end record alone, a data area of one byte with one entry, a locator that points to
  the top of \<open>int64\<close>, and an entry without content.
\<close>

definition fx_eocd :: "byte \<Rightarrow> byte \<Rightarrow> bytes" where
  "fx_eocd records off = [0x50, 0x4b, 5, 6, 0, 0, 0, 0, records, 0, records, 0, 0, 0, 0, 0, off, 0, 0, 0, 0, 0]"

definition fx_locator :: bytes where
  "fx_locator = [0x50, 0x4b, 6, 7, 0, 0, 0, 0, 255, 255, 255, 255, 255, 255, 255, 127, 0, 0, 0, 0]"

lemmas zip_eval = lastEOCD_def eocdAt_def hasLocator_def locatorOffset_def endRecord_def Uint16_def Uint32_def Uint64_def leUint_def
  zip_consts fx_eocd_def fx_locator_def

lemma fx_last: "lastEOCD (fx_eocd 0 0) = Some 0" "lastEOCD (0 # fx_eocd 1 1) = Some 1" "lastEOCD (fx_locator @ fx_eocd 0 0) = Some 20"
proof -
  have top: "lastEOCD a = Some (length a - 22)" if "22 \<le> length a" "eocdAt a (length a - 22)" for a
    using that by (cases "length a - 22") (simp_all add: lastEOCD_def eocdLen_def)
  show "lastEOCD (fx_eocd 0 0) = Some 0" "lastEOCD (0 # fx_eocd 1 1) = Some 1" "lastEOCD (fx_locator @ fx_eocd 0 0) = Some 20"
    using top [of "fx_eocd 0 0"] top [of "0 # fx_eocd 1 1"] top [of "fx_locator @ fx_eocd 0 0"] by (simp_all add: zip_eval)
qed

lemma fx_spec: "zipDirSpec (fx_eocd 0 0) = Some (0, 0, 0, 0)" "zipDirSpec (0 # fx_eocd 1 1) = Some (1, 1, 0, 1)"
  unfolding zipDirSpec_def fx_last by (simp_all add: zip_eval)

definition fx_dir :: zipDirectory where
  "fx_dir = plainDir (0 # fx_eocd 1 1) 1"

lemma fx_dir_fields: "zd_cdOffset fx_dir = 1" "zd_cdSize fx_dir = 0" "zd_tailOffset fx_dir = 0" "zd_records fx_dir = 1"
  by (simp_all add: fx_dir_def plainDir_def zip_eval windowStart_def)

lemma fx_read_dir: "readZipDirectory (bytesReaderAt (0 # fx_eocd 1 1)) 23 st = (Some (Inr fx_dir), st)"
proof -
  have "length (0 # fx_eocd 1 1) < 2 ^ 62" "int (length (0 # fx_eocd 1 1)) = 23" by (simp_all add: fx_eocd_def)
  moreover have "\<not> hasLocator (0 # fx_eocd 1 1) 1" by (simp add: hasLocator_def zip_consts)
  moreover have "checkDir (Some (Inr (fx_dir, 1))) = Some (Inr fx_dir)" by (simp add: checkDir_def fx_dir_fields wrap64_def)
  ultimately show ?thesis using readZipDirectory_bytes [of "0 # fx_eocd 1 1" st] fx_last(2) by (simp add: fx_dir_def)
qed

definition fx_file :: "'s zipFile" where
  "fx_file = \<lparr>zf_Name = ''f'', zf_HeaderOffset = 0, zf_Flags = 0, zf_Method = Store, zf_CRC32 = 0, zf_CompressedSize64 = 0,
     zf_UncompressedSize64 = 0, zf_ModifiedDate = 0, zf_ModifiedTime = 0, zf_Extra = [], zf_Open = (\<lambda>s. (Inr ([], None), s))\<rparr>"

definition fx_range :: "'s ZipPartRange" where
  "fx_range = \<lparr>zr_Name = ''f'', zr_StartOffset = 0, zr_EndOffset = 1, zr_File = fx_file\<rparr>"

definition fx_lfh :: bytes where
  "fx_lfh = [0x50, 0x4b, 3, 4, 0, 0, 0, 0, 0, 0, 0, 0, 0, 0, 0, 0, 0, 0, 0, 0, 0, 0, 0, 0, 0, 0, 0, 0, 0, 0]"

end
