(* ===== verification/RetryCall.thy ===== *)
theory RetryCall
  imports Retry Storage
begin

text \<open>
  \<open>RetryPolicy.Do\<close> around a request that changes the world: the loop of \<open>Retry\<close> with the request run
  in each attempt. Its error is that of \<open>Do\<close> on the errors the attempts returned (\<open>retryDo_refines\<close>), and
  what holds of every attempt holds of the call (\<open>retryDo_elim\<close>).
\<close>

definition errorOf :: "'a result \<Rightarrow> err option" where
  "errorOf r = (case r of Inl e \<Rightarrow> Some e | Inr _ \<Rightarrow> None)"

lemma errorOf_simps [simp]: "errorOf (Inl e) = Some e" "errorOf (Inr v) = None" "errorOf r = None \<longleftrightarrow> (\<exists>v. r = Inr v)"
  by (auto simp: errorOf_def split: sum.splits)

text \<open>\<open>env k\<close> is what attempt \<open>k\<close> observes besides the result of the request.\<close>

function retryDo :: "RetryPolicy \<Rightarrow> int \<Rightarrow> (nat \<Rightarrow> attempt) \<Rightarrow> ('s \<Rightarrow> 'a result \<times> 's) \<Rightarrow> nat \<Rightarrow> 's \<Rightarrow> 'a result \<times> 's" where
  "retryDo p timeout env fn n s =
     (case fn s of
        (r, s') \<Rightarrow>
          let a = (env n)\<lparr>fn_err := errorOf r\<rparr> in
          (case runAttempt timeout a of
             None \<Rightarrow> (r, s')
           | Some e \<Rightarrow>
               (case do_ctx a of
                  Some ce \<Rightarrow> (Inl (if errIs e ce then Errorf [e] else Errorf [Sentinel ce, e]), s')
                | None \<Rightarrow>
                    if isPermanent e \<or> (\<not> errIs e ErrAttemptTimeout \<and> \<not> IsRetryable (Some e)) then (Inl (Errorf [e]), s')
                    else if nat (attemptLimit p e) \<le> n then (Inl (Errorf [e]), s')
                    else (case wait_ctx a of
                            Some ce \<Rightarrow> (Inl (Errorf [Sentinel ce, e]), s')
                          | None \<Rightarrow> retryDo p timeout env fn (Suc n) s'))))"
  by pat_completeness auto
termination
proof (relation "measure (\<lambda>(p, timeout, env, fn, n, s). attempt_bound p - n)", goal_cases)
  case 1
  show ?case by simp
next
  case (2 p timeout env fn n s r s' a e)
  then have "n < nat (attemptLimit p e)" by simp
  also have "\<dots> \<le> attempt_bound p" by (rule attemptLimit_le_bound)
  finally show ?case by simp
qed

declare retryDo.simps [simp del]

definition callDo :: "RetryPolicy \<Rightarrow> int \<Rightarrow> (nat \<Rightarrow> attempt) \<Rightarrow> ('s \<Rightarrow> 'a result \<times> 's) \<Rightarrow> 's \<Rightarrow> 'a result \<times> 's" where
  "callDo p timeout env fn s = retryDo p timeout env fn 1 s"

text \<open>The state before attempt \<open>k\<close> of a call whose attempt \<open>n\<close> starts in \<open>s\<close>.\<close>

definition stateAt :: "('s \<Rightarrow> 'a result \<times> 's) \<Rightarrow> nat \<Rightarrow> 's \<Rightarrow> nat \<Rightarrow> 's" where
  "stateAt fn n s k = ((\<lambda>s. snd (fn s)) ^^ (k - n)) s"

definition observed :: "(nat \<Rightarrow> attempt) \<Rightarrow> ('s \<Rightarrow> 'a result \<times> 's) \<Rightarrow> nat \<Rightarrow> 's \<Rightarrow> nat \<Rightarrow> attempt" where
  "observed env fn n s k = (env k)\<lparr>fn_err := errorOf (fst (fn (stateAt fn n s k)))\<rparr>"

lemma stateAt_Suc: "n < k \<Longrightarrow> stateAt fn n s k = stateAt fn (Suc n) (snd (fn s)) k"
  unfolding stateAt_def by (metis (no_types, lifting) Suc_diff_Suc comp_apply funpow_Suc_right)

text \<open>The loop only looks at attempts from \<open>n\<close> on.\<close>

lemma Do_cong: "(\<And>k. n \<le> k \<Longrightarrow> env k = env' k) \<Longrightarrow> Do p timeout env n ws = Do p timeout env' n ws"
proof (induction p timeout env n ws rule: Do.induct)
  case (1 p timeout env n ws)
  have n: "env n = env' n" using "1.prems" by simp
  show ?case
    by (subst (1 2) Do.simps, unfold n Let_def)
      (auto split: option.splits simp: n intro!: "1.IH" [unfolded n] "1.prems")
qed

lemma retryDo_refines:
  "errorOf (fst (retryDo p timeout env fn n s)) = do_err (Do p timeout (observed env fn n s) n ws)"
proof (induction p timeout env fn n s arbitrary: ws rule: retryDo.induct)
  case (1 p timeout env fn n s)
  obtain r s' where f: "fn s = (r, s')" by fastforce
  have here: "observed env fn n s n = (env n)\<lparr>fn_err := errorOf r\<rparr>" by (simp add: observed_def stateAt_def f)
  have later: "Do p timeout (observed env fn n s) (Suc n) w = Do p timeout (observed env fn (Suc n) s') (Suc n) w" for w
    by (rule Do_cong) (simp add: observed_def stateAt_Suc f)
  have none: "runAttempt timeout ((env n)\<lparr>fn_err := errorOf r\<rparr>) = None \<longleftrightarrow> errorOf r = None"
    by (auto simp: runAttempt_def split: option.splits if_splits)
  let ?a = "(env n)\<lparr>fn_err := errorOf r\<rparr>"
  show ?case
  proof (cases "runAttempt timeout ?a")
    case None
    then show ?thesis by (subst retryDo.simps, subst Do.simps, unfold here f Let_def prod.case None option.case) (use None none in simp)
  next
    case (Some e)
    have IH: "errorOf (fst (retryDo p timeout env fn (Suc n) s')) = do_err (Do p timeout (observed env fn (Suc n) s') (Suc n) w)"
      if "do_ctx ?a = None" "\<not> (isPermanent e \<or> (\<not> errIs e ErrAttemptTimeout \<and> \<not> IsRetryable (Some e)))"
        "\<not> nat (attemptLimit p e) \<le> n" "wait_ctx ?a = None" for w
      using "1.IH" [OF f [symmetric] refl Some that] .
    show ?thesis
      by (subst retryDo.simps, subst Do.simps, unfold here f Let_def prod.case Some option.case)
        (auto split: option.splits simp: later IH)
  qed
qed

text \<open>The call ends with an attempt, from a state that failed attempts lead to.\<close>

inductive failures :: "('s \<Rightarrow> 'a result \<times> 's) \<Rightarrow> 's \<Rightarrow> 's \<Rightarrow> bool" for fn where
  start: "failures fn s s"
| again: "failures fn s s1 \<Longrightarrow> fn s1 = (Inl e, s2) \<Longrightarrow> failures fn s s2"

lemma failures_first: "fn s = (Inl e, s1) \<Longrightarrow> failures fn s1 s2 \<Longrightarrow> failures fn s s2"
  by (rotate_tac, induction rule: failures.induct) (auto intro: failures.intros)

text \<open>The errors a call wraps around the error of its last attempt.\<close>

definition wrapped :: "err \<Rightarrow> err \<Rightarrow> bool" where
  "wrapped e e' \<longleftrightarrow> (\<forall>t. errIs e t \<longrightarrow> errIs e' t) \<and> (\<forall>t. errIs e' t \<longrightarrow> errIs e t \<or> t \<in> {Canceled, DeadlineExceeded, ErrAttemptTimeout})"

definition ctx_ok :: "(nat \<Rightarrow> attempt) \<Rightarrow> bool" where
  "ctx_ok env \<longleftrightarrow> (\<forall>k. do_ctx (env k) \<in> {None, Some Canceled, Some DeadlineExceeded} \<and> wait_ctx (env k) \<in> {None, Some Canceled, Some DeadlineExceeded})"

lemma runAttempt_wrapped: "runAttempt timeout (a\<lparr>fn_err := Some e\<rparr>) = Some e' \<Longrightarrow> wrapped e e'"
  by (auto simp: runAttempt_def wrapped_def split: if_splits)

lemma wrapped_trans: "wrapped e e' \<Longrightarrow> wrapped e' e'' \<Longrightarrow> wrapped e e''"
  unfolding wrapped_def by blast

lemma retryDo_elim:
  assumes "retryDo p timeout env fn n s = (r, s')" and "ctx_ok env"
  obtains (succeeded) s1 v where "failures fn s s1" "fn s1 = (Inr v, s')" "r = Inr v"
    | (failed) s1 e e' where "failures fn s s1" "fn s1 = (Inl e, s')" "r = Inl e'" "wrapped e e'"
proof -
  have "\<exists>s1. failures fn s s1 \<and> (\<exists>r1. fn s1 = (r1, s') \<and> (case r1 of Inr v \<Rightarrow> r = Inr v | Inl e \<Rightarrow> \<exists>e'. r = Inl e' \<and> wrapped e e'))"
    using assms
  proof (induction p timeout env fn n s arbitrary: r rule: retryDo.induct)
    case (1 p timeout env fn n s)
    obtain r1 s1 where f: "fn s = (r1, s1)" by fastforce
    let ?a = "(env n)\<lparr>fn_err := errorOf r1\<rparr>"
    show ?case
    proof (cases r1)
      case (Inr v)
      then have "runAttempt timeout ?a = None" by (simp add: runAttempt_def)
      then have "r = Inr v" "s' = s1" using "1.prems"(1) by (subst (asm) retryDo.simps, simp add: f Inr)+
      then show ?thesis using f Inr by (intro exI [of _ s]) (auto intro: failures.start)
    next
      case (Inl e)
      obtain e1 where e1: "runAttempt timeout ?a = Some e1" "wrapped e e1"
        using runAttempt_wrapped [where timeout = timeout and e = e and a = "env n"] by (cases "runAttempt timeout ?a") (auto simp: runAttempt_def Inl split: if_splits)
      have w1: "wrapped e1 (Errorf [e1])" by (simp add: wrapped_def)
      have w2: "wrapped e1 (Errorf [Sentinel ce, e1])" if "do_ctx (env n) = Some ce \<or> wait_ctx (env n) = Some ce" for ce
      proof -
        have "do_ctx (env n) \<in> {None, Some Canceled, Some DeadlineExceeded}" "wait_ctx (env n) \<in> {None, Some Canceled, Some DeadlineExceeded}"
          using "1.prems"(2) unfolding ctx_ok_def by blast+
        then have "ce \<in> {Canceled, DeadlineExceeded}" using that by auto
        then show ?thesis by (auto simp: wrapped_def)
      qed
      consider (stop) e2 where "r = Inl e2" "s' = s1" "wrapped e1 e2"
        | (again) "do_ctx ?a = None" "\<not> (isPermanent e1 \<or> (\<not> errIs e1 ErrAttemptTimeout \<and> \<not> IsRetryable (Some e1)))"
            "\<not> nat (attemptLimit p e1) \<le> n" "wait_ctx ?a = None" "retryDo p timeout env fn (Suc n) s1 = (r, s')"
        using "1.prems"(1) w1 w2 by (subst (asm) (1) retryDo.simps) (auto simp: f e1(1) Let_def split: option.splits if_splits)
      then show ?thesis
      proof cases
        case stop
        with f Inl wrapped_trans [OF e1(2) stop(3)] show ?thesis by (intro exI [of _ s]) (auto intro: failures.start)
      next
        case again
        from "1.IH" [OF f [symmetric] refl e1(1) again(1-5) "1.prems"(2)] f Inl show ?thesis by (blast intro: failures_first)
      qed
    qed
  qed
  then obtain s1 r1 where "failures fn s s1" "fn s1 = (r1, s')" "case r1 of Inr v \<Rightarrow> r = Inr v | Inl e \<Rightarrow> \<exists>e'. r = Inl e' \<and> wrapped e e'"
    by blast
  with that show ?thesis by (cases r1) auto
qed

lemma callDo_first: "fn s = (Inr v, s') \<Longrightarrow> callDo p timeout env fn s = (Inr v, s')"
  unfolding callDo_def by (subst retryDo.simps) (simp add: runAttempt_def Let_def)

lemma failures_keep:
  "failures fn s s1 \<Longrightarrow> P s \<Longrightarrow> (\<And>s1 e s2. P s1 \<Longrightarrow> fn s1 = (Inl e, s2) \<Longrightarrow> P s2) \<Longrightarrow> P s1"
  by (induction rule: failures.induct) auto

text \<open>What failed attempts preserve holds before the attempt that decides the call.\<close>

lemma callDo_elim:
  assumes "callDo p timeout env fn s = (r, s')" and "ctx_ok env" and "P s"
    and "\<And>s1 e s2. P s1 \<Longrightarrow> fn s1 = (Inl e, s2) \<Longrightarrow> P s2"
  obtains (succeeded) s1 v where "P s1" "fn s1 = (Inr v, s')" "r = Inr v"
    | (failed) s1 e e' where "P s1" "fn s1 = (Inl e, s')" "r = Inl e'" "wrapped e e'"
  using assms(1) [unfolded callDo_def] assms(2)
proof (cases rule: retryDo_elim)
  case (succeeded s1 v)
  have "P s1" by (rule failures_keep [OF succeeded(1), of P]) (fact assms(3), rule assms(4))
  then show ?thesis using that(1) succeeded by blast
next
  case (failed s1 e e')
  have "P s1" by (rule failures_keep [OF failed(1), of P]) (fact assms(3), rule assms(4))
  then show ?thesis using that(2) failed by blast
qed

text \<open>
  What every attempt does from a state in \<open>P\<close>, the call does: it ends in \<open>P\<close>, with a result in \<open>Q\<close>, when \<open>Q\<close>
  allows for the errors a call wraps around the last one.
\<close>

lemma callDo_spec:
  assumes "callDo p timeout env fn s = (r, s')" and "ctx_ok env" and "P s"
    and "\<And>t r s'. fn t = (r, s') \<Longrightarrow> P t \<Longrightarrow> P s' \<and> Q r s'"
    and "\<And>e e' s'. Q (Inl e) s' \<Longrightarrow> wrapped e e' \<Longrightarrow> Q (Inl e') s'"
  shows "P s' \<and> Q r s'"
  using assms(1-3)
proof (rule callDo_elim)
  fix s1 e s2 assume "P s1" "fn s1 = (Inl e, s2)"
  with assms(4) show "P s2" by blast
next
  fix s1 v assume "P s1" "fn s1 = (Inr v, s')" "r = Inr v"
  with assms(4) show ?thesis by blast
next
  fix s1 e e' assume "P s1" "fn s1 = (Inl e, s')" "r = Inl e'" "wrapped e e'"
  with assms(4) [of s1 "Inl e" s'] assms(5) [of e s' e'] show ?thesis by blast
qed

end
