(* ===== verification/NetText.thy ===== *)
theory NetText
  imports Prelude
begin

text \<open>
  The text functions of Go's standard library that the provider clients use: trimming and cutting
  strings, decimal parsing (\<open>strconv.ParseInt\<close>), URL escaping (\<open>url.PathEscape\<close>, \<open>url.QueryEscape\<close>,
  \<open>url.Values.Encode\<close>) and canonical header names. Beside them the decoding that a server applies
  (RFC 3986, form encoding), and the round trips between the two.
\<close>

section \<open>Trimming and cutting\<close>

text \<open>\<open>strings.Trim(s, cutset)\<close> for a cutset of one byte.\<close>

definition TrimByte :: "char \<Rightarrow> string \<Rightarrow> string" where
  "TrimByte c s = rev (dropWhile (\<lambda>x. x = c) (rev (dropWhile (\<lambda>x. x = c) s)))"

lemma TrimByte_id: "s = [] \<or> hd s \<noteq> c \<and> last s \<noteq> c \<Longrightarrow> TrimByte c s = s"
proof -
  have keep: "t = [] \<or> hd t \<noteq> c \<Longrightarrow> dropWhile (\<lambda>x. x = c) t = t" for t by (cases t) auto
  assume "s = [] \<or> hd s \<noteq> c \<and> last s \<noteq> c"
  then show ?thesis using keep [of s] keep [of "rev s"] by (auto simp: TrimByte_def hd_rev)
qed

text \<open>\<open>strings.Cut(s, sep)\<close> for a one-byte separator: the text before and after it, and whether it occurs.\<close>

definition Cut :: "char \<Rightarrow> string \<Rightarrow> string \<times> string \<times> bool" where
  "Cut c s = (if c \<in> set s then (takeWhile (\<lambda>x. x \<noteq> c) s, tl (dropWhile (\<lambda>x. x \<noteq> c) s), True) else (s, [], False))"

lemma Cut_sep [go_string_simps]: "c \<notin> set s \<Longrightarrow> Cut c (s @ c # t) = (s, t, True)"
  by (induction s) (auto simp: Cut_def)

lemma Cut_no_sep [go_string_simps]: "c \<notin> set s \<Longrightarrow> Cut c s = (s, [], False)"
  by (simp add: Cut_def)

text \<open>
  \<open>strings.TrimSpace\<close> removes the code points of \<open>unicode.IsSpace\<close> at both ends. A string is its UTF-8
  bytes, so a space is one of these encodings; no encoding is a proper suffix or prefix of another.
\<close>

definition bytesOf :: "nat list \<Rightarrow> string" where
  "bytesOf ns = map char_of ns"

definition spaces :: "string list" where
  "spaces = map bytesOf ([[9], [10], [11], [12], [13], [32], [194, 133], [194, 160], [225, 154, 128]] @
     map (\<lambda>i. [226, 128, i]) [128..<139] @ [[226, 128, 168], [226, 128, 169], [226, 128, 175], [226, 129, 159], [227, 128, 128]])"

function stripAny :: "string list \<Rightarrow> string \<Rightarrow> string" where
  "stripAny encs s = (case find (\<lambda>e. e \<noteq> [] \<and> HasPrefix s e) encs of None \<Rightarrow> s | Some e \<Rightarrow> stripAny encs (drop (length e) s))"
  by pat_completeness auto
termination
proof (relation "measure (\<lambda>(encs, s). length s)", goal_cases)
  case 1
  show ?case by simp
next
  case (2 encs s e)
  then have "e \<noteq> []" "HasPrefix s e" by (auto simp: find_Some_iff)
  then show ?case by (auto simp: HasPrefix_iff)
qed

declare stripAny.simps [simp del]

definition TrimSpace :: "string \<Rightarrow> string" where
  "TrimSpace s = rev (stripAny (map rev spaces) (rev (stripAny spaces s)))"

lemma stripAny_id: "(\<And>e. e \<in> set encs \<Longrightarrow> \<not> HasPrefix s e) \<Longrightarrow> stripAny encs s = s"
  by (subst stripAny.simps) (auto split: option.splits simp: find_Some_iff)

lemma stripAny_suffix: "\<exists>p. s = p @ stripAny encs s"
proof (induction encs s rule: stripAny.induct)
  case (1 encs s)
  show ?case
  proof (cases "find (\<lambda>e. e \<noteq> [] \<and> HasPrefix s e) encs")
    case None
    then show ?thesis by (subst stripAny.simps) simp
  next
    case (Some e)
    then obtain t where t: "s = e @ t" by (auto simp: find_Some_iff HasPrefix_iff)
    with "1.IH" [OF Some] obtain p where "t = p @ stripAny encs t" by auto
    with t Some have "s = (e @ p) @ stripAny encs s" by (subst stripAny.simps) simp
    then show ?thesis by blast
  qed
qed

lemma stripAny_done: "e \<in> set encs \<Longrightarrow> e \<noteq> [] \<Longrightarrow> \<not> HasPrefix (stripAny encs s) e"
proof (induction encs s rule: stripAny.induct)
  case (1 encs s)
  then show ?case
    by (subst stripAny.simps) (auto split: option.splits simp: find_None_iff)
qed

text \<open>Printable ASCII text without blanks is not touched.\<close>

definition is_graph :: "char \<Rightarrow> bool" where
  "is_graph c \<longleftrightarrow> 32 < (of_char c :: nat) \<and> (of_char c :: nat) < 127"

lemma spaces_not_graph: "e \<in> set spaces \<Longrightarrow> e \<noteq> [] \<and> list_all (\<lambda>c. \<not> is_graph c) e"
  by (auto simp: spaces_def bytesOf_def is_graph_def upt_rec)

lemma TrimSpace_id:
  assumes "s = [] \<or> is_graph (hd s) \<and> is_graph (last s)"
  shows "TrimSpace s = s"
proof -
  have keep: "\<not> HasPrefix t e" if "t = [] \<or> is_graph (hd t)" "e \<noteq> []" "list_all (\<lambda>c. \<not> is_graph c) e" for t e
    using that by (cases e) (auto simp: HasPrefix_iff)
  have "stripAny spaces s = s"
    by (rule stripAny_id, rule keep) (use assms spaces_not_graph in auto)
  moreover have "stripAny (map rev spaces) (rev s) = rev s"
    by (rule stripAny_id, rule keep) (use assms spaces_not_graph in \<open>auto simp: hd_rev list_all_iff\<close>)
  ultimately show ?thesis by (simp add: TrimSpace_def)
qed

section \<open>Decimal numbers\<close>

fun decDigits :: "nat \<Rightarrow> string \<Rightarrow> nat option" where
  "decDigits acc [] = Some acc"
| "decDigits acc (c # cs) = (if is_dec_digit c then decDigits (acc * 10 + (of_char c - 48)) cs else None)"

text \<open>An optional sign and at least one digit; \<open>strconv.ParseInt(s, 10, 64)\<close> also checks the range.\<close>

definition parseDec :: "string \<Rightarrow> int option" where
  "parseDec s =
     (let (neg, ds) = (case s of [] \<Rightarrow> (False, []) | c # cs \<Rightarrow>
            if c = CHR ''-'' then (True, cs) else if c = CHR ''+'' then (False, cs) else (False, s))
      in if ds = [] then None else map_option (\<lambda>n. if neg then - int n else int n) (decDigits 0 ds))"

definition ParseInt :: "string \<Rightarrow> int option" where
  "ParseInt s = (case parseDec s of None \<Rightarrow> None | Some n \<Rightarrow> if is_int64 n then Some n else None)"

lemma decDigits_append: "decDigits acc (xs @ ys) = (case decDigits acc xs of None \<Rightarrow> None | Some a \<Rightarrow> decDigits a ys)"
  by (induction acc xs rule: decDigits.induct) auto

lemma decDigits_FormatNat: "decDigits 0 (FormatNat n) = Some n"
proof (induction n rule: FormatNat.induct)
  case (1 n)
  show ?case
  proof (cases "n < 10")
    case True
    then show ?thesis by (simp add: FormatNat.simps [of n] of_char_digit_char)
  next
    case False
    then show ?thesis
      using "1.IH" by (simp add: FormatNat.simps [of n] decDigits_append of_char_digit_char)
  qed
qed

lemma FormatNat_hd: "\<exists>c cs. FormatNat n = c # cs \<and> c \<noteq> CHR ''-'' \<and> c \<noteq> CHR ''+''"
proof -
  obtain c cs where c: "FormatNat n = c # cs" by (cases "FormatNat n") auto
  then have "is_dec_digit c" using FormatNat_digits [of c n] by simp
  then show ?thesis using c by (auto simp: is_dec_digit_def less_eq_char_def)
qed

lemma parseDec_FormatInt: "parseDec (FormatInt i) = Some i"
proof (cases "i < 0")
  case True
  then show ?thesis by (simp add: FormatInt_def parseDec_def decDigits_FormatNat)
next
  case False
  obtain c cs where "FormatNat (nat i) = c # cs" "c \<noteq> CHR ''-''" "c \<noteq> CHR ''+''" using FormatNat_hd by blast
  with decDigits_FormatNat [of "nat i"] False show ?thesis by (simp add: FormatInt_def parseDec_def)
qed

lemma ParseInt_FormatInt: "is_int64 i \<Longrightarrow> ParseInt (FormatInt i) = Some i"
  by (simp add: ParseInt_def parseDec_FormatInt)

lemma FormatInt_graph: "c \<in> set (FormatInt i) \<Longrightarrow> is_graph c"
  using FormatNat_digits
  by (auto simp: FormatInt_def is_graph_def is_dec_digit_def less_eq_char_def split: if_splits) fastforce+

lemma TrimSpace_FormatInt [simp]: "TrimSpace (FormatInt i) = FormatInt i"
  by (rule TrimSpace_id) (metis FormatInt_graph FormatInt_nonempty hd_in_set last_in_set)

section \<open>URL escaping\<close>

definition is_alnum :: "char \<Rightarrow> bool" where
  "is_alnum c \<longleftrightarrow> (CHR ''a'' \<le> c \<and> c \<le> CHR ''z'') \<or> (CHR ''A'' \<le> c \<and> c \<le> CHR ''Z'') \<or> (CHR ''0'' \<le> c \<and> c \<le> CHR ''9'')"

definition hexUp :: "nat \<Rightarrow> char" where
  "hexUp d = char_of (if d < 10 then 48 + d else 55 + d)"

definition pctByte :: "char \<Rightarrow> string" where
  "pctByte c = [CHR ''%'', hexUp (of_char c div 16), hexUp (of_char c mod 16)]"

text \<open>The bytes that \<open>shouldEscape\<close> lets through in a path segment and in a query component.\<close>

definition pathSafe :: "char \<Rightarrow> bool" where
  "pathSafe c \<longleftrightarrow> is_alnum c \<or> c \<in> set ''-_.~$&+:=@''"

definition querySafe :: "char \<Rightarrow> bool" where
  "querySafe c \<longleftrightarrow> is_alnum c \<or> c \<in> set ''-_.~''"

definition PathEscape :: "string \<Rightarrow> string" where
  "PathEscape s = concat (map (\<lambda>c. if pathSafe c then [c] else pctByte c) s)"

definition QueryEscape :: "string \<Rightarrow> string" where
  "QueryEscape s = concat (map (\<lambda>c. if c = CHR '' '' then ''+'' else if querySafe c then [c] else pctByte c) s)"

text \<open>\<open>url.Values.Encode\<close> for values set once per key.\<close>

definition encodePair :: "string \<times> string \<Rightarrow> string" where
  "encodePair kv = QueryEscape (fst kv) @ ''='' @ QueryEscape (snd kv)"

definition valuesEncode :: "(string, string) gomap \<Rightarrow> string" where
  "valuesEncode q = Join (map encodePair (sort_key fst q)) ''&''"

text \<open>What a server makes of it: percent decoding, with \<open>+\<close> for a blank in queries.\<close>

definition unhex :: "char \<Rightarrow> nat option" where
  "unhex c = (let n = of_char c in
     if 48 \<le> n \<and> n \<le> 57 then Some (n - 48) else if 65 \<le> n \<and> n \<le> 70 then Some (n - 55)
     else if 97 \<le> n \<and> n \<le> 102 then Some (n - 87) else None)"

fun pctDecode :: "bool \<Rightarrow> string \<Rightarrow> string option" where
  "pctDecode form [] = Some []"
| "pctDecode form (c # cs) =
     (if c = CHR ''%'' then
        (case cs of a # b # ds \<Rightarrow> (case (unhex a, unhex b) of
             (Some x, Some y) \<Rightarrow> map_option (Cons (char_of (16 * x + y))) (pctDecode form ds)
           | _ \<Rightarrow> None)
         | _ \<Rightarrow> None)
      else map_option (Cons (if form \<and> c = CHR ''+'' then CHR '' '' else c)) (pctDecode form cs))"

fun decodeAll :: "bool \<Rightarrow> string list \<Rightarrow> string list option" where
  "decodeAll form [] = Some []"
| "decodeAll form (x # xs) = (case (pctDecode form x, decodeAll form xs) of (Some y, Some ys) \<Rightarrow> Some (y # ys) | _ \<Rightarrow> None)"

definition decodePair :: "string \<Rightarrow> (string \<times> string) option" where
  "decodePair p = (case Cut CHR ''='' p of (k, v, _) \<Rightarrow>
     (case (pctDecode True k, pctDecode True v) of (Some k', Some v') \<Rightarrow> Some (k', v') | _ \<Rightarrow> None))"

fun decodePairs :: "string list \<Rightarrow> (string \<times> string) list option" where
  "decodePairs [] = Some []"
| "decodePairs (p # ps) =
     (if p = [] then decodePairs ps
      else case (decodePair p, decodePairs ps) of (Some x, Some xs) \<Rightarrow> Some (x # xs) | _ \<Rightarrow> None)"

definition parseQuery :: "string \<Rightarrow> (string \<times> string) list option" where
  "parseQuery q = decodePairs (Split CHR ''&'' q)"

lemma unhex_hexUp: "d < 16 \<Longrightarrow> unhex (hexUp d) = Some d"
  by (simp add: unhex_def hexUp_def Let_def)

lemma of_char_lt: "(of_char c :: nat) < 256"
  by (metis char_of_nat of_char_of mod_less_divisor zero_less_numeral nat_of_char_less_256)

lemma of_char_div: "(of_char c :: nat) div 16 < 16"
  by (rule less_mult_imp_div_less) (simp add: of_char_lt)

lemma pctDecode_pct: "pctDecode form (pctByte c @ s) = map_option (Cons c) (pctDecode form s)"
proof -
  have "pctDecode form (pctByte c @ s) = map_option (Cons (char_of (16 * (of_char c div 16) + of_char c mod 16 :: nat))) (pctDecode form s)"
    by (simp add: pctByte_def unhex_hexUp of_char_div)
  then show ?thesis by simp
qed

lemma safe_not [simp]: "\<not> pathSafe CHR ''%''" "\<not> pathSafe CHR ''/''" "\<not> pathSafe CHR ''?''" "\<not> querySafe CHR ''%''"
  "\<not> querySafe CHR ''+''" "\<not> querySafe CHR ''&''" "\<not> querySafe CHR ''=''" "\<not> querySafe CHR '' ''"
  by (simp_all add: pathSafe_def querySafe_def is_alnum_def less_eq_char_def)

lemma pctDecode_PathEscape [simp]: "pctDecode False (PathEscape s) = Some s"
  by (induction s) (auto simp: PathEscape_def pctDecode_pct)

lemma pctDecode_QueryEscape [simp]: "pctDecode True (QueryEscape s) = Some s"
  by (induction s) (auto simp: QueryEscape_def pctDecode_pct)

lemma is_alnum_hexUp: "d < 16 \<Longrightarrow> is_alnum (hexUp d)"
  by (auto simp: is_alnum_def hexUp_def less_eq_char_def)

lemma set_pctByte: "x \<in> set (pctByte c) \<Longrightarrow> x = CHR ''%'' \<or> is_alnum x"
  using is_alnum_hexUp [OF of_char_div [of c]] is_alnum_hexUp [of "of_char c mod 16"]
  by (auto simp: pctByte_def)

lemma PathEscape_chars: "x \<in> set (PathEscape s) \<Longrightarrow> x = CHR ''%'' \<or> pathSafe x"
  by (induction s) (auto simp: PathEscape_def pathSafe_def split: if_splits dest!: set_pctByte)

lemma QueryEscape_chars: "x \<in> set (QueryEscape s) \<Longrightarrow> x = CHR ''%'' \<or> x = CHR ''+'' \<or> querySafe x"
  by (induction s) (auto simp: QueryEscape_def querySafe_def split: if_splits dest!: set_pctByte)

lemma PathEscape_free [simp]: "CHR ''/'' \<notin> set (PathEscape s)" "CHR ''?'' \<notin> set (PathEscape s)"
  by (auto dest: PathEscape_chars)

lemma QueryEscape_free [simp]: "CHR ''&'' \<notin> set (QueryEscape s)" "CHR ''='' \<notin> set (QueryEscape s)"
  by (auto dest: QueryEscape_chars)

lemma decodeAll_PathEscape: "decodeAll False (map PathEscape xs) = Some xs"
  by (induction xs) auto

lemma decodePair_encodePair: "decodePair (encodePair kv) = Some kv"
  using Cut_sep [of "CHR ''=''" "QueryEscape (fst kv)" "QueryEscape (snd kv)"]
  by (simp add: decodePair_def encodePair_def)

lemma decodePairs_encodePair: "decodePairs (map encodePair q) = Some q"
  by (induction q) (auto simp: decodePair_encodePair, simp add: encodePair_def)

lemma parseQuery_valuesEncode: "parseQuery (valuesEncode q) = Some (sort_key fst q)"
proof (cases "q = []")
  case True
  then show ?thesis by (simp add: parseQuery_def valuesEncode_def)
next
  case False
  then have "sort_key fst q \<noteq> []" by (metis length_0_conv length_sort)
  then have "Split CHR ''&'' (valuesEncode q) = map encodePair (sort_key fst q)"
    unfolding valuesEncode_def by (intro Split_Join) (auto simp: encodePair_def)
  then show ?thesis by (simp add: parseQuery_def decodePairs_encodePair)
qed

section \<open>Header names\<close>

text \<open>\<open>isToken\<close> (\<open>src/storage_clients/http/http.go\<close>), with the bytes it admits.\<close>

definition isTokenByte :: "char \<Rightarrow> bool" where
  "isTokenByte c \<longleftrightarrow> is_alnum c \<or> c \<in> set ''!#$%&'' \<or> of_char c = (39 :: nat) \<or> c \<in> set ''*+-.^_`|~''"

definition isToken :: "string \<Rightarrow> bool" where
  "isToken s \<longleftrightarrow> s \<noteq> [] \<and> list_all isTokenByte s"

text \<open>\<open>http.CanonicalHeaderKey\<close>: a name that is not a token is left alone.\<close>

definition upperByte :: "char \<Rightarrow> char" where
  "upperByte c = (if CHR ''a'' \<le> c \<and> c \<le> CHR ''z'' then char_of (of_char c - 32 :: nat) else c)"

definition lowerByte :: "char \<Rightarrow> char" where
  "lowerByte c = (if CHR ''A'' \<le> c \<and> c \<le> CHR ''Z'' then char_of (of_char c + 32 :: nat) else c)"

fun canonBytes :: "bool \<Rightarrow> string \<Rightarrow> string" where
  "canonBytes up [] = []"
| "canonBytes up (c # cs) = (if up then upperByte c else lowerByte c) # canonBytes (c = CHR ''-'') cs"

definition CanonicalHeaderKey :: "string \<Rightarrow> string" where
  "CanonicalHeaderKey s = (if list_all isTokenByte s then canonBytes True s else s)"

text \<open>The text between a prefix and the last byte, as \<open>s[len(pre) : len(s)-1]\<close>.\<close>

definition inBrackets :: "string \<Rightarrow> string \<Rightarrow> string" where
  "inBrackets pre s = drop (length pre) (take (length s - 1) s)"

lemma inBrackets_append: "inBrackets pre (pre @ s @ [c]) = s"
  by (simp add: inBrackets_def)

end
