(* ===== verification/Http.thy ===== *)
theory Http
  imports RetryCall NetText
begin

text \<open>
  The S3-compatible REST client of \<open>src/storage_clients/http/http.go\<close>: header options, URLs, requests and
  the operations of \<open>ObjectStorageClient\<close>, each run by the retry layer. Parameters are the network
  (\<open>http.Client.Do\<close>, a function on the state of the world), \<open>url.Parse\<close> inside \<open>http.NewRequest\<close>, the XML
  codec of \<open>encoding/xml\<close> on the four documents, and what the retry layer observes of contexts and jitter.
\<close>

section \<open>Header options\<close>

text \<open>One comma-separated segment; the state is \<open>lastKey\<close> and the headers read so far.\<close>

definition headerSegment :: "string \<Rightarrow> string \<times> (string, string) gomap \<Rightarrow> (string \<times> (string, string) gomap) result" where
  "headerSegment seg st =
     (case (st, Cut CHR '':'' seg) of ((lastKey, headers), (k, v, ok)) \<Rightarrow>
        if ok \<and> isToken (TrimSpace k) then
          (let key = CanonicalHeaderKey (TrimSpace k) in Inr (key, gm_put key (TrimSpace v) headers))
        else if lastKey = [] then
          (if TrimSpace seg = [] then Inr (lastKey, headers) else Inl (Errorf [Sentinel ErrInvalidConfig]))
        else
          (let old = (case gm_get headers lastKey of None \<Rightarrow> [] | Some x \<Rightarrow> x)
           in Inr (lastKey, gm_put lastKey (TrimSpace (old @ '','' @ seg)) headers)))"

fun headerSegments :: "string list \<Rightarrow> string \<times> (string, string) gomap \<Rightarrow> (string, string) gomap result" where
  "headerSegments [] st = Inr (snd st)"
| "headerSegments (seg # segs) st = (case headerSegment seg st of Inl e \<Rightarrow> Inl e | Inr st' \<Rightarrow> headerSegments segs st')"

definition parseHeaderAuth :: "string \<Rightarrow> (string, string) gomap result" where
  "parseHeaderAuth authType =
     (let authType = TrimSpace authType in
      if \<not> HasPrefix authType ''HEADER['' \<or> \<not> HasSuffix authType '']'' then Inr []
      else headerSegments (Split CHR '','' (take (length authType - 8) (drop 7 authType))) ([], []))"

section \<open>Requests\<close>

record request =
  rq_Method :: string
  rq_URL :: string
  rq_Header :: "(string, string) gomap"
  rq_Body :: bytes

record response =
  rp_StatusCode :: int
  rp_Header :: "(string, string) gomap"
  rp_Body :: reader

record listedObject =
  lo_Key :: string
  lo_Size :: int

record ListBucketResult =
  lb_Contents :: "listedObject list"
  lb_IsTruncated :: bool
  lb_NextContinuationToken :: string
  lb_NextMarker :: string

text \<open>The \<open><Error>\<close> document, by its \<open>Code\<close>; a completed part is its number and tag.\<close>

type_synonym s3Error = string
type_synonym CompleteMultipartPart = "int \<times> string"

text \<open>
  What the client takes from elsewhere: the error of \<open>url.Parse\<close>, the XML codec, the environment of the
  attempts of a call (\<open>fn_err\<close> is ignored), and the number of pages that stands for a listing that never ends.
\<close>

record 's httpEnv =
  he_parseURL :: "string \<Rightarrow> err option"
  he_xmlList :: "bytes \<Rightarrow> ListBucketResult result"
  he_xmlInitiate :: "bytes \<Rightarrow> string result"
  he_xmlError :: "bytes \<Rightarrow> s3Error result"
  he_xmlComplete :: "CompleteMultipartPart list \<Rightarrow> bytes result"
  he_attempts :: "ctx \<Rightarrow> 's \<Rightarrow> nat \<Rightarrow> attempt"
  he_pages :: nat

record 's HTTPStorageClient =
  hc_endpoint :: string
  hc_headers :: "(string, string) gomap"
  hc_client :: "ctx \<Rightarrow> request \<Rightarrow> 's \<Rightarrow> response result \<times> 's"
  hc_retry :: RetryPolicy

definition NewHTTPStorageClient ::
  "(ctx \<Rightarrow> request \<Rightarrow> 's \<Rightarrow> response result \<times> 's) \<Rightarrow> string \<Rightarrow> (string, string) gomap \<Rightarrow> 's HTTPStorageClient" where
  "NewHTTPStorageClient client endpoint headers =
     \<lparr>hc_endpoint = endpoint, hc_headers = headers, hc_client = client, hc_retry = DefaultRetryPolicy\<rparr>"

definition newClient ::
  "(ctx \<Rightarrow> request \<Rightarrow> 's \<Rightarrow> response result \<times> 's) \<Rightarrow> string \<Rightarrow> string \<Rightarrow> 's HTTPStorageClient result" where
  "newClient client authType namespace =
     (case parseHeaderAuth authType of Inl e \<Rightarrow> Inl e | Inr headers \<Rightarrow> Inr (NewHTTPStorageClient client namespace headers))"

definition MetadataAttemptTimeout :: int where "MetadataAttemptTimeout = 120 * Second"
definition CompleteAttemptTimeout :: int where "CompleteAttemptTimeout = 600 * Second"

definition appendEscapedPath :: "string \<Rightarrow> string \<Rightarrow> string" where
  "appendEscapedPath b p = b @ concat (map (\<lambda>seg. CHR ''/'' # PathEscape seg) (Split CHR ''/'' (TrimByte CHR ''/'' p)))"

definition buildURL :: "string \<Rightarrow> string \<Rightarrow> string \<Rightarrow> string \<Rightarrow> string" where
  "buildURL endpoint bucket key query =
     (let b = TrimSuffix endpoint ''/'';
          b = (if TrimByte CHR ''/'' bucket \<noteq> [] then appendEscapedPath b bucket else b);
          b = (if TrimByte CHR ''/'' key \<noteq> [] then appendEscapedPath b key else b)
      in if query \<noteq> [] then b @ ''?'' @ query else b)"

text \<open>\<open>req.Header.Set\<close> for every entry of a map.\<close>

definition setHeaders :: "(string, string) gomap \<Rightarrow> (string, string) gomap \<Rightarrow> (string, string) gomap" where
  "setHeaders hs acc = fold (\<lambda>(k, v). gm_put (CanonicalHeaderKey k) v) hs acc"

definition headerGet :: "(string, string) gomap \<Rightarrow> string \<Rightarrow> string" where
  "headerGet hs k = (case gm_get hs k of None \<Rightarrow> [] | Some v \<Rightarrow> v)"

definition doRequest ::
  "'s httpEnv \<Rightarrow> 's HTTPStorageClient \<Rightarrow> ctx \<Rightarrow> string \<Rightarrow> string \<Rightarrow> bytes \<Rightarrow> (string, string) gomap \<Rightarrow> 's \<Rightarrow> response result \<times> 's" where
  "doRequest E h c mth url body headers s =
     (case he_parseURL E url of
        Some e \<Rightarrow> (Inl (Errorf [Sentinel ErrInvalidConfig, e]), s)
      | None \<Rightarrow> hc_client h c \<lparr>rq_Method = mth, rq_URL = url, rq_Header = setHeaders headers (setHeaders (hc_headers h) []),
          rq_Body = body\<rparr> s)"

definition statusError :: "response \<Rightarrow> bool \<Rightarrow> err" where
  "statusError resp uploadOp =
     (let se = StatusError (rp_StatusCode resp) None 0
      in if uploadOp \<and> rp_StatusCode resp = 404 then Errorf [Sentinel ErrUploadNotFound, se] else se)"

text \<open>A request followed by the reading of its response.\<close>

definition onResponse :: "response result \<times> 's \<Rightarrow> (response \<Rightarrow> 'a result) \<Rightarrow> 'a result \<times> 's" where
  "onResponse r f = (case r of (Inl e, s) \<Rightarrow> (Inl e, s) | (Inr resp, s) \<Rightarrow> (f resp, s))"

text \<open>The call \<open>h.retry.Do\<close> of an operation.\<close>

definition httpDo :: "'s httpEnv \<Rightarrow> 's HTTPStorageClient \<Rightarrow> ctx \<Rightarrow> int \<Rightarrow> ('s \<Rightarrow> 'a result \<times> 's) \<Rightarrow> 's \<Rightarrow> 'a result \<times> 's" where
  "httpDo E h c timeout fn s = callDo (hc_retry h) timeout (he_attempts E c s) fn s"

definition invalidResponse :: err where
  "invalidResponse = Errorf [Sentinel ErrInvalidResponse]"

section \<open>Listing\<close>

definition listQuery :: "string \<Rightarrow> string \<Rightarrow> string \<Rightarrow> string" where
  "listQuery px token marker = valuesEncode (
     [(''list-type'', ''2'')] @ (if px \<noteq> [] then [(''prefix'', px)] else []) @
     (if token \<noteq> [] then [(''continuation-token'', token)] else []) @ (if marker \<noteq> [] then [(''marker'', marker)] else []))"

definition listTry :: "'s httpEnv \<Rightarrow> 's HTTPStorageClient \<Rightarrow> ctx \<Rightarrow> string \<Rightarrow> 's \<Rightarrow> ListBucketResult result \<times> 's" where
  "listTry E h c u s = onResponse (doRequest E h c ''GET'' u [] [] s) (\<lambda>resp.
     if rp_StatusCode resp \<noteq> 200 then Inl (statusError resp False)
     else (case ReadAll (rp_Body resp) of
             Inl e \<Rightarrow> Inl e
           | Inr data \<Rightarrow> (case he_xmlList E data of
               Inl e \<Rightarrow> Inl (PermanentError (Errorf [Sentinel ErrInvalidResponse, e]))
             | Inr page \<Rightarrow> Inr page)))"

text \<open>The marker after a page in V1 form: \<open>NextMarker\<close>, or the last key.\<close>

definition pageMarker :: "ListBucketResult \<Rightarrow> string" where
  "pageMarker page =
     (if lb_NextMarker page = [] \<and> lb_Contents page \<noteq> [] then lo_Key (last (lb_Contents page)) else lb_NextMarker page)"

text \<open>The cursor of the next page, as the \<open>switch\<close> after a truncated page sets it.\<close>

definition nextCursor :: "ListBucketResult \<Rightarrow> string \<Rightarrow> string \<Rightarrow> (string \<times> string) result" where
  "nextCursor page token marker =
     (if lb_NextContinuationToken page \<noteq> [] then
        (if lb_NextContinuationToken page = token then Inl invalidResponse else Inr (lb_NextContinuationToken page, []))
      else
        (let nxt = pageMarker page
         in if nxt = [] \<or> nxt = marker then Inl invalidResponse else Inr ([], nxt)))"

definition objectInfo :: "listedObject \<Rightarrow> ObjectInfo" where
  "objectInfo o' = \<lparr>oi_Name = lo_Key o', oi_Size = lo_Size o'\<rparr>"

fun listLoop ::
  "nat \<Rightarrow> 's httpEnv \<Rightarrow> 's HTTPStorageClient \<Rightarrow> ctx \<Rightarrow> string \<Rightarrow> string \<Rightarrow> string \<Rightarrow> string \<Rightarrow> ObjectInfo list \<Rightarrow> 's \<Rightarrow>
     (ObjectInfo list result \<times> 's) option" where
  "listLoop 0 E h c bucket px token marker objects s = None"
| "listLoop (Suc fuel) E h c bucket px token marker objects s =
     (case httpDo E h c MetadataAttemptTimeout (listTry E h c (buildURL (hc_endpoint h) bucket [] (listQuery px token marker))) s of
        (Inl e, s') \<Rightarrow> Some (Inl e, s')
      | (Inr page, s') \<Rightarrow>
          let objects' = objects @ map objectInfo (lb_Contents page) in
          if \<not> lb_IsTruncated page then Some (Inr objects', s')
          else (case nextCursor page token marker of
                  Inl e \<Rightarrow> Some (Inl e, s')
                | Inr (token', marker') \<Rightarrow> listLoop fuel E h c bucket px token' marker' objects' s'))"

text \<open>A listing that does not end within \<open>he_pages\<close> pages stands for a call that does not return.\<close>

definition listingHangs :: err where "listingHangs = Foreign ''listing did not end''"

definition httpListObjects ::
  "'s httpEnv \<Rightarrow> 's HTTPStorageClient \<Rightarrow> ctx \<Rightarrow> string \<Rightarrow> string \<Rightarrow> 's \<Rightarrow> ObjectInfo list result \<times> 's" where
  "httpListObjects E h c bucket px s =
     (case listLoop (he_pages E) E h c bucket px [] [] [] s of None \<Rightarrow> (Inl listingHangs, s) | Some r \<Rightarrow> r)"

section \<open>Reading\<close>

definition sizeTry :: "'s httpEnv \<Rightarrow> 's HTTPStorageClient \<Rightarrow> ctx \<Rightarrow> string \<Rightarrow> 's \<Rightarrow> int result \<times> 's" where
  "sizeTry E h c u s = onResponse (doRequest E h c ''HEAD'' u [] [] s) (\<lambda>resp.
     if rp_StatusCode resp \<noteq> 200 then Inl (statusError resp False)
     else (let cl = TrimSpace (headerGet (rp_Header resp) ''Content-Length'') in
           if cl = [] then Inl (PermanentError invalidResponse)
           else (case ParseInt cl of
                   None \<Rightarrow> Inl (PermanentError invalidResponse)
                 | Some n \<Rightarrow> if n < 0 then Inl (PermanentError invalidResponse) else Inr n)))"

definition httpGetObjectSize :: "'s httpEnv \<Rightarrow> 's HTTPStorageClient \<Rightarrow> ctx \<Rightarrow> string \<Rightarrow> string \<Rightarrow> 's \<Rightarrow> int result \<times> 's" where
  "httpGetObjectSize E h c bucket key s =
     httpDo E h c MetadataAttemptTimeout (sizeTry E h c (buildURL (hc_endpoint h) bucket key [])) s"

text \<open>\<open>io.CopyN(io.Discard, r, n)\<close>: the rest of the reader, or the error that cut the skip short.\<close>

definition skipBytes :: "int \<Rightarrow> reader \<Rightarrow> reader result" where
  "skipBytes n r = (if int (length (fst r)) < n then Inl (case snd r of None \<Rightarrow> Sentinel EOF | Some e \<Rightarrow> e)
     else Inr (drop (nat n) (fst r), snd r))"

definition rangeHeaders :: "int \<Rightarrow> int \<Rightarrow> (string, string) gomap option" where
  "rangeHeaders startByte endByte =
     (if endByte \<noteq> -1 then Some [(''Range'', ''bytes='' @ FormatInt startByte @ ''-'' @ FormatInt endByte)]
      else if 0 < startByte then Some [(''Range'', ''bytes='' @ FormatInt startByte @ ''-'')] else None)"

definition rangeBody :: "int \<Rightarrow> int \<Rightarrow> bool \<Rightarrow> response \<Rightarrow> reader result" where
  "rangeBody startByte endByte ranged resp =
     (if rp_StatusCode resp = 206 \<and> ranged then Inr (rp_Body resp)
      else if rp_StatusCode resp = 200 then
        (case (if 0 < startByte then skipBytes startByte (rp_Body resp) else Inr (rp_Body resp)) of
           Inl e \<Rightarrow> Inl (Errorf [e])
         | Inr body \<Rightarrow> if endByte = -1 then Inr body else Inr (limitReader (wrap64 (endByte - startByte + 1)) body))
      else Inl (statusError resp False))"

definition rangeTry :: "'s httpEnv \<Rightarrow> 's HTTPStorageClient \<Rightarrow> ctx \<Rightarrow> string \<Rightarrow> int \<Rightarrow> int \<Rightarrow> 's \<Rightarrow> reader result \<times> 's" where
  "rangeTry E h c u startByte endByte s =
     (let headers = rangeHeaders startByte endByte
      in onResponse (doRequest E h c ''GET'' u [] (case headers of None \<Rightarrow> [] | Some hs \<Rightarrow> hs) s)
           (rangeBody startByte endByte (headers \<noteq> None)))"

definition httpGetObjectRange ::
  "'s httpEnv \<Rightarrow> 's HTTPStorageClient \<Rightarrow> ctx \<Rightarrow> string \<Rightarrow> string \<Rightarrow> int \<Rightarrow> int \<Rightarrow> 's \<Rightarrow> reader result \<times> 's" where
  "httpGetObjectRange E h c bucket key startByte endByte s =
     (if startByte < 0 then (Inl (Errorf [Sentinel ErrInvalidRange]), s)
      else if endByte \<noteq> -1 \<and> endByte < startByte then (Inl (Errorf [Sentinel ErrInvalidRange]), s)
      else httpDo E h c 0 (rangeTry E h c (buildURL (hc_endpoint h) bucket key []) startByte endByte) s)"

section \<open>Writing\<close>

definition initiateTry :: "'s httpEnv \<Rightarrow> 's HTTPStorageClient \<Rightarrow> ctx \<Rightarrow> string \<Rightarrow> 's \<Rightarrow> string result \<times> 's" where
  "initiateTry E h c u s = onResponse (doRequest E h c ''POST'' u [] [] s) (\<lambda>resp.
     if rp_StatusCode resp \<noteq> 200 then Inl (statusError resp False)
     else (case ReadAll (rp_Body resp) of
             Inl e \<Rightarrow> Inl e
           | Inr data \<Rightarrow> (case he_xmlInitiate E data of
               Inl e \<Rightarrow> Inl (PermanentError (Errorf [Sentinel ErrInvalidResponse, e]))
             | Inr uploadID \<Rightarrow> if uploadID = [] then Inl (PermanentError invalidResponse) else Inr uploadID)))"

definition httpInitiate :: "'s httpEnv \<Rightarrow> 's HTTPStorageClient \<Rightarrow> ctx \<Rightarrow> string \<Rightarrow> string \<Rightarrow> 's \<Rightarrow> string result \<times> 's" where
  "httpInitiate E h c bucket key s =
     httpDo E h c MetadataAttemptTimeout (initiateTry E h c (buildURL (hc_endpoint h) bucket key ''uploads'')) s"

definition uploadTry :: "'s httpEnv \<Rightarrow> 's HTTPStorageClient \<Rightarrow> ctx \<Rightarrow> string \<Rightarrow> bytes \<Rightarrow> 's \<Rightarrow> string result \<times> 's" where
  "uploadTry E h c u data s = onResponse (doRequest E h c ''PUT'' u data [] s) (\<lambda>resp.
     if rp_StatusCode resp \<noteq> 200 then Inl (statusError resp True)
     else (let etag = TrimSpace (headerGet (rp_Header resp) ''Etag'') in if etag = [] then Inl invalidResponse else Inr etag))"

definition httpUploadPart ::
  "'s httpEnv \<Rightarrow> 's HTTPStorageClient \<Rightarrow> ctx \<Rightarrow> string \<Rightarrow> string \<Rightarrow> string \<Rightarrow> int \<Rightarrow> bytes \<Rightarrow> 's \<Rightarrow> string result \<times> 's" where
  "httpUploadPart E h c bucket key uploadID partNumber data s =
     (let u = buildURL (hc_endpoint h) bucket key (valuesEncode [(''partNumber'', FormatInt partNumber), (''uploadId'', uploadID)])
      in httpDo E h c (UploadAttemptTimeout (int (length data))) (uploadTry E h c u data) s)"

text \<open>The parts in ascending order of their numbers.\<close>

definition sortedParts :: "(int, string) gomap \<Rightarrow> CompleteMultipartPart list" where
  "sortedParts etags = map (\<lambda>n. (n, case gm_get etags n of None \<Rightarrow> [] | Some t \<Rightarrow> t)) (sort (map fst etags))"

definition completeTry ::
  "'s httpEnv \<Rightarrow> 's HTTPStorageClient \<Rightarrow> ctx \<Rightarrow> string \<Rightarrow> string \<Rightarrow> string \<Rightarrow> bytes \<Rightarrow> 's \<Rightarrow> unit result \<times> 's" where
  "completeTry E h c bucket key u xmlData s =
     (case doRequest E h c ''POST'' u xmlData [(''Content-Type'', ''application/xml'')] s of
        (Inl e, s') \<Rightarrow> (Inl e, s')
      | (Inr resp, s') \<Rightarrow>
          if rp_StatusCode resp \<noteq> 200 then (Inl (statusError resp True), s')
          else (case ReadAll (rp_Body resp) of
                  Inl e \<Rightarrow> (Inl e, s')
                | Inr data \<Rightarrow> (case he_xmlError E data of
                    Inl _ \<Rightarrow> (Inr (), s')
                  | Inr code \<Rightarrow>
                      if code = ''NoSuchUpload'' then
                        (case httpGetObjectSize E h c bucket key s' of
                           (Inr _, s'') \<Rightarrow> (Inr (), s'')
                         | (Inl _, s'') \<Rightarrow> (Inl (Errorf [Sentinel ErrUploadNotFound, Errorf []]), s''))
                      else (Inl (Errorf []), s'))))"

definition httpComplete ::
  "'s httpEnv \<Rightarrow> 's HTTPStorageClient \<Rightarrow> ctx \<Rightarrow> string \<Rightarrow> string \<Rightarrow> string \<Rightarrow> (int, string) gomap \<Rightarrow> 's \<Rightarrow> err option \<times> 's" where
  "httpComplete E h c bucket key uploadID etags s =
     (case he_xmlComplete E (sortedParts etags) of
        Inl e \<Rightarrow> (Some (Errorf [e]), s)
      | Inr xmlData \<Rightarrow>
          (let u = buildURL (hc_endpoint h) bucket key (valuesEncode [(''uploadId'', uploadID)])
           in map_prod errorOf id (httpDo E h c CompleteAttemptTimeout (completeTry E h c bucket key u xmlData) s)))"

definition abortTry :: "'s httpEnv \<Rightarrow> 's HTTPStorageClient \<Rightarrow> ctx \<Rightarrow> string \<Rightarrow> 's \<Rightarrow> unit result \<times> 's" where
  "abortTry E h c u s = onResponse (doRequest E h c ''DELETE'' u [] [] s) (\<lambda>resp.
     if rp_StatusCode resp = 200 \<or> rp_StatusCode resp = 204 then Inr () else Inl (statusError resp True))"

definition httpAbort :: "'s httpEnv \<Rightarrow> 's HTTPStorageClient \<Rightarrow> ctx \<Rightarrow> string \<Rightarrow> string \<Rightarrow> string \<Rightarrow> 's \<Rightarrow> err option \<times> 's" where
  "httpAbort E h c bucket key uploadID s =
     (let u = buildURL (hc_endpoint h) bucket key (valuesEncode [(''uploadId'', uploadID)])
      in case httpDo E h c MetadataAttemptTimeout (abortTry E h c u) s of
           (Inl e, s') \<Rightarrow> (if errIs e ErrUploadNotFound then None else Some e, s')
         | (Inr _, s') \<Rightarrow> (None, s'))"

definition putTry :: "'s httpEnv \<Rightarrow> 's HTTPStorageClient \<Rightarrow> ctx \<Rightarrow> string \<Rightarrow> bytes \<Rightarrow> 's \<Rightarrow> unit result \<times> 's" where
  "putTry E h c u data s = onResponse (doRequest E h c ''PUT'' u data [] s) (\<lambda>resp.
     if rp_StatusCode resp \<in> {200, 201, 204} then Inr () else Inl (statusError resp False))"

definition httpPutObject :: "'s httpEnv \<Rightarrow> 's HTTPStorageClient \<Rightarrow> ctx \<Rightarrow> string \<Rightarrow> string \<Rightarrow> bytes \<Rightarrow> 's \<Rightarrow> err option \<times> 's" where
  "httpPutObject E h c bucket key data s =
     map_prod errorOf id (httpDo E h c (UploadAttemptTimeout (int (length data)))
       (putTry E h c (buildURL (hc_endpoint h) bucket key []) data) s)"

definition deleteTry :: "'s httpEnv \<Rightarrow> 's HTTPStorageClient \<Rightarrow> ctx \<Rightarrow> string \<Rightarrow> 's \<Rightarrow> unit result \<times> 's" where
  "deleteTry E h c u s = onResponse (doRequest E h c ''DELETE'' u [] [] s) (\<lambda>resp.
     if rp_StatusCode resp \<in> {200, 204, 202} then Inr () else Inl (statusError resp False))"

definition httpDeleteObject :: "'s httpEnv \<Rightarrow> 's HTTPStorageClient \<Rightarrow> ctx \<Rightarrow> string \<Rightarrow> string \<Rightarrow> 's \<Rightarrow> err option \<times> 's" where
  "httpDeleteObject E h c bucket key s =
     map_prod errorOf id (httpDo E h c MetadataAttemptTimeout (deleteTry E h c (buildURL (hc_endpoint h) bucket key [])) s)"

text \<open>Generic endpoints have no buckets to list and no region.\<close>

definition httpListBuckets :: "'s HTTPStorageClient \<Rightarrow> ctx \<Rightarrow> string \<Rightarrow> 's \<Rightarrow> string list result \<times> 's" where
  "httpListBuckets h c compartmentID s = (Inr [], s)"

definition httpSetRegion :: "string \<Rightarrow> 's HTTPStorageClient \<Rightarrow> 's HTTPStorageClient" where
  "httpSetRegion region h = h"

text \<open>The client as an \<open>ObjectStorageClient\<close>.\<close>

definition httpClient :: "'s httpEnv \<Rightarrow> 's HTTPStorageClient \<Rightarrow> 's ObjectStorageClient" where
  "httpClient E h =
     \<lparr>ListObjects = httpListObjects E h, GetObjectSize = httpGetObjectSize E h, GetObjectRange = httpGetObjectRange E h,
      Initiate = httpInitiate E h, UploadPart = httpUploadPart E h, Complete = httpComplete E h, Abort = httpAbort E h,
      PutObject = httpPutObject E h, DeleteObject = httpDeleteObject E h\<rparr>"

end
