(* ===== verification/HttpServer.thy ===== *)
theory HttpServer
  imports Http Bucket
begin

text \<open>
  What an S3-compatible server makes of the requests of \<open>Http\<close>. \<open>decodeReq\<close> reads the method, the URL and
  the headers as the REST API documents them; that it recovers bucket, key and parameters from what the
  client sends is the round trip of the URL building. The locale \<open>s3_server\<close> states the documented
  behaviour of such a server, with failures before and after an operation has taken effect.
\<close>

section \<open>Decoding a request\<close>

datatype s3op =
    ListOp string string string string
  | HeadOp string string
  | GetOp string string string
  | InitiateOp string string
  | UploadOp string string string int bytes
  | CompleteOp string string string bytes
  | AbortOp string string string
  | PutOp string string bytes
  | DeleteOp string string

definition urlTarget :: "string \<Rightarrow> string \<Rightarrow> (string list \<times> (string \<times> string) list) option" where
  "urlTarget ep url =
     (case Cut CHR ''?'' (drop (length (TrimSuffix ep ''/'')) url) of (path, q, _) \<Rightarrow>
        (case (decodeAll False (tl (Split CHR ''/'' path)), parseQuery q) of
           (Some segs, Some qs) \<Rightarrow> Some (segs, qs)
         | _ \<Rightarrow> None))"

definition decodeReq :: "string \<Rightarrow> request \<Rightarrow> s3op option" where
  "decodeReq ep rq =
     (case urlTarget ep (rq_URL rq) of
        None \<Rightarrow> None
      | Some ([], qs) \<Rightarrow> None
      | Some ([b], qs) \<Rightarrow>
          if rq_Method rq = ''GET'' \<and> gm_get qs ''list-type'' = Some ''2''
          then Some (ListOp b (headerGet qs ''prefix'') (headerGet qs ''continuation-token'') (headerGet qs ''marker'')) else None
      | Some (b # ks, qs) \<Rightarrow>
          let k = Join ks ''/'' in
          if rq_Method rq = ''HEAD'' then Some (HeadOp b k)
          else if rq_Method rq = ''GET'' then Some (GetOp b k (headerGet (rq_Header rq) ''Range''))
          else if rq_Method rq = ''POST'' then
            (if gm_has qs ''uploads'' then Some (InitiateOp b k)
             else map_option (\<lambda>u. CompleteOp b k u (rq_Body rq)) (gm_get qs ''uploadId''))
          else if rq_Method rq = ''PUT'' then
            (case gm_get qs ''uploadId'' of
               None \<Rightarrow> Some (PutOp b k (rq_Body rq))
             | Some u \<Rightarrow> map_option (\<lambda>n. UploadOp b k u n (rq_Body rq)) (parseDec (headerGet qs ''partNumber'')))
          else if rq_Method rq = ''DELETE'' then
            (case gm_get qs ''uploadId'' of None \<Rightarrow> Some (DeleteOp b k) | Some u \<Rightarrow> Some (AbortOp b k u))
          else None)"

section \<open>The parts of an upload in order\<close>

lemma sortedParts_keys: "map fst (sortedParts etags) = sort (map fst etags)"
  by (simp add: sortedParts_def comp_def)

lemma tags_of_sorted:
  assumes "tags_of m etags"
  shows "tags_of m (sortedParts etags)"
proof -
  have "map_option fst (m n) = Some (case gm_get etags n of None \<Rightarrow> [] | Some t \<Rightarrow> t)" if "n \<in> fst ` set etags" for n
  proof -
    from that obtain t where t: "gm_get etags n = Some t" by (auto simp: map_of_eq_None_iff split: option.splits dest: weak_map_of_SomeI)
    then have "(n, t) \<in> set etags" by (rule map_of_SomeD)
    with assms t show ?thesis by (auto simp: tags_of_def list_all_iff)
  qed
  then show ?thesis by (auto simp: tags_of_def sortedParts_def list_all_iff)
qed

lemma assemble_sorted: "assemble m (sortedParts etags) = assemble m etags"
  by (simp add: assemble_def sortedParts_keys sorted_sort_id)

section \<open>URLs round trip\<close>

text \<open>The names \<open>buildURL\<close> transports unchanged: a bucket of one segment, a key without outer slashes.\<close>

definition url_name :: "string \<Rightarrow> string \<Rightarrow> bool" where
  "url_name b k \<longleftrightarrow> b \<noteq> [] \<and> CHR ''/'' \<notin> set b \<and> k \<noteq> [] \<and> hd k \<noteq> CHR ''/'' \<and> last k \<noteq> CHR ''/''"

lemma concat_slash_Join: "xs \<noteq> [] \<Longrightarrow> concat (map (\<lambda>x. CHR ''/'' # f x) xs) = Join ([] # map f xs) ''/''"
proof (induction xs)
  case (Cons x xs)
  then show ?case by (cases xs) (simp_all add: Join_Cons)
qed simp

lemma Split_escaped: "xs \<noteq> [] \<Longrightarrow> Split CHR ''/'' (concat (map (\<lambda>x. CHR ''/'' # PathEscape x) xs)) = [] # map PathEscape xs"
  by (subst concat_slash_Join) (auto intro!: Split_Join)

lemma question_free: "CHR ''?'' \<notin> set (concat (map (\<lambda>x. CHR ''/'' # PathEscape x) xs))"
  by (induction xs) auto

lemma urlTarget_segments:
  assumes "xs \<noteq> []" and "url = TrimSuffix ep ''/'' @ concat (map (\<lambda>x. CHR ''/'' # PathEscape x) xs) @ (if q = [] then [] else ''?'' @ q)"
  shows "urlTarget ep url = map_option (Pair xs) (parseQuery q)"
proof -
  have "fst (Cut CHR ''?'' (drop (length (TrimSuffix ep ''/'')) url)) = concat (map (\<lambda>x. CHR ''/'' # PathEscape x) xs)"
    and "fst (snd (Cut CHR ''?'' (drop (length (TrimSuffix ep ''/'')) url))) = q"
    using Cut_sep [OF question_free, of xs q] Cut_no_sep [OF question_free, of xs] by (simp_all add: assms(2))
  then show ?thesis
    by (cases "Cut CHR ''?'' (drop (length (TrimSuffix ep ''/'')) url)" rule: prod_cases3)
      (simp add: urlTarget_def Split_escaped [OF assms(1)] decodeAll_PathEscape split: option.splits)
qed

lemma trim_bucket: "b \<noteq> [] \<Longrightarrow> CHR ''/'' \<notin> set b \<Longrightarrow> TrimByte CHR ''/'' b = b"
  by (intro TrimByte_id) (metis hd_in_set last_in_set)

text \<open>
  The path segments of a bucket and a key as a URL carries them: outer slashes are dropped, so names
  that differ only there have the same segments.
\<close>

definition segments :: "string \<Rightarrow> string \<Rightarrow> string list" where
  "segments b k =
     (if TrimByte CHR ''/'' b = [] then [] else Split CHR ''/'' (TrimByte CHR ''/'' b)) @
     (if TrimByte CHR ''/'' k = [] then [] else Split CHR ''/'' (TrimByte CHR ''/'' k))"

lemma buildURL_segments:
  "buildURL ep b k q = TrimSuffix ep ''/'' @ concat (map (\<lambda>x. CHR ''/'' # PathEscape x) (segments b k)) @ (if q = [] then [] else ''?'' @ q)"
  by (simp add: buildURL_def appendEscapedPath_def segments_def Let_def)

lemma urlTarget_built: "segments b k \<noteq> [] \<Longrightarrow> urlTarget ep (buildURL ep b k q) = map_option (Pair (segments b k)) (parseQuery q)"
  by (erule urlTarget_segments) (rule buildURL_segments)

lemma segments_object: "url_name b k \<Longrightarrow> segments b k = b # Split CHR ''/'' k"
  by (auto simp: url_name_def segments_def trim_bucket TrimByte_id Split_no_sep)

lemma urlTarget_object: "url_name b k \<Longrightarrow> urlTarget ep (buildURL ep b k q) = map_option (Pair (b # Split CHR ''/'' k)) (parseQuery q)"
  by (metis list.distinct(1) segments_object urlTarget_built)

lemma urlTarget_bucket:
  "b \<noteq> [] \<Longrightarrow> CHR ''/'' \<notin> set b \<Longrightarrow> urlTarget ep (buildURL ep b [] q) = map_option (Pair [b]) (parseQuery q)"
  by (rule urlTarget_segments) (auto simp: buildURL_def appendEscapedPath_def trim_bucket TrimByte_def [of _ "[]"] Split_no_sep Let_def)

lemma map_of_sort_key: "distinct (map fst q) \<Longrightarrow> map_of (sort_key fst q) = map_of q"
  by (subst map_of_inject_set) (auto simp: distinct_map inj_on_def)

lemma decodeReq_object:
  assumes "url_name b k" and "rq_URL rq = buildURL ep b k q" and "parseQuery q = Some qs"
  shows "decodeReq ep rq =
    (if rq_Method rq = ''HEAD'' then Some (HeadOp b k)
     else if rq_Method rq = ''GET'' then Some (GetOp b k (headerGet (rq_Header rq) ''Range''))
     else if rq_Method rq = ''POST'' then
       (if gm_has qs ''uploads'' then Some (InitiateOp b k)
        else map_option (\<lambda>u. CompleteOp b k u (rq_Body rq)) (gm_get qs ''uploadId''))
     else if rq_Method rq = ''PUT'' then
       (case gm_get qs ''uploadId'' of
          None \<Rightarrow> Some (PutOp b k (rq_Body rq))
        | Some u \<Rightarrow> map_option (\<lambda>n. UploadOp b k u n (rq_Body rq)) (parseDec (headerGet qs ''partNumber'')))
     else if rq_Method rq = ''DELETE'' then
       (case gm_get qs ''uploadId'' of None \<Rightarrow> Some (DeleteOp b k) | Some u \<Rightarrow> Some (AbortOp b k u))
     else None)"
proof -
  have t: "urlTarget ep (rq_URL rq) = Some (b # Split CHR ''/'' k, qs)"
    by (simp add: assms(2,3) urlTarget_object [OF assms(1)])
  obtain x xs where x: "Split CHR ''/'' k = x # xs" by (metis Split_not_Nil list.exhaust)
  then have "Join (x # xs) ''/'' = k" by (metis Join_Split)
  then show ?thesis unfolding decodeReq_def t x option.case prod.case list.case Let_def by (simp only:)
qed

lemma parseQuery_empty: "parseQuery [] = Some []"
  by (simp add: parseQuery_def)

lemma parseQuery_uploads: "parseQuery ''uploads'' = Some [(''uploads'', [])]"
  by code_simp

lemma query_get:
  assumes "distinct (map fst q)"
  obtains qs where "parseQuery (valuesEncode q) = Some qs" "gm_get qs = gm_get q" "headerGet qs = headerGet q"
  using that [OF parseQuery_valuesEncode] map_of_sort_key [OF assms] by (auto simp: headerGet_def [abs_def])

text \<open>Every request of the client is understood as the operation it stands for.\<close>

lemma decode_plain:
  assumes "url_name b k" and "rq_URL rq = buildURL ep b k []"
  shows "rq_Method rq = ''HEAD'' \<Longrightarrow> decodeReq ep rq = Some (HeadOp b k)"
    and "rq_Method rq = ''GET'' \<Longrightarrow> decodeReq ep rq = Some (GetOp b k (headerGet (rq_Header rq) ''Range''))"
    and "rq_Method rq = ''PUT'' \<Longrightarrow> decodeReq ep rq = Some (PutOp b k (rq_Body rq))"
    and "rq_Method rq = ''DELETE'' \<Longrightarrow> decodeReq ep rq = Some (DeleteOp b k)"
  by (simp_all add: decodeReq_object [OF assms parseQuery_empty])

lemma decode_initiate:
  assumes "url_name b k" and "rq_URL rq = buildURL ep b k ''uploads''" and "rq_Method rq = ''POST''"
  shows "decodeReq ep rq = Some (InitiateOp b k)"
  by (simp add: decodeReq_object [OF assms(1,2) parseQuery_uploads] assms(3))

lemma decode_upload_id:
  assumes "url_name b k" and "rq_URL rq = buildURL ep b k (valuesEncode [(''uploadId'', u)])"
  shows "rq_Method rq = ''POST'' \<Longrightarrow> decodeReq ep rq = Some (CompleteOp b k u (rq_Body rq))"
    and "rq_Method rq = ''DELETE'' \<Longrightarrow> decodeReq ep rq = Some (AbortOp b k u)"
proof -
  obtain qs where "parseQuery (valuesEncode [(''uploadId'', u)]) = Some qs" "gm_get qs = gm_get [(''uploadId'', u)]"
    by (rule query_get [of "[(''uploadId'', u)]"]) simp_all
  note d = decodeReq_object [OF assms this(1), unfolded this(2)]
  show "rq_Method rq = ''POST'' \<Longrightarrow> decodeReq ep rq = Some (CompleteOp b k u (rq_Body rq))"
    and "rq_Method rq = ''DELETE'' \<Longrightarrow> decodeReq ep rq = Some (AbortOp b k u)" by (simp_all add: d)
qed

lemma decode_part:
  assumes "url_name b k" and "rq_URL rq = buildURL ep b k (valuesEncode [(''partNumber'', FormatInt n), (''uploadId'', u)])"
    and "rq_Method rq = ''PUT''"
  shows "decodeReq ep rq = Some (UploadOp b k u n (rq_Body rq))"
proof -
  let ?q = "[(''partNumber'', FormatInt n), (''uploadId'', u)]"
  obtain qs where "parseQuery (valuesEncode ?q) = Some qs" "gm_get qs = gm_get ?q" "headerGet qs = headerGet ?q"
    by (rule query_get [of ?q]) simp_all
  then show ?thesis
    by (simp add: decodeReq_object [OF assms(1,2)] assms(3) headerGet_def parseDec_FormatInt)
qed

lemma decode_list:
  assumes "b \<noteq> []" and "CHR ''/'' \<notin> set b" and "rq_URL rq = buildURL ep b [] (listQuery px token marker)" and "rq_Method rq = ''GET''"
  shows "decodeReq ep rq = Some (ListOp b px token marker)"
proof -
  let ?q = "[(''list-type'', ''2'')] @ (if px \<noteq> [] then [(''prefix'', px)] else []) @
     (if token \<noteq> [] then [(''continuation-token'', token)] else []) @ (if marker \<noteq> [] then [(''marker'', marker)] else [])"
  obtain qs where qs: "parseQuery (valuesEncode ?q) = Some qs" "gm_get qs = gm_get ?q" "headerGet qs = headerGet ?q"
    by (rule query_get [of ?q]) simp_all
  have "urlTarget ep (rq_URL rq) = Some ([b], qs)"
    unfolding assms(3) listQuery_def urlTarget_bucket [OF assms(1,2)] qs(1) by simp
  then show ?thesis
    by (simp add: decodeReq_def assms(4) qs(2,3)) (simp add: headerGet_def)
qed

end
