(* ===== verification/ObjectWorld.thy ===== *)
theory ObjectWorld
  imports RetryCall Bucket
begin

text \<open>
  What a provider client sees of its service, whatever the protocol: objects, uploads and a listing. The
  relations between the states of a call that the proofs of all clients use: nothing changed (\<open>same\<close>), one
  object is old or new (\<open>changing\<close>), an upload is there or has become the object (\<open>completing\<close>).
\<close>

text \<open>An error that makes no statement about an object or an upload.\<close>

definition plain_err :: "err \<Rightarrow> bool" where
  "plain_err e \<longleftrightarrow> \<not> errIs e ErrNotFound \<and> \<not> errIs e ErrUploadNotFound"

text \<open>A body with the bytes \<open>d\<close>, or with a part of them and the error that cut it off.\<close>

definition delivers :: "bytes \<Rightarrow> reader \<Rightarrow> bool" where
  "delivers d body \<longleftrightarrow> body = (d, None) \<or> (\<exists>n e. body = (take n d, Some e) \<and> plain_err e)"

definition valid_range :: "int \<Rightarrow> int \<Rightarrow> bool" where
  "valid_range i j \<longleftrightarrow> 0 \<le> i \<and> (j = -1 \<or> i \<le> j \<and> is_int64 (j - i + 1))"

lemma plain_wrapped: "plain_err e \<Longrightarrow> wrapped e e' \<Longrightarrow> plain_err e'"
  unfolding plain_err_def wrapped_def by blast

lemma wrapped_not_found: "wrapped e e' \<Longrightarrow> errIs e' ErrNotFound \<longleftrightarrow> errIs e ErrNotFound"
  unfolding wrapped_def by blast

locale object_world =
  fixes obj :: "'s \<Rightarrow> string \<Rightarrow> string \<Rightarrow> bytes option"
    and parts :: "'s \<Rightarrow> string \<Rightarrow> string \<Rightarrow> string \<Rightarrow> (int \<rightharpoonup> string \<times> bytes) option"
    and listing :: "'s \<Rightarrow> 'l"
    and inv :: "'s \<Rightarrow> bool"
begin

definition same :: "'s \<Rightarrow> 's \<Rightarrow> bool" where
  "same s t \<longleftrightarrow> inv t \<and> obj t = obj s \<and> parts t = parts s \<and> listing t = listing s"

lemma same_start: "inv s \<Longrightarrow> same s s"
  by (simp add: same_def)

text \<open>An answer to a read of one object: what is delivered of it, or that it is not there.\<close>

definition read_ok :: "'s \<Rightarrow> string \<Rightarrow> string \<Rightarrow> (bytes \<Rightarrow> 'v \<Rightarrow> bool) \<Rightarrow> 'v result \<Rightarrow> bool" where
  "read_ok s b k ok r \<longleftrightarrow> (\<forall>v. r = Inr v \<longrightarrow> (\<exists>d. obj s b k = Some d \<and> ok d v)) \<and> (\<forall>e. r = Inl e \<and> errIs e ErrNotFound \<longrightarrow> obj s b k = None)"

lemma read_ok_wrapped: "read_ok s b k ok (Inl e) \<Longrightarrow> wrapped e e' \<Longrightarrow> read_ok s b k ok (Inl e')"
  by (simp add: read_ok_def wrapped_not_found)

text \<open>The object at one name is the new value or the old one, everything else is as before.\<close>

definition changing :: "string \<Rightarrow> string \<Rightarrow> bytes option \<Rightarrow> 's \<Rightarrow> 's \<Rightarrow> bool" where
  "changing b k v s t \<longleftrightarrow> inv t \<and> (\<forall>b' k'. (b', k') \<noteq> (b, k) \<longrightarrow> obj t b' k' = obj s b' k') \<and> (obj t b k = v \<or> obj t b k = obj s b k)"

lemma changing_start: "inv s \<Longrightarrow> changing b k v s s"
  by (simp add: changing_def)

lemma changing_step:
  assumes "changing b k v s t" and "inv s'" and "\<forall>b' k'. (b', k') \<noteq> (b, k) \<longrightarrow> obj s' b' k' = obj t b' k'"
    and "obj s' b k = v \<or> obj s' b k = obj t b k"
  shows "changing b k v s s'"
  using assms unfolding changing_def by metis

text \<open>Either the upload is still there, or it is gone and has become the object.\<close>

definition completing :: "string \<Rightarrow> string \<Rightarrow> string \<Rightarrow> (int \<rightharpoonup> string \<times> bytes) \<Rightarrow> bytes \<Rightarrow> 's \<Rightarrow> 's \<Rightarrow> bool" where
  "completing b k u m d s t \<longleftrightarrow> inv t \<and> (\<forall>b' k'. (b', k') \<noteq> (b, k) \<longrightarrow> obj t b' k' = obj s b' k') \<and>
     (obj t b k = Some d \<and> parts t b k u = None \<or> obj t b k = obj s b k \<and> parts t b k u = Some m)"

lemma completing_start: "inv s \<Longrightarrow> parts s b k u = Some m \<Longrightarrow> completing b k u m d s s"
  by (simp add: completing_def)

lemma completing_same: "completing b k u m d s t \<Longrightarrow> same t t' \<Longrightarrow> completing b k u m d s t'"
  by (simp add: completing_def same_def)

text \<open>Part \<open>n\<close> of an upload may have been stored, with some tag; nothing else changed.\<close>

definition storing :: "string \<Rightarrow> string \<Rightarrow> string \<Rightarrow> (int \<rightharpoonup> string \<times> bytes) \<Rightarrow> int \<Rightarrow> bytes \<Rightarrow> 's \<Rightarrow> 's \<Rightarrow> bool" where
  "storing b k u m n d s t \<longleftrightarrow> inv t \<and> obj t = obj s \<and> (parts t b k u = Some m \<or> (\<exists>x. parts t b k u = Some (m(n \<mapsto> (x, d)))))"

lemma storing_start: "inv s \<Longrightarrow> parts s b k u = Some m \<Longrightarrow> storing b k u m n d s s"
  by (simp add: storing_def)

lemma storingE:
  assumes "storing b k u m n d s t"
  obtains m' where "parts t b k u = Some m'" "\<forall>x. m'(n \<mapsto> (x, d)) = m(n \<mapsto> (x, d))" "inv t" "obj t = obj s" "m' = m \<or> (\<exists>x. m' = m(n \<mapsto> (x, d)))"
  using assms unfolding storing_def by (elim conjE disjE exE) auto

text \<open>The laws of \<open>object_client\<close> in terms of these relations.\<close>

lemma contract:
  assumes "\<And>s b k c rr s'. inv s \<Longrightarrow> nm b k \<Longrightarrow> GetObjectRange C c b k 0 (-1) s = (rr, s') \<Longrightarrow> same s s' \<and>
      (\<forall>body. rr = Inr body \<longrightarrow> (\<exists>d. obj s b k = Some d \<and> delivers d body)) \<and>
      (\<forall>e. rr = Inl e \<and> errIs e ErrNotFound \<longrightarrow> obj s b k = None)"
    and "\<And>s c b px rl s'. inv s \<Longrightarrow> ListObjects C c b px s = (rl, s') \<Longrightarrow> same s s' \<and>
      (\<forall>os k. rl = Inr os \<and> nm b k \<and> HasPrefix k px \<and> obj s b k \<noteq> None \<longrightarrow> k \<in> set (map oi_Name os))"
    and "\<And>s b k c ri s'. inv s \<Longrightarrow> nm b k \<Longrightarrow> Initiate C c b k s = (ri, s') \<Longrightarrow> inv s' \<and> obj s' = obj s \<and>
      (\<forall>u. ri = Inr u \<longrightarrow> u \<noteq> [] \<and> parts s' b k u = Some Map.empty)"
    and "\<And>s b k n u m c d ri s'. inv s \<Longrightarrow> nm b k \<Longrightarrow> part_number n \<Longrightarrow> parts s b k u = Some m \<Longrightarrow> UploadPart C c b k u n d s = (ri, s') \<Longrightarrow>
      storing b k u m n d s s' \<and> (\<forall>t. ri = Inr t \<longrightarrow> parts s' b k u = Some (m(n \<mapsto> (t, d))))"
    and "\<And>s b k etags u m c oe s'. inv s \<Longrightarrow> nm b k \<Longrightarrow> list_all (part_number \<circ> fst) etags \<Longrightarrow> parts s b k u = Some m \<Longrightarrow> tags_of m etags \<Longrightarrow>
      Complete C c b k u etags s = (oe, s') \<Longrightarrow> completing b k u m (assemble m etags) s s' \<and> (oe = None \<longrightarrow> obj s' b k = Some (assemble m etags))"
    and "\<And>s b k u c oe s'. inv s \<Longrightarrow> nm b k \<Longrightarrow> u \<noteq> [] \<Longrightarrow> Abort C c b k u s = (oe, s') \<Longrightarrow> inv s' \<and> obj s' = obj s"
    and "\<And>s b k c d oe s'. inv s \<Longrightarrow> nm b k \<Longrightarrow> PutObject C c b k d s = (oe, s') \<Longrightarrow>
      changing b k (Some d) s s' \<and> (oe = None \<longrightarrow> obj s' b k = Some d)"
    and "\<And>s b k c oe s'. inv s \<Longrightarrow> nm b k \<Longrightarrow> DeleteObject C c b k s = (oe, s') \<Longrightarrow>
      changing b k None s s' \<and> (oe = None \<or> errIs (the oe) ErrNotFound \<longrightarrow> obj s' b k = None)"
  shows "object_client C obj parts nm inv"
proof (unfold_locales, goal_cases)
  case (1 s b k c rr s')
  from assms(1) [OF 1] show ?case by (auto simp: same_def delivers_def plain_err_def)
next
  case (2 s c b px rl s')
  from assms(2) [OF 2] show ?case by (auto simp: same_def)
next
  case (3 s b k c ri s')
  from assms(3) [OF 3] show ?case .
next
  case (4 s b k n u m c d ri s')
  from assms(4) [OF 4] show ?case by (simp add: storing_def)
next
  case (5 s b k etags u m c oe s')
  from assms(5) [OF 5] show ?case by (auto simp: completing_def)
next
  case (6 s b k u c oe s')
  from assms(6) [OF 6] show ?case .
next
  case (7 s b k c d oe s')
  from assms(7) [OF 7] show ?case by (auto simp: changing_def)
next
  case (8 s b k c oe s')
  from assms(8) [OF 8] show ?case by (auto simp: changing_def)
qed

end

end
