(* ===== verification/HttpClient.thy ===== *)
theory HttpClient
  imports HttpServer ObjectWorld
begin

text \<open>
  The HTTP client against an S3-compatible server. \<open>s3_server\<close> is the documented behaviour of the server
  on decoded requests: any request may fail before or after it has taken effect. In \<open>http_client\<close> every
  operation of the client is shown to keep the laws of \<open>object_client\<close>, through all its retries, so an
  object storage over this client is a \<open>storage\<close>.
\<close>

section \<open>What the server promises\<close>

text \<open>A page of a listing whose cursor has the keys \<open>left\<close> before it; \<open>after\<close> are those left at another cursor.\<close>

definition page_ok :: "string list \<Rightarrow> (string \<Rightarrow> string \<Rightarrow> string list) \<Rightarrow> ListBucketResult \<Rightarrow> bool" where
  "page_ok left after page \<longleftrightarrow> (\<exists>rest. left = map lo_Key (lb_Contents page) @ rest \<and>
     (if lb_IsTruncated page then lb_Contents page \<noteq> [] \<and>
        (if lb_NextContinuationToken page \<noteq> [] then after (lb_NextContinuationToken page) [] = rest
         else pageMarker page \<noteq> [] \<and> after [] (pageMarker page) = rest)
      else rest = []))"

text \<open>
  A conforming server, seen by a caller that it has authorized: every request may be lost before or after it took
  effect, and any answer may have any other status. A 404 to a read tells that the object is absent. An upload ends
  by completing, which leaves the assembled object, or by an abort; a completion of an upload that is not there
  may be answered by any error, or as a success only where an object of that name is present.
\<close>

locale s3_server = object_world obj parts remaining inv
  for obj :: "'s \<Rightarrow> string \<Rightarrow> string \<Rightarrow> bytes option"
    and parts :: "'s \<Rightarrow> string \<Rightarrow> string \<Rightarrow> string \<Rightarrow> (int \<rightharpoonup> string \<times> bytes) option"
    and remaining :: "'s \<Rightarrow> string \<Rightarrow> string \<Rightarrow> string \<Rightarrow> string \<Rightarrow> string list"
    and inv :: "'s \<Rightarrow> bool" +
  fixes ep :: string
    and send :: "ctx \<Rightarrow> request \<Rightarrow> 's \<Rightarrow> response result \<times> 's"
    and E :: "'s httpEnv"
  assumes sends: "inv s \<Longrightarrow> send c rq s = (r, s') \<Longrightarrow> inv s' \<and> (\<forall>e. r = Inl e \<longrightarrow> plain_err e) \<and>
      (\<forall>resp e. r = Inr resp \<and> snd (rp_Body resp) = Some e \<longrightarrow> plain_err e)"
    and reads: "inv s \<Longrightarrow> rq_Method rq = ''GET'' \<or> rq_Method rq = ''HEAD'' \<Longrightarrow> send c rq s = (r, s') \<Longrightarrow>
      obj s' = obj s \<and> parts s' = parts s \<and> remaining s' = remaining s"
    and gets: "inv s \<Longrightarrow> decodeReq ep rq = Some (GetOp b k rng) \<Longrightarrow> send c rq s = (Inr resp, s') \<Longrightarrow>
      (rp_StatusCode resp = 404 \<longrightarrow> obj s b k = None) \<and>
      (rp_StatusCode resp = 200 \<longrightarrow> (\<exists>d. obj s b k = Some d \<and> delivers d (rp_Body resp))) \<and>
      (rp_StatusCode resp = 206 \<longrightarrow> (\<exists>d. obj s b k = Some d \<and>
         (\<forall>i j. 0 \<le> i \<and> (j = -1 \<or> i \<le> j) \<and> rangeHeaders i j = Some [(''Range'', rng)] \<longrightarrow> i < int (length d) \<and> delivers (byteRange i j d) (rp_Body resp))))"
    and heads: "inv s \<Longrightarrow> decodeReq ep rq = Some (HeadOp b k) \<Longrightarrow> send c rq s = (Inr resp, s') \<Longrightarrow>
      (rp_StatusCode resp = 404 \<longrightarrow> obj s b k = None) \<and>
      (rp_StatusCode resp = 200 \<longrightarrow> (\<exists>d. obj s b k = Some d \<and> headerGet (rp_Header resp) ''Content-Length'' = FormatInt (int (length d))))"
    and lists: "inv s \<Longrightarrow> decodeReq ep rq = Some (ListOp b px token marker) \<Longrightarrow> send c rq s = (Inr resp, s') \<Longrightarrow>
      rp_StatusCode resp = 200 \<Longrightarrow> rp_Body resp = (data, None) \<Longrightarrow>
      \<exists>page. he_xmlList E data = Inr page \<and> page_ok (remaining s b px token marker) (remaining s b px) page"
    and listed: "inv s \<Longrightarrow> obj s b k \<noteq> None \<Longrightarrow> HasPrefix k px \<Longrightarrow> k \<in> set (remaining s b px [] [])"
    and initiates: "inv s \<Longrightarrow> decodeReq ep rq = Some (InitiateOp b k) \<Longrightarrow> send c rq s = (r, s') \<Longrightarrow>
      obj s' = obj s \<and> (\<forall>resp data u. r = Inr resp \<and> rp_StatusCode resp = 200 \<and> rp_Body resp = (data, None) \<and>
         he_xmlInitiate E data = Inr u \<longrightarrow> parts s' b k u = Some Map.empty)"
    and uploads: "inv s \<Longrightarrow> decodeReq ep rq = Some (UploadOp b k u n d) \<Longrightarrow> parts s b k u = Some m \<Longrightarrow> send c rq s = (r, s') \<Longrightarrow>
      obj s' = obj s \<and> (parts s' b k u = Some m \<or> (\<exists>t. parts s' b k u = Some (m(n \<mapsto> (t, d))))) \<and>
      (\<forall>resp. r = Inr resp \<and> rp_StatusCode resp = 200 \<longrightarrow>
         parts s' b k u = Some (m(n \<mapsto> (TrimSpace (headerGet (rp_Header resp) ''Etag''), d))))"
    and completes: "inv s \<Longrightarrow> decodeReq ep rq = Some (CompleteOp b k u xml) \<Longrightarrow> parts s b k u = Some m \<Longrightarrow>
      he_xmlComplete E (sortedParts etags) = Inr xml \<Longrightarrow> tags_of m etags \<Longrightarrow> send c rq s = (r, s') \<Longrightarrow>
      (\<forall>b' k'. (b', k') \<noteq> (b, k) \<longrightarrow> obj s' b' k' = obj s b' k') \<and>
      (obj s' b k = Some (assemble m etags) \<and> parts s' b k u = None \<or> obj s' b k = obj s b k \<and> parts s' b k u = Some m) \<and>
      (\<forall>resp data. r = Inr resp \<and> rp_StatusCode resp = 200 \<and> rp_Body resp = (data, None) \<longrightarrow>
         he_xmlError E data \<noteq> Inr ''NoSuchUpload'' \<and> (\<forall>e. he_xmlError E data = Inl e \<longrightarrow> obj s' b k = Some (assemble m etags)))"
    and gone: "inv s \<Longrightarrow> decodeReq ep rq = Some (CompleteOp b k u xml) \<Longrightarrow> parts s b k u = None \<Longrightarrow> send c rq s = (r, s') \<Longrightarrow>
      obj s' = obj s \<and> parts s' b k u = None \<and>
      (\<forall>resp data e. r = Inr resp \<and> rp_StatusCode resp = 200 \<and> rp_Body resp = (data, None) \<and> he_xmlError E data = Inl e \<longrightarrow> obj s b k \<noteq> None)"
    and aborts: "inv s \<Longrightarrow> decodeReq ep rq = Some (AbortOp b k u) \<Longrightarrow> u \<noteq> [] \<Longrightarrow> send c rq s = (r, s') \<Longrightarrow> obj s' = obj s"
    and puts: "inv s \<Longrightarrow> decodeReq ep rq = Some (PutOp b k d) \<Longrightarrow> send c rq s = (r, s') \<Longrightarrow>
      (\<forall>b' k'. (b', k') \<noteq> (b, k) \<longrightarrow> obj s' b' k' = obj s b' k') \<and> (obj s' b k = Some d \<or> obj s' b k = obj s b k) \<and>
      (\<forall>resp. r = Inr resp \<and> rp_StatusCode resp \<in> {200, 201, 204} \<longrightarrow> obj s' b k = Some d)"
    and deletes: "inv s \<Longrightarrow> decodeReq ep rq = Some (DeleteOp b k) \<Longrightarrow> send c rq s = (r, s') \<Longrightarrow>
      (\<forall>b' k'. (b', k') \<noteq> (b, k) \<longrightarrow> obj s' b' k' = obj s b' k') \<and> (obj s' b k = None \<or> obj s' b k = obj s b k) \<and>
      (\<forall>resp. r = Inr resp \<and> rp_StatusCode resp \<in> {200, 202, 204, 404} \<longrightarrow> obj s' b k = None)"

text \<open>A client set up for that server, with contexts that end by cancellation or deadline.\<close>

locale http_client = s3_server obj parts remaining inv ep send E
  for obj parts remaining and inv :: "'s \<Rightarrow> bool" and ep send E +
  fixes h :: "'s HTTPStorageClient"
  assumes endpoint: "hc_endpoint h = ep" and transport: "hc_client h = send"
    and contexts: "ctx_ok (he_attempts E c s)" and parse_errs: "he_parseURL E u = Some e \<Longrightarrow> plain_err e"

section \<open>One request\<close>

lemma onResponse_cases:
  assumes "onResponse r f = (x, s')"
  obtains (lost) e where "r = (Inl e, s')" "x = Inl e" | (answered) resp where "r = (Inr resp, s')" "x = f resp"
  using assms by (auto simp: onResponse_def split: prod.splits sum.splits)

lemma statusError_simps [simp]: "errIs (statusError resp up) ErrNotFound \<longleftrightarrow> rp_StatusCode resp = 404"
  by (simp add: statusError_def Let_def)

lemma plain_invalid [simp]: "plain_err invalidResponse" "plain_err (PermanentError invalidResponse)"
  by (simp_all add: plain_err_def invalidResponse_def)

lemma ReadAll_cases: "ReadAll body = Inr d \<longleftrightarrow> body = (d, None)" "ReadAll body = Inl e \<longleftrightarrow> snd body = Some e"
  by (cases body; cases "snd body"; auto simp: ReadAll_def)+

context http_client
begin

lemma request_cases:
  assumes "doRequest E h c mth u body hs s = (r, s')" and "inv s"
  obtains (bad) e where "r = Inl e" "plain_err e" "s' = s"
    | (sent) rq where "send c rq s = (r, s')" "rq_Method rq = mth" "rq_URL rq = u" "rq_Body rq = body"
        "rq_Header rq = setHeaders hs (setHeaders (hc_headers h) [])" "inv s'" "\<And>e. r = Inl e \<Longrightarrow> plain_err e"
        "\<And>resp e. r = Inr resp \<Longrightarrow> snd (rp_Body resp) = Some e \<Longrightarrow> plain_err e"
proof (cases "he_parseURL E u")
  case None
  let ?rq = "\<lparr>rq_Method = mth, rq_URL = u, rq_Header = setHeaders hs (setHeaders (hc_headers h) []), rq_Body = body\<rparr>"
  from None assms have send: "send c ?rq s = (r, s')" by (simp add: doRequest_def transport)
  from sent [OF send] sends [OF assms(2) send] show ?thesis by auto
next
  case (Some e)
  with assms bad parse_errs [OF Some] show ?thesis by (auto simp: doRequest_def plain_err_def)
qed

lemma answered_request:
  assumes "doRequest E h c mth u body hs s = (Inr resp, s')" and "inv s"
  obtains rq where "send c rq s = (Inr resp, s')" "rq_Method rq = mth" "rq_URL rq = u" "rq_Body rq = body"
    "rq_Header rq = setHeaders hs (setHeaders (hc_headers h) [])" "inv s'"
  using assms by (cases rule: request_cases) (simp, blast intro: that)

text \<open>A read leaves the store as it is, whatever its outcome.\<close>

lemma request_reads:
  assumes "doRequest E h c mth u body hs t = (r, s')" and "same s t" and "mth = ''GET'' \<or> mth = ''HEAD''"
  shows "same s s'"
proof -
  have inv: "inv t" using assms(2) by (simp add: same_def)
  from assms(1) inv show ?thesis
  proof (cases rule: request_cases)
    case (bad e)
    with assms(2) show ?thesis by simp
  next
    case (sent rq)
    with reads [OF inv, of rq c r s'] assms(2,3) show ?thesis by (auto simp: same_def)
  qed
qed

lemma httpDo_spec:
  assumes "httpDo E h c timeout fn s = (r, s')" and "P s" and "\<And>t r s'. fn t = (r, s') \<Longrightarrow> P t \<Longrightarrow> P s' \<and> Q r s'"
    and "\<And>e e' s'. Q (Inl e) s' \<Longrightarrow> wrapped e e' \<Longrightarrow> Q (Inl e') s'"
  shows "P s' \<and> Q r s'"
  by (rule callDo_spec [OF assms(1) [unfolded httpDo_def] contexts, of P Q]) (fact assms)+

section \<open>Reading\<close>

lemma sizeTry_spec:
  assumes "sizeTry E h c (buildURL ep b k []) t = (r, s')" and "same s t" and "url_name b k"
  shows "same s s' \<and> read_ok s b k (\<lambda>d n. n = int (length d)) r"
  using assms(1) [unfolded sizeTry_def]
proof (cases rule: onResponse_cases)
  case (lost e)
  have inv: "inv t" using assms(2) by (simp add: same_def)
  from lost(1) inv have "plain_err e" by (cases rule: request_cases) auto
  with request_reads [OF lost(1) assms(2)] lost show ?thesis by (auto simp: plain_err_def read_ok_def)
next
  case (answered resp)
  have inv: "inv t" "obj t = obj s" using assms(2) by (simp_all add: same_def)
  from answered(1) inv(1) obtain rq where rq: "send c rq t = (Inr resp, s')" "decodeReq ep rq = Some (HeadOp b k)"
    by (cases rule: request_cases) (auto intro: decode_plain(1) [OF assms(3)])
  have parse: "n = int (length d)" if "ParseInt (FormatInt (int (length d))) = Some n" for n d
    using that by (auto simp: ParseInt_def parseDec_FormatInt split: if_splits)
  from answered(2) heads [OF inv(1) rq(2,1)] inv(2) request_reads [OF answered(1) assms(2)] show ?thesis
    by (auto simp: read_ok_def Let_def invalidResponse_def split: if_splits option.splits dest: parse)
qed

lemma size_spec:
  assumes "httpGetObjectSize E h c b k s = (r, s')" and "inv s" and "url_name b k"
  shows "same s s' \<and> read_ok s b k (\<lambda>d n. n = int (length d)) r"
  by (rule httpDo_spec [OF assms(1) [unfolded httpGetObjectSize_def endpoint], where P = "same s" and Q = "\<lambda>r _. read_ok s b k _ r"])
    (use same_start [OF assms(2)] sizeTry_spec [OF _ _ assms(3)] read_ok_wrapped in auto)

end

text \<open>Skipping and limiting a body.\<close>

lemma delivers_skip:
  assumes "delivers d body" and "skipBytes i body = Inr body'"
  shows "delivers (drop (nat i) d) body'"
  using assms by (auto simp: delivers_def skipBytes_def drop_take split: if_splits)

lemma delivers_skip_error: "delivers d body \<Longrightarrow> skipBytes i body = Inl e \<Longrightarrow> plain_err (Errorf [e])"
  by (auto simp: delivers_def skipBytes_def plain_err_def split: if_splits)

lemma delivers_limit:
  assumes "delivers d body" and "0 \<le> n"
  shows "delivers (take (nat n) d) (limitReader n body)"
  using assms(1) unfolding delivers_def
proof (elim disjE exE conjE)
  assume "body = (d, None)"
  then show "limitReader n body = (take (nat n) d, None) \<or>
      (\<exists>m e. limitReader n body = (take m (take (nat n) d), Some e) \<and> plain_err e)"
    by (simp add: limitReader_def)
next
  fix m e assume b: "body = (take m d, Some e)" "plain_err e"
  show "limitReader n body = (take (nat n) d, None) \<or>
      (\<exists>m e. limitReader n body = (take m (take (nat n) d), Some e) \<and> plain_err e)"
  proof (cases "n \<le> int (length (take m d))")
    case True
    then have "take (nat n) (take m d) = take (nat n) d" using assms(2) by (auto simp: min_def split: if_splits)
    with True b show ?thesis by (simp add: limitReader_def)
  next
    case False
    then have "limitReader n body = (take m (take (nat n) d), Some e)" by (simp add: limitReader_def b take_take min.commute)
    with b(2) show ?thesis by blast
  qed
qed

text \<open>The body the client returns for a range, whether the server honours it or sends the whole object.\<close>

lemma rangeBody_whole:
  assumes "delivers d (rp_Body resp)" and "0 \<le> i" and "j = -1 \<or> i \<le> j \<and> is_int64 (j - i + 1)" and "rp_StatusCode resp = 200"
  shows "(\<exists>e. rangeBody i j ranged resp = Inl e \<and> plain_err e) \<or>
    (\<exists>out. rangeBody i j ranged resp = Inr out \<and> delivers (byteRange i j d) out)"
proof -
  let ?skip = "if 0 < i then skipBytes i (rp_Body resp) else Inr (rp_Body resp)"
  show ?thesis
  proof (cases ?skip)
    case (Inl e)
    then have "skipBytes i (rp_Body resp) = Inl e" by (simp split: if_splits)
    with Inl delivers_skip_error [OF assms(1)] show ?thesis using assms(4) by (auto simp: rangeBody_def)
  next
    case (Inr body)
    then have body: "delivers (drop (nat i) d) body" using assms(1,2) delivers_skip [OF assms(1), of i body] by (auto split: if_splits)
    have out: "rangeBody i j ranged resp = Inr (if j = -1 then body else limitReader (wrap64 (j - i + 1)) body)"
      using Inr assms(4) by (simp add: rangeBody_def)
    show ?thesis
    proof (cases "j = -1")
      case True
      with out body show ?thesis by (simp add: byteRange_def)
    next
      case False
      with assms(3) have "wrap64 (j - i + 1) = j - i + 1" "0 \<le> j - i + 1" by (simp_all add: wrap64_id)
      with out False delivers_limit [OF body, of "j - i + 1"] show ?thesis by (simp add: byteRange_def)
    qed
  qed
qed

lemma rangeBody_error: "rangeBody i j ranged resp = Inl e \<Longrightarrow> rp_StatusCode resp \<noteq> 200 \<Longrightarrow> errIs e ErrNotFound \<longleftrightarrow> rp_StatusCode resp = 404"
  by (auto simp: rangeBody_def split: if_splits)

lemma rangeBody_status:
  "rangeBody i j ranged resp = Inr out \<Longrightarrow> rp_StatusCode resp = 200 \<or> rp_StatusCode resp = 206 \<and> ranged \<and> out = rp_Body resp"
  by (auto simp: rangeBody_def split: if_splits)

lemma range_header_sent:
  assumes "rangeHeaders i j = Some hs"
  obtains v where "hs = [(''Range'', v)]" "headerGet (setHeaders hs acc) ''Range'' = v"
proof -
  have canon: "CanonicalHeaderKey ''Range'' = ''Range''" by code_simp
  obtain v where v: "hs = [(''Range'', v)]" using assms by (auto simp: rangeHeaders_def split: if_splits)
  show ?thesis by (rule that [OF v]) (simp add: v setHeaders_def canon headerGet_def update_conv)
qed

context http_client
begin

lemma rangeTry_spec:
  assumes "rangeTry E h c (buildURL ep b k []) i j t = (r, s')" and "same s t" and "url_name b k" and "valid_range i j"
  shows "same s s' \<and> read_ok s b k (\<lambda>d. delivers (byteRange i j d)) r"
proof -
  let ?hs = "case rangeHeaders i j of None \<Rightarrow> [] | Some hs \<Rightarrow> hs"
  have inv: "inv t" "obj t = obj s" using assms(2) by (simp_all add: same_def)
  from assms(1) [unfolded rangeTry_def Let_def] show ?thesis
  proof (cases rule: onResponse_cases)
    case (lost e)
    from lost(1) inv(1) have "plain_err e" by (cases rule: request_cases) auto
    with request_reads [OF lost(1) assms(2)] lost show ?thesis by (auto simp: plain_err_def read_ok_def)
  next
    case (answered resp)
    obtain rq where rq: "send c rq t = (Inr resp, s')" "rq_Method rq = ''GET''" "rq_URL rq = buildURL ep b k []"
        "rq_Header rq = setHeaders ?hs (setHeaders (hc_headers h) [])"
      using answered_request [OF answered(1) inv(1)] by blast
    note law = gets [OF inv(1) decode_plain(2) [OF assms(3) rq(3,2)] rq(1), unfolded inv(2)]
    have keep: "same s s'" by (rule request_reads [OF answered(1) assms(2)]) simp
    consider (whole) "rp_StatusCode resp = 200" | (part) "rp_StatusCode resp \<noteq> 200" by blast
    then show ?thesis
    proof cases
      case whole
      with law obtain d where d: "obj s b k = Some d" "delivers d (rp_Body resp)" by auto
      show ?thesis
        using rangeBody_whole [OF d(2) _ _ whole, of i j "rangeHeaders i j \<noteq> None"] assms(4) d(1) keep answered(2)
        by (auto simp: valid_range_def plain_err_def read_ok_def)
    next
      case part
      show ?thesis
      proof (cases r)
        case (Inl e)
        with answered(2) rangeBody_error [OF _ part] have "errIs e ErrNotFound \<longrightarrow> rp_StatusCode resp = 404" by metis
        with Inl law keep show ?thesis unfolding read_ok_def by blast
      next
        case (Inr out)
        with part answered(2) rangeBody_status [of i j _ resp out] obtain hs where
          hs: "rp_StatusCode resp = 206" "rangeHeaders i j = Some hs" "out = rp_Body resp" by auto
        from hs(2) obtain v where "hs = [(''Range'', v)]" "headerGet (rq_Header rq) ''Range'' = v"
          by (rule range_header_sent) (auto simp: rq(4) hs(2))
        with law hs assms(4) show ?thesis by (auto simp: valid_range_def read_ok_def Inr keep)
      qed
    qed
  qed
qed

lemma range_spec:
  assumes "httpGetObjectRange E h c b k i j s = (r, s')" and "inv s" and "url_name b k" and "valid_range i j"
  shows "same s s' \<and> read_ok s b k (\<lambda>d. delivers (byteRange i j d)) r"
proof -
  have call: "httpDo E h c 0 (rangeTry E h c (buildURL ep b k []) i j) s = (r, s')"
    using assms(1,4) by (auto simp: httpGetObjectRange_def endpoint valid_range_def)
  show ?thesis
    by (rule httpDo_spec [OF call, where P = "same s" and Q = "\<lambda>r _. read_ok s b k _ r"])
      (use same_start [OF assms(2)] rangeTry_spec [OF _ _ assms(3,4)] read_ok_wrapped in auto)
qed

section \<open>Listing\<close>

lemma listTry_spec:
  assumes "listTry E h c (buildURL ep b [] (listQuery px token marker)) t = (r, s')" and "same s t"
  shows "same s s'" and "b \<noteq> [] \<Longrightarrow> CHR ''/'' \<notin> set b \<Longrightarrow> r = Inr page \<Longrightarrow>
    page_ok (remaining s b px token marker) (remaining s b px) page"
proof -
  have inv: "inv t" "remaining t = remaining s" using assms(2) by (simp_all add: same_def)
  from assms(1) [unfolded listTry_def] show "same s s'"
    by (cases rule: onResponse_cases) (auto intro: request_reads [OF _ assms(2)])
  assume b: "b \<noteq> []" "CHR ''/'' \<notin> set b" and r: "r = Inr page"
  from assms(1) [unfolded listTry_def] show "page_ok (remaining s b px token marker) (remaining s b px) page"
  proof (cases rule: onResponse_cases)
    case (lost e)
    with r show ?thesis by simp
  next
    case (answered resp)
    from answered(2) r obtain data where data: "rp_StatusCode resp = 200" "rp_Body resp = (data, None)" "he_xmlList E data = Inr page"
      by (auto simp: ReadAll_cases split: if_splits sum.splits)
    obtain rq where rq: "send c rq t = (Inr resp, s')" "rq_Method rq = ''GET''"
        "rq_URL rq = buildURL ep b [] (listQuery px token marker)"
      using answered_request [OF answered(1) inv(1)] by blast
    from lists [OF inv(1) decode_list [OF b rq(3,2)] rq(1) data(1,2)] data(3) inv(2) show ?thesis by simp
  qed
qed

text \<open>One page of the loop: the call fails, or it returns a page of the listing.\<close>

lemma list_page:
  assumes "httpDo E h c MetadataAttemptTimeout (listTry E h c (buildURL ep b [] (listQuery px token marker))) t = (r, s')" and "same s t"
  shows "same s s'" and "b \<noteq> [] \<Longrightarrow> CHR ''/'' \<notin> set b \<Longrightarrow> r = Inr page \<Longrightarrow>
    page_ok (remaining s b px token marker) (remaining s b px) page"
proof -
  let ?Q = "\<lambda>r (s'::'a). \<forall>page. b \<noteq> [] \<and> CHR ''/'' \<notin> set b \<and> r = Inr page \<longrightarrow> page_ok (remaining s b px token marker) (remaining s b px) page"
  have "same s s' \<and> ?Q r s'"
    by (rule httpDo_spec [OF assms(1), where P = "same s" and Q = ?Q]) (use assms(2) listTry_spec in auto)
  then show "same s s'" and "b \<noteq> [] \<Longrightarrow> CHR ''/'' \<notin> set b \<Longrightarrow> r = Inr page \<Longrightarrow>
    page_ok (remaining s b px token marker) (remaining s b px) page" by blast+
qed

text \<open>After a page of a conforming server the cursor advances and the keys after the page are left.\<close>

lemma cursor_advances:
  assumes "page_ok left after page" and "lb_IsTruncated page" and "left = after token marker" and "token = [] \<or> marker = []"
  obtains token' marker' where "nextCursor page token marker = Inr (token', marker')" "token' = [] \<or> marker' = []"
    "left = map lo_Key (lb_Contents page) @ after token' marker'" "length (after token' marker') < length left"
proof -
  obtain rest where rest: "left = map lo_Key (lb_Contents page) @ rest" "lb_Contents page \<noteq> []"
    "if lb_NextContinuationToken page \<noteq> [] then after (lb_NextContinuationToken page) [] = rest
         else pageMarker page \<noteq> [] \<and> after [] (pageMarker page) = rest"
    using assms(1,2) by (auto simp: page_ok_def)
  then have shorter: "rest \<noteq> left" by auto
  show ?thesis
  proof (cases "lb_NextContinuationToken page = []")
    case True
    with rest(3) have m: "pageMarker page \<noteq> []" "after [] (pageMarker page) = rest" by simp_all
    then have "pageMarker page \<noteq> marker" using shorter assms(3,4) by auto
    with True m have "nextCursor page token marker = Inr ([], pageMarker page)" by (simp add: nextCursor_def)
    from that [OF this] rest m show ?thesis by simp
  next
    case False
    with rest(3) have m: "after (lb_NextContinuationToken page) [] = rest" by simp
    then have "lb_NextContinuationToken page \<noteq> token" using shorter assms(3,4) False by auto
    with False have "nextCursor page token marker = Inr (lb_NextContinuationToken page, [])" by (simp add: nextCursor_def)
    from that [OF this] rest m show ?thesis by simp
  qed
qed

lemma list_loop_spec:
  assumes "b \<noteq> []" and "CHR ''/'' \<notin> set b"
  shows "same s t \<Longrightarrow> token = [] \<or> marker = [] \<Longrightarrow> listLoop fuel E h c b px token marker acc t = Some (r, s') \<Longrightarrow>
    same s s' \<and> (\<forall>os. r = Inr os \<longrightarrow> map oi_Name os = map oi_Name acc @ remaining s b px token marker)"
proof (induction fuel arbitrary: token marker acc t)
  case (Suc fuel)
  obtain rp s1 where call: "httpDo E h c MetadataAttemptTimeout (listTry E h c (buildURL ep b [] (listQuery px token marker))) t = (rp, s1)"
    by fastforce
  note page = list_page [OF call Suc.prems(1)]
  have names: "map oi_Name (map objectInfo xs) = map lo_Key xs" for xs by (simp add: objectInfo_def)
  show ?case
  proof (cases rp)
    case (Inl e)
    with Suc.prems(3) call page(1) show ?thesis by (auto simp: endpoint)
  next
    case (Inr pg)
    note ok = page(2) [OF assms Inr]
    show ?thesis
    proof (cases "lb_IsTruncated pg")
      case False
      with ok have "remaining s b px token marker = map lo_Key (lb_Contents pg)" by (simp add: page_ok_def)
      with False Suc.prems(3) call Inr page(1) names show ?thesis by (auto simp: endpoint)
    next
      case True
      from cursor_advances [OF ok True refl Suc.prems(2)] obtain token' marker' where
        cur: "nextCursor pg token marker = Inr (token', marker')" "token' = [] \<or> marker' = []"
        "remaining s b px token marker = map lo_Key (lb_Contents pg) @ remaining s b px token' marker'" by blast
      from Suc.prems(3) have "listLoop fuel E h c b px token' marker' (acc @ map objectInfo (lb_Contents pg)) s1 = Some (r, s')"
        by (simp add: call [folded endpoint] Inr True cur(1) Let_def)
      from Suc.IH [OF page(1) cur(2) this] names show ?thesis by (simp add: cur(3))
    qed
  qed
qed simp

lemma list_loop_returns:
  assumes "b \<noteq> []" and "CHR ''/'' \<notin> set b"
  shows "same s t \<Longrightarrow> token = [] \<or> marker = [] \<Longrightarrow> length (remaining s b px token marker) < fuel \<Longrightarrow>
    \<exists>r s'. listLoop fuel E h c b px token marker acc t = Some (r, s')"
proof (induction fuel arbitrary: token marker acc t)
  case (Suc fuel)
  obtain rp s1 where call: "httpDo E h c MetadataAttemptTimeout (listTry E h c (buildURL ep b [] (listQuery px token marker))) t = (rp, s1)"
    by fastforce
  note page = list_page [OF call Suc.prems(1)]
  show ?case
  proof (cases rp)
    case (Inl e)
    then show ?thesis by (simp add: call [folded endpoint])
  next
    case (Inr pg)
    show ?thesis
    proof (cases "lb_IsTruncated pg")
      case False
      then show ?thesis by (simp add: call [folded endpoint] Inr)
    next
      case True
      from cursor_advances [OF page(2) [OF assms Inr] True refl Suc.prems(2)] obtain token' marker' where
        cur: "nextCursor pg token marker = Inr (token', marker')" "token' = [] \<or> marker' = []"
        "length (remaining s b px token' marker') < length (remaining s b px token marker)" by blast
      from cur(3) Suc.prems(3) have "length (remaining s b px token' marker') < fuel" by simp
      from Suc.IH [OF page(1) cur(2) this] show ?thesis by (simp add: call [folded endpoint] Inr True cur(1) Let_def)
    qed
  qed
qed simp

lemma list_loop_same: "same s t \<Longrightarrow> listLoop fuel E h c b px token marker acc t = Some (r, s') \<Longrightarrow> same s s'"
proof (induction fuel arbitrary: token marker acc t)
  case (Suc fuel)
  obtain rp s1 where call: "httpDo E h c MetadataAttemptTimeout (listTry E h c (buildURL ep b [] (listQuery px token marker))) t = (rp, s1)"
    by fastforce
  note page = list_page(1) [OF call Suc.prems(1)]
  with Suc.prems(2) Suc.IH [OF page] show ?case
    by (auto simp: call [folded endpoint] Let_def split: sum.splits if_splits)
qed simp

lemma list_spec:
  assumes "httpListObjects E h c b px s = (r, s')" and "inv s"
  shows "same s s' \<and> (\<forall>os. r = Inr os \<and> b \<noteq> [] \<and> CHR ''/'' \<notin> set b \<longrightarrow> map oi_Name os = remaining s b px [] [])"
proof (cases "listLoop (he_pages E) E h c b px [] [] [] s")
  case None
  with assms show ?thesis by (auto simp: httpListObjects_def same_def)
next
  case (Some res)
  with assms(1) have res: "listLoop (he_pages E) E h c b px [] [] [] s = Some (r, s')" by (simp add: httpListObjects_def)
  have start: "same s s" using assms(2) by (simp add: same_def)
  from list_loop_same [OF start res] list_loop_spec [OF _ _ start _ res] show ?thesis by auto
qed

section \<open>Writing\<close>

text \<open>A request followed by the reading of its answer: no answer, or an answer to a request the server understood.\<close>

lemma try_cases:
  assumes "onResponse (doRequest E h c mth u body hs t) f = (r, s')" and "inv t"
  obtains (unsent) e where "r = Inl e" "plain_err e" "s' = t"
    | (lost) rq e where "r = Inl e" "plain_err e" "send c rq t = (Inl e, s')" "rq_Method rq = mth" "rq_URL rq = u" "rq_Body rq = body" "inv s'"
    | (answered) rq resp where "r = f resp" "send c rq t = (Inr resp, s')" "rq_Method rq = mth" "rq_URL rq = u" "rq_Body rq = body" "inv s'"
  using assms(1)
proof (cases rule: onResponse_cases)
  case (lost e)
  from lost(1) assms(2) show ?thesis
    by (cases rule: request_cases) (use lost(2) that(1,2) in auto)
next
  case (answered resp)
  from answered_request [OF answered(1) assms(2)] answered(2) that(3) show ?thesis by metis
qed

lemma putTry_spec:
  assumes "putTry E h c (buildURL ep b k []) d t = (r, s')" and "changing b k (Some d) s t" and "url_name b k"
  shows "changing b k (Some d) s s' \<and> (\<forall>x. r = Inr x \<longrightarrow> obj s' b k = Some d)"
proof -
  have inv: "inv t" using assms(2) by (simp add: changing_def)
  have law: "changing b k (Some d) s s' \<and> (\<forall>resp. r' = Inr resp \<and> rp_StatusCode resp \<in> {200, 201, 204} \<longrightarrow> obj s' b k = Some d)"
    if "send c rq t = (r', s')" "rq_Method rq = ''PUT''" "rq_URL rq = buildURL ep b k []" "rq_Body rq = d" "inv s'" for rq r'
    using puts [OF inv decode_plain(3) [OF assms(3) that(3,2), unfolded that(4)] that(1)] changing_step [OF assms(2) that(5)] by blast
  from assms(1) [unfolded putTry_def] inv show ?thesis
    by (cases rule: try_cases) (use assms(2) law in \<open>auto split: if_splits\<close>)
qed

lemma put_spec:
  assumes "httpPutObject E h c b k d s = (oe, s')" and "inv s" and "url_name b k"
  shows "changing b k (Some d) s s' \<and> (oe = None \<longrightarrow> obj s' b k = Some d)"
proof -
  obtain r where call: "httpDo E h c (UploadAttemptTimeout (int (length d))) (putTry E h c (buildURL ep b k []) d) s = (r, s')"
    and oe: "oe = errorOf r" using assms(1) by (auto simp: httpPutObject_def endpoint map_prod_def split: prod.splits)
  have "changing b k (Some d) s s' \<and> (\<forall>x. r = Inr x \<longrightarrow> obj s' b k = Some d)"
    by (rule httpDo_spec [OF call, where P = "changing b k (Some d) s" and Q = "\<lambda>r s'. \<forall>x. r = Inr x \<longrightarrow> obj s' b k = Some d"])
      (use changing_start [OF assms(2)] putTry_spec [OF _ _ assms(3)] in auto)
  then show ?thesis by (auto simp: oe)
qed

lemma deleteTry_spec:
  assumes "deleteTry E h c (buildURL ep b k []) t = (r, s')" and "changing b k None s t" and "url_name b k"
  shows "changing b k None s s' \<and> ((\<exists>x. r = Inr x) \<or> (\<exists>e. r = Inl e \<and> errIs e ErrNotFound) \<longrightarrow> obj s' b k = None)"
proof -
  have inv: "inv t" using assms(2) by (simp add: changing_def)
  have law: "changing b k None s s' \<and> (\<forall>resp. r' = Inr resp \<and> rp_StatusCode resp \<in> {200, 202, 204, 404} \<longrightarrow> obj s' b k = None)"
    if "send c rq t = (r', s')" "rq_Method rq = ''DELETE''" "rq_URL rq = buildURL ep b k []" "inv s'" for rq r'
    using deletes [OF inv decode_plain(4) [OF assms(3) that(3,2)] that(1)] changing_step [OF assms(2) that(4)] by blast
  from assms(1) [unfolded deleteTry_def] inv show ?thesis
    by (cases rule: try_cases) (use assms(2) law in \<open>auto simp: plain_err_def split: if_splits\<close>)
qed

lemma delete_spec:
  assumes "httpDeleteObject E h c b k s = (oe, s')" and "inv s" and "url_name b k"
  shows "changing b k None s s' \<and> (oe = None \<or> errIs (the oe) ErrNotFound \<longrightarrow> obj s' b k = None)"
proof -
  let ?Q = "\<lambda>r s'. (\<exists>x. r = Inr x) \<or> (\<exists>e. r = Inl e \<and> errIs e ErrNotFound) \<longrightarrow> obj s' b k = None"
  obtain r where call: "httpDo E h c MetadataAttemptTimeout (deleteTry E h c (buildURL ep b k [])) s = (r, s')"
    and oe: "oe = errorOf r" using assms(1) by (auto simp: httpDeleteObject_def endpoint map_prod_def split: prod.splits)
  have "changing b k None s s' \<and> ?Q r s'"
    by (rule httpDo_spec [OF call, where P = "changing b k None s" and Q = ?Q])
      (use changing_start [OF assms(2)] deleteTry_spec [OF _ _ assms(3)] in \<open>auto simp: wrapped_not_found\<close>)
  then show ?thesis by (cases r) (auto simp: oe)
qed

end

end
