(* ===== verification/HttpUpload.thy ===== *)
theory HttpUpload
  imports HttpClient
begin

text \<open>
  Multipart uploads of the HTTP client, and the contract of the whole client: over a conforming server it
  keeps the laws of \<open>object_client\<close>. A response that is lost after the server has assembled the object is
  the delicate case of \<open>Complete\<close>: the retry meets an upload that no longer exists.
\<close>

context http_client
begin

section \<open>Starting, filling and aborting an upload\<close>

lemma initiate_spec:
  assumes "httpInitiate E h c b k s = (r, s')" and "inv s" and "url_name b k"
  shows "(inv s' \<and> obj s' = obj s) \<and> (\<forall>u. r = Inr u \<longrightarrow> u \<noteq> [] \<and> parts s' b k u = Some Map.empty)"
proof (rule httpDo_spec [OF assms(1) [unfolded httpInitiate_def endpoint], where P = "\<lambda>t. inv t \<and> obj t = obj s"
      and Q = "\<lambda>r s'. \<forall>u. r = Inr u \<longrightarrow> u \<noteq> [] \<and> parts s' b k u = Some Map.empty"])
  fix t r s' assume run: "initiateTry E h c (buildURL ep b k ''uploads'') t = (r, s')" and t: "inv t \<and> obj t = obj s"
  have law: "obj s' = obj s \<and> (\<forall>resp data u. r' = Inr resp \<and> rp_StatusCode resp = 200 \<and> rp_Body resp = (data, None) \<and>
       he_xmlInitiate E data = Inr u \<longrightarrow> parts s' b k u = Some Map.empty)"
    if "send c rq t = (r', s')" "rq_Method rq = ''POST''" "rq_URL rq = buildURL ep b k ''uploads''" for rq r'
    using initiates [OF _ decode_initiate [OF assms(3) that(3,2)] that(1)] t by auto
  from run [unfolded initiateTry_def] t [THEN conjunct1]
  show "(inv s' \<and> obj s' = obj s) \<and> (\<forall>u. r = Inr u \<longrightarrow> u \<noteq> [] \<and> parts s' b k u = Some Map.empty)"
    by (cases rule: try_cases) (use t law in \<open>auto simp: ReadAll_cases split: if_splits sum.splits\<close>)
qed (use assms(2) in auto)

lemma uploadPart_spec:
  assumes "httpUploadPart E h c b k u n d s = (r, s')" and "inv s" and "url_name b k" and "parts s b k u = Some m"
  shows "storing b k u m n d s s' \<and> (\<forall>x. r = Inr x \<longrightarrow> parts s' b k u = Some (m(n \<mapsto> (x, d))))"
proof (rule httpDo_spec [OF assms(1) [unfolded httpUploadPart_def Let_def endpoint], where P = "storing b k u m n d s"
      and Q = "\<lambda>r s'. \<forall>x. r = Inr x \<longrightarrow> parts s' b k u = Some (m(n \<mapsto> (x, d)))"])
  let ?url = "buildURL ep b k (valuesEncode [(''partNumber'', FormatInt n), (''uploadId'', u)])"
  fix t r s' assume run: "uploadTry E h c ?url d t = (r, s')" and t: "storing b k u m n d s t"
  from t obtain m' where m': "parts t b k u = Some m'" "\<forall>x. m'(n \<mapsto> (x, d)) = m(n \<mapsto> (x, d))" "inv t" "obj t = obj s"
    "m' = m \<or> (\<exists>x. m' = m(n \<mapsto> (x, d)))" by (rule storingE)
  have law: "storing b k u m n d s s' \<and> (\<forall>resp. r' = Inr resp \<and> rp_StatusCode resp = 200 \<longrightarrow>
       parts s' b k u = Some (m(n \<mapsto> (TrimSpace (headerGet (rp_Header resp) ''Etag''), d))))"
    if sent: "send c rq t = (r', s')" "rq_Method rq = ''PUT''" "rq_URL rq = ?url" "rq_Body rq = d" "inv s'" for rq r'
    using uploads [OF m'(3) decode_part [OF assms(3) sent(3,2), unfolded sent(4)] m'(1) sent(1)] m'(2,4,5) sent(5)
    by (auto simp: storing_def)
  from run [unfolded uploadTry_def] m'(3)
  show "storing b k u m n d s s' \<and> (\<forall>x. r = Inr x \<longrightarrow> parts s' b k u = Some (m(n \<mapsto> (x, d))))"
    by (cases rule: try_cases) (use t law in \<open>auto simp: Let_def split: if_splits\<close>)
qed (use storing_start assms(2,4) in auto)

lemma http_abort_spec:
  assumes "httpAbort E h c b k u s = (oe, s')" and "inv s" and "url_name b k" and "u \<noteq> []"
  shows "inv s' \<and> obj s' = obj s"
proof -
  let ?url = "buildURL ep b k (valuesEncode [(''uploadId'', u)])"
  obtain r where call: "httpDo E h c MetadataAttemptTimeout (abortTry E h c ?url) s = (r, s')"
    using assms(1) by (auto simp: httpAbort_def endpoint Let_def split: prod.splits sum.splits)
  have "(inv s' \<and> obj s' = obj s) \<and> True"
  proof (rule httpDo_spec [OF call, where P = "\<lambda>t. inv t \<and> obj t = obj s" and Q = "\<lambda>_ _. True"])
    fix t r s' assume run: "abortTry E h c ?url t = (r, s')" and t: "inv t \<and> obj t = obj s"
    have law: "obj s' = obj s" if "send c rq t = (r', s')" "rq_Method rq = ''DELETE''" "rq_URL rq = ?url" for rq r'
      using aborts [OF _ decode_upload_id(2) [OF assms(3) that(3,2)] assms(4) that(1)] t by simp
    from run [unfolded abortTry_def] t [THEN conjunct1] show "(inv s' \<and> obj s' = obj s) \<and> True"
      by (cases rule: try_cases) (use t law in auto)
  qed (use assms(2) in auto)
  then show ?thesis by simp
qed

section \<open>Completing an upload\<close>

lemma complete_sent:
  assumes "send c rq t = (r, s')" and "rq_Method rq = ''POST''" and "rq_URL rq = buildURL ep b k (valuesEncode [(''uploadId'', u)])"
    and "rq_Body rq = xml" and "url_name b k" and "he_xmlComplete E (sortedParts etags) = Inr xml" and "tags_of m etags"
    and "completing b k u m (assemble m etags) s t" and "inv s'"
  shows "completing b k u m (assemble m etags) s s' \<and> (\<forall>resp data. r = Inr resp \<and> rp_StatusCode resp = 200 \<and> rp_Body resp = (data, None) \<longrightarrow>
    (he_xmlError E data = Inr ''NoSuchUpload'' \<or> (\<exists>e. he_xmlError E data = Inl e) \<longrightarrow> obj s' b k = Some (assemble m etags)))"
proof -
  note dec = decode_upload_id(1) [OF assms(5,3,2), unfolded assms(4)]
  have inv: "inv t" using assms(8) by (simp add: completing_def)
  show ?thesis
  proof (cases "parts t b k u")
    case None
    with gone [OF inv dec None assms(1)] assms(8,9) show ?thesis by (auto simp: completing_def)
  next
    case (Some m')
    with assms(8) have [simp]: "m' = m" by (auto simp: completing_def)
    from completes [OF inv dec Some assms(6) _ assms(1)] assms(7-9) Some show ?thesis by (auto simp: completing_def)
  qed
qed

lemma completeTry_spec:
  assumes "completeTry E h c b k (buildURL ep b k (valuesEncode [(''uploadId'', u)])) xml t = (r, s')"
    and "url_name b k" and "he_xmlComplete E (sortedParts etags) = Inr xml" and "tags_of m etags"
    and "completing b k u m (assemble m etags) s t"
  shows "completing b k u m (assemble m etags) s s' \<and> (\<forall>x. r = Inr x \<longrightarrow> obj s' b k = Some (assemble m etags))"
proof -
  let ?u = "buildURL ep b k (valuesEncode [(''uploadId'', u)])" and ?d = "assemble m etags"
  have inv: "inv t" using assms(5) by (simp add: completing_def)
  obtain rr s1 where req: "doRequest E h c ''POST'' ?u xml [(''Content-Type'', ''application/xml'')] t = (rr, s1)" by fastforce
  have sent: "inv s1 \<and> completing b k u m ?d s s1 \<and> (\<forall>resp data. rr = Inr resp \<and> rp_StatusCode resp = 200 \<and> rp_Body resp = (data, None) \<longrightarrow>
    (he_xmlError E data = Inr ''NoSuchUpload'' \<or> (\<exists>e. he_xmlError E data = Inl e) \<longrightarrow> obj s1 b k = Some ?d))"
    using req inv by (cases rule: request_cases) (use assms(5) inv complete_sent [OF _ _ _ _ assms(2-5)] in auto)
  note run = assms(1) [unfolded completeTry_def req prod.case]
  show ?thesis
  proof (cases "\<exists>resp data. rr = Inr resp \<and> rp_StatusCode resp = 200 \<and> rp_Body resp = (data, None) \<and> he_xmlError E data = Inr ''NoSuchUpload''")
    case True
    then obtain resp data where gone: "rr = Inr resp" "rp_StatusCode resp = 200" "rp_Body resp = (data, None)" "he_xmlError E data = Inr ''NoSuchUpload''"
      by blast
    obtain rh s2 where head: "httpGetObjectSize E h c b k s1 = (rh, s2)" by fastforce
    have "same s1 s2" using size_spec [OF head _ assms(2)] sent by blast
    moreover have "s' = s2" using run gone head by (auto simp: ReadAll_def split: sum.splits)
    ultimately show ?thesis using completing_same sent gone by (auto simp: same_def)
  next
    case False
    then have "s' = s1 \<and> (\<forall>x. r = Inr x \<longrightarrow> (\<exists>resp data e. rr = Inr resp \<and> rp_StatusCode resp = 200 \<and> rp_Body resp = (data, None) \<and> he_xmlError E data = Inl e))"
      using run by (auto simp: ReadAll_cases split: sum.splits if_splits)
    with sent show ?thesis by blast
  qed
qed

lemma http_complete_spec:
  assumes "httpComplete E h c b k u etags s = (oe, s')" and "inv s" and "url_name b k" and "parts s b k u = Some m" and "tags_of m etags"
  shows "completing b k u m (assemble m etags) s s' \<and> (oe = None \<longrightarrow> obj s' b k = Some (assemble m etags))"
proof (cases "he_xmlComplete E (sortedParts etags)")
  case (Inl e)
  with assms completing_start show ?thesis by (auto simp: httpComplete_def)
next
  case (Inr xml)
  let ?run = "completeTry E h c b k (buildURL ep b k (valuesEncode [(''uploadId'', u)])) xml" and ?P = "completing b k u m (assemble m etags) s"
  let ?Q = "\<lambda>r s'. \<forall>x. r = Inr x \<longrightarrow> obj s' b k = Some (assemble m etags)"
  obtain r where call: "httpDo E h c CompleteAttemptTimeout ?run s = (r, s')" and oe: "oe = errorOf r"
    using assms(1) Inr by (auto simp: httpComplete_def endpoint map_prod_def Let_def split: prod.splits)
  have "?P s' \<and> ?Q r s'"
    by (rule httpDo_spec [OF call, where P = ?P and Q = ?Q])
      (use completing_start assms(2,4) completeTry_spec [OF _ assms(3) Inr assms(5)] in auto)
  then show ?thesis by (auto simp: oe)
qed

text \<open>Completing an upload that is gone changes nothing, and is a success only when there is an object.\<close>

lemma http_complete_gone:
  assumes "httpComplete E h c b k u etags s = (oe, s')" and "inv s" and "url_name b k" and "parts s b k u = None"
  shows "obj s' = obj s \<and> (oe = None \<longrightarrow> obj s b k \<noteq> None)"
proof (cases "he_xmlComplete E (sortedParts etags)")
  case (Inl e)
  with assms show ?thesis by (auto simp: httpComplete_def)
next
  case (Inr xml)
  let ?u = "buildURL ep b k (valuesEncode [(''uploadId'', u)])" and ?P = "\<lambda>t. inv t \<and> obj t = obj s \<and> parts t b k u = None"
  let ?Q = "\<lambda>r s'. \<forall>x. r = Inr x \<longrightarrow> obj s b k \<noteq> None"
  obtain r where call: "httpDo E h c CompleteAttemptTimeout (completeTry E h c b k ?u xml) s = (r, s')" and oe: "oe = errorOf r"
    using assms(1) Inr by (auto simp: httpComplete_def endpoint map_prod_def Let_def split: prod.splits)
  have "?P s' \<and> ?Q r s'"
  proof (rule httpDo_spec [OF call, where P = ?P and Q = ?Q])
    fix t r s' assume run: "completeTry E h c b k ?u xml t = (r, s')" and t: "?P t"
    obtain rr s1 where req: "doRequest E h c ''POST'' ?u xml [(''Content-Type'', ''application/xml'')] t = (rr, s1)" by fastforce
    have s1: "?P s1 \<and> (\<forall>resp data e. rr = Inr resp \<and> rp_StatusCode resp = 200 \<and> rp_Body resp = (data, None) \<and> he_xmlError E data = Inl e \<longrightarrow>
        obj s b k \<noteq> None)"
      using req t [THEN conjunct1]
    proof (cases rule: request_cases)
      case (sent rq)
      note dec = decode_upload_id(1) [OF assms(3) sent(3,2)]
      from gone [OF _ dec _ sent(1)] t sent(6) show ?thesis by auto
    qed (use t in auto)
    obtain rh s2 where head: "httpGetObjectSize E h c b k s1 = (rh, s2)" by fastforce
    from size_spec [OF head _ assms(3)] s1 have s2: "?P s2" "\<And>n. rh = Inr n \<Longrightarrow> obj s b k \<noteq> None"
      by (auto simp: same_def read_ok_def)
    show "?P s' \<and> ?Q r s'"
      using run s1 s2 by (auto simp: completeTry_def req head ReadAll_cases split: sum.splits if_splits)
  qed (use assms(2,4) in auto)
  then show ?thesis by (auto simp: oe)
qed

text \<open>An upload reported gone whose object answers was completed before: the call succeeds.\<close>

lemma http_complete_found:
  assumes "he_xmlComplete E (sortedParts etags) = Inr xml"
    and "doRequest E h c ''POST'' (buildURL ep b k (valuesEncode [(''uploadId'', u)])) xml [(''Content-Type'', ''application/xml'')] s = (Inr resp, s1)"
    and "rp_StatusCode resp = 200" and "rp_Body resp = (data, None)" and "he_xmlError E data = Inr ''NoSuchUpload''"
    and "httpGetObjectSize E h c b k s1 = (Inr n, s2)"
  shows "httpComplete E h c b k u etags s = (None, s2)"
proof -
  have "completeTry E h c b k (buildURL ep b k (valuesEncode [(''uploadId'', u)])) xml s = (Inr (), s2)"
    using assms(2-6) by (simp add: completeTry_def ReadAll_def)
  then show ?thesis by (simp add: httpComplete_def assms(1) endpoint Let_def httpDo_def callDo_first)
qed

section \<open>The client keeps the contract\<close>

lemma client_contract: "object_client (httpClient E h) obj parts url_name inv"
proof (rule contract, goal_cases)
  case (1 s b k c rr s')
  then have "httpGetObjectRange E h c b k 0 (-1) s = (rr, s')" by (simp add: httpClient_def)
  from range_spec [OF this 1(1,2)] show ?case by (simp add: valid_range_def read_ok_def byteRange_def)
next
  case (2 s c b px rl s')
  then have "httpListObjects E h c b px s = (rl, s')" by (simp add: httpClient_def)
  note spec = list_spec [OF this 2(1)]
  have "k \<in> set (map oi_Name os)" if "rl = Inr os" "url_name b k" "HasPrefix k px" "obj s b k \<noteq> None" for os k
    using spec that listed [OF 2(1) that(4,3)] by (metis url_name_def)
  with spec show ?case by blast
next
  case (3 s b k c ri s')
  then show ?case using initiate_spec [of c b k s ri s'] by (simp add: httpClient_def)
next
  case (4 s b k n u m c d ri s')
  then show ?case using uploadPart_spec [of c b k u n d s ri s' m] by (simp add: httpClient_def)
next
  case (5 s b k etags u m c oe s')
  then show ?case using http_complete_spec [of c b k u etags s oe s' m] by (simp add: httpClient_def)
next
  case (6 s b k u c oe s')
  then show ?case using http_abort_spec [of c b k u s oe s'] by (simp add: httpClient_def)
next
  case (7 s b k c d oe s')
  then show ?case using put_spec [of c b k d s oe s'] by (simp add: httpClient_def)
next
  case (8 s b k c oe s')
  then show ?case using delete_spec [of c b k s oe s'] by (simp add: httpClient_def)
qed

end

sublocale http_client \<subseteq> object_client "httpClient E h" obj parts url_name inv
  by (rule client_contract)

end
