(* ===== verification/HttpRef.thy ===== *)
theory HttpRef
  imports HttpUpload Crypto
begin

text \<open>
  A reference S3 server for the HTTP client: it decodes requests with \<open>decodeReq\<close>, keeps the buckets of
  \<open>Bucket\<close>, honours ranges, lists two keys per page, and answers or loses the connection by a script of
  faults. The documents are fields escaped and joined by slashes. It interprets \<open>s3_server\<close>, so the
  laws the client relies on can hold, and the client on it interprets \<open>object_client\<close>.
\<close>

section \<open>Documents\<close>

definition encodeFields :: "string list \<Rightarrow> bytes" where
  "encodeFields fs = str_bytes (Join (map PathEscape fs) ''/'')"

definition decodeFields :: "bytes \<Rightarrow> string list option" where
  "decodeFields d = decodeAll False (Split CHR ''/'' (bytes_str d))"

lemma decodeFields_encode: "fs \<noteq> [] \<Longrightarrow> decodeFields (encodeFields fs) = Some fs"
  by (simp add: decodeFields_def encodeFields_def Split_Join decodeAll_PathEscape)

fun pairFields :: "(int \<times> string) list \<Rightarrow> string list" where
  "pairFields [] = []"
| "pairFields ((n, t) # ps) = FormatInt n # t # pairFields ps"

fun fieldPairs :: "string list \<Rightarrow> (int \<times> string) list option" where
  "fieldPairs [] = Some []"
| "fieldPairs (a # t # fs) = (case (parseDec a, fieldPairs fs) of (Some n, Some ps) \<Rightarrow> Some ((n, t) # ps) | _ \<Rightarrow> None)"
| "fieldPairs _ = None"

lemma fieldPairs_pairFields [simp]: "fieldPairs (pairFields ps) = Some ps"
  by (induction ps rule: pairFields.induct) (auto simp: parseDec_FormatInt)

definition malformed :: err where "malformed = Foreign ''malformed document''"

definition refXmlList :: "bytes \<Rightarrow> ListBucketResult result" where
  "refXmlList d = (case decodeFields d of
     Some (tag # trunc # token # fs) \<Rightarrow>
       (case fieldPairs fs of
          Some ps \<Rightarrow> if tag = ''list'' then Inr \<lparr>lb_Contents = map (\<lambda>(n, k). \<lparr>lo_Key = k, lo_Size = n\<rparr>) ps, lb_IsTruncated = (trunc = ''true''),
            lb_NextContinuationToken = token, lb_NextMarker = []\<rparr> else Inl malformed
        | None \<Rightarrow> Inl malformed)
   | _ \<Rightarrow> Inl malformed)"

definition refXmlField :: "string \<Rightarrow> bytes \<Rightarrow> string result" where
  "refXmlField tag d = (case decodeFields d of Some [t, v] \<Rightarrow> if t = tag then Inr v else Inl malformed | _ \<Rightarrow> Inl malformed)"

definition refXmlComplete :: "CompleteMultipartPart list \<Rightarrow> bytes result" where
  "refXmlComplete ps = Inr (encodeFields (''complete'' # pairFields ps))"

definition refParts :: "bytes \<Rightarrow> (int, string) gomap option" where
  "refParts d = (case decodeFields d of Some (tag # fs) \<Rightarrow> if tag = ''complete'' then fieldPairs fs else None | _ \<Rightarrow> None)"

lemma refParts_complete: "refXmlComplete ps = Inr d \<Longrightarrow> refParts d = Some ps"
  by (auto simp: refXmlComplete_def refParts_def decodeFields_encode)

lemma refXmlField_encode [simp]: "refXmlField tag (encodeFields [t, v]) = (if t = tag then Inr v else Inl malformed)"
  by (simp add: refXmlField_def decodeFields_encode)

section \<open>The server\<close>

definition reply :: "int \<Rightarrow> response" where
  "reply code = \<lparr>rp_StatusCode = code, rp_Header = [], rp_Body = ([], None)\<rparr>"

definition replyBody :: "int \<Rightarrow> bytes \<Rightarrow> response" where
  "replyBody code d = \<lparr>rp_StatusCode = code, rp_Header = [(''Content-Length'', FormatInt (int (length d)))], rp_Body = (d, None)\<rparr>"

text \<open>\<open>bytes=i-j\<close> or \<open>bytes=i-\<close>.\<close>

definition parseRange :: "string \<Rightarrow> (int \<times> int) option" where
  "parseRange rng =
     (if HasPrefix rng ''bytes='' then
        (case Cut CHR ''-'' (drop 6 rng) of (a, b, _) \<Rightarrow>
           (case (parseDec a, if b = [] then Some (-1) else parseDec b) of (Some i, Some j) \<Rightarrow> Some (i, j) | _ \<Rightarrow> None))
      else None)"

definition afterKey :: "string \<Rightarrow> string list \<Rightarrow> string list" where
  "afterKey k ks = tl (dropWhile (\<lambda>x. x \<noteq> k) ks)"

definition liveKeys :: "bucketWorld \<Rightarrow> string \<Rightarrow> string \<Rightarrow> string list" where
  "liveKeys s b px = map snd (filter (\<lambda>x. fst x = b \<and> HasPrefix (snd x) px \<and> bw_objs s b (snd x) \<noteq> None) (bw_keys s))"

definition refRemaining :: "bucketWorld \<Rightarrow> string \<Rightarrow> string \<Rightarrow> string \<Rightarrow> string \<Rightarrow> string list" where
  "refRemaining s b px token marker =
     (if token \<noteq> [] then afterKey (tl token) (liveKeys s b px)
      else if marker \<noteq> [] then afterKey marker (liveKeys s b px) else liveKeys s b px)"

definition refPage :: "bucketWorld \<Rightarrow> string \<Rightarrow> string list \<Rightarrow> bytes" where
  "refPage s b left =
     (let now = take 2 left
      in encodeFields (''list'' # (if drop 2 left \<noteq> [] then ''true'' else ''false'') #
           (if drop 2 left \<noteq> [] then CHR ''t'' # last now else []) #
           pairFields (map (\<lambda>k. (int (length (the (bw_objs s b k))), k)) now)))"

fun answer :: "s3op \<Rightarrow> bucketWorld \<Rightarrow> response \<times> bucketWorld" where
  "answer (ListOp b px token marker) s = (replyBody 200 (refPage s b (refRemaining s b px token marker)), s)"
| "answer (HeadOp b k) s = (case bw_objs s b k of None \<Rightarrow> reply 404 | Some d \<Rightarrow> (replyBody 200 d)\<lparr>rp_Body := ([], None)\<rparr>, s)"
| "answer (GetOp b k rng) s =
     (case bw_objs s b k of
        None \<Rightarrow> reply 404
      | Some d \<Rightarrow> (case parseRange rng of
          None \<Rightarrow> replyBody 200 d
        | Some (i, j) \<Rightarrow> if i < int (length d) then replyBody 206 (byteRange i j d) else reply 416), s)"
| "answer (InitiateOp b k) s =
     (let u = CHR ''u'' # FormatNat (bw_next s)
      in (replyBody 200 (encodeFields [''initiate'', u]), put_up b k u (Some Map.empty) (s\<lparr>bw_next := Suc (bw_next s)\<rparr>)))"
| "answer (UploadOp b k u n d) s =
     (case bw_ups s b k u of
        None \<Rightarrow> (reply 404, s)
      | Some m \<Rightarrow> ((reply 200)\<lparr>rp_Header := [(''Etag'', FormatInt n)]\<rparr>, put_up b k u (Some (m(n \<mapsto> (FormatInt n, d)))) s))"
| "answer (CompleteOp b k u xml) s =
     (case (bw_ups s b k u, refParts xml) of
        (None, _) \<Rightarrow> (replyBody 200 (encodeFields [''error'', ''NoSuchUpload'']), s)
      | (Some m, None) \<Rightarrow> (reply 400, s)
      | (Some m, Some ps) \<Rightarrow>
          if tags_of m ps then (replyBody 200 (encodeFields [''done'', k]), put_up b k u None (put_obj b k (Some (assemble m ps)) s))
          else (replyBody 200 (encodeFields [''error'', ''InvalidPart'']), s))"
| "answer (AbortOp b k u) s = (case bw_ups s b k u of None \<Rightarrow> (reply 404, s) | Some m \<Rightarrow> (reply 204, put_up b k u None s))"
| "answer (PutOp b k d) s = (reply 200, put_obj b k (Some d) s)"
| "answer (DeleteOp b k) s = (if bw_objs s b k = None then (reply 404, s) else (reply 204, put_obj b k None s))"

definition process :: "string \<Rightarrow> request \<Rightarrow> bucketWorld \<Rightarrow> response \<times> bucketWorld" where
  "process ep rq s = (case decodeReq ep rq of None \<Rightarrow> (reply 400, s) | Some act \<Rightarrow> answer act s)"

definition serve :: "string \<Rightarrow> ctx \<Rightarrow> request \<Rightarrow> bucketWorld \<Rightarrow> response result \<times> bucketWorld" where
  "serve ep c rq = faulty (\<lambda>s. map_prod Inr id (process ep rq s))"

text \<open>A quiet environment: contexts never end, no jitter, every URL parses.\<close>

definition quietAttempt :: attempt where
  "quietAttempt = \<lparr>fn_err = None, att_ctx = None, att_actx = None, do_ctx = None, jitter = (\<lambda>_. 0), wait_ctx = None\<rparr>"

definition refEnv :: "nat \<Rightarrow> bucketWorld httpEnv" where
  "refEnv pages = \<lparr>he_parseURL = (\<lambda>_. None), he_xmlList = refXmlList, he_xmlInitiate = refXmlField ''initiate'',
     he_xmlError = refXmlField ''error'', he_xmlComplete = refXmlComplete, he_attempts = (\<lambda>_ _ _. quietAttempt), he_pages = pages\<rparr>"

definition plain_fault :: "fault \<Rightarrow> bool" where
  "plain_fault f = (case f of NoFault \<Rightarrow> True | FailBefore e \<Rightarrow> plain_err e | FailAfter e \<Rightarrow> plain_err e)"

definition http_ok :: "bucketWorld \<Rightarrow> bool" where
  "http_ok s \<longleftrightarrow> list_all plain_fault (bw_faults s) \<and> distinct (bw_keys s) \<and> (\<forall>b k. bw_objs s b k \<noteq> None \<longrightarrow> (b, k) \<in> set (bw_keys s))"

section \<open>It is an S3 server\<close>

definition same_store :: "bucketWorld \<Rightarrow> bucketWorld \<Rightarrow> bool" where
  "same_store s t \<longleftrightarrow> bw_objs t = bw_objs s \<and> bw_ups t = bw_ups s \<and> bw_keys t = bw_keys s \<and> http_ok t"

lemma http_ok_put_obj: "http_ok s \<Longrightarrow> http_ok (put_obj b k v s)"
  by (auto simp: http_ok_def put_obj_def distinct_insert)

lemma http_ok_put_up [simp]: "http_ok (put_up b k u v s) = http_ok s" "http_ok (s\<lparr>bw_next := n\<rparr>) = http_ok s"
  by (simp_all add: http_ok_def put_up_def)

lemma answer_ok: "http_ok s \<Longrightarrow> answer act s = (resp, s') \<Longrightarrow> http_ok s'"
  by (cases act) (auto simp: Let_def http_ok_put_obj split: option.splits if_splits prod.splits)

lemma answer_body: "answer act s = (resp, s') \<Longrightarrow> snd (rp_Body resp) = None"
  by (cases act) (auto simp: Let_def reply_def replyBody_def split: option.splits if_splits prod.splits)

lemma process_ok: "http_ok s \<Longrightarrow> process ep rq s = (resp, s') \<Longrightarrow> http_ok s' \<and> snd (rp_Body resp) = None"
  by (auto simp: process_def reply_def split: option.splits dest: answer_ok answer_body)

text \<open>An operation is lost before it is run, or run with its answer delivered or lost.\<close>

lemma faulty_cases:
  assumes "faulty act s = (r, s')" and "http_ok s"
  obtains (unprocessed) e where "r = Inl e" "plain_err e" "same_store s s'"
    | (processed) s1 r0 where "same_store s s1" "act s1 = (r0, s')" "r = r0 \<or> (\<exists>e. r = Inl e \<and> plain_err e)"
proof (cases "bw_faults s")
  case Nil
  with assms processed [of s r] show ?thesis by (auto simp: faulty_def same_store_def)
next
  case (Cons f fs)
  let ?s = "s\<lparr>bw_faults := fs\<rparr>"
  have st: "same_store s ?s" and f: "plain_fault f" using assms(2) Cons by (auto simp: same_store_def http_ok_def)
  obtain r0 s2 where p: "act ?s = (r0, s2)" by fastforce
  have "(\<exists>e. r = Inl e \<and> plain_err e \<and> s' = ?s) \<or> s' = s2 \<and> (r = r0 \<or> (\<exists>e. r = Inl e \<and> plain_err e))"
    using assms(1) Cons f p by (cases f) (auto simp: faulty_def plain_fault_def)
  then show ?thesis using unprocessed st processed [OF st] p by blast
qed

lemma serve_cases:
  assumes "serve ep c rq s = (r, s')" and "http_ok s"
  obtains (unprocessed) e where "r = Inl e" "plain_err e" "same_store s s'"
    | (processed) s1 resp where "same_store s s1" "process ep rq s1 = (resp, s')" "r = Inr resp \<or> (\<exists>e. r = Inl e \<and> plain_err e)"
  using assms(1) [unfolded serve_def] assms(2)
  by (cases rule: faulty_cases) (use that in \<open>auto simp: map_prod_def split: prod.splits\<close>)

lemma parseRange_header:
  assumes "0 \<le> i" and "j = -1 \<or> i \<le> j" and "rangeHeaders i j = Some [(''Range'', rng)]"
  shows "parseRange rng = Some (i, j)"
proof -
  have free: "CHR ''-'' \<notin> set (FormatInt i)"
    using assms(1) FormatNat_digits minus_not_digit by (auto simp: FormatInt_def)
  let ?j = "if j = -1 then [] else FormatInt j"
  have rng: "rng = ''bytes='' @ FormatInt i @ CHR ''-'' # ?j"
    using assms(3) by (auto simp: rangeHeaders_def split: if_splits)
  have pre: "HasPrefix rng ''bytes=''" unfolding rng by (rule HasPrefix_append)
  have cut: "Cut CHR ''-'' (drop 6 rng) = (FormatInt i, ?j, True)" by (simp add: rng Cut_sep [OF free])
  show ?thesis by (simp add: parseRange_def pre cut parseDec_FormatInt)
qed

lemma liveKeys_distinct: "http_ok s \<Longrightarrow> distinct (liveKeys s b px)"
proof -
  assume "http_ok s"
  then have "distinct (filter (\<lambda>x. fst x = b \<and> HasPrefix (snd x) px \<and> bw_objs s b (snd x) \<noteq> None) (bw_keys s))"
    by (simp add: http_ok_def)
  then show ?thesis
    unfolding liveKeys_def by (subst distinct_map) (auto simp: inj_on_def prod_eq_iff)
qed

lemma afterKey_suffix: "\<exists>pre. ks = pre @ afterKey k ks"
proof -
  have "ks = takeWhile (\<lambda>x. x \<noteq> k) ks @ dropWhile (\<lambda>x. x \<noteq> k) ks" by simp
  then show ?thesis unfolding afterKey_def by (cases "dropWhile (\<lambda>x. x \<noteq> k) ks") (metis list.sel(2) append_Nil2, metis append.assoc append_Cons append_Nil list.sel(3))
qed

lemma refRemaining_suffix: "\<exists>pre. liveKeys s b px = pre @ refRemaining s b px token marker"
  using afterKey_suffix [of "liveKeys s b px"] by (auto simp: refRemaining_def)

lemma afterKey_distinct: "distinct (pre @ k # rest) \<Longrightarrow> afterKey k (pre @ k # rest) = rest"
  by (induction pre) (auto simp: afterKey_def)

lemma refPage_list:
  "refXmlList (refPage s b left) = Inr \<lparr>lb_Contents = map (\<lambda>k. \<lparr>lo_Key = k, lo_Size = int (length (the (bw_objs s b k)))\<rparr>) (take 2 left),
     lb_IsTruncated = (drop 2 left \<noteq> []), lb_NextContinuationToken = (if drop 2 left \<noteq> [] then CHR ''t'' # last (take 2 left) else []),
     lb_NextMarker = []\<rparr>"
  unfolding refXmlList_def refPage_def Let_def by (subst decodeFields_encode) (simp_all add: comp_def)

lemma refPage_ok:
  assumes "http_ok s"
  shows "\<exists>page. refXmlList (refPage s b (refRemaining s b px token marker)) = Inr page \<and>
    page_ok (refRemaining s b px token marker) (refRemaining s b px) page"
proof -
  let ?left = "refRemaining s b px token marker"
  show ?thesis
  proof (cases "drop 2 ?left = []")
    case True
    then have "take 2 ?left = ?left" by simp
    with True show ?thesis unfolding refPage_list page_ok_def by (simp add: comp_def)
  next
    case False
    then obtain x y rest where left: "?left = x # y # rest" by (cases ?left; cases "tl ?left") auto
    obtain pre where "liveKeys s b px = pre @ ?left" using refRemaining_suffix by blast
    then have all: "liveKeys s b px = (pre @ [x]) @ y # rest" by (simp add: left)
    have "afterKey y (liveKeys s b px) = rest"
      using liveKeys_distinct [OF assms, of b px] unfolding all by (rule afterKey_distinct)
    then have "refRemaining s b px (CHR ''t'' # y) [] = rest" by (simp add: refRemaining_def)
    with False left show ?thesis unfolding refPage_list page_ok_def by simp
  qed
qed

definition read_op :: "s3op \<Rightarrow> bool" where
  "read_op act = (case act of ListOp b px t m \<Rightarrow> True | HeadOp b k \<Rightarrow> True | GetOp b k r \<Rightarrow> True | _ \<Rightarrow> False)"

lemma decode_read_op: "rq_Method rq = ''GET'' \<or> rq_Method rq = ''HEAD'' \<Longrightarrow> decodeReq ep rq = Some act \<Longrightarrow> read_op act"
  by (auto simp: decodeReq_def read_op_def Let_def split: option.splits list.splits if_splits)

lemma process_reads: "rq_Method rq = ''GET'' \<or> rq_Method rq = ''HEAD'' \<Longrightarrow> process ep rq s = (resp, s') \<Longrightarrow> s' = s"
proof (cases "decodeReq ep rq")
  case (Some act)
  assume "rq_Method rq = ''GET'' \<or> rq_Method rq = ''HEAD''" and p: "process ep rq s = (resp, s')"
  then have "read_op act" using decode_read_op Some by blast
  with p Some show ?thesis by (cases act) (auto simp: process_def read_op_def)
qed (simp add: process_def)

lemma same_store_remaining: "same_store s t \<Longrightarrow> refRemaining t = refRemaining s"
  by (intro ext) (simp add: same_store_def refRemaining_def liveKeys_def)

text \<open>What holds of a processed request holds of a served one, but for the answer when it is lost.\<close>

lemma served:
  assumes "serve ep c rq s = (r, s')" and "http_ok s" and "decodeReq ep rq = Some act"
  obtains "bw_objs s' = bw_objs s" "bw_ups s' = bw_ups s" "\<exists>e. r = Inl e"
    | s1 resp where "same_store s s1" "answer act s1 = (resp, s')" "r = Inr resp \<or> (\<exists>e. r = Inl e)"
  using assms(1,2) by (cases rule: serve_cases) (use that assms(3) in \<open>auto simp: process_def same_store_def\<close>)

interpretation ref: s3_server bw_objs bw_ups refRemaining http_ok ep "serve ep" "refEnv pages" for ep pages
proof (unfold_locales, goal_cases)
  case (1 s c rq r s')
  from 1(2,1) show ?case
  proof (cases rule: serve_cases)
    case (unprocessed e)
    then show ?thesis by (simp add: same_store_def)
  next
    case (processed s1 resp)
    with process_ok [of s1 ep rq resp s'] show ?thesis by (auto simp: same_store_def)
  qed
next
  case (2 s rq c r s')
  from 2(3,1) have "same_store s s'"
    by (cases rule: serve_cases) (use process_reads [OF 2(2)] in auto)
  then show ?case using same_store_remaining by (simp add: same_store_def)
next
  case (3 s rq b k rng c resp s')
  have inj: "parseRange rng = Some (i, j)" if "0 \<le> i" "j = -1 \<or> i \<le> j" "rangeHeaders i j = Some [(''Range'', rng)]" for i j
    using parseRange_header that by blast
  from 3(3,1,2) show ?case
    by (cases rule: served) (auto simp: same_store_def reply_def replyBody_def delivers_def dest: inj split: option.splits if_splits)
next
  case (4 s rq b k c resp s')
  from 4(3,1,2) show ?case
    by (cases rule: served) (auto simp: same_store_def reply_def replyBody_def headerGet_def split: option.splits)
next
  case (5 s rq b px token marker c resp s' data)
  from 5(3,1,2) obtain s1 where s1: "same_store s s1" "resp = replyBody 200 (refPage s1 b (refRemaining s1 b px token marker))"
    by (cases rule: served) auto
  then have "data = refPage s1 b (refRemaining s1 b px token marker)" using 5(5) by (simp add: replyBody_def)
  with refPage_ok [of s1 b px token marker] s1(1) same_store_remaining [OF s1(1)] show ?case
    by (simp add: same_store_def refEnv_def)
next
  case (6 s b k px)
  then show ?case by (force simp: refRemaining_def liveKeys_def http_ok_def image_iff)
next
  case (7 s rq b k c r s')
  from 7(3,1,2) show ?case
    by (cases rule: served) (auto simp: same_store_def replyBody_def refEnv_def Let_def)
next
  case (8 s rq b k u n d m c r s')
  from 8(4,1,2) show ?case
    by (cases rule: served) (use 8(3) in \<open>auto simp: same_store_def reply_def headerGet_def\<close>)
next
  case (9 s rq b k u xml m etags c r s')
  have ps: "refParts xml = Some (sortedParts etags)" using 9(4) by (intro refParts_complete) (simp add: refEnv_def)
  from 9(6,1,2) show ?case
    by (cases rule: served) (use 9(3) ps tags_of_sorted [OF 9(5)] in \<open>auto simp: same_store_def replyBody_def refEnv_def assemble_sorted\<close>)
next
  case (10 s rq b k u xml c r s')
  from 10(4,1,2) show ?case
    by (cases rule: served) (use 10(3) in \<open>auto simp: same_store_def replyBody_def refEnv_def\<close>)
next
  case (11 s rq b k u c r s')
  from 11(4,1,2) show ?case
    by (cases rule: served) (auto simp: same_store_def split: option.splits)
next
  case (12 s rq b k d c r s')
  from 12(3,1,2) show ?case
    by (cases rule: served) (auto simp: same_store_def reply_def)
next
  case (13 s rq b k c r s')
  from 13(3,1,2) show ?case
    by (cases rule: served) (auto simp: same_store_def reply_def split: if_splits)
qed

text \<open>The client on this server, as \<open>newClient\<close> builds it.\<close>

interpretation refc: http_client bw_objs bw_ups refRemaining http_ok ep "serve ep" "refEnv pages"
  "NewHTTPStorageClient (serve ep) ep headers" for ep pages headers
  by unfold_locales (simp_all add: NewHTTPStorageClient_def refEnv_def quietAttempt_def ctx_ok_def)

end
