(* ===== verification/HttpHeaders.thy ===== *)
theory HttpHeaders
  imports Http
begin

text \<open>
  Header options round trip: what \<open>HEADER[k1:v1,k2:v2]\<close> is meant to say is what \<open>parseHeaderAuth\<close> reads,
  also when a value contains commas, as long as no text after a comma looks like a header of its own.
\<close>

lemma Split_Join_concat: "xs \<noteq> [] \<Longrightarrow> Split c (Join xs [c]) = concat (map (Split c) xs)"
proof (induction xs)
  case (Cons x xs)
  then show ?case by (cases xs) (simp_all add: Split_append_sep)
qed simp

lemma Split_prefix: "c \<notin> set p \<Longrightarrow> Split c (p @ s) = (case Split c s of [] \<Rightarrow> [p] | y # ys \<Rightarrow> (p @ y) # ys)"
  by (induction p) (auto split: list.splits)

text \<open>A header name in canonical form.\<close>

definition canonical :: "string \<Rightarrow> bool" where
  "canonical k \<longleftrightarrow> isToken k \<and> CanonicalHeaderKey k = k"

text \<open>Text after a comma that is read as a continuation of the value.\<close>

definition continuation :: "string \<Rightarrow> bool" where
  "continuation seg \<longleftrightarrow> seg \<noteq> [] \<and> is_graph (last seg) \<and> \<not> (snd (snd (Cut CHR '':'' seg)) \<and> isToken (TrimSpace (fst (Cut CHR '':'' seg))))"

definition plain_value :: "string \<Rightarrow> bool" where
  "plain_value v \<longleftrightarrow> (case Split CHR '','' v of [] \<Rightarrow> False
     | v0 # segs \<Rightarrow> v0 \<noteq> [] \<and> is_graph (hd v0) \<and> is_graph (last v0) \<and> list_all continuation segs)"

definition renderHeaders :: "(string, string) gomap \<Rightarrow> string" where
  "renderHeaders hs = ''HEADER['' @ Join (map (\<lambda>(k, v). k @ '':'' @ v) hs) '','' @ '']''"

lemma token_bytes: "isTokenByte c \<Longrightarrow> is_graph c \<and> c \<noteq> CHR '':'' \<and> c \<noteq> CHR '',''"
  by (auto simp: isTokenByte_def is_alnum_def is_graph_def less_eq_char_def)

lemma token_facts:
  assumes "isToken k"
  shows "CHR '':'' \<notin> set k" and "CHR '','' \<notin> set k" and "TrimSpace k = k" and "k \<noteq> []"
proof -
  have bytes: "\<And>c. c \<in> set k \<Longrightarrow> is_graph c \<and> c \<noteq> CHR '':'' \<and> c \<noteq> CHR '',''"
    using assms token_bytes by (auto simp: isToken_def list_all_iff)
  then show "CHR '':'' \<notin> set k" "CHR '','' \<notin> set k" by blast+
  show ne: "k \<noteq> []" using assms by (simp add: isToken_def)
  show "TrimSpace k = k" using ne bytes by (intro TrimSpace_id) (metis hd_in_set last_in_set)
qed

lemma headerSegment_new:
  assumes "canonical k" and "v \<noteq> []" and "is_graph (hd v)" and "is_graph (last v)"
  shows "headerSegment (k @ '':'' @ v) st = Inr (k, gm_put k v (snd st))"
proof -
  have tok: "isToken k" and canon: "CanonicalHeaderKey k = k" using assms(1) by (simp_all add: canonical_def)
  have "TrimSpace v = v" using assms by (intro TrimSpace_id) simp
  then show ?thesis
    using Cut_sep [OF token_facts(1) [OF tok], of v]
    by (cases st) (simp add: headerSegment_def tok token_facts(3) [OF tok] canon)
qed

lemma headerSegment_more:
  assumes "continuation seg" and "k \<noteq> []" and "gm_get hs k = Some v" and "v \<noteq> []" and "is_graph (hd v)"
  shows "headerSegment seg (k, hs) = Inr (k, gm_put k (v @ '','' @ seg) hs)"
proof -
  have "TrimSpace (v @ '','' @ seg) = v @ '','' @ seg" using assms by (intro TrimSpace_id) (simp add: continuation_def)
  then show ?thesis using assms by (cases "Cut CHR '':'' seg") (auto simp: headerSegment_def continuation_def)
qed

lemma headerSegments_value:
  assumes "k \<noteq> []" and "list_all continuation segs"
  shows "v \<noteq> [] \<Longrightarrow> is_graph (hd v) \<Longrightarrow> headerSegments (segs @ rest) (k, gm_put k v hs) =
    headerSegments rest (k, gm_put k (Join (v # segs) '','') hs)"
  using assms(2)
proof (induction segs arbitrary: v)
  case (Cons seg segs)
  have "headerSegment seg (k, gm_put k v hs) = Inr (k, gm_put k (v @ '','' @ seg) (gm_put k v hs))"
    using Cons.prems assms(1) by (intro headerSegment_more) (auto simp: update_conv)
  moreover have "gm_put k w (gm_put k v hs) = gm_put k w hs" for w by (induction hs) auto
  moreover have "Join ((v @ '','' @ seg) # segs) '','' = Join (v # seg # segs) '',''"
    by (cases segs) simp_all
  ultimately show ?case using Cons.IH [of "v @ '','' @ seg"] Cons.prems by simp
qed simp

lemma headerSegments_headers:
  "list_all (\<lambda>(k, v). canonical k \<and> plain_value v) hs \<Longrightarrow> distinct (map fst acc @ map fst hs) \<Longrightarrow>
   headerSegments (concat (map (\<lambda>(k, v). Split CHR '','' (k @ '':'' @ v)) hs)) (lk, acc) = Inr (acc @ hs)"
proof (induction hs arbitrary: lk acc)
  case (Cons kv hs)
  obtain k v where kv: "kv = (k, v)" by fastforce
  have k: "canonical k" "isToken k" and v: "plain_value v" using Cons.prems(1) by (simp_all add: kv canonical_def)
  obtain v0 segs where s: "Split CHR '','' v = v0 # segs" by (metis Split_not_Nil list.exhaust)
  have v0: "v0 \<noteq> []" "is_graph (hd v0)" "is_graph (last v0)" "list_all continuation segs" using v by (simp_all add: plain_value_def s)
  have join: "Join (v0 # segs) '','' = v" by (metis Join_Split s)
  have pieces: "Split CHR '','' (k @ '':'' @ v) = (k @ '':'' @ v0) # segs"
    using Split_prefix [of "CHR '',''" "k @ '':''" v] token_facts(2) [OF k(2)] by (simp add: s)
  have put: "gm_put k w acc = acc @ [(k, w)]" for w
    using Cons.prems(2) by (intro gm_put_new) (simp add: kv)
  let ?rest = "concat (map (\<lambda>(k, v). Split CHR '','' (k @ '':'' @ v)) hs)"
  have "headerSegments (Split CHR '','' (k @ '':'' @ v) @ ?rest) (lk, acc) = headerSegments (segs @ ?rest) (k, gm_put k v0 acc)"
    by (subst pieces) (simp add: headerSegment_new [OF k(1) v0(1-3), simplified])
  also have "\<dots> = headerSegments ?rest (k, acc @ [(k, v)])"
    by (subst headerSegments_value [OF token_facts(4) [OF k(2)] v0(4) v0(1,2)]) (simp only: join put)
  also have "\<dots> = Inr ((acc @ [(k, v)]) @ hs)" using Cons.prems by (intro Cons.IH) (auto simp: kv)
  finally show ?case by (simp add: kv)
qed simp

lemma parseHeaderAuth_render:
  assumes "hs \<noteq> []" and "list_all (\<lambda>(k, v). canonical k \<and> plain_value v) hs" and "distinct (map fst hs)"
  shows "parseHeaderAuth (renderHeaders hs) = Inr hs"
proof -
  let ?body = "Join (map (\<lambda>(k, v). k @ '':'' @ v) hs) '',''"
  have trim: "TrimSpace (renderHeaders hs) = renderHeaders hs"
    by (rule TrimSpace_id) (simp add: renderHeaders_def is_graph_def)
  have pre: "HasPrefix (renderHeaders hs) ''HEADER[''" and suf: "HasSuffix (renderHeaders hs) '']''"
    unfolding renderHeaders_def by (rule HasPrefix_append) (metis HasSuffix_append append.assoc)
  have body: "take (length (renderHeaders hs) - 8) (drop 7 (renderHeaders hs)) = ?body" by (simp add: renderHeaders_def)
  have "Split CHR '','' ?body = concat (map (\<lambda>(k, v). Split CHR '','' (k @ '':'' @ v)) hs)"
    using assms(1) by (subst Split_Join_concat) (auto intro!: arg_cong [of _ _ concat])
  with headerSegments_headers [of hs "[]" "[]"] assms(2,3) show ?thesis
    by (simp only: parseHeaderAuth_def Let_def trim pre suf body) simp
qed

end
