(* ===== verification/FixturesHttp.thy ===== *)
theory FixturesHttp
  imports HttpRef HttpHeaders
begin

text \<open>
  A concrete server state for the HTTP client: three objects, and a first connection that is lost after its
  request has been processed.
\<close>

definition fx_http :: bucketWorld where
  "fx_http =
     \<lparr>bw_objs = (\<lambda>b k. if b = ''b'' then map_of [(''x/1'', [1, 2, 3]), (''x/2'', [4]), (''y z'', [5, 6])] k else None),
      bw_keys = [(''b'', ''x/1''), (''b'', ''x/2''), (''b'', ''y z'')], bw_ups = (\<lambda>_ _ _. None), bw_next = 0,
      bw_faults = [FailAfter (Foreign ''connection reset'')]\<rparr>"

definition fx_endpoint :: string where "fx_endpoint = ''http://host:9000/''"

definition fx_httpClient :: "bucketWorld HTTPStorageClient" where
  "fx_httpClient = NewHTTPStorageClient (serve fx_endpoint) fx_endpoint [(''X-Key'', ''1'')]"

lemma fx_http_client: "http_client bw_objs bw_ups refRemaining http_ok fx_endpoint (serve fx_endpoint) (refEnv pages) fx_httpClient"
  unfolding fx_httpClient_def by (rule refc.http_client_axioms)

lemma fx_http_ok: "http_ok fx_http"
  by (auto simp: http_ok_def fx_http_def plain_fault_def plain_err_def split: if_splits)

lemma fx_remaining: "refRemaining fx_http ''b'' [] [] [] = [''x/1'', ''x/2'', ''y z'']"
  by (simp add: refRemaining_def liveKeys_def fx_http_def HasPrefix_def)

lemma fx_canon: "canonical ''Accept'' \<and> plain_value ''a/b, c'' \<and> canonical ''X-Key'' \<and> plain_value ''1''"
  by code_simp

end
