(* ===== verification/Auth.thy ===== *)
theory Auth
  imports Errors NetText Retry
begin

text \<open>
  Auth strings (\<open>src/storage_clients/auth.go\<close>), the client registry (\<open>registry.go\<close>), and the
  \<open>Retry-After\<close> header (\<open>retry.go\<close>).
\<close>

section \<open>Auth strings\<close>

text \<open>The index of the first \<open>;\<close> outside brackets, or the length of the text; \<open>d\<close> is \<open>depth\<close>.\<close>

fun authSplit :: "nat \<Rightarrow> string \<Rightarrow> nat" where
  "authSplit d [] = 0"
| "authSplit d (c # cs) =
     (if c = CHR ''['' then Suc (authSplit (Suc d) cs)
      else if c = CHR '']'' then Suc (authSplit (d - 1) cs)
      else if c = CHR '';'' \<and> d = 0 then 0
      else Suc (authSplit d cs))"

text \<open>\<open>strings.ToLower\<close>: bytewise on ASCII text; \<open>uni\<close> is the Unicode mapping for other text.\<close>

definition ToLower :: "(string \<Rightarrow> string) \<Rightarrow> string \<Rightarrow> string" where
  "ToLower uni s = (if list_all (\<lambda>c. (of_char c :: nat) < 128) s then map lowerByte s else uni s)"

definition invalidConfig :: err where "invalidConfig = Errorf [Sentinel ErrInvalidConfig]"

fun authOptions :: "(string \<Rightarrow> string) \<Rightarrow> string list \<Rightarrow> string list \<Rightarrow> (string, string) gomap \<Rightarrow> (string, string) gomap result" where
  "authOptions uni allowed [] opts = Inr opts"
| "authOptions uni allowed (seg # segs) opts =
     (let seg = TrimSpace seg in
      if seg = [] then authOptions uni allowed segs opts
      else (case Cut CHR ''='' seg of (k, v, ok) \<Rightarrow>
        let k = ToLower uni (TrimSpace k); v = TrimSpace v in
        if \<not> ok \<or> k = [] then Inl invalidConfig
        else if k \<notin> set allowed then Inl invalidConfig
        else if gm_has opts k then Inl invalidConfig
        else authOptions uni allowed segs (gm_put k v opts)))"

definition ParseAuthString :: "(string \<Rightarrow> string) \<Rightarrow> string \<Rightarrow> string list \<Rightarrow> (string \<times> (string, string) gomap) result" where
  "ParseAuthString uni auth allowed =
     (let i = authSplit 0 auth; base = TrimSpace (take i auth) in
      if i = length auth then Inr (base, [])
      else (case authOptions uni allowed (Split CHR '';'' (drop (Suc i) auth)) [] of
              Inl e \<Rightarrow> Inl e
            | Inr opts \<Rightarrow> Inr (base, opts)))"

subsection \<open>What is parsed is what was written\<close>

text \<open>Text whose brackets are balanced and which has no \<open>;\<close> outside them: the depth after it.\<close>

fun depthAfter :: "nat \<Rightarrow> string \<Rightarrow> nat option" where
  "depthAfter d [] = Some d"
| "depthAfter d (c # cs) =
     (if c = CHR ''['' then depthAfter (Suc d) cs
      else if c = CHR '']'' then depthAfter (d - 1) cs
      else if c = CHR '';'' \<and> d = 0 then None
      else depthAfter d cs)"

lemma authSplit_base: "depthAfter d base = Some 0 \<Longrightarrow> authSplit d (base @ CHR '';'' # rest) = length base"
  by (induction d base rule: depthAfter.induct) (auto split: if_splits)

lemma authSplit_whole: "depthAfter d base = Some e \<Longrightarrow> authSplit d base = length base"
  by (induction d base rule: depthAfter.induct) (auto split: if_splits)

definition option_text :: "string \<times> string \<Rightarrow> string" where
  "option_text kv = fst kv @ ''='' @ snd kv"

text \<open>An option that needs no normalization: a lower-case key, printable ends, no separator inside.\<close>

definition plain_option :: "string list \<Rightarrow> string \<times> string \<Rightarrow> bool" where
  "plain_option allowed kv \<longleftrightarrow> fst kv \<in> set allowed \<and> fst kv \<noteq> [] \<and>
     list_all (\<lambda>c. is_graph c \<and> c \<noteq> CHR ''='' \<and> c \<noteq> CHR '';'' \<and> lowerByte c = c) (fst kv) \<and>
     snd kv \<noteq> [] \<and> is_graph (hd (snd kv)) \<and> is_graph (last (snd kv)) \<and> CHR '';'' \<notin> set (snd kv)"

lemma plain_option_facts:
  assumes "plain_option allowed (k, v)"
  shows "TrimSpace (option_text (k, v)) = option_text (k, v)" and "Cut CHR ''='' (option_text (k, v)) = (k, v, True)"
    and "TrimSpace k = k" and "TrimSpace v = v" and "ToLower uni k = k" and "CHR '';'' \<notin> set (option_text (k, v))"
proof -
  have k: "k \<noteq> []" "\<And>c. c \<in> set k \<Longrightarrow> is_graph c \<and> c \<noteq> CHR ''='' \<and> c \<noteq> CHR '';'' \<and> lowerByte c = c"
    and v: "v \<noteq> []" "is_graph (hd v)" "is_graph (last v)" "CHR '';'' \<notin> set v"
    using assms by (auto simp: plain_option_def list_all_iff)
  have ends: "is_graph (hd k)" "is_graph (last k)" using k by (metis hd_in_set last_in_set)+
  show "TrimSpace (option_text (k, v)) = option_text (k, v)"
    by (rule TrimSpace_id) (simp add: option_text_def k(1) v(1,3) ends)
  have "CHR ''='' \<notin> set k" using k(2) by blast
  from Cut_sep [OF this, of v] show "Cut CHR ''='' (option_text (k, v)) = (k, v, True)" by (simp add: option_text_def)
  show "TrimSpace k = k" "TrimSpace v = v" using ends v by (auto intro!: TrimSpace_id)
  have "list_all (\<lambda>c. (of_char c :: nat) < 128) k" using k(2) by (force simp: list_all_iff is_graph_def)
  moreover have "map lowerByte k = k" using k(2) by (simp add: map_idI)
  ultimately show "ToLower uni k = k" by (simp add: ToLower_def)
  show "CHR '';'' \<notin> set (option_text (k, v))" using k(2) v(4) by (auto simp: option_text_def)
qed

lemma authOptions_plain:
  "list_all (plain_option allowed) kvs \<Longrightarrow> distinct (map fst opts @ map fst kvs) \<Longrightarrow>
   authOptions uni allowed (map option_text kvs) opts = Inr (opts @ kvs)"
proof (induction kvs arbitrary: opts)
  case (Cons kv kvs)
  obtain k v where kv: "kv = (k, v)" by fastforce
  have p: "plain_option allowed (k, v)" using Cons.prems(1) by (simp add: kv)
  note f = plain_option_facts [OF p]
  have k: "k \<in> set allowed" "k \<noteq> []" using p by (simp_all add: plain_option_def)
  have ne: "option_text (k, v) \<noteq> []" by (simp add: option_text_def)
  have new: "gm_get opts k = None" and put: "gm_put k v opts = opts @ [(k, v)]"
    using Cons.prems(2) by (auto simp: kv map_of_eq_None_iff intro: gm_put_new)
  have "authOptions uni allowed (map option_text (kv # kvs)) opts = authOptions uni allowed (map option_text kvs) (opts @ [(k, v)])"
    by (simp add: kv f ne k new put)
  also have "\<dots> = Inr ((opts @ [(k, v)]) @ kvs)" using Cons.prems by (intro Cons.IH) (auto simp: kv)
  finally show ?case by (simp add: kv)
qed simp

lemma ParseAuthString_render:
  assumes "depthAfter 0 base = Some 0" and "TrimSpace base = base" and "kvs \<noteq> []" and "list_all (plain_option allowed) kvs"
    and "distinct (map fst kvs)"
  shows "ParseAuthString uni (base @ '';'' @ Join (map option_text kvs) '';'') allowed = Inr (base, kvs)"
proof -
  let ?auth = "base @ CHR '';'' # Join (map option_text kvs) '';''"
  have i: "authSplit 0 ?auth = length base" by (rule authSplit_base [OF assms(1)])
  have free: "\<forall>p \<in> set (map option_text kvs). CHR '';'' \<notin> set p"
    using assms(4) plain_option_facts(6) by (fastforce simp: list_all_iff)
  have "Split CHR '';'' (Join (map option_text kvs) '';'') = map option_text kvs"
    by (rule Split_Join) (use assms(3) free in auto)
  with authOptions_plain [OF assms(4), of "[]" uni] assms(5) have "authOptions uni allowed (Split CHR '';'' (drop (Suc (length base)) ?auth)) [] = Inr kvs"
    by simp
  then show ?thesis by (simp add: ParseAuthString_def Let_def i assms(2))
qed

text \<open>Every error of the parser is \<open>ErrInvalidConfig\<close>, and what it accepts are allowed keys, each once.\<close>

lemma authOptions_sound:
  "authOptions uni allowed segs opts = r \<Longrightarrow> distinct (map fst opts) \<Longrightarrow> fst ` set opts \<subseteq> set allowed \<Longrightarrow>
   (case r of Inl e \<Rightarrow> e = invalidConfig | Inr os \<Rightarrow> distinct (map fst os) \<and> fst ` set os \<subseteq> set allowed)"
proof (induction uni allowed segs opts arbitrary: r rule: authOptions.induct)
  case (2 uni allowed seg segs opts)
  obtain k v ok where cut: "Cut CHR ''='' (TrimSpace seg) = (k, v, ok)" by (metis prod_cases3)
  show ?case
    using "2.IH"(1) [OF refl] "2.IH"(2) [OF refl _ cut [symmetric] refl refl] "2.prems"
    by (auto simp: cut Let_def distinct_update dom_update split: if_splits)
qed auto

lemma ParseAuthString_sound:
  "case ParseAuthString uni auth allowed of
     Inl e \<Rightarrow> e = invalidConfig | Inr (base, opts) \<Rightarrow> distinct (map fst opts) \<and> fst ` set opts \<subseteq> set allowed"
  using authOptions_sound [of uni allowed "Split CHR '';'' (drop (Suc (authSplit 0 auth)) auth)" "[]", OF refl]
  by (auto simp: ParseAuthString_def Let_def split: sum.splits)

lemma ParseAuthString_error: "ParseAuthString uni auth allowed = Inl e \<Longrightarrow> e = invalidConfig"
  using ParseAuthString_sound [where uni = uni and auth = auth and allowed = allowed] by simp

lemma depthAfter_append: "depthAfter d (s @ t) = (case depthAfter d s of None \<Rightarrow> None | Some d' \<Rightarrow> depthAfter d' t)"
  by (induction d s rule: depthAfter.induct) auto

lemma depthAfter_inside: "list_all (\<lambda>c. c \<noteq> CHR ''['' \<and> c \<noteq> CHR '']'') s \<Longrightarrow> depthAfter (Suc d) s = Some (Suc d)"
  by (induction s) auto

section \<open>The registry\<close>

text \<open>A factory takes \<open>authType\<close> and \<open>namespace\<close>.\<close>

type_synonym 'c registry = "(string, string \<Rightarrow> string \<Rightarrow> 'c result) gomap"

definition RegisterClient :: "string \<Rightarrow> (string \<Rightarrow> string \<Rightarrow> 'c result) \<Rightarrow> 'c registry \<Rightarrow> 'c registry" where
  "RegisterClient provider factory reg = gm_put provider factory reg"

definition GetClient :: "'c registry \<Rightarrow> string \<Rightarrow> string \<Rightarrow> string \<Rightarrow> 'c result" where
  "GetClient reg provider authType namespace =
     (case gm_get reg provider of
        Some factory \<Rightarrow> factory authType namespace
      | None \<Rightarrow> Inl (Errorf [Sentinel ErrUnsupportedProvider]))"

lemma GetClient_register:
  "GetClient (RegisterClient p f reg) q authType namespace = (if q = p then f authType namespace else GetClient reg q authType namespace)"
  by (simp add: GetClient_def RegisterClient_def update_conv)

section \<open>Retry-After\<close>

text \<open>\<open>t.Sub(now)\<close> saturates; \<open>parseTime\<close> stands for \<open>http.ParseTime\<close>, in nanoseconds.\<close>

definition timeSub :: "int \<Rightarrow> int \<Rightarrow> int" where
  "timeSub t now = max (- (2 ^ 63)) (min (2 ^ 63 - 1) (t - now))"

definition ParseRetryAfter :: "(string \<Rightarrow> int option) \<Rightarrow> string \<Rightarrow> int \<Rightarrow> int" where
  "ParseRetryAfter parseTime v now =
     (let v = TrimSpace v in
      if v = [] then 0
      else (case ParseInt v of
              Some secs \<Rightarrow> if secs \<le> 0 then 0 else wrap64 ((if 86400 < secs then 86400 else secs) * Second)
            | None \<Rightarrow> (case parseTime v of
                None \<Rightarrow> 0
              | Some t \<Rightarrow> let d = timeSub t now in if 0 < d then d else 0)))"

lemma ParseRetryAfter_bounds:
  "0 \<le> ParseRetryAfter parseTime v now" "ParseInt (TrimSpace v) \<noteq> None \<Longrightarrow> ParseRetryAfter parseTime v now \<le> 86400 * Second"
proof -
  have "wrap64 (n * Second) = n * Second" if "0 \<le> n" "n \<le> 86400" for n
    using that by (intro wrap64_id) (auto simp: is_int64_def Second_def Millisecond_def)
  then show "0 \<le> ParseRetryAfter parseTime v now" "ParseInt (TrimSpace v) \<noteq> None \<Longrightarrow> ParseRetryAfter parseTime v now \<le> 86400 * Second"
    by (auto simp: ParseRetryAfter_def Let_def Second_def Millisecond_def split: option.splits)
qed

end
