(* ===== verification/Sdk.thy ===== *)
theory Sdk
  imports ObjectWorld NetText Auth Http
begin

text \<open>
  The provider clients built on a vendor SDK (\<open>src/storage_clients/s3/s3.go\<close>, \<open>src/storage_clients/oci/oci.go\<close>).
  The two files have the same operations over different SDK types, so the operations are written once, over a
  record of the SDK calls they make; what differs (the classification of errors, the pages of a listing, the
  width of a part number) are fields of the client. The SDK itself is a parameter: each call returns an SDK
  error or a value, and the next world.
\<close>

section \<open>The calls\<close>

text \<open>Pointers in SDK results are options. \<open>'e\<close> are the SDK's errors, \<open>'p\<close> its listing pages.\<close>

record ('e, 'p, 's) sdkAPI =
  api_ListObjects :: "ctx \<Rightarrow> string \<Rightarrow> string \<Rightarrow> string option \<Rightarrow> 's \<Rightarrow> ('e + 'p) \<times> 's"
  api_HeadObject :: "ctx \<Rightarrow> string \<Rightarrow> string \<Rightarrow> 's \<Rightarrow> ('e + int option) \<times> 's"
  api_GetObject :: "ctx \<Rightarrow> string \<Rightarrow> string \<Rightarrow> string option \<Rightarrow> 's \<Rightarrow> ('e + reader) \<times> 's"
  api_CreateUpload :: "ctx \<Rightarrow> string \<Rightarrow> string \<Rightarrow> 's \<Rightarrow> ('e + string option) \<times> 's"
  api_UploadPart :: "ctx \<Rightarrow> string \<Rightarrow> string \<Rightarrow> string \<Rightarrow> int \<Rightarrow> bytes \<Rightarrow> 's \<Rightarrow> ('e + string option) \<times> 's"
  api_CompleteUpload :: "ctx \<Rightarrow> string \<Rightarrow> string \<Rightarrow> string \<Rightarrow> (int \<times> string) list \<Rightarrow> 's \<Rightarrow> ('e + unit) \<times> 's"
  api_AbortUpload :: "ctx \<Rightarrow> string \<Rightarrow> string \<Rightarrow> string \<Rightarrow> 's \<Rightarrow> ('e + unit) \<times> 's"
  api_PutObject :: "ctx \<Rightarrow> string \<Rightarrow> string \<Rightarrow> bytes \<Rightarrow> 's \<Rightarrow> ('e + unit) \<times> 's"
  api_DeleteObject :: "ctx \<Rightarrow> string \<Rightarrow> string \<Rightarrow> 's \<Rightarrow> ('e + unit) \<times> 's"

text \<open>
  \<open>sc_classify uploadOp\<close> is the client's \<open>classifyError\<close>; \<open>sc_objects\<close> and \<open>sc_next\<close> read a page: its entries,
  and the token of the next page, none, or an error. \<open>sc_number\<close> is the conversion of part numbers. \<open>sc_attempts\<close>
  and \<open>sc_pages\<close> are as in \<open>httpEnv\<close>.
\<close>

record ('e, 'p, 's) sdkClient =
  sc_api :: "('e, 'p, 's) sdkAPI"
  sc_retry :: RetryPolicy
  sc_classify :: "bool \<Rightarrow> 'e \<Rightarrow> err"
  sc_objects :: "'p \<Rightarrow> ObjectInfo list"
  sc_next :: "'p \<Rightarrow> string option result"
  sc_number :: "int \<Rightarrow> int"
  sc_attempts :: "ctx \<Rightarrow> 's \<Rightarrow> nat \<Rightarrow> attempt"
  sc_pages :: nat

definition sdkDo :: "('e, 'p, 's) sdkClient \<Rightarrow> ctx \<Rightarrow> int \<Rightarrow> ('s \<Rightarrow> 'a result \<times> 's) \<Rightarrow> 's \<Rightarrow> 'a result \<times> 's" where
  "sdkDo U c timeout fn s = callDo (sc_retry U) timeout (sc_attempts U c s) fn s"

text \<open>A call whose error is classified and whose value is checked.\<close>

definition sdkCall :: "('e, 'p, 's) sdkClient \<Rightarrow> bool \<Rightarrow> ('e + 'v) \<times> 's \<Rightarrow> ('v \<Rightarrow> 'a result) \<Rightarrow> 'a result \<times> 's" where
  "sdkCall U uploadOp r f = (case r of (Inl e, s) \<Rightarrow> (Inl (sc_classify U uploadOp e), s) | (Inr v, s) \<Rightarrow> (f v, s))"

text \<open>A string an SDK must return: absent and empty are refused.\<close>

definition required :: "string option \<Rightarrow> string result" where
  "required v = (case v of None \<Rightarrow> Inl invalidResponse | Some x \<Rightarrow> if x = [] then Inl invalidResponse else Inr x)"

section \<open>The operations\<close>

definition listPage :: "('e, 'p, 's) sdkClient \<Rightarrow> ctx \<Rightarrow> string \<Rightarrow> string \<Rightarrow> string option \<Rightarrow> 's \<Rightarrow> 'p result \<times> 's" where
  "listPage U c bucket px token s = sdkCall U False (api_ListObjects (sc_api U) c bucket px token s) Inr"

fun sdkListLoop ::
  "nat \<Rightarrow> ('e, 'p, 's) sdkClient \<Rightarrow> ctx \<Rightarrow> string \<Rightarrow> string \<Rightarrow> string option \<Rightarrow> ObjectInfo list \<Rightarrow> 's \<Rightarrow> (ObjectInfo list result \<times> 's) option" where
  "sdkListLoop 0 U c bucket px token objects s = None"
| "sdkListLoop (Suc fuel) U c bucket px token objects s =
     (case sdkDo U c MetadataAttemptTimeout (listPage U c bucket px token) s of
        (Inl e, s') \<Rightarrow> Some (Inl e, s')
      | (Inr page, s') \<Rightarrow>
          let objects' = objects @ sc_objects U page in
          (case sc_next U page of
             Inl e \<Rightarrow> Some (Inl e, s')
           | Inr None \<Rightarrow> Some (Inr objects', s')
           | Inr (Some token') \<Rightarrow> sdkListLoop fuel U c bucket px (Some token') objects' s'))"

definition sdkListObjects :: "('e, 'p, 's) sdkClient \<Rightarrow> ctx \<Rightarrow> string \<Rightarrow> string \<Rightarrow> 's \<Rightarrow> ObjectInfo list result \<times> 's" where
  "sdkListObjects U c bucket px s =
     (case sdkListLoop (sc_pages U) U c bucket px None [] s of None \<Rightarrow> (Inl listingHangs, s) | Some r \<Rightarrow> r)"

definition headTry :: "('e, 'p, 's) sdkClient \<Rightarrow> ctx \<Rightarrow> string \<Rightarrow> string \<Rightarrow> 's \<Rightarrow> int result \<times> 's" where
  "headTry U c bucket key s = sdkCall U False (api_HeadObject (sc_api U) c bucket key s)
     (\<lambda>cl. case cl of None \<Rightarrow> Inl invalidResponse | Some n \<Rightarrow> Inr n)"

definition sdkGetObjectSize :: "('e, 'p, 's) sdkClient \<Rightarrow> ctx \<Rightarrow> string \<Rightarrow> string \<Rightarrow> 's \<Rightarrow> int result \<times> 's" where
  "sdkGetObjectSize U c bucket key s = sdkDo U c MetadataAttemptTimeout (headTry U c bucket key) s"

text \<open>The empty string asks for the whole object.\<close>

definition rangeHeader :: "int \<Rightarrow> int \<Rightarrow> string result" where
  "rangeHeader startByte endByte =
     (if startByte < 0 then Inl (Errorf [Sentinel ErrInvalidRange])
      else if endByte = -1 then
        (if startByte = 0 then Inr [] else Inr (''bytes='' @ FormatInt startByte @ ''-''))
      else if endByte < startByte then Inl (Errorf [Sentinel ErrInvalidRange])
      else Inr (''bytes='' @ FormatInt startByte @ ''-'' @ FormatInt endByte))"

definition getTry :: "('e, 'p, 's) sdkClient \<Rightarrow> ctx \<Rightarrow> string \<Rightarrow> string \<Rightarrow> string option \<Rightarrow> 's \<Rightarrow> reader result \<times> 's" where
  "getTry U c bucket key rng s = sdkCall U False (api_GetObject (sc_api U) c bucket key rng s) Inr"

definition sdkGetObjectRange :: "('e, 'p, 's) sdkClient \<Rightarrow> ctx \<Rightarrow> string \<Rightarrow> string \<Rightarrow> int \<Rightarrow> int \<Rightarrow> 's \<Rightarrow> reader result \<times> 's" where
  "sdkGetObjectRange U c bucket key startByte endByte s =
     (case rangeHeader startByte endByte of
        Inl e \<Rightarrow> (Inl e, s)
      | Inr rng \<Rightarrow> sdkDo U c 0 (getTry U c bucket key (if rng \<noteq> [] then Some rng else None)) s)"

definition createTry :: "('e, 'p, 's) sdkClient \<Rightarrow> ctx \<Rightarrow> string \<Rightarrow> string \<Rightarrow> 's \<Rightarrow> string result \<times> 's" where
  "createTry U c bucket key s = sdkCall U False (api_CreateUpload (sc_api U) c bucket key s) required"

definition sdkInitiate :: "('e, 'p, 's) sdkClient \<Rightarrow> ctx \<Rightarrow> string \<Rightarrow> string \<Rightarrow> 's \<Rightarrow> string result \<times> 's" where
  "sdkInitiate U c bucket key s = sdkDo U c MetadataAttemptTimeout (createTry U c bucket key) s"

definition partTry ::
  "('e, 'p, 's) sdkClient \<Rightarrow> ctx \<Rightarrow> string \<Rightarrow> string \<Rightarrow> string \<Rightarrow> int \<Rightarrow> bytes \<Rightarrow> 's \<Rightarrow> string result \<times> 's" where
  "partTry U c bucket key uploadID partNumber data s =
     sdkCall U True (api_UploadPart (sc_api U) c bucket key uploadID (sc_number U partNumber) data s) required"

definition sdkUploadPart ::
  "('e, 'p, 's) sdkClient \<Rightarrow> ctx \<Rightarrow> string \<Rightarrow> string \<Rightarrow> string \<Rightarrow> int \<Rightarrow> bytes \<Rightarrow> 's \<Rightarrow> string result \<times> 's" where
  "sdkUploadPart U c bucket key uploadID partNumber data s =
     sdkDo U c (UploadAttemptTimeout (int (length data))) (partTry U c bucket key uploadID partNumber data) s"

definition completedParts :: "('e, 'p, 's) sdkClient \<Rightarrow> (int, string) gomap \<Rightarrow> (int \<times> string) list" where
  "completedParts U etags =
     map (\<lambda>n. (sc_number U n, case gm_get etags n of None \<Rightarrow> [] | Some t \<Rightarrow> t)) (sort (map fst etags))"

definition commitTry ::
  "('e, 'p, 's) sdkClient \<Rightarrow> ctx \<Rightarrow> string \<Rightarrow> string \<Rightarrow> string \<Rightarrow> (int \<times> string) list \<Rightarrow> 's \<Rightarrow> unit result \<times> 's" where
  "commitTry U c bucket key uploadID ps s =
     (case api_CompleteUpload (sc_api U) c bucket key uploadID ps s of
        (Inr _, s') \<Rightarrow> (Inr (), s')
      | (Inl e, s') \<Rightarrow>
          let classified = sc_classify U True e in
          if errIs classified ErrUploadNotFound then
            (case sdkGetObjectSize U c bucket key s' of
               (Inr _, s'') \<Rightarrow> (Inr (), s'')
             | (Inl _, s'') \<Rightarrow> (Inl classified, s''))
          else (Inl classified, s'))"

definition sdkComplete ::
  "('e, 'p, 's) sdkClient \<Rightarrow> ctx \<Rightarrow> string \<Rightarrow> string \<Rightarrow> string \<Rightarrow> (int, string) gomap \<Rightarrow> 's \<Rightarrow> err option \<times> 's" where
  "sdkComplete U c bucket key uploadID etags s =
     map_prod errorOf id (sdkDo U c CompleteAttemptTimeout (commitTry U c bucket key uploadID (completedParts U etags)) s)"

definition putObjectTry :: "('e, 'p, 's) sdkClient \<Rightarrow> ctx \<Rightarrow> string \<Rightarrow> string \<Rightarrow> bytes \<Rightarrow> 's \<Rightarrow> unit result \<times> 's" where
  "putObjectTry U c bucket key data s = sdkCall U False (api_PutObject (sc_api U) c bucket key data s) Inr"

definition sdkPutObject :: "('e, 'p, 's) sdkClient \<Rightarrow> ctx \<Rightarrow> string \<Rightarrow> string \<Rightarrow> bytes \<Rightarrow> 's \<Rightarrow> err option \<times> 's" where
  "sdkPutObject U c bucket key data s =
     map_prod errorOf id (sdkDo U c (UploadAttemptTimeout (int (length data))) (putObjectTry U c bucket key data) s)"

definition abortUploadTry :: "('e, 'p, 's) sdkClient \<Rightarrow> ctx \<Rightarrow> string \<Rightarrow> string \<Rightarrow> string \<Rightarrow> 's \<Rightarrow> unit result \<times> 's" where
  "abortUploadTry U c bucket key uploadID s = sdkCall U True (api_AbortUpload (sc_api U) c bucket key uploadID s) Inr"

definition sdkAbort :: "('e, 'p, 's) sdkClient \<Rightarrow> ctx \<Rightarrow> string \<Rightarrow> string \<Rightarrow> string \<Rightarrow> 's \<Rightarrow> err option \<times> 's" where
  "sdkAbort U c bucket key uploadID s =
     (case sdkDo U c MetadataAttemptTimeout (abortUploadTry U c bucket key uploadID) s of
        (Inl e, s') \<Rightarrow> (if errIs e ErrUploadNotFound then None else Some e, s')
      | (Inr _, s') \<Rightarrow> (None, s'))"

definition deleteObjectTry :: "('e, 'p, 's) sdkClient \<Rightarrow> ctx \<Rightarrow> string \<Rightarrow> string \<Rightarrow> 's \<Rightarrow> unit result \<times> 's" where
  "deleteObjectTry U c bucket key s = sdkCall U False (api_DeleteObject (sc_api U) c bucket key s) Inr"

definition sdkDeleteObject :: "('e, 'p, 's) sdkClient \<Rightarrow> ctx \<Rightarrow> string \<Rightarrow> string \<Rightarrow> 's \<Rightarrow> err option \<times> 's" where
  "sdkDeleteObject U c bucket key s =
     map_prod errorOf id (sdkDo U c MetadataAttemptTimeout (deleteObjectTry U c bucket key) s)"

definition sdkObjectClient :: "('e, 'p, 's) sdkClient \<Rightarrow> 's ObjectStorageClient" where
  "sdkObjectClient U =
     \<lparr>ListObjects = sdkListObjects U, GetObjectSize = sdkGetObjectSize U, GetObjectRange = sdkGetObjectRange U,
      Initiate = sdkInitiate U, UploadPart = sdkUploadPart U, Complete = sdkComplete U, Abort = sdkAbort U,
      PutObject = sdkPutObject U, DeleteObject = sdkDeleteObject U\<rparr>"

text \<open>\<open>ListBuckets\<close>: pages of names; a page without a next token is the last. \<open>call\<close> is the SDK's call.\<close>

fun bucketsLoop ::
  "nat \<Rightarrow> ('e, 'p, 's) sdkClient \<Rightarrow> ctx \<Rightarrow> (string option \<Rightarrow> 's \<Rightarrow> ('e + 'b) \<times> 's) \<Rightarrow> ('b \<Rightarrow> string list) \<Rightarrow> ('b \<Rightarrow> string option) \<Rightarrow>
     string option \<Rightarrow> string list \<Rightarrow> 's \<Rightarrow> (string list result \<times> 's) option" where
  "bucketsLoop 0 U c call names nxt token buckets s = None"
| "bucketsLoop (Suc fuel) U c call names nxt token buckets s =
     (case sdkDo U c MetadataAttemptTimeout (\<lambda>s. sdkCall U False (call token s) Inr) s of
        (Inl e, s') \<Rightarrow> Some (Inl e, s')
      | (Inr page, s') \<Rightarrow>
          let buckets' = buckets @ names page in
          (case nxt page of
             None \<Rightarrow> Some (Inr buckets', s')
           | Some token' \<Rightarrow> bucketsLoop fuel U c call names nxt (Some token') buckets' s'))"

end
