(* ===== verification/SdkClient.thy ===== *)
theory SdkClient
  imports Sdk HttpServer
begin

text \<open>
  The SDK clients over a service that behaves as documented (\<open>sdk_service\<close>): the calls may fail before or
  after they have taken effect. A client whose classification says "missing" or "gone" only of errors with
  that meaning (\<open>sdk_client\<close>) keeps the laws of \<open>object_client\<close>.
\<close>

section \<open>What the service promises\<close>

text \<open>A page of a listing with the keys \<open>left\<close> before it; \<open>after\<close> are those left at the next token.\<close>

definition sdk_page_ok :: "string list \<Rightarrow> (string \<Rightarrow> string list) \<Rightarrow> ObjectInfo list \<Rightarrow> string option result \<Rightarrow> bool" where
  "sdk_page_ok left after objs nxt \<longleftrightarrow> (\<exists>rest. left = map oi_Name objs @ rest \<and>
     (case nxt of Inl e \<Rightarrow> True | Inr None \<Rightarrow> rest = [] | Inr (Some t) \<Rightarrow> objs \<noteq> [] \<and> after t = rest))"

lemma sdk_page_okE:
  assumes "sdk_page_ok left after objs nxt"
  obtains rest where "left = map oi_Name objs @ rest" "nxt = Inr None \<Longrightarrow> rest = []"
    "\<And>t. nxt = Inr (Some t) \<Longrightarrow> objs \<noteq> [] \<and> after t = rest"
proof -
  from assms obtain rest where "left = map oi_Name objs @ rest"
    "case nxt of Inl e \<Rightarrow> True | Inr None \<Rightarrow> rest = [] | Inr (Some t) \<Rightarrow> objs \<noteq> [] \<and> after t = rest"
    unfolding sdk_page_ok_def by blast
  then show thesis by (intro that [of rest]) simp_all
qed

text \<open>
  A conforming service, seen by a caller that it has authorized: a \<open>missing\<close> error tells that the object is
  absent and a \<open>gone\<close> error that the upload is not there. OCI answers 404 also to a caller that lacks the
  right to a request; such answers are outside these laws. An upload ends by completing, which leaves the
  assembled object, or by an abort. While it lasts a completion may fail and have taken effect or not.
  A completion of an upload that is not there is answered by an error, or by a success only where an object of
  that name is present.
\<close>

locale sdk_service = object_world obj parts remaining inv
  for obj :: "'s \<Rightarrow> string \<Rightarrow> string \<Rightarrow> bytes option"
    and parts :: "'s \<Rightarrow> string \<Rightarrow> string \<Rightarrow> string \<Rightarrow> (int \<rightharpoonup> string \<times> bytes) option"
    and remaining :: "'s \<Rightarrow> string \<Rightarrow> string \<Rightarrow> string option \<Rightarrow> string list"
    and inv :: "'s \<Rightarrow> bool" +
  fixes api :: "('e, 'p, 's) sdkAPI"
    and objects :: "'p \<Rightarrow> ObjectInfo list"
    and next_token :: "'p \<Rightarrow> string option result"
    and nm :: "string \<Rightarrow> string \<Rightarrow> bool"
    and missing :: "'e \<Rightarrow> bool"
    and gone :: "'e \<Rightarrow> bool"
  assumes list_call: "inv s \<Longrightarrow> api_ListObjects api c b px token s = (rl, s') \<Longrightarrow> same s s' \<and>
      (\<forall>page. rl = Inr page \<longrightarrow> sdk_page_ok (remaining s b px token) (\<lambda>t. remaining s b px (Some t)) (objects page) (next_token page))"
    and listed: "inv s \<Longrightarrow> nm b k \<Longrightarrow> obj s b k \<noteq> None \<Longrightarrow> HasPrefix k px \<Longrightarrow> k \<in> set (remaining s b px None)"
    and head_call: "inv s \<Longrightarrow> nm b k \<Longrightarrow> api_HeadObject api c b k s = (rh, s') \<Longrightarrow> same s s' \<and>
      (\<forall>n. rh = Inr (Some n) \<longrightarrow> (\<exists>d. obj s b k = Some d \<and> n = int (length d))) \<and> (\<forall>e. rh = Inl e \<and> missing e \<longrightarrow> obj s b k = None)"
    and get_call: "inv s \<Longrightarrow> nm b k \<Longrightarrow> api_GetObject api c b k rng s = (rg, s') \<Longrightarrow> same s s' \<and>
      (\<forall>body. rg = Inr body \<longrightarrow> (\<exists>d. obj s b k = Some d \<and> (rng = None \<longrightarrow> delivers d body) \<and>
         (\<forall>i j v. valid_range i j \<and> rangeHeader i j = Inr v \<and> rng = Some v \<longrightarrow> delivers (byteRange i j d) body))) \<and>
      (\<forall>e. rg = Inl e \<and> missing e \<longrightarrow> obj s b k = None)"
    and create_call: "inv s \<Longrightarrow> nm b k \<Longrightarrow> api_CreateUpload api c b k s = (rc, s') \<Longrightarrow> inv s' \<and> obj s' = obj s \<and>
      (\<forall>u. rc = Inr (Some u) \<longrightarrow> parts s' b k u = Some Map.empty)"
    and part_call: "inv s \<Longrightarrow> nm b k \<Longrightarrow> part_number n \<Longrightarrow> parts s b k u = Some m \<Longrightarrow>
      api_UploadPart api c b k u n d s = (rc, s') \<Longrightarrow>
      storing b k u m n d s s' \<and> (\<forall>t. rc = Inr (Some t) \<longrightarrow> parts s' b k u = Some (m(n \<mapsto> (t, d))))"
    and commit_call: "inv s \<Longrightarrow> nm b k \<Longrightarrow> parts s b k u = Some m \<Longrightarrow> tags_of m ps \<Longrightarrow> api_CompleteUpload api c b k u ps s = (r, s') \<Longrightarrow>
      completing b k u m (assemble m ps) s s' \<and> (\<forall>x. r = Inr x \<longrightarrow> obj s' b k = Some (assemble m ps)) \<and> (\<forall>e. r = Inl e \<longrightarrow> \<not> gone e)"
    and commit_gone: "inv s \<Longrightarrow> nm b k \<Longrightarrow> parts s b k u = None \<Longrightarrow> api_CompleteUpload api c b k u ps s = (r, s') \<Longrightarrow>
      inv s' \<and> obj s' = obj s \<and> parts s' b k u = None \<and> (\<forall>x. r = Inr x \<longrightarrow> obj s b k \<noteq> None)"
    and abort_call: "inv s \<Longrightarrow> nm b k \<Longrightarrow> u \<noteq> [] \<Longrightarrow> api_AbortUpload api c b k u s = (r, s') \<Longrightarrow> inv s' \<and> obj s' = obj s"
    and put_call: "inv s \<Longrightarrow> nm b k \<Longrightarrow> api_PutObject api c b k d s = (r, s') \<Longrightarrow>
      changing b k (Some d) s s' \<and> (\<forall>x. r = Inr x \<longrightarrow> obj s' b k = Some d)"
    and delete_call: "inv s \<Longrightarrow> nm b k \<Longrightarrow> api_DeleteObject api c b k s = (r, s') \<Longrightarrow>
      changing b k None s s' \<and> ((\<exists>x. r = Inr x) \<or> (\<exists>e. r = Inl e \<and> missing e) \<longrightarrow> obj s' b k = None)"

text \<open>A client of it: its classification of errors is right, and it passes part numbers on.\<close>

locale sdk_client = sdk_service obj parts remaining inv "sc_api U" "sc_objects U" "sc_next U" nm missing gone
  for obj :: "'s \<Rightarrow> string \<Rightarrow> string \<Rightarrow> bytes option"
    and parts :: "'s \<Rightarrow> string \<Rightarrow> string \<Rightarrow> string \<Rightarrow> (int \<rightharpoonup> string \<times> bytes) option"
    and remaining :: "'s \<Rightarrow> string \<Rightarrow> string \<Rightarrow> string option \<Rightarrow> string list"
    and inv :: "'s \<Rightarrow> bool"
    and U :: "('e, 'p, 's) sdkClient"
    and nm :: "string \<Rightarrow> string \<Rightarrow> bool"
    and missing :: "'e \<Rightarrow> bool"
    and gone :: "'e \<Rightarrow> bool" +
  assumes contexts: "ctx_ok (sc_attempts U c s)"
    and classify_missing: "errIs (sc_classify U up e) ErrNotFound \<Longrightarrow> missing e"
    and classify_gone: "errIs (sc_classify U True e) ErrUploadNotFound \<Longrightarrow> gone e"
    and numbers: "part_number n \<Longrightarrow> sc_number U n = n"

section \<open>One call\<close>

lemma sdkCall_cases:
  assumes "sdkCall U up call f = (r, s')"
  obtains (failed) e where "call = (Inl e, s')" "r = Inl (sc_classify U up e)" | (returned) v where "call = (Inr v, s')" "r = f v"
  using assms by (auto simp: sdkCall_def split: prod.splits sum.splits)

lemma required_eq: "required v = Inr x \<longleftrightarrow> v = Some x \<and> x \<noteq> []"
  by (auto simp: required_def split: option.splits)

lemma plain_invalidResponse: "\<not> errIs invalidResponse ErrNotFound"
  by (simp add: invalidResponse_def)

text \<open>An upload reported gone whose object answers was completed before: the call succeeds.\<close>

lemma sdk_complete_found:
  assumes "api_CompleteUpload (sc_api U) c b k u (completedParts U etags) s = (Inl e, s1)"
    and "errIs (sc_classify U True e) ErrUploadNotFound" and "sdkGetObjectSize U c b k s1 = (Inr n, s2)"
  shows "sdkComplete U c b k u etags s = (None, s2)"
proof -
  have "commitTry U c b k u (completedParts U etags) s = (Inr (), s2)" using assms by (simp add: commitTry_def)
  then show ?thesis by (simp add: sdkComplete_def sdkDo_def callDo_first)
qed

context object_world
begin

lemma changing_trans: "changing b k v s t \<Longrightarrow> changing b k v t t' \<Longrightarrow> changing b k v s t'"
  unfolding changing_def by metis

lemma same_trans: "same s t \<Longrightarrow> same t t' \<Longrightarrow> same s t'"
  by (simp add: same_def)

lemma read_ok_same: "same s t \<Longrightarrow> read_ok t b k ok r = read_ok s b k ok r"
  by (simp add: same_def read_ok_def)

end

context sdk_client
begin

lemma sdkDo_spec:
  assumes "sdkDo U c timeout fn s = (r, s')" and "P s" and "\<And>t r s'. fn t = (r, s') \<Longrightarrow> P t \<Longrightarrow> P s' \<and> Q r s'"
    and "\<And>e e' s'. Q (Inl e) s' \<Longrightarrow> wrapped e e' \<Longrightarrow> Q (Inl e') s'"
  shows "P s' \<and> Q r s'"
  by (rule callDo_spec [OF assms(1) [unfolded sdkDo_def] contexts, of P Q]) (fact assms)+

section \<open>Reading\<close>

lemma sdk_size_spec:
  assumes "sdkGetObjectSize U c b k s = (r, s')" and "inv s" and "nm b k"
  shows "same s s' \<and> read_ok s b k (\<lambda>d n. n = int (length d)) r"
proof (rule sdkDo_spec [OF assms(1) [unfolded sdkGetObjectSize_def], where P = "same s" and Q = "\<lambda>r _. read_ok s b k _ r"])
  fix t r s' assume run: "headTry U c b k t = (r, s')" and t: "same s t"
  have inv: "inv t" "obj t = obj s" using t by (simp_all add: same_def)
  from run [unfolded headTry_def] show "same s s' \<and> read_ok s b k (\<lambda>d n. n = int (length d)) r"
    by (cases rule: sdkCall_cases)
      (use head_call [OF inv(1) assms(3)] same_trans [OF t] classify_missing inv(2) plain_invalidResponse in \<open>auto simp: read_ok_def split: option.splits\<close>)
qed (use same_start [OF assms(2)] read_ok_wrapped in auto)

lemma sdk_range_spec:
  assumes "sdkGetObjectRange U c b k i j s = (r, s')" and "inv s" and "nm b k" and "valid_range i j"
  shows "same s s' \<and> read_ok s b k (\<lambda>d. delivers (byteRange i j d)) r"
proof -
  obtain v where v: "rangeHeader i j = Inr v" using assms(4) by (cases "rangeHeader i j") (auto simp: rangeHeader_def valid_range_def split: if_splits)
  have whole: "v = [] \<Longrightarrow> byteRange i j d = d" for d using v by (auto simp: rangeHeader_def byteRange_def split: if_splits)
  have call: "sdkDo U c 0 (getTry U c b k (if v \<noteq> [] then Some v else None)) s = (r, s')"
    using assms(1) by (simp add: sdkGetObjectRange_def v)
  show ?thesis
  proof (rule sdkDo_spec [OF call, where P = "same s" and Q = "\<lambda>r _. read_ok s b k _ r"])
    fix t r s' assume run: "getTry U c b k (if v \<noteq> [] then Some v else None) t = (r, s')" and t: "same s t"
    have inv: "inv t" "obj t = obj s" using t by (simp_all add: same_def)
    from run [unfolded getTry_def] show "same s s' \<and> read_ok s b k (\<lambda>d. delivers (byteRange i j d)) r"
    proof (cases rule: sdkCall_cases)
      case (failed e)
      with get_call [OF inv(1) assms(3) failed(1)] same_trans [OF t] classify_missing inv(2) show ?thesis by (auto simp: read_ok_def)
    next
      case (returned body)
      from get_call [OF inv(1) assms(3) returned(1)] obtain d where d: "same t s'" "obj s b k = Some d"
        "v = [] \<Longrightarrow> delivers d body" "v \<noteq> [] \<Longrightarrow> delivers (byteRange i j d) body"
        using inv(2) v assms(4) by (auto split: if_splits)
      then have "delivers (byteRange i j d) body" using whole by (cases "v = []") simp_all
      with d(2) returned(2) same_trans [OF t d(1)] show ?thesis by (simp add: read_ok_def)
    qed
  qed (use same_start [OF assms(2)] read_ok_wrapped in auto)
qed

lemma sdk_range_exact:
  assumes "inv s" and "nm b k" and "valid_range i j"
  shows "obj (snd (sdkGetObjectRange U c b k i j s)) = obj s \<and>
    (\<forall>body. fst (sdkGetObjectRange U c b k i j s) = Inr body \<longrightarrow> (\<exists>d. obj s b k = Some d \<and> delivers (byteRange i j d) body)) \<and>
    (\<forall>e. fst (sdkGetObjectRange U c b k i j s) = Inl e \<and> errIs e ErrNotFound \<longrightarrow> obj s b k = None)"
  using sdk_range_spec [OF surjective_pairing assms] by (simp add: same_def read_ok_def)

section \<open>Listing\<close>

lemma sdk_page:
  assumes "sdkDo U c MetadataAttemptTimeout (listPage U c b px token) t = (r, s')" and "same s t"
  shows "same s s'" and "r = Inr page \<Longrightarrow> sdk_page_ok (remaining s b px token) (\<lambda>x. remaining s b px (Some x)) (sc_objects U page) (sc_next U page)"
proof -
  let ?ok = "\<lambda>page. sdk_page_ok (remaining s b px token) (\<lambda>x. remaining s b px (Some x)) (sc_objects U page) (sc_next U page)"
  have "same s s' \<and> (\<forall>page. r = Inr page \<longrightarrow> ?ok page)"
  proof (rule sdkDo_spec [OF assms(1), where P = "same s" and Q = "\<lambda>r _. \<forall>page. r = Inr page \<longrightarrow> ?ok page"])
    fix t r s' assume run: "listPage U c b px token t = (r, s')" and t: "same s t"
    have inv: "inv t" "remaining t = remaining s" using t by (simp_all add: same_def)
    from run [unfolded listPage_def] show "same s s' \<and> (\<forall>page. r = Inr page \<longrightarrow> ?ok page)"
      by (cases rule: sdkCall_cases) (use list_call [OF inv(1)] same_trans [OF t] inv(2) in auto)
  qed (use assms(2) in auto)
  then show "same s s'" and "r = Inr page \<Longrightarrow> ?ok page" by auto
qed

lemma sdk_loop_spec:
  "same s t \<Longrightarrow> sdkListLoop fuel U c b px token acc t = Some (r, s') \<Longrightarrow>
   same s s' \<and> (\<forall>os. r = Inr os \<longrightarrow> map oi_Name os = map oi_Name acc @ remaining s b px token)"
proof (induction fuel arbitrary: token acc t)
  case (Suc fuel)
  obtain rp s1 where call: "sdkDo U c MetadataAttemptTimeout (listPage U c b px token) t = (rp, s1)" by fastforce
  note page = sdk_page [OF call Suc.prems(1)]
  show ?case
  proof (cases rp)
    case (Inl e)
    with Suc.prems(2) call page(1) show ?thesis by auto
  next
    case (Inr pg)
    from page(2) [OF Inr] obtain rest where rest: "remaining s b px token = map oi_Name (sc_objects U pg) @ rest"
      "sc_next U pg = Inr None \<Longrightarrow> rest = []"
      "\<And>x. sc_next U pg = Inr (Some x) \<Longrightarrow> sc_objects U pg \<noteq> [] \<and> remaining s b px (Some x) = rest" by (rule sdk_page_okE) blast
    with Suc.prems(2) call Inr page(1) Suc.IH [OF page(1)] show ?thesis
      by (auto simp: Let_def split: sum.splits option.splits)
  qed
qed simp

lemma sdk_loop_returns:
  "same s t \<Longrightarrow> length (remaining s b px token) < fuel \<Longrightarrow> \<exists>r s'. sdkListLoop fuel U c b px token acc t = Some (r, s')"
proof (induction fuel arbitrary: token acc t)
  case (Suc fuel)
  obtain rp s1 where call: "sdkDo U c MetadataAttemptTimeout (listPage U c b px token) t = (rp, s1)" by fastforce
  note page = sdk_page [OF call Suc.prems(1)]
  show ?case
  proof (cases "\<exists>pg x. rp = Inr pg \<and> sc_next U pg = Inr (Some x)")
    case True
    then obtain pg x where pg: "rp = Inr pg" "sc_next U pg = Inr (Some x)" by blast
    from page(2) [OF pg(1)] pg(2) have "length (remaining s b px (Some x)) < length (remaining s b px token)"
      by (auto simp: sdk_page_ok_def)
    with Suc.prems(2) have "length (remaining s b px (Some x)) < fuel" by simp
    from Suc.IH [OF page(1) this] pg call show ?thesis by (simp add: Let_def)
  next
    case False
    with call show ?thesis by (auto simp: Let_def split: sum.splits option.splits)
  qed
qed simp

lemma sdk_listing:
  assumes "inv s" and "length (remaining s b px None) < fuel"
  shows "\<exists>r s'. sdkListLoop fuel U c b px None [] s = Some (r, s') \<and> obj s' = obj s \<and>
    (\<forall>os. r = Inr os \<longrightarrow> map oi_Name os = remaining s b px None)"
proof -
  obtain r s' where r: "sdkListLoop fuel U c b px None [] s = Some (r, s')"
    using sdk_loop_returns [OF same_start [OF assms(1)] assms(2)] by blast
  with sdk_loop_spec [OF same_start [OF assms(1)] r] show ?thesis by (auto simp: same_def)
qed

lemma sdk_list_spec:
  assumes "sdkListObjects U c b px s = (r, s')" and "inv s"
  shows "same s s' \<and> (\<forall>os. r = Inr os \<longrightarrow> map oi_Name os = remaining s b px None)"
proof (cases "sdkListLoop (sc_pages U) U c b px None [] s")
  case None
  with assms show ?thesis by (auto simp: sdkListObjects_def same_def)
next
  case (Some res)
  with assms(1) have "sdkListLoop (sc_pages U) U c b px None [] s = Some (r, s')" by (simp add: sdkListObjects_def)
  from sdk_loop_spec [OF same_start [OF assms(2)] this] show ?thesis by simp
qed

section \<open>Writing\<close>

lemma sdk_initiate_spec:
  assumes "sdkInitiate U c b k s = (r, s')" and "inv s" and "nm b k"
  shows "(inv s' \<and> obj s' = obj s) \<and> (\<forall>u. r = Inr u \<longrightarrow> u \<noteq> [] \<and> parts s' b k u = Some Map.empty)"
proof (rule sdkDo_spec [OF assms(1) [unfolded sdkInitiate_def], where P = "\<lambda>t. inv t \<and> obj t = obj s"
      and Q = "\<lambda>r s'. \<forall>u. r = Inr u \<longrightarrow> u \<noteq> [] \<and> parts s' b k u = Some Map.empty"])
  fix t r s' assume run: "createTry U c b k t = (r, s')" and t: "inv t \<and> obj t = obj s"
  from run [unfolded createTry_def]
  show "(inv s' \<and> obj s' = obj s) \<and> (\<forall>u. r = Inr u \<longrightarrow> u \<noteq> [] \<and> parts s' b k u = Some Map.empty)"
    by (cases rule: sdkCall_cases) (use create_call [OF t [THEN conjunct1] assms(3)] t in \<open>auto simp: required_eq\<close>)
qed (use assms(2) in auto)

lemma sdk_part_spec:
  assumes "sdkUploadPart U c b k u n d s = (r, s')" and "inv s" and "nm b k" and "part_number n" and "parts s b k u = Some m"
  shows "storing b k u m n d s s' \<and> (\<forall>x. r = Inr x \<longrightarrow> parts s' b k u = Some (m(n \<mapsto> (x, d))))"
proof (rule sdkDo_spec [OF assms(1) [unfolded sdkUploadPart_def], where P = "storing b k u m n d s"
      and Q = "\<lambda>r s'. \<forall>x. r = Inr x \<longrightarrow> parts s' b k u = Some (m(n \<mapsto> (x, d)))"])
  fix t r s' assume run: "partTry U c b k u n d t = (r, s')" and t: "storing b k u m n d s t"
  from t obtain m' where m': "parts t b k u = Some m'" "\<forall>x. m'(n \<mapsto> (x, d)) = m(n \<mapsto> (x, d))" "inv t" "obj t = obj s"
    "m' = m \<or> (\<exists>x. m' = m(n \<mapsto> (x, d)))" by (rule storingE)
  have law: "storing b k u m n d s s' \<and> (\<forall>x. rc = Inr (Some x) \<longrightarrow> parts s' b k u = Some (m(n \<mapsto> (x, d))))"
    if "api_UploadPart (sc_api U) c b k u (sc_number U n) d t = (rc, s')" for rc
    using part_call [OF m'(3) assms(3,4) m'(1) that [unfolded numbers [OF assms(4)]]] m'(2,4,5) by (auto simp: storing_def)
  from run [unfolded partTry_def]
  show "storing b k u m n d s s' \<and> (\<forall>x. r = Inr x \<longrightarrow> parts s' b k u = Some (m(n \<mapsto> (x, d))))"
    by (cases rule: sdkCall_cases) (use law in \<open>auto simp: required_eq\<close>)
qed (use storing_start assms(2,5) in auto)

lemma sdk_abort_spec:
  assumes "sdkAbort U c b k u s = (oe, s')" and "inv s" and "nm b k" and "u \<noteq> []"
  shows "inv s' \<and> obj s' = obj s"
proof -
  obtain r where call: "sdkDo U c MetadataAttemptTimeout (abortUploadTry U c b k u) s = (r, s')"
    using assms(1) by (auto simp: sdkAbort_def split: prod.splits sum.splits)
  have "(inv s' \<and> obj s' = obj s) \<and> True"
  proof (rule sdkDo_spec [OF call, where P = "\<lambda>t. inv t \<and> obj t = obj s" and Q = "\<lambda>_ _. True"])
    fix t r s' assume run: "abortUploadTry U c b k u t = (r, s')" and t: "inv t \<and> obj t = obj s"
    from run [unfolded abortUploadTry_def] show "(inv s' \<and> obj s' = obj s) \<and> True"
      by (cases rule: sdkCall_cases) (use abort_call [OF t [THEN conjunct1] assms(3,4)] t in auto)
  qed (use assms(2) in auto)
  then show ?thesis by simp
qed

text \<open>The two operations that replace one object by \<open>v\<close>, over what one attempt does.\<close>

lemma changing_spec:
  assumes "map_prod errorOf id (sdkDo U c timeout fn s) = (oe, s')" and "inv s"
    and "\<And>t r s'. fn t = (r, s') \<Longrightarrow> inv t \<Longrightarrow> changing b k v t s' \<and> (r = Inr () \<or> (\<exists>e. r = Inl e \<and> D \<and> errIs e ErrNotFound) \<longrightarrow> obj s' b k = v)"
  shows "changing b k v s s' \<and> (oe = None \<or> D \<and> errIs (the oe) ErrNotFound \<longrightarrow> obj s' b k = v)"
proof -
  let ?Q = "\<lambda>r s'. r = Inr () \<or> (\<exists>e. r = Inl e \<and> D \<and> errIs e ErrNotFound) \<longrightarrow> obj s' b k = v"
  obtain r where call: "sdkDo U c timeout fn s = (r, s')" and oe: "oe = errorOf r"
    using assms(1) by (auto simp: map_prod_def split: prod.splits)
  have "changing b k v s s' \<and> ?Q r s'"
  proof (rule sdkDo_spec [OF call, where P = "changing b k v s" and Q = ?Q])
    fix t r s' assume "fn t = (r, s')" and t: "changing b k v s t"
    from assms(3) [OF this(1)] t changing_trans [OF t] show "changing b k v s s' \<and> ?Q r s'" by (auto simp: changing_def)
  qed (use changing_start assms(2) wrapped_not_found in auto)
  then show ?thesis by (cases r) (auto simp: oe)
qed

lemma sdk_put_spec:
  assumes "sdkPutObject U c b k d s = (oe, s')" and "inv s" and "nm b k"
  shows "changing b k (Some d) s s' \<and> (oe = None \<longrightarrow> obj s' b k = Some d)"
proof -
  have "changing b k (Some d) s s' \<and> (oe = None \<or> False \<and> errIs (the oe) ErrNotFound \<longrightarrow> obj s' b k = Some d)"
  proof (rule changing_spec [OF assms(1) [unfolded sdkPutObject_def] assms(2)])
    fix t r s' assume run: "putObjectTry U c b k d t = (r, s')" and t: "inv t"
    from run [unfolded putObjectTry_def]
    show "changing b k (Some d) t s' \<and> (r = Inr () \<or> (\<exists>e. r = Inl e \<and> False \<and> errIs e ErrNotFound) \<longrightarrow> obj s' b k = Some d)"
      by (cases rule: sdkCall_cases) (use put_call [OF t assms(3)] in auto)
  qed
  then show ?thesis by simp
qed

lemma sdk_delete_spec:
  assumes "sdkDeleteObject U c b k s = (oe, s')" and "inv s" and "nm b k"
  shows "changing b k None s s' \<and> (oe = None \<or> errIs (the oe) ErrNotFound \<longrightarrow> obj s' b k = None)"
proof -
  have "changing b k None s s' \<and> (oe = None \<or> True \<and> errIs (the oe) ErrNotFound \<longrightarrow> obj s' b k = None)"
  proof (rule changing_spec [OF assms(1) [unfolded sdkDeleteObject_def] assms(2)])
    fix t r s' assume run: "deleteObjectTry U c b k t = (r, s')" and t: "inv t"
    from run [unfolded deleteObjectTry_def]
    show "changing b k None t s' \<and> (r = Inr () \<or> (\<exists>e. r = Inl e \<and> True \<and> errIs e ErrNotFound) \<longrightarrow> obj s' b k = None)"
      by (cases rule: sdkCall_cases) (use delete_call [OF t assms(3)] classify_missing in auto)
  qed
  then show ?thesis by simp
qed

section \<open>Completing an upload\<close>

lemma completedParts_eq: "list_all (part_number \<circ> fst) etags \<Longrightarrow> completedParts U etags = sortedParts etags"
  by (auto simp: completedParts_def sortedParts_def list_all_iff numbers)

text \<open>After the upload has become the object, a further attempt meets it gone and finds the object.\<close>

lemma commitTry_spec:
  assumes "commitTry U c b k u ps t = (r, s')" and "nm b k" and "tags_of m ps" and "completing b k u m (assemble m ps) s t"
  shows "completing b k u m (assemble m ps) s s' \<and> (\<forall>x. r = Inr x \<longrightarrow> obj s' b k = Some (assemble m ps))"
proof -
  let ?d = "assemble m ps"
  have inv: "inv t" using assms(4) by (simp add: completing_def)
  obtain rc s1 where call: "api_CompleteUpload (sc_api U) c b k u ps t = (rc, s1)" by fastforce
  have s1: "completing b k u m ?d s s1 \<and> (\<forall>x. rc = Inr x \<longrightarrow> obj s1 b k = Some ?d) \<and> (\<forall>e. rc = Inl e \<and> gone e \<longrightarrow> obj s1 b k = Some ?d)"
  proof (cases "parts t b k u")
    case None
    with commit_gone [OF inv assms(2) None call] assms(4) show ?thesis by (auto simp: completing_def)
  next
    case (Some m')
    with assms(4) have [simp]: "m' = m" by (auto simp: completing_def)
    from commit_call [OF inv assms(2) Some _ call] assms(3,4) Some show ?thesis by (auto simp: completing_def)
  qed
  show ?thesis
  proof (cases "\<exists>e. rc = Inl e \<and> errIs (sc_classify U True e) ErrUploadNotFound")
    case True
    then obtain e where e: "rc = Inl e" "errIs (sc_classify U True e) ErrUploadNotFound" by blast
    obtain rh s2 where head: "sdkGetObjectSize U c b k s1 = (rh, s2)" by fastforce
    have "inv s1" using s1 by (simp add: completing_def)
    from sdk_size_spec [OF head this assms(2)] have same: "same s1 s2" by blast
    have "s' = s2" using assms(1) e call head by (auto simp: commitTry_def Let_def split: sum.splits)
    with same s1 completing_same [OF _ same] classify_gone [OF e(2)] e(1) show ?thesis by (auto simp: same_def)
  next
    case False
    with assms(1) call have "s' = s1 \<and> (\<forall>x. r = Inr x \<longrightarrow> rc = Inr ())" by (auto simp: commitTry_def Let_def split: sum.splits)
    with s1 show ?thesis by auto
  qed
qed

lemma sdk_complete_spec:
  assumes "sdkComplete U c b k u etags s = (oe, s')" and "inv s" and "nm b k" and "list_all (part_number \<circ> fst) etags"
    and "parts s b k u = Some m" and "tags_of m etags"
  shows "completing b k u m (assemble m etags) s s' \<and> (oe = None \<longrightarrow> obj s' b k = Some (assemble m etags))"
proof -
  let ?ps = "sortedParts etags"
  let ?P = "completing b k u m (assemble m ?ps) s" and ?Q = "\<lambda>r s'. \<forall>x. r = Inr x \<longrightarrow> obj s' b k = Some (assemble m ?ps)"
  obtain r where call: "sdkDo U c CompleteAttemptTimeout (commitTry U c b k u ?ps) s = (r, s')" and oe: "oe = errorOf r"
    using assms(1) by (auto simp: sdkComplete_def completedParts_eq [OF assms(4)] map_prod_def split: prod.splits)
  have "?P s' \<and> ?Q r s'"
    by (rule sdkDo_spec [OF call, where P = ?P and Q = ?Q])
      (use completing_start assms(2,5) commitTry_spec [OF _ assms(3) tags_of_sorted [OF assms(6)]] in auto)
  then show ?thesis by (auto simp: oe assemble_sorted)
qed

text \<open>Completing an upload that is gone changes nothing, and is a success only when there is an object.\<close>

lemma sdk_complete_gone:
  assumes "sdkComplete U c b k u etags s = (oe, s')" and "inv s" and "nm b k" and "parts s b k u = None"
  shows "obj s' = obj s \<and> (oe = None \<longrightarrow> obj s b k \<noteq> None)"
proof -
  let ?ps = "completedParts U etags" and ?P = "\<lambda>t. inv t \<and> obj t = obj s \<and> parts t b k u = None"
  let ?Q = "\<lambda>r s'. \<forall>x. r = Inr x \<longrightarrow> obj s b k \<noteq> None"
  obtain r where call: "sdkDo U c CompleteAttemptTimeout (commitTry U c b k u ?ps) s = (r, s')" and oe: "oe = errorOf r"
    using assms(1) by (auto simp: sdkComplete_def map_prod_def split: prod.splits)
  have "?P s' \<and> ?Q r s'"
  proof (rule sdkDo_spec [OF call, where P = ?P and Q = ?Q])
    fix t r s' assume run: "commitTry U c b k u ?ps t = (r, s')" and t: "?P t"
    obtain rc s1 where commit: "api_CompleteUpload (sc_api U) c b k u ?ps t = (rc, s1)" by fastforce
    have s1: "?P s1" "\<And>x. rc = Inr x \<Longrightarrow> obj s b k \<noteq> None"
      using commit_gone [OF _ assms(3) _ commit] t by auto
    obtain rh s2 where head: "sdkGetObjectSize U c b k s1 = (rh, s2)" by fastforce
    from sdk_size_spec [OF head _ assms(3)] s1(1) have s2: "?P s2" "\<And>n. rh = Inr n \<Longrightarrow> obj s b k \<noteq> None"
      by (auto simp: same_def read_ok_def)
    show "?P s' \<and> ?Q r s'"
      using run s1 s2 by (auto simp: commitTry_def commit head Let_def split: sum.splits if_splits)
  qed (use assms(2,4) in auto)
  then show ?thesis by (auto simp: oe)
qed

section \<open>The client keeps the contract\<close>

lemma sdk_contract: "object_client (sdkObjectClient U) obj parts nm inv"
proof (rule contract, goal_cases)
  case (1 s b k c rr s')
  then have "sdkGetObjectRange U c b k 0 (-1) s = (rr, s')" by (simp add: sdkObjectClient_def)
  from sdk_range_spec [OF this 1(1,2)] show ?case by (simp add: valid_range_def read_ok_def byteRange_def)
next
  case (2 s c b px rl s')
  then have "sdkListObjects U c b px s = (rl, s')" by (simp add: sdkObjectClient_def)
  note spec = sdk_list_spec [OF this 2(1)]
  have "k \<in> set (map oi_Name os)" if "rl = Inr os" "nm b k" "HasPrefix k px" "obj s b k \<noteq> None" for os k
    using spec that listed [OF 2(1) that(2,4,3)] by metis
  with spec show ?case by blast
next
  case (3 s b k c ri s')
  then show ?case using sdk_initiate_spec [of c b k s ri s'] by (simp add: sdkObjectClient_def)
next
  case (4 s b k n u m c d ri s')
  then show ?case using sdk_part_spec [of c b k u n d s ri s' m] by (simp add: sdkObjectClient_def)
next
  case (5 s b k etags u m c oe s')
  then show ?case using sdk_complete_spec [of c b k u etags s oe s' m] by (simp add: sdkObjectClient_def)
next
  case (6 s b k u c oe s')
  then show ?case using sdk_abort_spec [of c b k u s oe s'] by (simp add: sdkObjectClient_def)
next
  case (7 s b k c d oe s')
  then show ?case using sdk_put_spec [of c b k d s oe s'] by (simp add: sdkObjectClient_def)
next
  case (8 s b k c oe s')
  then show ?case using sdk_delete_spec [of c b k s oe s'] by (simp add: sdkObjectClient_def)
qed

end

sublocale sdk_client \<subseteq> object_client "sdkObjectClient U" obj parts nm inv
  by (rule sdk_contract)

section \<open>Listing buckets\<close>

text \<open>Over pages that share out the names \<open>rest\<close>, the loop ends, with all of them or an error of a request.\<close>

lemma bucketsLoop_complete:
  assumes ctxs: "\<And>t. ctx_ok (sc_attempts U c t)"
    and pages: "\<And>token s r s'. ok s \<Longrightarrow> call token s = (r, s') \<Longrightarrow> ok s' \<and> (\<forall>page. r = Inr page \<longrightarrow> (\<exists>tail. rest token = names page @ tail \<and>
      (case nxt page of None \<Rightarrow> tail = [] | Some t \<Rightarrow> names page \<noteq> [] \<and> rest (Some t) = tail)))"
  shows "ok s \<Longrightarrow> length (rest token) < fuel \<Longrightarrow>
    \<exists>r s'. bucketsLoop fuel U c call names nxt token acc s = Some (r, s') \<and> ok s' \<and> (\<forall>bs. r = Inr bs \<longrightarrow> bs = acc @ rest token)"
proof (induction fuel arbitrary: token acc s)
  case (Suc fuel)
  let ?fn = "\<lambda>s. sdkCall U False (call token s) Inr"
  let ?Q = "\<lambda>r _. \<forall>page. r = Inr page \<longrightarrow> (\<exists>tail. rest token = names page @ tail \<and>
      (case nxt page of None \<Rightarrow> tail = [] | Some t \<Rightarrow> names page \<noteq> [] \<and> rest (Some t) = tail))"
  obtain r s1 where run: "sdkDo U c MetadataAttemptTimeout ?fn s = (r, s1)" by fastforce
  have "ok s1 \<and> ?Q r s1"
  proof (rule callDo_spec [OF run [unfolded sdkDo_def] ctxs, where P = ok and Q = ?Q])
    fix t r s' assume run: "?fn t = (r, s')" and t: "ok t"
    from run show "ok s' \<and> ?Q r s'" by (cases rule: sdkCall_cases) (use pages [OF t] in auto)
  qed (use Suc.prems(1) in auto)
  then have ok: "ok s1" and page: "?Q r s1" by blast+
  show ?case
  proof (cases r)
    case (Inl e)
    with run ok show ?thesis by simp
  next
    case (Inr pg)
    with page obtain tail where tail: "rest token = names pg @ tail"
      "case nxt pg of None \<Rightarrow> tail = [] | Some t \<Rightarrow> names pg \<noteq> [] \<and> rest (Some t) = tail" by blast
    show ?thesis
    proof (cases "nxt pg")
      case None
      with run Inr ok tail show ?thesis by (simp add: Let_def)
    next
      case (Some t)
      with tail Suc.prems(2) have "length (rest (Some t)) < fuel" by (cases "names pg") auto
      from Suc.IH [OF ok this, of "acc @ names pg"] run Inr Some tail show ?thesis by (simp add: Let_def)
    qed
  qed
qed simp

end
