(* ===== verification/Transport.thy ===== *)
theory Transport
  imports Http
begin

text \<open>
  Stall protection of the provider clients: the settings of their transports
  (\<open>src/storage_clients/transport.go\<close>) and the header phase of a request whose body outlives the call
  (\<open>src/storage_clients/headertimeout.go\<close>).
\<close>

section \<open>Transport settings\<close>

text \<open>The fields of \<open>http.Transport\<close> that are set; the dialer is its timeout and keep-alive.\<close>

record httpTransport =
  tr_Dialer :: "(int \<times> int) option"
  tr_TLSHandshakeTimeout :: int
  tr_ResponseHeaderTimeout :: int
  tr_MaxIdleConnsPerHost :: int
  tr_IdleConnTimeout :: int

definition ResponseHeaderTimeout :: int where "ResponseHeaderTimeout = CompleteAttemptTimeout"
definition dialTimeout :: int where "dialTimeout = 30 * Second"
definition tlsHandshakeTimeout :: int where "tlsHandshakeTimeout = 15 * Second"
definition maxIdleConnsPerHost :: int where "maxIdleConnsPerHost = 64"

definition TuneTransport :: "httpTransport \<Rightarrow> httpTransport" where
  "TuneTransport tr =
     (let tr = tr\<lparr>tr_Dialer := Some (dialTimeout, 30 * Second), tr_TLSHandshakeTimeout := tlsHandshakeTimeout,
                  tr_ResponseHeaderTimeout := ResponseHeaderTimeout\<rparr>;
          tr = (if tr_MaxIdleConnsPerHost tr < maxIdleConnsPerHost then tr\<lparr>tr_MaxIdleConnsPerHost := maxIdleConnsPerHost\<rparr> else tr)
      in if tr_IdleConnTimeout tr = 0 then tr\<lparr>tr_IdleConnTimeout := 90 * Second\<rparr> else tr)"

text \<open>\<open>http.Client\<close>: its overall timeout (0 is none) and transport; the default transport is a parameter.\<close>

record httpClientCfg =
  cl_Timeout :: int
  cl_Transport :: httpTransport

definition NewHTTPClient :: "httpTransport \<Rightarrow> httpClientCfg" where
  "NewHTTPClient defaultTransport = \<lparr>cl_Timeout = 0, cl_Transport = TuneTransport defaultTransport\<rparr>"

text \<open>A tuned transport bounds every phase before the body and never cuts short what a retry layer bounds itself.\<close>

definition tuned :: "httpTransport \<Rightarrow> bool" where
  "tuned tr \<longleftrightarrow> (\<exists>d k. tr_Dialer tr = Some (d, k) \<and> 0 < d) \<and> 0 < tr_TLSHandshakeTimeout tr \<and>
     CompleteAttemptTimeout \<le> tr_ResponseHeaderTimeout tr \<and> 64 \<le> tr_MaxIdleConnsPerHost tr \<and> tr_IdleConnTimeout tr \<noteq> 0"

lemma TuneTransport_tuned: "tuned (TuneTransport tr)"
  by (simp add: tuned_def TuneTransport_def Let_def dialTimeout_def tlsHandshakeTimeout_def ResponseHeaderTimeout_def
      maxIdleConnsPerHost_def Second_def Millisecond_def)

lemma TuneTransport_idem: "TuneTransport (TuneTransport tr) = TuneTransport tr"
  by (simp add: TuneTransport_def Let_def maxIdleConnsPerHost_def Second_def Millisecond_def)

lemma TuneTransport_keeps_pool:
  "tr_MaxIdleConnsPerHost tr \<le> tr_MaxIdleConnsPerHost (TuneTransport tr)"
  "tr_IdleConnTimeout tr \<noteq> 0 \<Longrightarrow> tr_IdleConnTimeout (TuneTransport tr) = tr_IdleConnTimeout tr"
  by (simp_all add: TuneTransport_def Let_def maxIdleConnsPerHost_def)

section \<open>The header phase\<close>

text \<open>
  What one run of \<open>open(hctx)\<close> and its timer show: the results of \<open>open\<close>, whether \<open>timer.Stop()\<close> came
  before the timer expired, what \<open>fired.Load()\<close> reads and \<open>ctx.Err()\<close> as it is read last. The timer
  stores \<open>fired\<close> in a goroutine of its own, so an expired timer may not have stored it yet.
\<close>

record headerRun =
  hr_body :: "reader option"
  hr_err :: "err option"
  hr_stopped :: bool
  hr_fired :: bool
  hr_ctx :: "sentinel option"

definition timer_ok :: "headerRun \<Rightarrow> bool" where
  "timer_ok h \<longleftrightarrow> (hr_stopped h \<longrightarrow> \<not> hr_fired h) \<and> (hr_err h = None \<longleftrightarrow> hr_body h \<noteq> None)"

text \<open>What the call returns, whether it closed the body, and whether it cancelled the derived context.\<close>

record opened =
  op_body :: "reader option"
  op_err :: "err option"
  op_closed :: bool
  op_cancelled :: bool

text \<open>\<open>open True\<close> is \<open>open\<close> on the derived context, \<open>open False\<close> on the caller's.\<close>

definition OpenWithHeaderTimeout :: "int \<Rightarrow> (bool \<Rightarrow> headerRun) \<Rightarrow> opened" where
  "OpenWithHeaderTimeout d open =
     (if d \<le> 0 then \<lparr>op_body = hr_body (open False), op_err = hr_err (open False), op_closed = False, op_cancelled = False\<rparr>
      else let h = open True in
        if hr_stopped h \<and> hr_err h = None then \<lparr>op_body = hr_body h, op_err = None, op_closed = False, op_cancelled = False\<rparr>
        else \<lparr>op_body = None,
              op_err = (if hr_fired h \<and> hr_ctx h = None then Some (Errorf [Sentinel ErrAttemptTimeout]) else hr_err h),
              op_closed = (hr_body h \<noteq> None), op_cancelled = True\<rparr>)"

text \<open>\<open>(c *cancelOnClose) Close\<close>: closes the body, then cancels its context; \<open>closeErr\<close> is the body's answer.\<close>

definition cancelOnClose_Close :: "err option \<Rightarrow> opened \<Rightarrow> err option \<times> opened" where
  "cancelOnClose_Close closeErr p = (closeErr, p\<lparr>op_closed := True, op_cancelled := True\<rparr>)"

text \<open>A body is handed out exactly when \<open>open\<close> answered before the timer, and it is live: not closed, its
  context not cancelled. Every other body is closed and the derived context is released.\<close>

lemma OpenWithHeaderTimeout_body:
  assumes "0 < d" and "timer_ok (open True)"
  shows "op_body (OpenWithHeaderTimeout d open) = (if hr_stopped (open True) then hr_body (open True) else None)"
    and "op_closed (OpenWithHeaderTimeout d open) = (hr_body (open True) \<noteq> None \<and> \<not> hr_stopped (open True))"
    and "op_cancelled (OpenWithHeaderTimeout d open) = (op_body (OpenWithHeaderTimeout d open) = None)"
proof -
  show "op_body (OpenWithHeaderTimeout d open) = (if hr_stopped (open True) then hr_body (open True) else None)"
    "op_closed (OpenWithHeaderTimeout d open) = (hr_body (open True) \<noteq> None \<and> \<not> hr_stopped (open True))"
    "op_cancelled (OpenWithHeaderTimeout d open) = (op_body (OpenWithHeaderTimeout d open) = None)"
    using assms by (cases "hr_body (open True)"; cases "hr_stopped (open True)"; force simp: OpenWithHeaderTimeout_def timer_ok_def Let_def)+
qed

text \<open>The header phase expired while the caller's context is live: the error is retried, and is not the
  cancellation of the derived context.\<close>

lemma OpenWithHeaderTimeout_expired:
  assumes "0 < d" and "timer_ok (open True)" and "hr_fired (open True)" and "hr_ctx (open True) = None"
  shows "op_err (OpenWithHeaderTimeout d open) = Some (Errorf [Sentinel ErrAttemptTimeout])"
    and "op_body (OpenWithHeaderTimeout d open) = None"
  using assms by (auto simp: OpenWithHeaderTimeout_def timer_ok_def Let_def)

text \<open>Neither a body nor an error: \<open>open\<close> answered, the timer had expired, but either its goroutine has
  not yet stored \<open>fired\<close> or the caller's context is done.\<close>

lemma OpenWithHeaderTimeout_nil:
  assumes "0 < d" and "timer_ok (open True)"
  shows "op_body (OpenWithHeaderTimeout d open) = None \<and> op_err (OpenWithHeaderTimeout d open) = None \<longleftrightarrow>
    hr_err (open True) = None \<and> \<not> hr_stopped (open True) \<and> (hr_fired (open True) \<longrightarrow> hr_ctx (open True) \<noteq> None)"
  using assms by (auto simp: OpenWithHeaderTimeout_def timer_ok_def Let_def)

end
