(* ===== verification/S3.thy ===== *)
theory S3
  imports SdkClient Transport
begin

text \<open>
  The S3 client (\<open>src/storage_clients/s3/s3.go\<close>): its configuration, the classification of AWS errors, the
  reading of its pages, and the calls of the SDK its operations (in \<open>Sdk\<close>) are made of. The AWS SDK is a
  parameter: the record \<open>s3API\<close> of the calls, and the record \<open>awsSDK\<close> of what builds clients.
\<close>

section \<open>The SDK's types\<close>

text \<open>
  An AWS error as \<open>errors.As\<close> shows it: the status of a \<open>ResponseError\<close>, the code of an \<open>APIError\<close>, which of
  the typed errors are in its chain, and the error itself.
\<close>

record awsError =
  ae_Response :: "int option"
  ae_Code :: "string option"
  ae_NoSuchKey :: bool
  ae_NotFound :: bool
  ae_NoSuchBucket :: bool
  ae_NoSuchUpload :: bool
  ae_err :: err

record s3Page =
  sp_Contents :: "(string option \<times> int option) list"
  sp_IsTruncated :: "bool option"
  sp_NextContinuationToken :: "string option"

record s3Buckets =
  sb_Buckets :: "string option list"
  sb_ContinuationToken :: "string option"

text \<open>\<open>*s3.Client\<close>: the calls, on the fields of their inputs.\<close>

record 's s3API =
  s3_ListBuckets :: "ctx \<Rightarrow> string option \<Rightarrow> 's \<Rightarrow> (awsError + s3Buckets) \<times> 's"
  s3_ListObjectsV2 :: "ctx \<Rightarrow> string \<Rightarrow> string \<Rightarrow> string option \<Rightarrow> 's \<Rightarrow> (awsError + s3Page) \<times> 's"
  s3_HeadObject :: "ctx \<Rightarrow> string \<Rightarrow> string \<Rightarrow> 's \<Rightarrow> (awsError + int option) \<times> 's"
  s3_GetObject :: "ctx \<Rightarrow> string \<Rightarrow> string \<Rightarrow> string option \<Rightarrow> 's \<Rightarrow> (awsError + reader) \<times> 's"
  s3_CreateMultipartUpload :: "ctx \<Rightarrow> string \<Rightarrow> string \<Rightarrow> 's \<Rightarrow> (awsError + string option) \<times> 's"
  s3_UploadPart :: "ctx \<Rightarrow> string \<Rightarrow> string \<Rightarrow> string \<Rightarrow> int \<Rightarrow> int \<Rightarrow> bytes \<Rightarrow> 's \<Rightarrow> (awsError + string option) \<times> 's"
  s3_CompleteMultipartUpload :: "ctx \<Rightarrow> string \<Rightarrow> string \<Rightarrow> string \<Rightarrow> (int \<times> string) list \<Rightarrow> 's \<Rightarrow> (awsError + unit) \<times> 's"
  s3_AbortMultipartUpload :: "ctx \<Rightarrow> string \<Rightarrow> string \<Rightarrow> string \<Rightarrow> 's \<Rightarrow> (awsError + unit) \<times> 's"
  s3_PutObject :: "ctx \<Rightarrow> string \<Rightarrow> string \<Rightarrow> int \<Rightarrow> bytes \<Rightarrow> 's \<Rightarrow> (awsError + unit) \<times> 's"
  s3_DeleteObject :: "ctx \<Rightarrow> string \<Rightarrow> string \<Rightarrow> 's \<Rightarrow> (awsError + unit) \<times> 's"

section \<open>Configuration\<close>

datatype awsHTTPClient = BuildableClient int httpTransport | OtherHTTPClient

text \<open>\<open>aws.Config\<close>; \<open>'cr\<close> are credentials providers.\<close>

record 'cr awsConfig =
  ac_Region :: string
  ac_Credentials :: "'cr option"
  ac_HTTPClient :: "awsHTTPClient option"

datatype retryer = NopRetryer | SDKRetryer

record s3Options =
  so_Retryer :: retryer
  so_RetryMaxAttempts :: int

record ('cr, 's) awsSDK =
  aws_ToLower :: "string \<Rightarrow> string"
  aws_Getenv :: "string \<Rightarrow> string"
  aws_LoadDefaultConfig :: "string \<Rightarrow> 'cr awsConfig result"
  aws_StaticCredentials :: "string \<Rightarrow> string \<Rightarrow> string \<Rightarrow> 'cr"
  aws_AssumeRole :: "'cr awsConfig \<Rightarrow> string \<Rightarrow> 'cr"
  aws_DefaultTransport :: httpTransport
  aws_NewFromConfig :: "'cr awsConfig \<Rightarrow> (s3Options \<Rightarrow> s3Options) list \<Rightarrow> 's s3API"

record ('cr, 's) S3Client =
  su_client :: "'s s3API"
  su_cfg :: "'cr awsConfig"
  su_retry :: RetryPolicy

definition newHTTPClient :: "('cr, 's) awsSDK \<Rightarrow> awsHTTPClient" where
  "newHTTPClient A = BuildableClient 0 (TuneTransport (aws_DefaultTransport A))"

definition noSDKRetry :: "s3Options \<Rightarrow> s3Options" where
  "noSDKRetry opt = opt\<lparr>so_Retryer := NopRetryer, so_RetryMaxAttempts := 0\<rparr>"

definition newS3 :: "('cr, 's) awsSDK \<Rightarrow> 'cr awsConfig \<Rightarrow> (s3Options \<Rightarrow> s3Options) list \<Rightarrow> 's s3API" where
  "newS3 A cfg optFns = aws_NewFromConfig A cfg (noSDKRetry # optFns)"

definition s3Region :: "('cr, 's) awsSDK \<Rightarrow> (string, string) gomap \<Rightarrow> string" where
  "s3Region A opts =
     (let region = (case gm_get opts ''region'' of None \<Rightarrow> [] | Some r \<Rightarrow> r);
          region = (if region = [] then aws_Getenv A ''AWS_REGION'' else region);
          region = (if region = [] then aws_Getenv A ''AWS_DEFAULT_REGION'' else region)
      in if region = [] then ''ap-south-1'' else region)"

definition accessKeys :: "('cr, 's) awsSDK \<Rightarrow> string \<Rightarrow> string \<Rightarrow> 'cr awsConfig result" where
  "accessKeys A region keysStr =
     (let ps = Split CHR '':'' keysStr in
      if length ps < 2 \<or> 3 < length ps \<or> ps ! 0 = [] \<or> ps ! 1 = [] then Inl invalidConfig
      else let sessionToken = (if length ps = 3 then ps ! 2 else [])
        in Inr \<lparr>ac_Region = region, ac_Credentials = Some (aws_StaticCredentials A (ps ! 0) (ps ! 1) sessionToken), ac_HTTPClient = None\<rparr>)"

definition defaultConfig :: "('cr, 's) awsSDK \<Rightarrow> string \<Rightarrow> string \<Rightarrow> 'cr awsConfig result" where
  "defaultConfig A region baseAuth =
     (case aws_LoadDefaultConfig A region of
        Inl e \<Rightarrow> Inl (Errorf [e])
      | Inr cfg \<Rightarrow>
          if HasPrefix baseAuth ''DEFAULT['' then
            (let roleARN = TrimSpace (inBrackets ''DEFAULT['' baseAuth) in
             if roleARN = [] then Inl invalidConfig
             else Inr (cfg\<lparr>ac_Credentials := Some (aws_AssumeRole A cfg roleARN)\<rparr>))
          else Inr cfg)"

definition s3Config :: "('cr, 's) awsSDK \<Rightarrow> string \<Rightarrow> string \<Rightarrow> 'cr awsConfig result" where
  "s3Config A region baseAuth =
     (if HasPrefix baseAuth ''S3_ACCESS_KEYS['' \<and> HasSuffix baseAuth '']'' then accessKeys A region (inBrackets ''S3_ACCESS_KEYS['' baseAuth)
      else if baseAuth = ''DEFAULT'' \<or> (HasPrefix baseAuth ''DEFAULT['' \<and> HasSuffix baseAuth '']'') then defaultConfig A region baseAuth
      else Inl invalidConfig)"

definition withHTTPClient :: "('cr, 's) awsSDK \<Rightarrow> 'cr awsConfig \<Rightarrow> 'cr awsConfig" where
  "withHTTPClient A cfg =
     (case ac_HTTPClient cfg of
        Some (BuildableClient timeout tr) \<Rightarrow> cfg\<lparr>ac_HTTPClient := Some (BuildableClient 0 (TuneTransport tr))\<rparr>
      | None \<Rightarrow> cfg\<lparr>ac_HTTPClient := Some (newHTTPClient A)\<rparr>
      | Some OtherHTTPClient \<Rightarrow> cfg)"

definition NewS3Client :: "('cr, 's) awsSDK \<Rightarrow> string \<Rightarrow> ('cr, 's) S3Client result" where
  "NewS3Client A authType =
     (case ParseAuthString (aws_ToLower A) authType [''region''] of
        Inl e \<Rightarrow> Inl e
      | Inr (baseAuth, opts) \<Rightarrow>
          (case s3Config A (s3Region A opts) baseAuth of
             Inl e \<Rightarrow> Inl e
           | Inr cfg \<Rightarrow> let cfg = withHTTPClient A cfg in
               Inr \<lparr>su_client = newS3 A cfg [], su_cfg = cfg, su_retry = DefaultRetryPolicy\<rparr>))"

definition s3SetRegion :: "('cr, 's) awsSDK \<Rightarrow> string \<Rightarrow> ('cr, 's) S3Client \<Rightarrow> ('cr, 's) S3Client" where
  "s3SetRegion A region u =
     (let cfg = (su_cfg u)\<lparr>ac_Region := region\<rparr> in u\<lparr>su_cfg := cfg, su_client := newS3 A cfg []\<rparr>)"

section \<open>Errors and pages\<close>

definition ToString :: "string option \<Rightarrow> string" where "ToString v = (case v of None \<Rightarrow> [] | Some x \<Rightarrow> x)"

definition s3IsNotFound :: "awsError \<Rightarrow> bool" where
  "s3IsNotFound e \<longleftrightarrow> ae_NoSuchKey e \<or> ae_NotFound e \<or> ae_NoSuchBucket e \<or>
     ToString (ae_Code e) \<in> {''NoSuchKey'', ''NotFound'', ''NoSuchBucket''}"

definition s3Status :: "awsError \<Rightarrow> int" where "s3Status e = (case ae_Response e of None \<Rightarrow> 0 | Some n \<Rightarrow> n)"

definition s3IsUploadGone :: "bool \<Rightarrow> awsError \<Rightarrow> bool" where
  "s3IsUploadGone uploadOp e \<longleftrightarrow> ae_NoSuchUpload e \<or> ToString (ae_Code e) = ''NoSuchUpload'' \<or> (uploadOp \<and> s3Status e = 404)"

definition s3ClassifyError :: "bool \<Rightarrow> awsError \<Rightarrow> err" where
  "s3ClassifyError uploadOp e =
     (let out = (if s3Status e \<noteq> 0 \<and> ToString (ae_Code e) \<noteq> ''RequestTimeout'' then StatusError (s3Status e) (Some (ae_err e)) 0
                 else Errorf [ae_err e]);
          out = (if s3IsNotFound e \<and> \<not> errIs out ErrNotFound then Errorf [Sentinel ErrNotFound, out] else out)
      in if s3IsUploadGone uploadOp e then Errorf [Sentinel ErrUploadNotFound, out] else out)"

definition s3Objects :: "s3Page \<Rightarrow> ObjectInfo list" where
  "s3Objects page = map (\<lambda>(k, n). \<lparr>oi_Name = ToString k, oi_Size = (case n of None \<Rightarrow> 0 | Some x \<Rightarrow> x)\<rparr>) (sp_Contents page)"

definition s3Next :: "s3Page \<Rightarrow> string option result" where
  "s3Next page =
     (if sp_IsTruncated page \<noteq> Some True then Inr None
      else if ToString (sp_NextContinuationToken page) = [] then Inl invalidResponse
      else Inr (sp_NextContinuationToken page))"

text \<open>\<open>int32(partNumber)\<close> keeps the low 32 bits.\<close>

definition int32 :: "int \<Rightarrow> int" where "int32 n = sint (word_of_int n :: 32 word)"

section \<open>The client\<close>

definition s3Sdk :: "(ctx \<Rightarrow> 's \<Rightarrow> nat \<Rightarrow> attempt) \<Rightarrow> nat \<Rightarrow> ('cr, 's) S3Client \<Rightarrow> (awsError, s3Page, 's) sdkClient" where
  "s3Sdk attempts pages u =
     (let cl = su_client u in
      \<lparr>sc_api = \<lparr>api_ListObjects = s3_ListObjectsV2 cl, api_HeadObject = s3_HeadObject cl, api_GetObject = s3_GetObject cl,
         api_CreateUpload = s3_CreateMultipartUpload cl,
         api_UploadPart = (\<lambda>c bucket key uploadID n data. s3_UploadPart cl c bucket key uploadID n (int (length data)) data),
         api_CompleteUpload = s3_CompleteMultipartUpload cl, api_AbortUpload = s3_AbortMultipartUpload cl,
         api_PutObject = (\<lambda>c bucket key data. s3_PutObject cl c bucket key (int (length data)) data),
         api_DeleteObject = s3_DeleteObject cl\<rparr>,
       sc_retry = su_retry u, sc_classify = s3ClassifyError, sc_objects = s3Objects, sc_next = s3Next, sc_number = int32,
       sc_attempts = attempts, sc_pages = pages\<rparr>)"

definition s3ListBuckets ::
  "(ctx \<Rightarrow> 's \<Rightarrow> nat \<Rightarrow> attempt) \<Rightarrow> nat \<Rightarrow> ('cr, 's) S3Client \<Rightarrow> ctx \<Rightarrow> string \<Rightarrow> 's \<Rightarrow> string list result \<times> 's" where
  "s3ListBuckets attempts pages u c compartmentID s =
     (case bucketsLoop pages (s3Sdk attempts pages u) c (s3_ListBuckets (su_client u) c) (map ToString \<circ> sb_Buckets)
         (\<lambda>page. if ToString (sb_ContinuationToken page) = [] then None else sb_ContinuationToken page) None [] s of
        None \<Rightarrow> (Inl listingHangs, s) | Some r \<Rightarrow> r)"

text \<open>The client as an \<open>ObjectStorageClient\<close>, and its registration.\<close>

definition s3Client :: "(ctx \<Rightarrow> 's \<Rightarrow> nat \<Rightarrow> attempt) \<Rightarrow> nat \<Rightarrow> ('cr, 's) S3Client \<Rightarrow> 's ObjectStorageClient" where
  "s3Client attempts pages u = sdkObjectClient (s3Sdk attempts pages u)"

definition s3Init ::
  "('cr, 's) awsSDK \<Rightarrow> (ctx \<Rightarrow> 's \<Rightarrow> nat \<Rightarrow> attempt) \<Rightarrow> nat \<Rightarrow> 's ObjectStorageClient registry \<Rightarrow> 's ObjectStorageClient registry" where
  "s3Init A attempts pages = RegisterClient ''s3'' (\<lambda>authType namespace.
     case NewS3Client A authType of Inl e \<Rightarrow> Inl e | Inr u \<Rightarrow> Inr (s3Client attempts pages u))"

section \<open>What the classification says\<close>

text \<open>Exactly when a classified error matches the sentinels, and when it is retried.\<close>

lemma s3Classify_not_found:
  "errIs (s3ClassifyError up e) ErrNotFound \<longleftrightarrow>
     s3IsNotFound e \<or> (s3Status e = 404 \<and> ToString (ae_Code e) \<noteq> ''RequestTimeout'') \<or> errIs (ae_err e) ErrNotFound"
  by (auto simp: s3ClassifyError_def Let_def)

lemma s3Classify_gone:
  "errIs (s3ClassifyError up e) ErrUploadNotFound \<longleftrightarrow> s3IsUploadGone up e \<or> errIs (ae_err e) ErrUploadNotFound"
  by (auto simp: s3ClassifyError_def Let_def)

definition s3_missing :: "awsError \<Rightarrow> bool" where
  "s3_missing e \<longleftrightarrow> s3IsNotFound e \<or> (s3Status e = 404 \<and> ToString (ae_Code e) \<noteq> ''RequestTimeout'') \<or> errIs (ae_err e) ErrNotFound"

definition s3_gone :: "awsError \<Rightarrow> bool" where
  "s3_gone e \<longleftrightarrow> ae_NoSuchUpload e \<or> ToString (ae_Code e) = ''NoSuchUpload'' \<or> s3Status e = 404 \<or> errIs (ae_err e) ErrUploadNotFound"

lemma int32_id: "- (2 ^ 31) \<le> n \<Longrightarrow> n < 2 ^ 31 \<Longrightarrow> int32 n = n"
  unfolding int32_def by (simp add: sint_sbintrunc' signed_take_bit_int_eq_self)

lemma int32_part: "part_number n \<Longrightarrow> int32 n = n"
  by (rule int32_id) (auto simp: part_number_def maxMultipartParts_def)

text \<open>What is retried: an error without a sentinel by its status; a \<open>RequestTimeout\<close> and an error without a
  response always; a missing object, bucket or upload never.\<close>

lemma s3Classify_retryable:
  assumes "\<And>t. \<not> errIs (ae_err e) t" and "\<not> chainHasContextSentinel (ae_err e)" and "asStatusError (ae_err e) = None"
  shows "IsRetryable (Some (s3ClassifyError up e)) \<longleftrightarrow> \<not> s3IsNotFound e \<and> \<not> s3IsUploadGone up e \<and>
    (s3Status e = 0 \<or> ToString (ae_Code e) = ''RequestTimeout'' \<or> s3Status e \<noteq> 404 \<and> Retryable (s3Status e))"
  using assms by (auto simp: s3ClassifyError_def IsRetryable_def Let_def)

section \<open>The client over a service\<close>

text \<open>What \<open>sdk_service\<close> says of the calls of this client; the classification and the part numbers then fit.\<close>

lemma s3_sdk_client:
  assumes "sdk_service obj parts remaining ok (sc_api (s3Sdk attempts pages u)) s3Objects s3Next nm s3_missing s3_gone"
    and "\<And>c s. ctx_ok (attempts c s)"
  shows "sdk_client obj parts remaining ok (s3Sdk attempts pages u) nm s3_missing s3_gone"
proof -
  have fields: "sc_objects (s3Sdk attempts pages u) = s3Objects" "sc_next (s3Sdk attempts pages u) = s3Next"
    "sc_classify (s3Sdk attempts pages u) = s3ClassifyError" "sc_number (s3Sdk attempts pages u) = int32"
    "sc_attempts (s3Sdk attempts pages u) = attempts" by (simp_all add: s3Sdk_def Let_def)
  show ?thesis
    by (intro sdk_client.intro sdk_client_axioms.intro; (unfold fields)?)
      (use assms s3Classify_not_found s3Classify_gone int32_part in \<open>auto simp: s3_missing_def s3_gone_def s3IsUploadGone_def\<close>)
qed

section \<open>What the configuration builds\<close>

text \<open>The client in use is the one of its configuration, its connections are protected from stalls and have no
  overall timeout, and the SDK does not retry by itself.\<close>

definition s3_configured :: "('cr, 's) awsSDK \<Rightarrow> ('cr, 's) S3Client \<Rightarrow> bool" where
  "s3_configured A u \<longleftrightarrow> su_client u = aws_NewFromConfig A (su_cfg u) [noSDKRetry] \<and> su_retry u = DefaultRetryPolicy \<and>
     (case ac_HTTPClient (su_cfg u) of None \<Rightarrow> False | Some (BuildableClient timeout tr) \<Rightarrow> timeout = 0 \<and> tuned tr | Some OtherHTTPClient \<Rightarrow> True)"

lemma withHTTPClient_tuned:
  "case ac_HTTPClient (withHTTPClient A cfg) of None \<Rightarrow> False | Some (BuildableClient timeout tr) \<Rightarrow> timeout = 0 \<and> tuned tr | Some OtherHTTPClient \<Rightarrow> True"
  by (auto simp: withHTTPClient_def newHTTPClient_def TuneTransport_tuned split: option.splits awsHTTPClient.splits)

lemma NewS3Client_configured: "NewS3Client A authType = Inr u \<Longrightarrow> s3_configured A u"
  using withHTTPClient_tuned [of A]
  by (fastforce simp: NewS3Client_def s3_configured_def newS3_def Let_def split: sum.splits prod.splits)

lemma s3SetRegion_configured:
  assumes "s3_configured A u"
  shows "s3_configured A (s3SetRegion A region u)" and "ac_Region (su_cfg (s3SetRegion A region u)) = region"
    and "ac_Credentials (su_cfg (s3SetRegion A region u)) = ac_Credentials (su_cfg u)"
  using assms by (simp_all add: s3_configured_def s3SetRegion_def newS3_def Let_def)

lemma s3SetRegion_all:
  assumes "s3_configured A u"
  shows "s3_configured A (fold (s3SetRegion A) rs u) \<and> ac_Region (su_cfg (fold (s3SetRegion A) rs u)) = last (ac_Region (su_cfg u) # rs) \<and>
    ac_Credentials (su_cfg (fold (s3SetRegion A) rs u)) = ac_Credentials (su_cfg u)"
  using assms
proof (induction rs arbitrary: u)
  case (Cons r rs)
  note step = s3SetRegion_configured [OF Cons.prems, of r]
  show ?case using Cons.IH [OF step(1)] step(2,3) by simp
qed simp

text \<open>A rejected auth string is a configuration error, or the default configuration could not be loaded.\<close>

lemma NewS3Client_error:
  assumes "NewS3Client A authType = Inl e"
  shows "e = invalidConfig \<or> (\<exists>region e'. aws_LoadDefaultConfig A region = Inl e' \<and> e = Errorf [e'])"
proof -
  have conf: "e' = invalidConfig \<or> (\<exists>x. aws_LoadDefaultConfig A region = Inl x \<and> e' = Errorf [x])"
    if "s3Config A region baseAuth = Inl e'" for region baseAuth e'
    using that by (auto simp: s3Config_def accessKeys_def defaultConfig_def Let_def split: if_splits sum.splits)
  from assms show ?thesis
    by (auto simp: NewS3Client_def Let_def split: sum.splits prod.splits dest: ParseAuthString_error conf)
qed

text \<open>Access keys: an auth string written from a key, a secret and a token gives a client with exactly these.\<close>

definition key_text :: "string \<Rightarrow> bool" where
  "key_text s \<longleftrightarrow> list_all (\<lambda>c. is_graph c \<and> c \<notin> {CHR '':'', CHR ''['', CHR '']''}) s"

lemma key_text_free:
  assumes "key_text s"
  shows "list_all (\<lambda>c. c \<noteq> CHR ''['' \<and> c \<noteq> CHR '']'') s" and "CHR '':'' \<notin> set s"
  using assms unfolding key_text_def list_all_iff by blast+

lemma NewS3Client_keys:
  assumes "key_text key" and "key_text secret" and "key_text token" and "key \<noteq> []" and "secret \<noteq> []" and "plain_option [''region''] (''region'', region)"
  shows "\<exists>u. NewS3Client A (''S3_ACCESS_KEYS['' @ Join [key, secret, token] '':'' @ ''];region='' @ region) = Inr u \<and>
    ac_Region (su_cfg u) = region \<and> ac_Credentials (su_cfg u) = Some (aws_StaticCredentials A key secret token)"
proof -
  let ?keys = "Join [key, secret, token] '':''"
  let ?base = "''S3_ACCESS_KEYS['' @ ?keys @ '']''"
  have depth: "depthAfter 0 ?base = Some 0" by (simp add: depthAfter_append depthAfter_inside key_text_free assms(1-3))
  have trim: "TrimSpace ?base = ?base" by (rule TrimSpace_id) (simp add: is_graph_def)
  have "ParseAuthString (aws_ToLower A) (?base @ '';'' @ Join (map option_text [(''region'', region)]) '';'') [''region''] = Inr (?base, [(''region'', region)])"
    by (rule ParseAuthString_render [OF depth trim]) (use assms(6) in simp_all)
  then have parse: "ParseAuthString (aws_ToLower A) (''S3_ACCESS_KEYS['' @ ?keys @ ''];region='' @ region) [''region''] = Inr (?base, [(''region'', region)])"
    by (simp add: option_text_def)
  have pre: "HasPrefix ?base ''S3_ACCESS_KEYS[''" by (rule HasPrefix_append)
  have suf: "HasSuffix ?base '']''" using HasSuffix_append [of "''S3_ACCESS_KEYS['' @ ?keys" "'']''"] by simp
  have inside: "inBrackets ''S3_ACCESS_KEYS['' ?base = ?keys" by (rule inBrackets_append)
  have "CHR '':'' \<notin> set key \<union> set secret \<union> set token" using assms(1-3) key_text_free(2) by simp
  then have split: "Split CHR '':'' ?keys = [key, secret, token]" by (intro Split_Join) auto
  have region: "s3Region A [(''region'', region)] = region" using assms(6) by (simp add: s3Region_def Let_def plain_option_def)
  have keys: "accessKeys A region ?keys = Inr \<lparr>ac_Region = region, ac_Credentials = Some (aws_StaticCredentials A key secret token), ac_HTTPClient = None\<rparr>"
    unfolding accessKeys_def split using assms(4,5) by simp
  have "s3Config A region ?base = Inr \<lparr>ac_Region = region, ac_Credentials = Some (aws_StaticCredentials A key secret token), ac_HTTPClient = None\<rparr>"
    unfolding s3Config_def using pre suf by (simp only: inside keys simp_thms if_True)
  then show ?thesis unfolding NewS3Client_def parse by (simp add: region withHTTPClient_def Let_def)
qed

end
