(* ===== verification/OCI.thy ===== *)
theory OCI
  imports SdkClient Transport
begin

text \<open>
  The OCI client (\<open>src/storage_clients/oci/oci.go\<close>): the configuration providers, the classification of
  service errors, the reading of its pages, and its operations: those of \<open>Sdk\<close> over calls of the OCI SDK in
  the client's namespace. The SDK is a parameter.
\<close>

section \<open>The SDK's types\<close>

text \<open>An OCI error: the status of a \<open>ServiceError\<close> in its chain, and the error itself.\<close>

record ociError =
  oe_ServiceError :: "int option"
  oe_err :: err

text \<open>The names of objects and buckets are mandatory fields of the SDK's summaries.\<close>

record ociPage =
  op_Objects :: "(string \<times> int option) list"
  op_NextStartWith :: "string option"

record ociBuckets =
  ob_Items :: "string list"
  ob_OpcNextPage :: "string option"

text \<open>\<open>http.Client\<close> with a transport of the SDK's wrapper, whose template makes a transport from a TLS
  configuration (\<open>'tls\<close>), or with another one; or another dispatcher.\<close>

datatype 'tls ociHTTP = HTTPWrapped int "'tls \<Rightarrow> httpTransport result" | HTTPPlain int | OtherDispatcher

text \<open>\<open>objectstorage.ObjectStorageClient\<close>: the calls, on the fields of their requests, the namespace first.\<close>

record ('tls, 's) ociAPI =
  oci_HTTPClient :: "'tls ociHTTP"
  oci_noRetry :: bool
  oci_ListBuckets :: "ctx \<Rightarrow> string \<Rightarrow> string \<Rightarrow> string option \<Rightarrow> int \<Rightarrow> 's \<Rightarrow> (ociError + ociBuckets) \<times> 's"
  oci_ListObjects :: "ctx \<Rightarrow> string \<Rightarrow> string \<Rightarrow> string \<Rightarrow> string \<Rightarrow> int \<Rightarrow> string option \<Rightarrow> 's \<Rightarrow> (ociError + ociPage) \<times> 's"
  oci_HeadObject :: "ctx \<Rightarrow> string \<Rightarrow> string \<Rightarrow> string \<Rightarrow> 's \<Rightarrow> (ociError + int option) \<times> 's"
  oci_GetObject :: "ctx \<Rightarrow> string \<Rightarrow> string \<Rightarrow> string \<Rightarrow> string option \<Rightarrow> 's \<Rightarrow> (ociError + reader) \<times> 's"
  oci_CreateMultipartUpload :: "ctx \<Rightarrow> string \<Rightarrow> string \<Rightarrow> string \<Rightarrow> 's \<Rightarrow> (ociError + string option) \<times> 's"
  oci_UploadPart :: "ctx \<Rightarrow> string \<Rightarrow> string \<Rightarrow> string \<Rightarrow> string \<Rightarrow> int \<Rightarrow> int \<Rightarrow> bytes \<Rightarrow> 's \<Rightarrow> (ociError + string option) \<times> 's"
  oci_CommitMultipartUpload :: "ctx \<Rightarrow> string \<Rightarrow> string \<Rightarrow> string \<Rightarrow> string \<Rightarrow> (int \<times> string) list \<Rightarrow> 's \<Rightarrow> (ociError + unit) \<times> 's"
  oci_AbortMultipartUpload :: "ctx \<Rightarrow> string \<Rightarrow> string \<Rightarrow> string \<Rightarrow> string \<Rightarrow> 's \<Rightarrow> (ociError + unit) \<times> 's"
  oci_PutObject :: "ctx \<Rightarrow> string \<Rightarrow> string \<Rightarrow> string \<Rightarrow> int \<Rightarrow> bytes \<Rightarrow> 's \<Rightarrow> (ociError + unit) \<times> 's"
  oci_DeleteObject :: "ctx \<Rightarrow> string \<Rightarrow> string \<Rightarrow> string \<Rightarrow> 's \<Rightarrow> (ociError + unit) \<times> 's"

section \<open>Configuration\<close>

text \<open>\<open>'cp\<close> are configuration providers.\<close>

record ('cp, 'tls, 's) ociSDK =
  od_ToLower :: "string \<Rightarrow> string"
  od_Getenv :: "string \<Rightarrow> string"
  od_DefaultConfigProvider :: 'cp
  od_CustomProfile :: "string \<Rightarrow> string \<Rightarrow> 'cp"
  od_OkeWorkloadIdentity :: "'cp result"
  od_InstancePrincipal :: "'cp result"
  od_ResourcePrincipal :: "'cp result"
  od_DefaultTransport :: "'tls \<Rightarrow> httpTransport result"
  od_NewClient :: "'cp \<Rightarrow> ('tls, 's) ociAPI result"
  od_SetRegion :: "string \<Rightarrow> ('tls, 's) ociAPI \<Rightarrow> ('tls, 's) ociAPI"

record ('tls, 's) OCIClient =
  ou_client :: "('tls, 's) ociAPI"
  ou_namespace :: string
  ou_retry :: RetryPolicy

definition wrapErr :: "'a result \<Rightarrow> 'a result" where
  "wrapErr r = (case r of Inl e \<Rightarrow> Inl (Errorf [e]) | Inr p \<Rightarrow> Inr p)"

definition newConfigProvider :: "('cp, 'tls, 's) ociSDK \<Rightarrow> string \<Rightarrow> 'cp result" where
  "newConfigProvider D baseAuth =
     (if baseAuth = [] \<or> baseAuth = ''DEFAULT'' then Inr (od_DefaultConfigProvider D)
      else if baseAuth = ''OCI_CONFIG_FILE'' then Inr (od_CustomProfile D ''~/.oci/config'' ''DEFAULT'')
      else if HasPrefix baseAuth ''OCI_CONFIG_FILE['' \<and> HasSuffix baseAuth '']'' then
        (let profile = TrimSpace (inBrackets ''OCI_CONFIG_FILE['' baseAuth);
             profile = (if profile = [] then ''DEFAULT'' else profile)
         in Inr (od_CustomProfile D ''~/.oci/config'' profile))
      else if baseAuth = ''OKE_WORKLOAD_IDENTITY'' then wrapErr (od_OkeWorkloadIdentity D)
      else if baseAuth = ''INSTANCE_PRINCIPAL'' then wrapErr (od_InstancePrincipal D)
      else if baseAuth = ''RESOURCE_PRINCIPAL'' then wrapErr (od_ResourcePrincipal D)
      else Inl invalidConfig)"

text \<open>The environment variable of \<open>common.CustomClientTimeoutEnvVar\<close>.\<close>

definition configureClient :: "('cp, 'tls, 's) ociSDK \<Rightarrow> ('tls, 's) ociAPI \<Rightarrow> ('tls, 's) ociAPI" where
  "configureClient D client =
     (let timeout = (\<lambda>t. if od_Getenv D ''OCI_CUSTOM_CLIENT_TIMEOUT'' = [] then 0 else t);
          template = (\<lambda>tls. case od_DefaultTransport D tls of Inl e \<Rightarrow> Inl e | Inr tr \<Rightarrow> Inr (TuneTransport tr));
          hc = (case oci_HTTPClient client of
                  HTTPWrapped t old \<Rightarrow> HTTPWrapped (timeout t) template
                | HTTPPlain t \<Rightarrow> HTTPPlain (timeout t)
                | OtherDispatcher \<Rightarrow> OtherDispatcher)
      in client\<lparr>oci_HTTPClient := hc, oci_noRetry := True\<rparr>)"

definition NewOCIClient :: "('cp, 'tls, 's) ociSDK \<Rightarrow> string \<Rightarrow> string \<Rightarrow> ('tls, 's) OCIClient result" where
  "NewOCIClient D namespace authType =
     (if namespace = [] then Inl invalidConfig
      else (case ParseAuthString (od_ToLower D) authType [''region''] of
        Inl e \<Rightarrow> Inl e
      | Inr (baseAuth, opts) \<Rightarrow>
          (case newConfigProvider D baseAuth of
             Inl e \<Rightarrow> Inl e
           | Inr provider \<Rightarrow>
               (case od_NewClient D provider of
                  Inl e \<Rightarrow> Inl (Errorf [e])
                | Inr client0 \<Rightarrow>
                    let client = configureClient D client0;
                        region = (case gm_get opts ''region'' of None \<Rightarrow> [] | Some r \<Rightarrow> r);
                        client = (if region \<noteq> [] then od_SetRegion D region client else client)
                    in Inr \<lparr>ou_client = client, ou_namespace = namespace, ou_retry = DefaultRetryPolicy\<rparr>))))"

definition ociSetRegion :: "('cp, 'tls, 's) ociSDK \<Rightarrow> string \<Rightarrow> ('tls, 's) OCIClient \<Rightarrow> ('tls, 's) OCIClient" where
  "ociSetRegion D region u = u\<lparr>ou_client := od_SetRegion D region (ou_client u)\<rparr>"

section \<open>Errors and pages\<close>

definition ociClassifyError :: "bool \<Rightarrow> ociError \<Rightarrow> err" where
  "ociClassifyError uploadOp e =
     (case oe_ServiceError e of
        Some code \<Rightarrow>
          (let status = StatusError code (Some (oe_err e)) 0
           in if uploadOp \<and> code = 404 then Errorf [Sentinel ErrUploadNotFound, status] else status)
      | None \<Rightarrow> Errorf [oe_err e])"

definition ociObjects :: "ociPage \<Rightarrow> ObjectInfo list" where
  "ociObjects page = map (\<lambda>(k, n). \<lparr>oi_Name = k, oi_Size = (case n of None \<Rightarrow> 0 | Some x \<Rightarrow> x)\<rparr>) (op_Objects page)"

definition ociNext :: "ociPage \<Rightarrow> string option result" where
  "ociNext page = Inr (op_NextStartWith page)"

section \<open>The client\<close>

text \<open>The requests: every one names the namespace of the client.\<close>

definition ociSdk :: "(ctx \<Rightarrow> 's \<Rightarrow> nat \<Rightarrow> attempt) \<Rightarrow> nat \<Rightarrow> ('tls, 's) OCIClient \<Rightarrow> (ociError, ociPage, 's) sdkClient" where
  "ociSdk attempts pages u =
     (let cl = ou_client u; ns = ou_namespace u in
      \<lparr>sc_api = \<lparr>api_ListObjects = (\<lambda>c bucket px start. oci_ListObjects cl c ns bucket px ''name,size'' 1000 start),
         api_HeadObject = (\<lambda>c. oci_HeadObject cl c ns), api_GetObject = (\<lambda>c. oci_GetObject cl c ns),
         api_CreateUpload = (\<lambda>c. oci_CreateMultipartUpload cl c ns),
         api_UploadPart = (\<lambda>c bucket key uploadID n data. oci_UploadPart cl c ns bucket key uploadID n (int (length data)) data),
         api_CompleteUpload = (\<lambda>c. oci_CommitMultipartUpload cl c ns), api_AbortUpload = (\<lambda>c. oci_AbortMultipartUpload cl c ns),
         api_PutObject = (\<lambda>c bucket key data. oci_PutObject cl c ns bucket key (int (length data)) data),
         api_DeleteObject = (\<lambda>c. oci_DeleteObject cl c ns)\<rparr>,
       sc_retry = ou_retry u, sc_classify = ociClassifyError, sc_objects = ociObjects, sc_next = ociNext, sc_number = (\<lambda>n. n),
       sc_attempts = attempts, sc_pages = pages\<rparr>)"

definition ociListBuckets ::
  "(ctx \<Rightarrow> 's \<Rightarrow> nat \<Rightarrow> attempt) \<Rightarrow> nat \<Rightarrow> ('tls, 's) OCIClient \<Rightarrow> ctx \<Rightarrow> string \<Rightarrow> 's \<Rightarrow> string list result \<times> 's" where
  "ociListBuckets attempts pages u c compartmentID s =
     (case bucketsLoop pages (ociSdk attempts pages u) c (\<lambda>page. oci_ListBuckets (ou_client u) c (ou_namespace u) compartmentID page 1000)
         ob_Items ob_OpcNextPage None [] s of
        None \<Rightarrow> (Inl listingHangs, s) | Some r \<Rightarrow> r)"

text \<open>The operations; \<open>U\<close> is \<open>ociSdk\<close> of the client.\<close>

definition ociListObjects :: "(ociError, ociPage, 's) sdkClient \<Rightarrow> ctx \<Rightarrow> string \<Rightarrow> string \<Rightarrow> 's \<Rightarrow> ObjectInfo list result \<times> 's" where
  "ociListObjects U = sdkListObjects U"

definition ociGetObjectSize :: "(ociError, ociPage, 's) sdkClient \<Rightarrow> ctx \<Rightarrow> string \<Rightarrow> string \<Rightarrow> 's \<Rightarrow> int result \<times> 's" where
  "ociGetObjectSize U = sdkGetObjectSize U"

definition ociGetObjectRange :: "(ociError, ociPage, 's) sdkClient \<Rightarrow> ctx \<Rightarrow> string \<Rightarrow> string \<Rightarrow> int \<Rightarrow> int \<Rightarrow> 's \<Rightarrow> reader result \<times> 's" where
  "ociGetObjectRange U = sdkGetObjectRange U"

definition ociInitiate :: "(ociError, ociPage, 's) sdkClient \<Rightarrow> ctx \<Rightarrow> string \<Rightarrow> string \<Rightarrow> 's \<Rightarrow> string result \<times> 's" where
  "ociInitiate U = sdkInitiate U"

definition ociUploadPart :: "(ociError, ociPage, 's) sdkClient \<Rightarrow> ctx \<Rightarrow> string \<Rightarrow> string \<Rightarrow> string \<Rightarrow> int \<Rightarrow> bytes \<Rightarrow> 's \<Rightarrow> string result \<times> 's" where
  "ociUploadPart U = sdkUploadPart U"

definition ociComplete :: "(ociError, ociPage, 's) sdkClient \<Rightarrow> ctx \<Rightarrow> string \<Rightarrow> string \<Rightarrow> string \<Rightarrow> (int, string) gomap \<Rightarrow> 's \<Rightarrow> err option \<times> 's" where
  "ociComplete U = sdkComplete U"

definition ociPutObject :: "(ociError, ociPage, 's) sdkClient \<Rightarrow> ctx \<Rightarrow> string \<Rightarrow> string \<Rightarrow> bytes \<Rightarrow> 's \<Rightarrow> err option \<times> 's" where
  "ociPutObject U = sdkPutObject U"

definition ociAbort :: "(ociError, ociPage, 's) sdkClient \<Rightarrow> ctx \<Rightarrow> string \<Rightarrow> string \<Rightarrow> string \<Rightarrow> 's \<Rightarrow> err option \<times> 's" where
  "ociAbort U = sdkAbort U"

definition ociDeleteObject :: "(ociError, ociPage, 's) sdkClient \<Rightarrow> ctx \<Rightarrow> string \<Rightarrow> string \<Rightarrow> 's \<Rightarrow> err option \<times> 's" where
  "ociDeleteObject U = sdkDeleteObject U"

definition ociClient :: "(ctx \<Rightarrow> 's \<Rightarrow> nat \<Rightarrow> attempt) \<Rightarrow> nat \<Rightarrow> ('tls, 's) OCIClient \<Rightarrow> 's ObjectStorageClient" where
  "ociClient attempts pages u =
     (let U = ociSdk attempts pages u in
      \<lparr>ListObjects = ociListObjects U, GetObjectSize = ociGetObjectSize U, GetObjectRange = ociGetObjectRange U,
       Initiate = ociInitiate U, UploadPart = ociUploadPart U, Complete = ociComplete U, Abort = ociAbort U,
       PutObject = ociPutObject U, DeleteObject = ociDeleteObject U\<rparr>)"

definition ociInit ::
  "('cp, 'tls, 's) ociSDK \<Rightarrow> (ctx \<Rightarrow> 's \<Rightarrow> nat \<Rightarrow> attempt) \<Rightarrow> nat \<Rightarrow> 's ObjectStorageClient registry \<Rightarrow> 's ObjectStorageClient registry" where
  "ociInit D attempts pages = RegisterClient ''oci'' (\<lambda>authType namespace.
     case NewOCIClient D namespace authType of Inl e \<Rightarrow> Inl e | Inr u \<Rightarrow> Inr (ociClient attempts pages u))"

lemmas oci_ops = ociListObjects_def ociGetObjectSize_def ociGetObjectRange_def ociInitiate_def ociUploadPart_def
  ociComplete_def ociPutObject_def ociAbort_def ociDeleteObject_def

lemma ociClient_sdk: "ociClient attempts pages u = sdkObjectClient (ociSdk attempts pages u)"
  by (simp add: ociClient_def sdkObjectClient_def oci_ops Let_def)

section \<open>What the classification says\<close>

lemma ociClassify_not_found:
  "errIs (ociClassifyError up e) ErrNotFound \<longleftrightarrow> oe_ServiceError e = Some 404 \<or> errIs (oe_err e) ErrNotFound"
  by (auto simp: ociClassifyError_def Let_def split: option.splits)

lemma ociClassify_gone:
  "errIs (ociClassifyError up e) ErrUploadNotFound \<longleftrightarrow> up \<and> oe_ServiceError e = Some 404 \<or> errIs (oe_err e) ErrUploadNotFound"
  by (auto simp: ociClassifyError_def Let_def split: option.splits)

lemma ociClassify_retryable:
  assumes "oe_ServiceError e = Some code" and "code \<noteq> 404" and "\<And>t. \<not> errIs (oe_err e) t" and "\<not> chainHasContextSentinel (oe_err e)"
  shows "IsRetryable (Some (ociClassifyError up e)) \<longleftrightarrow> Retryable code"
  using assms by (simp add: ociClassifyError_def IsRetryable_def)

section \<open>The client over a service\<close>

definition oci_missing :: "ociError \<Rightarrow> bool" where
  "oci_missing e \<longleftrightarrow> oe_ServiceError e = Some 404 \<or> errIs (oe_err e) ErrNotFound"

definition oci_gone :: "ociError \<Rightarrow> bool" where
  "oci_gone e \<longleftrightarrow> oe_ServiceError e = Some 404 \<or> errIs (oe_err e) ErrUploadNotFound"

lemma oci_sdk_client:
  assumes "sdk_service obj parts remaining ok (sc_api (ociSdk attempts pages u)) ociObjects ociNext nm oci_missing oci_gone"
    and "\<And>c s. ctx_ok (attempts c s)"
  shows "sdk_client obj parts remaining ok (ociSdk attempts pages u) nm oci_missing oci_gone"
proof -
  have fields: "sc_objects (ociSdk attempts pages u) = ociObjects" "sc_next (ociSdk attempts pages u) = ociNext"
    "sc_classify (ociSdk attempts pages u) = ociClassifyError" "sc_number (ociSdk attempts pages u) = (\<lambda>n. n)"
    "sc_attempts (ociSdk attempts pages u) = attempts" by (simp_all add: ociSdk_def Let_def)
  show ?thesis
    by (intro sdk_client.intro sdk_client_axioms.intro; (unfold fields)?)
      (use assms ociClassify_not_found ociClassify_gone in \<open>auto simp: oci_missing_def oci_gone_def\<close>)
qed

section \<open>What the configuration builds\<close>

text \<open>No overall timeout unless the environment asks for one, transports of the wrapper are tuned, and the SDK
  does not retry by itself.\<close>

definition oci_configured :: "('cp, 'tls, 's) ociSDK \<Rightarrow> ('tls, 's) OCIClient \<Rightarrow> bool" where
  "oci_configured D u \<longleftrightarrow> ou_namespace u \<noteq> [] \<and> ou_retry u = DefaultRetryPolicy \<and> oci_noRetry (ou_client u) \<and>
     (case oci_HTTPClient (ou_client u) of
        HTTPWrapped t template \<Rightarrow> (od_Getenv D ''OCI_CUSTOM_CLIENT_TIMEOUT'' = [] \<longrightarrow> t = 0) \<and> (\<forall>tls tr. template tls = Inr tr \<longrightarrow> tuned tr)
      | HTTPPlain t \<Rightarrow> od_Getenv D ''OCI_CUSTOM_CLIENT_TIMEOUT'' = [] \<longrightarrow> t = 0
      | OtherDispatcher \<Rightarrow> True)"

lemma configureClient_ok:
  "oci_configured D \<lparr>ou_client = configureClient D client, ou_namespace = x # ns, ou_retry = DefaultRetryPolicy\<rparr>"
  by (auto simp: oci_configured_def configureClient_def Let_def TuneTransport_tuned split: ociHTTP.splits sum.splits)

text \<open>The SDK's \<open>SetRegion\<close> changes the endpoint of a client, not its dispatcher or retry policy.\<close>

definition region_law :: "('cp, 'tls, 's) ociSDK \<Rightarrow> bool" where
  "region_law D \<longleftrightarrow> (\<forall>region cl. oci_HTTPClient (od_SetRegion D region cl) = oci_HTTPClient cl \<and> oci_noRetry (od_SetRegion D region cl) = oci_noRetry cl)"

lemma ociSetRegion_configured: "region_law D \<Longrightarrow> oci_configured D u \<Longrightarrow> oci_configured D (ociSetRegion D region u)"
  by (simp add: oci_configured_def ociSetRegion_def region_law_def)

lemma NewOCIClient_configured:
  assumes "region_law D" and "NewOCIClient D namespace authType = Inr u"
  shows "oci_configured D u \<and> ou_namespace u = namespace"
proof (cases namespace)
  case Nil
  with assms(2) show ?thesis by (simp add: NewOCIClient_def)
next
  case (Cons x ns)
  note base = configureClient_ok [of D _ x ns]
  have "oci_configured D \<lparr>ou_client = od_SetRegion D region (configureClient D client), ou_namespace = x # ns, ou_retry = DefaultRetryPolicy\<rparr>"
    for region client using ociSetRegion_configured [OF assms(1) base] by (simp add: ociSetRegion_def)
  with assms(2) base show ?thesis by (auto simp: NewOCIClient_def Cons Let_def split: sum.splits if_splits prod.splits)
qed

end
