(* ===== verification/SdkRef.thy ===== *)
theory SdkRef
  imports S3 OCI HttpRef
begin

text \<open>
  A reference service for the SDK clients: the buckets of \<open>Bucket\<close> behind the calls of an SDK, two keys per
  page, with answers delivered or lost by a script of faults. Written once over the errors and pages of an
  SDK, it interprets \<open>sdk_service\<close> and \<open>sdk_client\<close> for the S3 and for the OCI client.
\<close>

section \<open>The service\<close>

text \<open>What an SDK makes of the outcomes: a lost connection, a missing object, a vanished upload, a bad request,
  and a page with the token of the next one.\<close>

record ('e, 'p) sdkTypes =
  st_lost :: "err \<Rightarrow> 'e"
  st_absent :: 'e
  st_gone :: 'e
  st_bad :: 'e
  st_page :: "ObjectInfo list \<Rightarrow> string option \<Rightarrow> 'p"

definition refCall :: "('e, 'p) sdkTypes \<Rightarrow> (bucketWorld \<Rightarrow> ('e + 'a) \<times> bucketWorld) \<Rightarrow> bucketWorld \<Rightarrow> ('e + 'a) \<times> bucketWorld" where
  "refCall T act s = (case faulty (\<lambda>s. map_prod Inr id (act s)) s of (Inl e, s') \<Rightarrow> (Inl (st_lost T e), s') | (Inr r, s') \<Rightarrow> (r, s'))"

definition sdkRemaining :: "bucketWorld \<Rightarrow> string \<Rightarrow> string \<Rightarrow> string option \<Rightarrow> string list" where
  "sdkRemaining s b px token = refRemaining s b px (case token of None \<Rightarrow> [] | Some t \<Rightarrow> t) []"

definition refInfos :: "bucketWorld \<Rightarrow> string \<Rightarrow> string list \<Rightarrow> ObjectInfo list" where
  "refInfos s b = map (\<lambda>k. \<lparr>oi_Name = k, oi_Size = int (length (the (bw_objs s b k)))\<rparr>)"

definition sdkPage :: "('e, 'p) sdkTypes \<Rightarrow> bucketWorld \<Rightarrow> string \<Rightarrow> string list \<Rightarrow> 'p" where
  "sdkPage T s b left =
     st_page T (refInfos s b (take 2 left)) (if drop 2 left = [] then None else Some (CHR ''t'' # last (take 2 left)))"

definition refApi :: "('e, 'p) sdkTypes \<Rightarrow> ('e, 'p, bucketWorld) sdkAPI" where
  "refApi T =
     \<lparr>api_ListObjects = (\<lambda>c b px token. refCall T (\<lambda>s. (Inr (sdkPage T s b (sdkRemaining s b px token)), s))),
      api_HeadObject = (\<lambda>c b k. refCall T (\<lambda>s. (case bw_objs s b k of None \<Rightarrow> Inl (st_absent T) | Some d \<Rightarrow> Inr (Some (int (length d))), s))),
      api_GetObject = (\<lambda>c b k rng. refCall T (\<lambda>s. (case bw_objs s b k of
          None \<Rightarrow> Inl (st_absent T)
        | Some d \<Rightarrow> (case rng of
            None \<Rightarrow> Inr (d, None)
          | Some v \<Rightarrow> (case parseRange v of
              None \<Rightarrow> Inl (st_bad T)
            | Some (i, j) \<Rightarrow> if i < int (length d) then Inr (byteRange i j d, None) else Inl (st_bad T))), s))),
      api_CreateUpload = (\<lambda>c b k. refCall T (\<lambda>s. let u = CHR ''u'' # FormatNat (bw_next s)
          in (Inr (Some u), put_up b k u (Some Map.empty) (s\<lparr>bw_next := Suc (bw_next s)\<rparr>)))),
      api_UploadPart = (\<lambda>c b k u n d. refCall T (\<lambda>s. case bw_ups s b k u of
          None \<Rightarrow> (Inl (st_gone T), s)
        | Some m \<Rightarrow> (Inr (Some (FormatInt n)), put_up b k u (Some (m(n \<mapsto> (FormatInt n, d)))) s))),
      api_CompleteUpload = (\<lambda>c b k u ps. refCall T (\<lambda>s. case bw_ups s b k u of
          None \<Rightarrow> (Inl (st_gone T), s)
        | Some m \<Rightarrow> if tags_of m ps then (Inr (), put_up b k u None (put_obj b k (Some (assemble m ps)) s)) else (Inl (st_bad T), s))),
      api_AbortUpload = (\<lambda>c b k u. refCall T (\<lambda>s. case bw_ups s b k u of
          None \<Rightarrow> (Inl (st_gone T), s) | Some m \<Rightarrow> (Inr (), put_up b k u None s))),
      api_PutObject = (\<lambda>c b k d. refCall T (\<lambda>s. (Inr (), put_obj b k (Some d) s))),
      api_DeleteObject = (\<lambda>c b k. refCall T (\<lambda>s. if bw_objs s b k = None then (Inl (st_absent T), s) else (Inr (), put_obj b k None s)))\<rparr>"

section \<open>It keeps the laws\<close>

lemma refCall_cases:
  assumes "refCall T act s = (r, s')" and "http_ok s"
  obtains (unprocessed) e where "r = Inl (st_lost T e)" "plain_err e" "same_store s s'"
    | (processed) s1 r0 where "same_store s s1" "act s1 = (r0, s')" "r = r0 \<or> (\<exists>e. r = Inl (st_lost T e) \<and> plain_err e)"
proof -
  obtain rf where run: "faulty (\<lambda>s. map_prod Inr id (act s)) s = (rf, s')" and r: "r = (case rf of Inl e \<Rightarrow> Inl (st_lost T e) | Inr x \<Rightarrow> x)"
    using assms(1) by (auto simp: refCall_def split: prod.splits sum.splits)
  from run assms(2) show thesis
  proof (cases rule: faulty_cases)
    case (unprocessed e)
    with r that(1) show ?thesis by simp
  next
    case (processed s1 r0)
    then obtain ra where ra: "act s1 = (ra, s')" "r0 = Inr ra" by (auto simp: map_prod_def split: prod.splits)
    with processed(3) r have "r = ra \<or> (\<exists>e. r = Inl (st_lost T e) \<and> plain_err e)" by auto
    then show ?thesis by (rule that(2) [OF processed(1) ra(1)])
  qed
qed

lemma same_store_sdkRemaining: "same_store s t \<Longrightarrow> sdkRemaining t = sdkRemaining s"
  by (intro ext) (simp add: sdkRemaining_def same_store_remaining)

lemma sdkPage_ok:
  assumes "http_ok s" and "\<And>os. objects (st_page T os None) = os \<and> nxt (st_page T os None) = Inr None"
    and "\<And>os x t. objects (st_page T os (Some (x # t))) = os \<and> nxt (st_page T os (Some (x # t))) = Inr (Some (x # t))"
  shows "sdk_page_ok (sdkRemaining s b px token) (\<lambda>t. sdkRemaining s b px (Some t))
    (objects (sdkPage T s b (sdkRemaining s b px token))) (nxt (sdkPage T s b (sdkRemaining s b px token)))"
proof -
  let ?left = "sdkRemaining s b px token"
  have names: "map oi_Name (refInfos s b ks) = ks" for ks by (simp add: refInfos_def comp_def)
  show ?thesis
  proof (cases "drop 2 ?left = []")
    case True
    then have "take 2 ?left = ?left" by simp
    with True assms(2) show ?thesis by (simp add: sdkPage_def sdk_page_ok_def names)
  next
    case False
    then obtain x y rest where left: "?left = x # y # rest" by (cases ?left; cases "tl ?left") auto
    obtain pre where "liveKeys s b px = pre @ ?left" unfolding sdkRemaining_def using refRemaining_suffix by blast
    then have all: "liveKeys s b px = (pre @ [x]) @ y # rest" by (simp add: left)
    have "afterKey y (liveKeys s b px) = rest"
      using liveKeys_distinct [OF assms(1), of b px] unfolding all by (rule afterKey_distinct)
    then have "sdkRemaining s b px (Some (CHR ''t'' # y)) = rest" by (simp add: sdkRemaining_def refRemaining_def)
    with False left assms(3) show ?thesis by (simp add: sdkPage_def sdk_page_ok_def refInfos_def)
  qed
qed

lemma parseRange_rangeHeader:
  assumes "valid_range i j" and "rangeHeader i j = Inr v" and "v \<noteq> []"
  shows "parseRange v = Some (i, j)"
  by (rule parseRange_header) (use assms in \<open>auto simp: valid_range_def rangeHeader_def rangeHeaders_def split: if_splits\<close>)

text \<open>The laws, over what the errors mean and how pages are read.\<close>

lemma refApi_service:
  assumes "\<And>e. plain_err e \<Longrightarrow> \<not> missing (st_lost T e) \<and> \<not> gone (st_lost T e)" and "\<not> missing (st_bad T)" and "\<not> gone (st_bad T)"
    and "\<And>os. objects (st_page T os None) = os \<and> nxt (st_page T os None) = Inr None"
    and "\<And>os x t. objects (st_page T os (Some (x # t))) = os \<and> nxt (st_page T os (Some (x # t))) = Inr (Some (x # t))"
  shows "sdk_service bw_objs bw_ups sdkRemaining http_ok (refApi T) objects nxt any_name missing gone"
proof (unfold_locales, goal_cases)
  case (1 s c b px token rl s')
  then have "refCall T (\<lambda>s. (Inr (sdkPage T s b (sdkRemaining s b px token)), s)) s = (rl, s')" by (simp add: refApi_def)
  from this 1(1) show ?case
  proof (cases rule: refCall_cases)
    case (unprocessed e)
    with same_store_sdkRemaining show ?thesis by (auto simp: object_world.same_def same_store_def)
  next
    case (processed s1 r0)
    have "http_ok s1" using processed(1) by (simp add: same_store_def)
    note page = sdkPage_ok [OF this assms(4,5), of b px token, unfolded same_store_sdkRemaining [OF processed(1)]]
    have "s' = s1" and rl: "rl = Inr page \<Longrightarrow> page = sdkPage T s1 b (sdkRemaining s b px token)" for page
      using processed(2,3) same_store_sdkRemaining [OF processed(1)] by auto
    with processed(1) same_store_sdkRemaining page show ?thesis by (auto simp: object_world.same_def same_store_def)
  qed
next
  case (2 s b k px)
  then show ?case by (force simp: sdkRemaining_def refRemaining_def liveKeys_def http_ok_def image_iff)
next
  case (3 s b k c rh s')
  then have "refCall T (\<lambda>s. (case bw_objs s b k of None \<Rightarrow> Inl (st_absent T) | Some d \<Rightarrow> Inr (Some (int (length d))), s)) s = (rh, s')"
    by (simp add: refApi_def)
  from this 3(1) show ?case
    by (cases rule: refCall_cases)
      (use assms(1) same_store_sdkRemaining in \<open>auto simp: object_world.same_def same_store_def split: option.splits\<close>)
next
  case (4 s b k c rng rg s')
  note range = parseRange_rangeHeader
  from 4 have call: "refCall T (\<lambda>s. (case bw_objs s b k of
      None \<Rightarrow> Inl (st_absent T)
    | Some d \<Rightarrow> (case rng of
        None \<Rightarrow> Inr (d, None)
      | Some v \<Rightarrow> (case parseRange v of
          None \<Rightarrow> Inl (st_bad T)
        | Some (i, j) \<Rightarrow> if i < int (length d) then Inr (byteRange i j d, None) else Inl (st_bad T))), s)) s = (rg, s')"
    by (simp add: refApi_def)
  have empty: "parseRange [] = None" by (simp add: parseRange_def HasPrefix_def)
  from call 4(1) show ?case
    by (cases rule: refCall_cases)
      (use assms(1,2) same_store_sdkRemaining in \<open>fastforce simp: object_world.same_def same_store_def delivers_def empty dest: range split: option.splits if_splits\<close>)+
next
  case (5 s b k c rc s')
  then have "refCall T (\<lambda>s. let u = CHR ''u'' # FormatNat (bw_next s)
          in (Inr (Some u), put_up b k u (Some Map.empty) (s\<lparr>bw_next := Suc (bw_next s)\<rparr>))) s = (rc, s')" by (simp add: refApi_def)
  from this 5(1) show ?case by (cases rule: refCall_cases) (auto simp: same_store_def Let_def)
next
  case (6 s b k n u m c d rc s')
  then have "refCall T (\<lambda>s. case bw_ups s b k u of
          None \<Rightarrow> (Inl (st_gone T), s)
        | Some m \<Rightarrow> (Inr (Some (FormatInt n)), put_up b k u (Some (m(n \<mapsto> (FormatInt n, d)))) s)) s = (rc, s')" by (simp add: refApi_def)
  from this 6(1) show ?case
    by (cases rule: refCall_cases) (use 6(4) in \<open>auto simp: object_world.storing_def same_store_def\<close>)
next
  case (7 s b k u m ps c r s')
  then have "refCall T (\<lambda>s. case bw_ups s b k u of
          None \<Rightarrow> (Inl (st_gone T), s)
        | Some m \<Rightarrow> if tags_of m ps then (Inr (), put_up b k u None (put_obj b k (Some (assemble m ps)) s)) else (Inl (st_bad T), s)) s = (r, s')"
    by (simp add: refApi_def)
  from this 7(1) show ?case
    by (cases rule: refCall_cases) (use 7(3,4) assms(1) in \<open>auto simp: object_world.completing_def same_store_def http_ok_put_obj\<close>)
next
  case (8 s b k u c ps r s')
  then have "refCall T (\<lambda>s. case bw_ups s b k u of
          None \<Rightarrow> (Inl (st_gone T), s)
        | Some m \<Rightarrow> if tags_of m ps then (Inr (), put_up b k u None (put_obj b k (Some (assemble m ps)) s)) else (Inl (st_bad T), s)) s = (r, s')"
    by (simp add: refApi_def)
  from this 8(1) show ?case by (cases rule: refCall_cases) (use 8(3) in \<open>auto simp: same_store_def\<close>)
next
  case (9 s b k u c r s')
  then have "refCall T (\<lambda>s. case bw_ups s b k u of
          None \<Rightarrow> (Inl (st_gone T), s) | Some m \<Rightarrow> (Inr (), put_up b k u None s)) s = (r, s')" by (simp add: refApi_def)
  from this 9(1) show ?case by (cases rule: refCall_cases) (auto simp: same_store_def split: option.splits)
next
  case (10 s b k c d r s')
  then have "refCall T (\<lambda>s. (Inr (), put_obj b k (Some d) s)) s = (r, s')" by (simp add: refApi_def)
  from this 10(1) show ?case
    by (cases rule: refCall_cases) (auto simp: object_world.changing_def same_store_def http_ok_put_obj)
next
  case (11 s b k c r s')
  then have "refCall T (\<lambda>s. if bw_objs s b k = None then (Inl (st_absent T), s) else (Inr (), put_obj b k None s)) s = (r, s')"
    by (simp add: refApi_def)
  from this 11(1) show ?case
    by (cases rule: refCall_cases) (use assms(1) in \<open>auto simp: object_world.changing_def same_store_def http_ok_put_obj split: if_splits\<close>)
qed

section \<open>As S3 and as OCI\<close>

definition awsFault :: "int option \<Rightarrow> string option \<Rightarrow> err \<Rightarrow> awsError" where
  "awsFault status code e = \<lparr>ae_Response = status, ae_Code = code, ae_NoSuchKey = False, ae_NotFound = False, ae_NoSuchBucket = False,
     ae_NoSuchUpload = False, ae_err = e\<rparr>"

definition s3Types :: "(awsError, s3Page) sdkTypes" where
  "s3Types = \<lparr>st_lost = awsFault None None, st_absent = awsFault (Some 404) (Some ''NoSuchKey'') (Foreign ''no such key''),
     st_gone = awsFault (Some 404) (Some ''NoSuchUpload'') (Foreign ''no such upload''),
     st_bad = awsFault (Some 400) (Some ''InvalidPart'') (Foreign ''invalid part''),
     st_page = (\<lambda>os t. \<lparr>sp_Contents = map (\<lambda>x. (Some (oi_Name x), Some (oi_Size x))) os, sp_IsTruncated = Some (t \<noteq> None), sp_NextContinuationToken = t\<rparr>)\<rparr>"

definition ociTypes :: "(ociError, ociPage) sdkTypes" where
  "ociTypes = \<lparr>st_lost = (\<lambda>e. \<lparr>oe_ServiceError = None, oe_err = e\<rparr>), st_absent = \<lparr>oe_ServiceError = Some 404, oe_err = Foreign ''ObjectNotFound''\<rparr>,
     st_gone = \<lparr>oe_ServiceError = Some 404, oe_err = Foreign ''NoSuchUpload''\<rparr>, st_bad = \<lparr>oe_ServiceError = Some 400, oe_err = Foreign ''InvalidUploadPart''\<rparr>,
     st_page = (\<lambda>os t. \<lparr>op_Objects = map (\<lambda>x. (oi_Name x, Some (oi_Size x))) os, op_NextStartWith = t\<rparr>)\<rparr>"

lemma infos_id: "map (\<lambda>x. \<lparr>oi_Name = oi_Name x, oi_Size = oi_Size x\<rparr>) os = os"
  by (induction os) auto

lemma s3Types_service: "sdk_service bw_objs bw_ups sdkRemaining http_ok (refApi s3Types) s3Objects s3Next any_name s3_missing s3_gone"
  by (rule refApi_service)
    (auto simp: s3Types_def awsFault_def s3_missing_def s3_gone_def s3IsNotFound_def s3Status_def ToString_def plain_err_def s3Objects_def s3Next_def comp_def infos_id)

lemma ociTypes_service: "sdk_service bw_objs bw_ups sdkRemaining http_ok (refApi ociTypes) ociObjects ociNext any_name oci_missing oci_gone"
  by (rule refApi_service)
    (auto simp: ociTypes_def oci_missing_def oci_gone_def plain_err_def ociObjects_def ociNext_def comp_def infos_id)

definition refS3 :: "bucketWorld s3API" where
  "refS3 = (let A = refApi s3Types in
     \<lparr>s3_ListBuckets = (\<lambda>c token s. (Inr \<lparr>sb_Buckets = map (Some \<circ> fst) (bw_keys s), sb_ContinuationToken = None\<rparr>, s)),
      s3_ListObjectsV2 = api_ListObjects A, s3_HeadObject = api_HeadObject A, s3_GetObject = api_GetObject A,
      s3_CreateMultipartUpload = api_CreateUpload A, s3_UploadPart = (\<lambda>c b k u n len d. api_UploadPart A c b k u n d),
      s3_CompleteMultipartUpload = api_CompleteUpload A, s3_AbortMultipartUpload = api_AbortUpload A,
      s3_PutObject = (\<lambda>c b k len d. api_PutObject A c b k d), s3_DeleteObject = api_DeleteObject A\<rparr>)"

definition refOCI :: "string \<Rightarrow> (unit, bucketWorld) ociAPI" where
  "refOCI ns = (let A = refApi ociTypes in
     \<lparr>oci_HTTPClient = OtherDispatcher, oci_noRetry = True,
      oci_ListBuckets = (\<lambda>c ns comp page limit s. (Inr \<lparr>ob_Items = map fst (bw_keys s), ob_OpcNextPage = None\<rparr>, s)),
      oci_ListObjects = (\<lambda>c ns b px fields limit start. api_ListObjects A c b px start),
      oci_HeadObject = (\<lambda>c ns. api_HeadObject A c), oci_GetObject = (\<lambda>c ns. api_GetObject A c),
      oci_CreateMultipartUpload = (\<lambda>c ns. api_CreateUpload A c), oci_UploadPart = (\<lambda>c ns b k u n len d. api_UploadPart A c b k u n d),
      oci_CommitMultipartUpload = (\<lambda>c ns. api_CompleteUpload A c), oci_AbortMultipartUpload = (\<lambda>c ns. api_AbortUpload A c),
      oci_PutObject = (\<lambda>c ns b k len d. api_PutObject A c b k d), oci_DeleteObject = (\<lambda>c ns. api_DeleteObject A c)\<rparr>)"

definition quietCalls :: "ctx \<Rightarrow> bucketWorld \<Rightarrow> nat \<Rightarrow> attempt" where "quietCalls c s k = quietAttempt"

lemma quietCalls_ok: "ctx_ok (quietCalls c s)"
  by (simp add: quietCalls_def quietAttempt_def ctx_ok_def)

lemma s3Sdk_ref: "su_client u = refS3 \<Longrightarrow> sc_api (s3Sdk attempts pages u) = refApi s3Types"
  by (simp add: s3Sdk_def refS3_def Let_def)

lemma ociSdk_ref: "ou_client u = refOCI ns \<Longrightarrow> sc_api (ociSdk attempts pages u) = refApi ociTypes"
  by (simp add: ociSdk_def refOCI_def Let_def)

definition refS3Client :: "(unit, bucketWorld) S3Client" where
  "refS3Client = \<lparr>su_client = refS3, su_cfg = \<lparr>ac_Region = ''ap-south-1'', ac_Credentials = None, ac_HTTPClient = None\<rparr>, su_retry = DefaultRetryPolicy\<rparr>"

definition refOCIClient :: "(unit, bucketWorld) OCIClient" where
  "refOCIClient = \<lparr>ou_client = refOCI ''ns'', ou_namespace = ''ns'', ou_retry = DefaultRetryPolicy\<rparr>"

interpretation s3r: sdk_client bw_objs bw_ups sdkRemaining http_ok "s3Sdk quietCalls pages refS3Client" any_name s3_missing s3_gone for pages
  by (rule s3_sdk_client) (simp_all add: s3Sdk_ref refS3Client_def s3Types_service quietCalls_ok)

interpretation ocir: sdk_client bw_objs bw_ups sdkRemaining http_ok "ociSdk quietCalls pages refOCIClient" any_name oci_missing oci_gone for pages
  by (rule oci_sdk_client) (simp_all add: ociSdk_ref refOCIClient_def ociTypes_service quietCalls_ok)

text \<open>An AWS SDK that always builds the reference service; credentials are the texts they are made of.\<close>

definition refAWS :: "(string list, bucketWorld) awsSDK" where
  "refAWS = \<lparr>aws_ToLower = (\<lambda>s. s), aws_Getenv = (\<lambda>_. []), aws_LoadDefaultConfig = (\<lambda>_. Inl (Foreign ''no configuration'')),
     aws_StaticCredentials = (\<lambda>k s t. [k, s, t]), aws_AssumeRole = (\<lambda>cfg arn. [arn]),
     aws_DefaultTransport = \<lparr>tr_Dialer = None, tr_TLSHandshakeTimeout = 0, tr_ResponseHeaderTimeout = 0, tr_MaxIdleConnsPerHost = 2,
       tr_IdleConnTimeout = 0\<rparr>,
     aws_NewFromConfig = (\<lambda>cfg fs. refS3)\<rparr>"

end
