(* ===== verification/Providers.thy ===== *)
theory Providers
  imports S3 OCI Stores
begin

text \<open>
  The providers of a build: the \<open>init\<close> functions of the client packages fill the registry, and
  \<open>GetClient\<close> finds each under its name, whichever were linked and in whichever order they ran. An object
  storage over the S3 or the OCI client is a \<open>keyed_storage\<close>, on which backups and the client operations are safe.
\<close>

definition httpInit ::
  "(ctx \<Rightarrow> request \<Rightarrow> 's \<Rightarrow> response result \<times> 's) \<Rightarrow> 's httpEnv \<Rightarrow> 's ObjectStorageClient registry \<Rightarrow> 's ObjectStorageClient registry" where
  "httpInit client E = RegisterClient ''http'' (\<lambda>authType namespace.
     case newClient client authType namespace of Inl e \<Rightarrow> Inl e | Inr h \<Rightarrow> Inr (httpClient E h))"

text \<open>The order of registrations does not matter as long as their names differ.\<close>

definition registerAll :: "(string \<times> (string \<Rightarrow> string \<Rightarrow> 'c result)) list \<Rightarrow> 'c registry \<Rightarrow> 'c registry" where
  "registerAll = fold (\<lambda>(p, f). RegisterClient p f)"

lemma registerAll_get: "gm_get (registerAll fs reg) = gm_get reg ++ map_of (rev fs)"
proof (induction fs arbitrary: reg)
  case (Cons pf fs)
  obtain p f where pf: "pf = (p, f)" by fastforce
  have step: "registerAll (pf # fs) reg = registerAll fs (gm_put p f reg)" by (simp add: registerAll_def RegisterClient_def pf)
  show ?case unfolding step Cons.IH unfolding gm_get_put by (simp add: pf)
qed (simp add: registerAll_def)

lemma registerAll_order:
  assumes "distinct (map fst fs)" and "mset fs = mset gs"
  shows "GetClient (registerAll fs reg) = GetClient (registerAll gs reg)"
proof -
  have "mset (map fst fs) = mset (map fst gs)" using assms(2) by simp
  then have "distinct (map fst gs)" using assms(1) by (metis mset_eq_imp_distinct_iff)
  moreover have "set fs = set gs" using assms(2) by (rule mset_eq_setD)
  ultimately have "map_of (rev fs) = map_of (rev gs)" using assms(1) by (subst map_of_inject_set) (auto simp: rev_map [symmetric])
  then show ?thesis by (intro ext) (simp add: GetClient_def registerAll_get)
qed

lemma provider_dispatch:
  "GetClient (httpInit client E (ociInit D att pages (s3Init A att pages []))) provider authType namespace =
     (if provider = ''http'' then map_sum id (httpClient E) (newClient client authType namespace)
      else if provider = ''oci'' then map_sum id (ociClient att pages) (NewOCIClient D namespace authType)
      else if provider = ''s3'' then map_sum id (s3Client att pages) (NewS3Client A authType)
      else Inl (Errorf [Sentinel ErrUnsupportedProvider]))"
  unfolding httpInit_def ociInit_def s3Init_def GetClient_register
  by (simp add: GetClient_def split: sum.splits)

section \<open>Stores over the SDK clients\<close>

lemma s3_keyed_storage:
  assumes "sdk_service obj parts remaining ok (sc_api (s3Sdk attempts pages u)) s3Objects s3Next nm s3_missing s3_gone"
    and "\<And>c s. ctx_ok (attempts c s)" and "store_names nm bucket px"
  shows "keyed_storage (ObjectStorage (s3Client attempts pages u) bucket px clock) (object_contents obj bucket px) (object_key nm bucket px) ok
    (object_open parts nm bucket px)"
  unfolding s3Client_def using sdk_client.sdk_contract [OF s3_sdk_client [OF assms(1,2)]] assms(3) by (rule object_keyed_storage)

lemma oci_keyed_storage:
  assumes "sdk_service obj parts remaining ok (sc_api (ociSdk attempts pages u)) ociObjects ociNext nm oci_missing oci_gone"
    and "\<And>c s. ctx_ok (attempts c s)" and "store_names nm bucket px"
  shows "keyed_storage (ObjectStorage (ociClient attempts pages u) bucket px clock) (object_contents obj bucket px) (object_key nm bucket px) ok
    (object_open parts nm bucket px)"
  unfolding ociClient_sdk using sdk_client.sdk_contract [OF oci_sdk_client [OF assms(1,2)]] assms(3) by (rule object_keyed_storage)

end
