(* ===== verification/Spec2Isabelle.thy ===== *)
theory Spec2Isabelle
  imports FixturesZip FixturesHttp SdkRef Providers
begin

text \<open>
  Verification of the t-sync SDK (\<open>src/tsync\<close>, \<open>src/storage_clients\<close>), a library for encrypted,
  deduplicating, versioned backups to a directory or an object store.

  \<^bold>\<open>The program.\<close> A store holds one metadata object \<open>.tsync\<close> (a protobuf message: versions, the
  Merkle trees of their directories, one record per distinct file content, public keys) and one part
  object for each distinct content, at the path \<open>partKeyFor key\<close> where the key is made of the CRC-32
  and the size. \<open>RunBackup\<close> lists a source, uploads missing parts with concurrent workers, builds and
  hashes the tree and replaces \<open>.tsync\<close>; \<open>ResolveVersionTree\<close> turns a version back into its paths and
  keys, which \<open>RunRestore\<close> extracts into a directory with concurrent workers or copies into a zip
  archive; \<open>DeleteVersion\<close> and \<open>GC\<close> remove what no version reaches. All of them work on a \<open>Storage\<close>, which
  is \<open>LocalStorage\<close> (atomic temporary files) or \<open>ObjectStorage\<close> (buffered multipart uploads over an
  \<open>ObjectStorageClient\<close>); the provider clients retry through \<open>RetryPolicy.Do\<close>.

  \<^bold>\<open>Theories.\<close>
  \<^item> \<open>Prelude\<close>: Go's integers, strings, regular expressions, maps (association lists in iteration
    order, \<open>gomap\<close>) and decimal printing, with the shared lemmas.
  \<^item> \<open>Errors\<close>, \<open>Retry\<close>: error values and their chains (\<open>errors.go\<close>), the retry policy (\<open>retry.go\<close>).
  \<^item> \<open>Digest\<close>, \<open>FileKeys\<close>: SHA-256, CRC-32, FNV-1a; names, content keys, part paths.
  \<^item> \<open>Metadata\<close>, \<open>Tree\<close>, \<open>TreeBuild\<close>, \<open>TreeHash\<close>: the messages; \<open>walkTree\<close>; the tree phase of a backup;
    hashing, order independence and the build/walk round trip.
  \<^item> \<open>Storage\<close>: the interfaces, and the locale \<open>storage\<close> with the contract every client of a storage
    relies on. \<open>ObjectStorage\<close> has the locale \<open>object_client\<close> with the laws of a provider client and
    proves the contract from them (\<open>sublocale\<close>); \<open>Bucket\<close> interprets \<open>object_client\<close> on a reference provider
    with failures; \<open>Paths\<close> and \<open>LocalStorage\<close> prove the contract for the local storage over a file
    system in which any call may fail.
  \<^item> \<open>Collect\<close>, \<open>Client\<close>: the live-set traversal; \<open>DeleteVersion\<close>, \<open>GC\<close> and the accessors, proved safe in
    the locale \<open>keyed_storage\<close>.
  \<^item> \<open>Crypto\<close>: part passwords.
  \<^item> \<open>Backup\<close>: the operations of \<open>backup.go\<close>; \<open>Upload\<close>: one part upload is all-or-nothing; \<open>Gather\<close>: the
    results; \<open>BackupWorkers\<close>: the goroutines as an interleaving step relation with its invariant,
    progress and termination; \<open>BackupKeys\<close>: every key of a run was computed for the entry it is reported
    with; \<open>RunBackup\<close>, \<open>BackupCommit\<close>, \<open>BackupSafe\<close>: the store invariant along the
    steps, the whole run, and its safety in \<open>keyed_storage\<close>.
  \<^item> \<open>Restore\<close>: the operations of \<open>restore.go\<close> up to the extraction of one file; \<open>RestoreFile\<close>: an extraction
    is all-or-nothing; \<open>RestoreWorkers\<close>: the goroutines of \<open>restoreToDir\<close> as a step relation, and what follows
    them; \<open>RestoreSafe\<close>: their invariant and the whole restore; \<open>RestoreZip\<close>: the archive; \<open>RunRestore\<close>: the
    run, the paths it works on, and termination.
  \<^item> \<open>Zip\<close>: \<open>zip_utils.go\<close>, with panics as values; \<open>ZipSpec\<close>: the reference directory and what the utilities
    compute; \<open>Sources\<close>: \<open>source.go\<close> and \<open>StorageReaderAt\<close>; \<open>SourceSafe\<close>: what sources promise a backup.
  \<^item> \<open>Auth\<close>: auth strings (\<open>auth.go\<close>), the registry (\<open>registry.go\<close>) and \<open>Retry-After\<close>; \<open>Transport\<close>: transport settings
    and header timeouts (\<open>transport.go\<close>, \<open>headertimeout.go\<close>).
  \<^item> \<open>RetryCall\<close>: \<open>RetryPolicy.Do\<close> around a request that changes the world; \<open>ObjectWorld\<close>: what a provider client sees
    of its service, and the laws of \<open>object_client\<close> in those terms; \<open>NetText\<close>: trimming, parsing, URL and
    header text; \<open>Http\<close>: the operations of \<open>http.go\<close>; \<open>HttpHeaders\<close>: header options; \<open>HttpServer\<close>: how a server
    decodes a request; \<open>HttpClient\<close>, \<open>HttpUpload\<close>: the locale \<open>s3_server\<close> of a conforming server and the proof that
    the client on it keeps \<open>object_client\<close>; \<open>HttpRef\<close>: a reference server that interprets it; \<open>FixturesHttp\<close>.
  \<^item> \<open>Sdk\<close>: the operations that \<open>s3.go\<close> and \<open>oci.go\<close> have in common, over a record of SDK calls; \<open>SdkClient\<close>: the locales
    \<open>sdk_service\<close> (a conforming service) and \<open>sdk_client\<close>, and the proof that the client keeps \<open>object_client\<close>; \<open>S3\<close>, \<open>OCI\<close>:
    configuration, error classification, pages and requests of each; \<open>SdkRef\<close>: a reference service that
    interprets both; \<open>Providers\<close>: the registrations, and stores over both clients as \<open>keyed_storage\<close>.
  \<^item> \<open>Stores\<close>: both storages interpret \<open>keyed_storage\<close>; \<open>Fixtures\<close>, \<open>FixturesRestore\<close>, \<open>FixturesZip\<close>: concrete
    stores, sources, codecs, runs and archives.

  \<^bold>\<open>What is shown.\<close> A successful backup leaves a version that resolves to exactly its entries, each
  under the key of its own content, and misses no part but those the store missed before (C1); a
  backup never damages older versions (C2), and one that fails leaves the metadata and every
  recorded part as they were, unless the very write of the metadata failed after it took effect
  (C3); deleting and collecting garbage keep every remaining version (C4, C5) and the sweep is
  complete (C37); the workers give one result per entry, upload each content once, never deadlock
  and stop (C6-C8); an upload is atomic (C9). A restore into a directory changes nothing but its
  destinations, new directories above them and its temporary files, and accounts for every file on
  success; one file is restored with its recorded size and checksum, or what was there stays (C10,
  C11); an archive is closed exactly on success and holds what the run copied (C12); restore
  workers give one result per task and stop (C13, C14); paths and keys are well formed (C15). The
  directory of a zip source is the one a full scan finds, except where 64-bit fields wrap, and the
  archives on which reading it panics are characterized (C16, C17); the part ranges are those of
  the files of the directory and tile the archive, the cached reader is exact, a streamed entry
  has its declared size and checksum (C18-C20). Both storages implement the storage contract under
  arbitrary failures (C21, C22); the HTTP client keeps the contract of a provider client through
  lost requests and answers, reads exact ranges, lists completely and ends, and two of its URLs
  agree exactly when their path segments do (C24-C27); the S3 and OCI clients keep the same
  contract, list completely and are configured as their auth string says (C28-C31); what a header
  timeout returns, also when it returns nothing at all (C32); trees round-trip, hash independently
  of order and are traversed exactly (C33-C36); then the sweep, paths, the lost store label and
  retries.

  \<^bold>\<open>Modelling.\<close> Go maps are association lists without duplicate keys; theorems about the result of an
  iteration hold for every order. Errors are values of \<open>err\<close>; what a call returns is a sum. State is
  passed explicitly; a storage operation returns its result and the next world, so a failed operation
  may or may not have taken effect. \<open>int64\<close> arithmetic is wrapped where it can overflow, identifiers and
  checksums are words. \<open>walkTree\<close> and \<open>walkCollect\<close> have fuel: the depth of the tree is enough for the
  first, the number of trees for the second (\<open>walkCollect_total\<close>), and the statements say so. The pages of a listing are
  fuel too: one more than the keys left is enough (C26); a listing without end is an error value of the model. An upload by a worker is
  one step, taken when it ends: parts of different keys do not interfere, and \<open>uploadOnce\<close> keeps two
  uploads of one key apart. So is an extraction: distinct paths have distinct destinations and every
  temporary file is new. The store and the file system of a restore are separate worlds. The file system has
  files and directories, no symbolic links and no times of directories; any call on it may fail, but a scripted
  failure is never \<open>ErrNotExist\<close> (\<open>fs_ok\<close>), so a file that another process removes in the middle of a listing is
  outside the model.

  \<^bold>\<open>Parameters.\<close> Code outside the sources is an argument: the protobuf codec (\<open>md_codec\<close>), the zip library
  (\<open>zipLib\<close>, \<open>partLib\<close>, \<open>zip_writer_ok\<close>, \<open>NewReader\<close>), the decompressor, the free disk space, the NaCl box (\<open>box_law\<close>), the provider clients (\<open>object_client\<close>), for the HTTP client the network with its server
  (\<open>s3_server\<close>), \<open>url.Parse\<close> and the XML codec, for the S3 and OCI clients their SDKs (\<open>awsSDK\<close>, \<open>ociSDK\<close>,
  \<open>sdk_service\<close>), clock and randomness. The laws of \<open>s3_server\<close> and \<open>sdk_service\<close> are those of a
  service that has authorized the caller and in which an upload ends only by completing or by an abort: an authorization
  failure that looks like a missing object is outside them. SHA-256
  collisions are excluded where a theorem needs it (\<open>no_collision\<close>).

  \<^bold>\<open>Not modelled.\<close> The cloud SDKs themselves, the generated protobuf code, the texts of error messages, progress
  callbacks and log lines.
\<close>

section \<open>Backups\<close>

text \<open>
  C1. A successful \<open>RunBackup\<close> into a local store leaves metadata (\<open>backup_written\<close>) in which the
  returned version is listed beside the old ones (alone in single-version mode) and resolves
  (\<open>ResolveVersionTree\<close>) to exactly the files of the entries and exactly their empty directories; each
  file has a record and is filed under the key that \<open>entryKey\<close> gave, in a state of this run, for an
  entry of that very path; and a recorded part is missing only where the old metadata recorded it and
  it was missing already: contents that have a record are not uploaded again. This holds for every
  interleaving of the workers and every failure of a system call that the run survives. Assumed are the
  codec law of the protobuf library, a source that leaves the store alone, old records filed under
  their own key, and no SHA-256 collision among the nodes of the new tree.
\<close>

theorem backup_restorable:
  assumes "md_codec unmarshal marshal" and "root_ok (filepathAbs wd r) s"
    and "source_ok (local_contents (filepathAbs wd r)) local_key (root_ok (filepathAbs wd r)) listSrc"
    and "gm_wf (bo_PublicKeys opts)"
    and "backupRuns unmarshal marshal mar Z env listSrc (NewLocalStorage wd r) opts s p st (Inr v) s'"
    and "\<And>md. stored unmarshal (local_contents (filepathAbs wd r)) s = Some md \<Longrightarrow> recs_keyed md"
    and "\<And>n. resultTree (gather (wk_results st)) = Inr n \<Longrightarrow> no_collision mar (emittedNodes mar n)"
  shows "\<exists>md'. backup_written unmarshal mar Z env listSrc (NewLocalStorage wd r) (local_contents (filepathAbs wd r)) opts s p st v s' md'"
  using assms by (rule lstore.run_restorable)

theorem backup_restorable_witness:
  "\<exists>md'. backup_written (fx_unmarshal fx_md9) fx_mar fx_zip fx_env fx_source (NewLocalStorage ''/'' ''/r'') (local_contents ''/r'')
     (fx_opts 9 False) fx_empty fx_prepared fx_final fx_version9 fx_done md'"
proof -
  have nc: "no_collision fx_mar (emittedNodes fx_mar n)" if "resultTree (gather (wk_results fx_final)) = Inr n" for n
    using that fx_no_collision by (auto simp: fx_final_def fx_tree)
  have keys: "gm_wf (bo_PublicKeys (fx_opts 9 False))" by (simp add: gm_wf_def fx_opts_def)
  have old: "recs_keyed md" if "stored (fx_unmarshal fx_md9) (local_contents ''/r'') fx_empty = Some md" for md
    using that fx_empty_ok by simp
  show ?thesis
    using backup_restorable [where wd = "''/''" and r = "''/r''", unfolded fx_abs,
        OF fx_codec [OF fx_md9_wf] fx_empty_ok(1) fx_source_ok keys fx_backup old nc] by blast
qed

text \<open>
  C2. A backup into an object store, over any client that keeps the documented laws of
  \<open>ObjectStorageClient\<close>, never damages what is there: unless single-version mode is on, and
  whatever the outcome, every version of the store resolves afterwards to what it resolved to
  before, its records are unchanged and its part objects too. Assumed are a source that leaves the
  store alone, stored trees that are filed under their own hash, and no SHA-256 collision between them
  and the nodes of the new tree.
\<close>

theorem backup_keeps_versions:
  assumes "object_client C obj parts nm ok" and "store_names nm bucket px" and "md_codec unmarshal marshal" and "ok s"
    and "source_ok (object_contents obj bucket px) (object_key nm bucket px) ok listSrc" and "gm_wf (bo_PublicKeys opts)"
    and "\<not> bo_SingleVersionMode opts"
    and "backupRuns unmarshal marshal mar Z env listSrc (ObjectStorage C bucket px clock) opts s p st res s'"
    and "stored unmarshal (object_contents obj bucket px) s = Some md" and "trees_hashed mar (Trees md)"
    and "\<And>n. resultTree (gather (wk_results st)) = Inr n \<Longrightarrow> no_collision mar (snd ` set (Trees md) \<union> emittedNodes mar n)"
  shows "\<exists>md'. stored unmarshal (object_contents obj bucket px) s' = Some md' \<and>
    (\<forall>vid fuel r. ResolveVersionTree mar fuel md vid False = Some (Inr r) \<longrightarrow> ResolveVersionTree mar fuel md' vid False = Some (Inr r)) \<and>
    (\<forall>k rec. gm_get (Files md) k = Some rec \<and> isValidFileKey k \<longrightarrow> gm_get (Files md') k = Some rec \<and>
       object_contents obj bucket px s' (partKeyFor k) = object_contents obj bucket px s (partKeyFor k))"
proof -
  note os = object_keyed_storage [OF assms(1,2), of clock]
  obtain md' where md': "stored unmarshal (object_contents obj bucket px) s' = Some md'"
    and ext: "keyed_storage.extends (object_contents obj bucket px) s md s' md'"
    using keyed_storage.run_extends [OF os assms(3-11)] by blast
  show ?thesis
    using md' keyed_storage.extends_resolve [OF os ext] ext keyed_storage.map_le_Some [OF os]
    by (intro exI [of _ md'] conjI) (auto simp: keyed_storage.extends_def [OF os] map_le_def dom_def)
qed

theorem backup_keeps_versions_witness:
  "\<exists>md'. stored (fx_unmarshal fx_md9') (object_contents bw_objs ''b'' ''t/'') (fx_bucket [2]) = Some md' \<and>
    gm_get (Files md') fx_key = Some fx_rec"
proof -
  have "snd ` set (Trees fx_md) \<union> emittedNodes fx_mar (TempDirNode [(''f'', \<lparr>fl_Crc32 = 0, fl_UncompressedSize = 0\<rparr>)] []) = {fx_node}"
    by (auto simp: fx_md_def emittedNodes_def fx_mar_def fx_node_def dirNode_def)
  then have "no_collision fx_mar (snd ` set (Trees fx_md) \<union> emittedNodes fx_mar (TempDirNode [(''f'', \<lparr>fl_Crc32 = 0, fl_UncompressedSize = 0\<rparr>)] []))"
    by (simp add: no_collision_def)
  moreover have "trees_hashed fx_mar (Trees fx_md)" by (simp add: trees_hashed_def fx_md_def fx_mar_def fx_hash_def)
  moreover have "gm_get (Files fx_md) fx_key = Some fx_rec" "isValidFileKey fx_key"
    by (simp_all add: fx_md_def fx_key_def isValidFileKey_def less_char_def less_eq_char_def)
  moreover have "gm_wf (bo_PublicKeys (fx_opts 9 False))" "\<not> bo_SingleVersionMode (fx_opts 9 False)" "wk_results (fx_final0 [1]) = [fx_result0]"
    by (simp_all add: gm_wf_def fx_opts_def fx_final0_def)
  ultimately show ?thesis
    using backup_keeps_versions [OF bc.object_client_axioms store_names_any fx_codec [OF fx_md9'_wf] fx_bucket_ok(1) fx_source0_ok _ _
        fx_backup0 [unfolded fx_ostore_def] fx_bucket_ok(2)] fx_tree0 by auto
qed

text \<open>
  C3. A \<open>RunBackup\<close> into an object store, over any client that keeps the documented laws, that returns
  an error damages nothing: the part of every record of the old metadata is unchanged, and the metadata
  is the old one, unless the error is that of the final write of \<open>.tsync\<close> itself and that write took
  effect all the same; then the store holds exactly what a successful run leaves (\<open>backup_written\<close>, as
  in C1). Assumed are, as there, the codec law, a source that leaves the store alone, old records filed
  under their own key, and no SHA-256 collision in the tree of the failed run.
\<close>

theorem backup_error_sound:
  assumes "object_client C obj parts nm ok" and "store_names nm bucket px" and "md_codec unmarshal marshal" and "ok s"
    and "source_ok (object_contents obj bucket px) (object_key nm bucket px) ok listSrc" and "gm_wf (bo_PublicKeys opts)"
    and "RunBackup unmarshal marshal mar Z env listSrc (ObjectStorage C bucket px clock) opts s (Inl e) s'"
    and "\<And>md. stored unmarshal (object_contents obj bucket px) s = Some md \<Longrightarrow> recs_keyed md"
    and "\<And>p st n. backupRuns unmarshal marshal mar Z env listSrc (ObjectStorage C bucket px clock) opts s p st (Inl e) s' \<Longrightarrow>
      resultTree (gather (wk_results st)) = Inr n \<Longrightarrow> no_collision mar (emittedNodes mar n)"
  shows "ok s' \<and>
    (\<forall>md k. stored unmarshal (object_contents obj bucket px) s = Some md \<and> isValidFileKey k \<and> gm_has (Files md) k \<longrightarrow>
       object_contents obj bucket px s' (partKeyFor k) = object_contents obj bucket px s (partKeyFor k)) \<and>
    (stored unmarshal (object_contents obj bucket px) s' = stored unmarshal (object_contents obj bucket px) s \<or>
     (\<exists>p st v md' x b. backupRuns unmarshal marshal mar Z env listSrc (ObjectStorage C bucket px clock) opts s p st (Inl e) s' \<and>
        e = Errorf [x] \<and> unmarshal b = Some md' \<and>
        st_Write (ObjectStorage C bucket px clock) CallerCtx metadataPath b (wk_world st) = (Some x, s') \<and>
        backup_written unmarshal mar Z env listSrc (ObjectStorage C bucket px clock) (object_contents obj bucket px) opts s p st v s' md'))"
  using keyed_storage.run_error [OF object_keyed_storage [OF assms(1,2)] assms(3-7)] assms(8,9) by blast

theorem backup_error_sound_witness:
  "RunBackup (fx_unmarshal fx_md9') (fx_marshal fx_md9') fx_mar fx_zip fx_env fx_source0 fx_ostore (fx_opts 7 False) (fx_bucket [1])
     (Inl (Errorf [Sentinel ErrVersionIDExists])) (fx_bucket [1]) \<and> bucket_ok True (fx_bucket [1])"
proof -
  let ?e = "Errorf [Sentinel ErrVersionIDExists]"
  have l: "loadMetadata (fx_unmarshal fx_md9') fx_ostore CallerCtx (fx_bucket [1]) = (Inr fx_md, fx_bucket [1])"
    by (simp add: loadMetadata_def fx_bucket_read parseMetadata_def fx_unmarshal_def fx_md_def)
  have v: "validateBackupOptions (en_now fx_env) (fx_opts 7 False) = None"
    by (simp add: validateBackupOptions_def fx_opts_def fx_env_def)
  have "gm_has (Versions fx_md) ''7''" by (simp add: fx_md_def)
  then have o: "checkOrdering (fx_opts 7 False) fx_md = Some ?e"
    by (simp add: checkOrdering_def fx_opts_def FormatUint_7)
  have prep: "prepareBackup (fx_unmarshal fx_md9') fx_env fx_source0 fx_ostore CallerCtx (fx_opts 7 False) (fx_bucket [1]) = (Inl ?e, fx_bucket [1])"
    by (simp add: prepareBackup_def v l initMetadata_def o)
  note run = RunBackup.refused [OF prep, of "fx_marshal fx_md9'" fx_mar fx_zip]
  have keys: "gm_wf (bo_PublicKeys (fx_opts 7 False))" by (simp add: gm_wf_def fx_opts_def)
  have "recs_keyed fx_md" by (simp add: recs_keyed_def rec_keyed_def fx_md_def fx_rec_def fx_fileKey)
  then have old: "recs_keyed md" if "stored (fx_unmarshal fx_md9') (object_contents bw_objs ''b'' ''t/'') (fx_bucket [1]) = Some md" for md
    using that fx_bucket_ok(2) by simp
  have nc: "no_collision fx_mar (emittedNodes fx_mar n)"
    if "backupRuns (fx_unmarshal fx_md9') (fx_marshal fx_md9') fx_mar fx_zip fx_env fx_source0 fx_ostore (fx_opts 7 False) (fx_bucket [1]) p st (Inl ?e) (fx_bucket [1])" for p st n
    using that unfolding backupRuns_def prep by simp
  have "bucket_ok True (fx_bucket [1])"
    by (rule backup_error_sound [OF bc.object_client_axioms store_names_any fx_codec [OF fx_md9'_wf] fx_bucket_ok(1) fx_source0_ok keys
        run [unfolded fx_ostore_def], THEN conjunct1]) (erule old, erule nc [unfolded fx_ostore_def])
  with run show ?thesis ..
qed

section \<open>Deleting versions and collecting garbage\<close>

text \<open>
  C4. \<open>DeleteVersion\<close> on a local store, whatever it returns and whichever system call fails, keeps
  every other version: it is still listed, resolves to the same files and directories, and the records
  and part data of its files are unchanged. When it succeeds the version is gone.
\<close>

theorem delete_version_safe:
  assumes "md_codec unmarshal marshal" and "root_ok (filepathAbs wd r) s"
    and "stored unmarshal (local_contents (filepathAbs wd r)) s = Some md"
    and "DeleteVersion unmarshal marshal mar now (NewLocalStorage wd r) c vid s = (e, s')"
  shows "\<exists>md'. stored unmarshal (local_contents (filepathAbs wd r)) s' = Some md' \<and>
    (e = None \<longrightarrow> gm_get (Versions md') (FormatUint vid) = None) \<and>
    (\<forall>vid'. vid' \<noteq> vid \<and> gm_has (Versions md) (FormatUint vid') \<longrightarrow>
       gm_get (Versions md') (FormatUint vid') = gm_get (Versions md) (FormatUint vid') \<and>
       (\<forall>fuel skip. ResolveVersionTree mar fuel md' vid' skip = ResolveVersionTree mar fuel md vid' skip)) \<and>
    (\<forall>k \<in> keys_from (Trees md) (roots (Versions md')). gm_get (Files md') k = gm_get (Files md) k) \<and>
    (\<forall>k \<in> fst ` set (Files md'). isValidFileKey k \<longrightarrow>
       local_contents (filepathAbs wd r) s' (partKeyFor k) = local_contents (filepathAbs wd r) s (partKeyFor k))"
proof -
  let ?c = "local_contents (filepathAbs wd r)"
  obtain md' where md': "stored unmarshal ?c s' = Some md'" "kept ?c s md s' md'"
    and vs: "\<forall>k. k \<noteq> FormatUint vid \<longrightarrow> gm_get (Versions md') k = gm_get (Versions md) k"
      "e = None \<longrightarrow> gm_get (Versions md') (FormatUint vid) = None"
    using lstore.DeleteVersion_safe [OF assms] by blast
  have prunes: "md_prunes md md'" using md'(2) by (simp add: kept_def)
  note res = md_prunes_resolve [OF prunes codec_wf [OF assms(1,3)] codec_wf [OF assms(1) md'(1)]]
  have same: "gm_get (Versions md') (FormatUint vid') = gm_get (Versions md) (FormatUint vid')" if "vid' \<noteq> vid" for vid'
    using vs(1) that FormatUint_inj by metis
  then have tree: "ResolveVersionTree mar fuel md' vid' skip = ResolveVersionTree mar fuel md vid' skip"
    if "vid' \<noteq> vid" "gm_has (Versions md) (FormatUint vid')" for vid' fuel skip
    using that by (intro res) simp
  from md'(2) have data: "\<forall>k \<in> keys_from (Trees md) (roots (Versions md')). gm_get (Files md') k = gm_get (Files md) k"
    "\<forall>k \<in> fst ` set (Files md'). isValidFileKey k \<longrightarrow> ?c s' (partKeyFor k) = ?c s (partKeyFor k)"
    unfolding kept_def md_prunes_def by blast+
  show ?thesis
    by (intro exI [of _ md'] conjI allI impI md'(1) vs(2) [rule_format] data same tree) simp_all
qed

theorem delete_version_safe_witness:
  "\<exists>md'. stored (fx_unmarshal fx_md7) (local_contents ''/r'') (fx_stored [2]) = Some md' \<and> gm_get (Versions md') (FormatUint 7) = None"
  using delete_version_safe [where wd = "''/''" and r = "''/r''", unfolded fx_abs,
      OF fx_codec [OF fx_md7_wf] fx_world_ok fx_stored_md fx_DeleteVersion]
  by (elim exE conjE) (rule exI, erule conjI, simp)

text \<open>
  C5. \<open>GC\<close> on an object store over any client that keeps the documented laws, whatever it returns:
  the versions are the same, each resolves to the same files and directories, and the records and the
  part data of all their files are unchanged.
\<close>

theorem gc_safe:
  assumes "object_client C obj parts nm ok" and "store_names nm bucket px" and "md_codec unmarshal marshal" and "ok s"
    and "stored unmarshal (object_contents obj bucket px) s = Some md"
    and "GC unmarshal marshal mar now (ObjectStorage C bucket px clock) c s = (e, s')"
  shows "\<exists>md'. stored unmarshal (object_contents obj bucket px) s' = Some md' \<and> gm_get (Versions md') = gm_get (Versions md) \<and>
    (\<forall>vid fuel skip. gm_has (Versions md) (FormatUint vid) \<longrightarrow> ResolveVersionTree mar fuel md' vid skip = ResolveVersionTree mar fuel md vid skip) \<and>
    (\<forall>k \<in> keys_from (Trees md) (roots (Versions md')). gm_get (Files md') k = gm_get (Files md) k) \<and>
    (\<forall>k \<in> fst ` set (Files md'). isValidFileKey k \<longrightarrow>
       object_contents obj bucket px s' (partKeyFor k) = object_contents obj bucket px s (partKeyFor k))"
proof -
  let ?c = "object_contents obj bucket px"
  obtain md' where md': "stored unmarshal ?c s' = Some md'" "kept ?c s md s' md'" and vs: "gm_get (Versions md') = gm_get (Versions md)"
    using keyed_storage.GC_safe [OF object_keyed_storage [OF assms(1,2)] assms(3-6)] by blast
  have prunes: "md_prunes md md'" using md'(2) by (simp add: kept_def)
  have tree: "ResolveVersionTree mar fuel md' vid skip = ResolveVersionTree mar fuel md vid skip"
    if "gm_has (Versions md) (FormatUint vid)" for vid fuel skip
    using that by (intro md_prunes_resolve [OF prunes codec_wf [OF assms(3,5)] codec_wf [OF assms(3) md'(1)]]) (simp only: vs not_False_eq_True)
  from md'(2) have data: "\<forall>k \<in> keys_from (Trees md) (roots (Versions md')). gm_get (Files md') k = gm_get (Files md) k"
    "\<forall>k \<in> fst ` set (Files md'). isValidFileKey k \<longrightarrow> ?c s' (partKeyFor k) = ?c s (partKeyFor k)"
    unfolding kept_def md_prunes_def by blast+
  show ?thesis
    by (intro exI [of _ md'] conjI allI impI md'(1) vs data tree) simp_all
qed

theorem gc_safe_witness:
  "\<exists>md'. stored (fx_unmarshal fx_md9') (object_contents bw_objs ''b'' ''t/'') (fx_bucket [1]) = Some md' \<and>
     gm_get (Versions md') = gm_get (Versions fx_md)"
  using gc_safe [OF bc.object_client_axioms store_names_any fx_codec [OF fx_md9'_wf] fx_bucket_ok(1) fx_bucket_ok(2) fx_GC [unfolded fx_ostore_def]]
  by (elim exE conjE) (rule exI, erule conjI)

section \<open>The workers of a backup\<close>

text \<open>
  C6. When all workers have left, there is exactly one result for every entry, in whatever order;
  if the run was never cancelled, no result is an error and each one is of the kind of its entry.
\<close>

theorem one_result_per_entry:
  assumes "wreach Z r S (startWorkers opts entries cause s) st" and "all_exited st"
  shows "mset (map rs_path (wk_results st)) = mset (map se_Path entries) \<and>
    (wk_cause st = None \<longrightarrow>
      mset (map (\<lambda>x. (rs_path x, rs_isDir x)) (wk_results st)) = mset (map (\<lambda>e. (se_Path e, isDirEntry e)) entries) \<and>
      list_all (\<lambda>x. rs_err x = None) (wk_results st))"
  using results_complete [OF wreach_inv [OF assms(1) wk_inv_start] assms(2)] by blast

theorem one_result_per_entry_witness:
  "mset (map rs_path (wk_results fx_final)) = {# ''f'' #}"
  using one_result_per_entry [OF fx_reach [of "''/''"]] by (simp add: fx_final_def all_exited_def fx_entry_def)

text \<open>
  C7. \<open>uploadOnce\<close>: no two workers upload the same content at a time, and once an upload of a key
  has ended its result stays the same for the rest of the run and nobody uploads that key again.
\<close>

theorem upload_once:
  assumes "wreach Z r S (startWorkers opts entries cause s) st" and "wreach Z r S st st'"
  shows "(at_pc st i (Uploading e k) \<and> at_pc st j (Uploading e' k) \<longrightarrow> i = j) \<and>
    (gm_get (wk_flights st) k = Some (Some res) \<longrightarrow>
       gm_get (wk_flights st') k = Some (Some res) \<and> \<not> (\<exists>i e. at_pc st' i (Uploading e k)))"
proof -
  have inv: "wk_inv entries st" by (rule wreach_inv [OF assms(1) wk_inv_start])
  then have inv': "wk_inv entries st'" by (rule wreach_inv [OF assms(2)])
  have "gm_get (wk_flights st') k = Some (Some res)" if "gm_get (wk_flights st) k = Some (Some res)"
    using wreach_flight_done [OF assms(2) inv that] .
  moreover have "gm_get (wk_flights st') k = Some None" if "at_pc st' i (Uploading e k)" for i e
    using inv' that unfolding wk_inv_def flights_ok_def by blast
  moreover have "i = j" if "at_pc st i (Uploading e k)" "at_pc st j (Uploading e' k)"
    using inv that unfolding wk_inv_def flights_ok_def by blast
  ultimately show ?thesis by fastforce
qed

theorem upload_once_witness:
  "gm_get (wk_flights fx_final) fx_part = Some (Some (Inr fx_rec5)) \<and> \<not> (\<exists>i e. at_pc fx_final i (Uploading e fx_part))"
proof -
  have "gm_get (wk_flights fx_final) fx_part = Some (Some (Inr fx_rec5))" by (simp add: fx_final_def)
  then show ?thesis
    using upload_once [OF fx_reach [of "''/''"] wreach.here, of 0 fx_entry fx_part 0 fx_entry "Inr fx_rec5"] by blast
qed

text \<open>
  C8. The workers never deadlock and always stop: from every reachable state in which some worker
  has not left, a worker can take a step, and no run is longer than four steps for each entry, one for
  each worker, and one for the caller's cancellation.
\<close>

theorem workers_terminate:
  assumes "wreach Z r S (startWorkers opts entries cause s) st"
  shows "(\<not> all_exited st \<longrightarrow> (\<exists>st'. wstep Z r S st st')) \<and>
    (((rstep Z r S) ^^ n) (startWorkers opts entries cause s) st' \<longrightarrow> n \<le> 4 * length entries + concurrency opts entries + 1)"
proof -
  have "flights_ok st" using wreach_inv [OF assms wk_inv_start] by (simp add: wk_inv_def)
  then have "\<not> all_exited st \<longrightarrow> (\<exists>st'. wstep Z r S st st')" using wstep_progress by blast
  moreover have "wk_cost (startWorkers opts entries cause s) \<le> 4 * length entries + concurrency opts entries + 1"
    by (simp add: wk_cost_def startWorkers_def sum_list_replicate)
  then have "n \<le> 4 * length entries + concurrency opts entries + 1"
    if "((rstep Z r S) ^^ n) (startWorkers opts entries cause s) st'"
    using wreach_relpow [OF that] by linarith
  ultimately show ?thesis by blast
qed

theorem workers_terminate_witness:
  "\<exists>st. wstep fx_zip (fx_run []) (NewLocalStorage ''/'' ''/r'') (startWorkers (fx_opts 9 False) [fx_entry] None fx_empty) st"
proof -
  have "\<not> all_exited (startWorkers (fx_opts 9 False) [fx_entry] None fx_empty)"
    by (simp add: startWorkers_def all_exited_def concurrency_def fx_opts_def)
  then show ?thesis
    by (rule conjunct1 [OF workers_terminate [OF wreach.here], THEN mp])
qed

text \<open>
  C9. \<open>uploadPart\<close> on a local store commits all or nothing: no other path of the store changes; on
  success the part at the key holds exactly what the zip library made of the complete source content,
  and the recorded checksum and size are those of the key; on failure the part is the old one or,
  when only the final close failed, that same complete content.
\<close>

theorem uploadPart_atomic:
  assumes "root_ok (filepathAbs wd r) s" and "isValidFileKey key"
    and "entry_quiet (local_contents (filepathAbs wd r)) local_key (root_ok (filepathAbs wd r)) entry"
    and "uploadPart Z run (NewLocalStorage wd r) c key entry s = (res, s')"
  shows "(\<forall>q. local_key q \<and> q \<noteq> partKeyFor key \<longrightarrow> local_contents (filepathAbs wd r) s' q = local_contents (filepathAbs wd r) s q) \<and>
    (local_contents (filepathAbs wd r) s' (partKeyFor key) = local_contents (filepathAbs wd r) s (partKeyFor key) \<and> (\<exists>e. res = Inl e) \<or>
     (\<exists>f content ml. openFor entry = Some f \<and> fst (f s) = Inr (content, None) \<and> compressionFor run (se_Path entry) = Inr ml \<and>
        local_contents (filepathAbs wd r) s' (partKeyFor key) = Some (part_bytes Z run entry ml content))) \<and>
    (\<forall>rec. res = Inr rec \<longrightarrow> fileKeyFor (fr_Crc32 rec) (fr_UncompressedSize rec) = key)"
  using assms
proof (cases rule: lstore.uploadPart_cases)
  case (no_commit e)
  then show ?thesis using lstore.key_partKeyFor [OF assms(2)] by auto
next
  case (closed f content ml sizes e)
  then show ?thesis by (cases e) (auto simp: newFileRecord_def)
qed

theorem uploadPart_atomic_witness:
  "local_contents ''/r'' fx_uploaded (partKeyFor fx_part) = Some [80, 10, 20, 30] \<and>
   fileKeyFor (fr_Crc32 fx_rec5) (fr_UncompressedSize fx_rec5) = fx_part"
proof -
  have key: "isValidFileKey fx_part" by (simp add: fx_part_def isValidFileKey_def less_char_def less_eq_char_def)
  have "entry_quiet (local_contents ''/r'') local_key (root_ok ''/r'') fx_entry" by (simp add: entry_quiet_def quiet_def fx_entry_def)
  note up = uploadPart_atomic [where wd = "''/''" and r = "''/r''", unfolded fx_abs, OF fx_empty_ok(1) key this fx_upload]
  have "local_contents ''/r'' fx_uploaded (partKeyFor fx_part) = Some [80, 10, 20, 30]"
    by (simp add: local_contents_def fileData_def partKeyFor_def fx_part_def fs_eval fx_uploaded_def)
  with up show ?thesis by blast
qed

section \<open>Restores\<close>

text \<open>
  C10. A restore into a directory is confined and complete, for every interleaving of its workers,
  every failure of a call and every cancellation. Confined: outside the destinations of the selected
  paths and temporary files that did not exist when the run began, every node of the file system is what
  it was, or is a new directory above a destination or at a restored empty directory; the archive is
  untouched. Complete: when the run returns without error, every selected file has the recorded size and
  CRC-32, or \<open>NoOverwrite\<close> is set and at its destination is the node that was there when the run began or a
  directory, or \<open>SkipDecryptionErrors\<close> is set and a worker of this run extracted the file and failed with an error
  that may be skipped. Assumed is that no selected path has a last component with the prefix
  \<open>.tsync-restore-tmp-\<close> of the temporary files (\<open>no_temp_names\<close>).
\<close>

theorem restore_dir_sound:
  assumes "prepareRestore unmarshal mar fuel S ctxErr0 vid opts (rw_store w) = Some (Inr (md, fm, ds), s)" and "no_temp_names fm"
    and "ro_ExtractDir opts \<noteq> []" and "fs_ok (rw_fs w)"
    and "RunRestore unmarshal mar fuel nb Z W free S ctxAt ctxErr0 vid opts (w, z) oe (w', z')"
  shows "(\<exists>K. fresh_temps (rw_fs w) K \<and>
      fs_only (taskDirs opts fm \<union> emptyDirPaths opts ds) (outs opts (set fm) \<union> K) (rw_fs w) (rw_fs w')) \<and> z' = z \<and>
    (oe = None \<longrightarrow> (\<forall>t \<in> set fm. placed opts md (rw_fs w) (rw_fs w') t \<or>
       skipped_in_run nb Z free S opts md fm ds (w\<lparr>rw_store := s\<rparr>) oe w' t))"
  using assms(5)
proof cases
  case (to_dir md1 fm1 ds1 s1)
  with assms(1) have eq: "md1 = md" "fm1 = fm" "ds1 = ds" "s1 = s" by simp_all
  have ok: "tasks_ok fm" using tasks_ok_walk [OF walk_wf_prepare [OF assms(1)] assms(2)] .
  have "fs_ok (rw_fs (w\<lparr>rw_store := s\<rparr>))" using assms(4) by simp
  note spec = restoreToDir_spec [OF to_dir(4) [unfolded eq fst_conv] ok this]
  show ?thesis using spec to_dir(1) by simp
qed (use assms in auto)

theorem restore_dir_sound_witness:
  "placed (fx_ropts ''/o'') fx_md fx_out fx_restored (''f'', fx_key)"
proof -
  have run: "RunRestore (fx_unmarshal fx_md7) fx_mar 2 fx_nacl fx_lib fx_writer fx_free fx_store (\<lambda>_. None) None 7 (fx_ropts ''/o'')
      (fx_rw, [], False) None (fx_rw', [], False)"
    using RunRestore.to_dir [of "fx_unmarshal fx_md7" fx_mar 2 fx_store None 7 "fx_ropts ''/o''" "(fx_rw, [], False)" fx_md fx_tasks "[]" fx_world]
      fx_prepareRestore fx_restoreToDir by (simp add: fx_rw_def fx_ropts_def)
  have prep: "prepareRestore (fx_unmarshal fx_md7) fx_mar 2 fx_store None 7 (fx_ropts ''/o'') (rw_store fx_rw) = Some (Inr (fx_md, fx_tasks, []), fx_world)"
    using fx_prepareRestore by (simp add: fx_rw_def)
  have side: "no_temp_names fx_tasks" "ro_ExtractDir (fx_ropts ''/o'') \<noteq> []" "fs_ok (rw_fs fx_rw)" "(''f'', fx_key) \<in> set fx_tasks"
    "\<not> ro_SkipDecryptionErrors (fx_ropts ''/o'')" "rw_fs fx_rw = fx_out" "rw_fs fx_rw' = fx_restored"
    by (simp_all add: fx_rw_def fx_rw'_def no_temp_names_def fx_tasks_def restoreTempPrefix_def HasPrefix_def fx_ropts_def fx_out_def fs_ok_def)
  have "\<not> skipped_in_run fx_nacl fx_lib fx_free fx_store (fx_ropts ''/o'') fx_md fx_tasks [] (fx_rw\<lparr>rw_store := fx_world\<rparr>) None fx_rw' t" for t
    using side(5) by (simp add: skipped_in_run_def failed_skippably_def)
  with restore_dir_sound [OF prep side(1-3) run] side(4) show ?thesis unfolding side(6,7) by blast
qed

text \<open>
  C11. The extraction of one file is all-or-nothing. On success the destination holds a content of the
  recorded size and CRC-32, or \<open>NoOverwrite\<close> is set, there was something at the destination and every node is
  what it was. On failure, whatever call failed, the destination is what it was, also when a file was
  there before. In all cases nothing else changes but temporary files that did not exist before, and
  missing directories above the destination, which may have been made. Assumed is that the last component of
  the destination has not the prefix of the temporary files.
\<close>

theorem restore_file_integrity:
  assumes "extractOne nb Z S opts md t w = (oe, w')" and "fs_ok (rw_fs w)"
    and "safeJoin (ro_ExtractDir opts) (fst t) = Inr out" and "\<not> rtemp_path out"
  shows "\<exists>K. fresh_temps (rw_fs w) K \<and>
    (oe \<noteq> None \<and> fs_only (set (ancestors (filepathDir out))) K (rw_fs w) (rw_fs w') \<or>
     oe = None \<and> fs_only (set (ancestors (filepathDir out))) (insert out K) (rw_fs w) (rw_fs w') \<and>
       (ro_NoOverwrite opts \<and> gm_has (fs_nodes (rw_fs w)) out \<and> fs_only {} {} (rw_fs w) (rw_fs w') \<or>
        (\<exists>rec d. gm_get (Files md) (snd t) = Some rec \<and> fileData (rw_fs w') out = Some d \<and>
           int (length d) = fr_UncompressedSize rec \<and> crc32 d = fr_Crc32 rec)))"
  using extractOne_spec [OF assms order_refl] unfolding restored_def .

theorem restore_file_integrity_witness:
  "\<exists>rec d. gm_get (Files fx_md) fx_key = Some rec \<and> fileData fx_restored ''/o/f'' = Some d \<and>
    int (length d) = fr_UncompressedSize rec \<and> crc32 d = fr_Crc32 rec"
proof -
  have j: "safeJoin (ro_ExtractDir (fx_ropts ''/o'')) (fst (''f'', fx_key)) = Inr ''/o/f''" by code_simp
  have t: "\<not> rtemp_path ''/o/f''" by (simp add: rtemp_path_def restoreTempPrefix_def HasPrefix_def)
  have f: "fs_ok (rw_fs fx_rw)" by (simp add: fx_rw_def fx_out_def fs_ok_def)
  have "\<not> ro_NoOverwrite (fx_ropts ''/o'')" by (simp add: fx_ropts_def)
  with restore_file_integrity [OF fx_extract f j t] show ?thesis by (auto simp: fx_rw'_def)
qed

text \<open>
  C12. An archive is complete exactly when the restore returns without error: after any failure or
  cancellation it has no central directory. Let \<open>copyRun\<close> be the outcomes of copying the selected files one
  after the other, each in the state the files before it have left. A complete archive has, after what it
  held before, exactly the files that were copied, in order, and then the empty directories; every other
  selected file failed in this run before anything of it was written, with an error that may be skipped, and
  \<open>SkipDecryptionErrors\<close> is set. The laws of the zip writer (\<open>zip_writer_ok\<close>) are assumed.
\<close>

theorem restore_zip_final:
  assumes "zip_writer_ok W names final" and "\<not> final z" and "ro_ExtractDir opts = []"
    and "RunRestore unmarshal mar fuel nb Z W free S ctxAt ctxErr0 vid opts (w, z) oe (w', z')"
  shows "(final z' \<longleftrightarrow> oe = None) \<and> rw_fs w' = rw_fs w \<and>
    (oe = None \<longrightarrow> (\<exists>md fm ds s rs. prepareRestore unmarshal mar fuel S ctxErr0 vid opts (rw_store w) = Some (Inr (md, fm, ds), s) \<and>
       rs = copyRun (copyOne nb Z W S opts md) fm (s, z) \<and> map fst rs = fm \<and> list_all (copied_or_skipped opts) rs \<and>
       names z' = names z @ copiedNames rs @ map dirEntryName ds))"
  using assms(4)
proof cases
  case (to_zip md fm ds s s')
  have "\<not> final (snd (s, snd (w, z)))" using assms(2) by simp
  note spec = restoreToZip_spec [OF to_zip(4) assms(1) this]
  have "\<exists>md fm ds s rs. prepareRestore unmarshal mar fuel S ctxErr0 vid opts (rw_store w) = Some (Inr (md, fm, ds), s) \<and>
       rs = copyRun (copyOne nb Z W S opts md) fm (s, z) \<and> map fst rs = fm \<and> list_all (copied_or_skipped opts) rs \<and>
       names z' = names z @ copiedNames rs @ map dirEntryName ds" if "oe = None"
    using spec(2) [OF that] to_zip(2) copyRun_tasks
    by (intro exI [of _ md] exI [of _ fm] exI [of _ ds] exI [of _ s] exI [of _ "copyRun (copyOne nb Z W S opts md) fm (s, z)"]) simp
  then show ?thesis using spec(1) to_zip(1) by simp
qed (use assms in auto)

theorem restore_zip_final_witness:
  "\<exists>md fm ds s rs. prepareRestore (fx_unmarshal fx_md7) fx_mar 2 fx_store None 7 (fx_ropts []) fx_world = Some (Inr (md, fm, ds), s) \<and>
     map fst rs = fm \<and> list_all (copied_or_skipped (fx_ropts [])) rs \<and> [''f''] = copiedNames rs @ map dirEntryName ds"
proof -
  have run: "RunRestore (fx_unmarshal fx_md7) fx_mar 2 fx_nacl fx_lib fx_writer fx_free fx_store (\<lambda>_. None) None 7 (fx_ropts [])
      (fx_rw, [], False) None (fx_rw, [''f''], True)"
    using RunRestore.to_zip [of "fx_unmarshal fx_md7" fx_mar 2 fx_store None 7 "fx_ropts []" "(fx_rw, [], False)" fx_md fx_tasks "[]" fx_world
        fx_nacl fx_lib fx_writer "\<lambda>_. None" None fx_world "([''f''], True)" fx_free] fx_prepareRestore fx_restoreToZip
    by (simp add: fx_rw_def fx_ropts_def)
  have d: "ro_ExtractDir (fx_ropts []) = []" "rw_store fx_rw = fx_world" by (simp_all add: fx_ropts_def fx_rw_def)
  from restore_zip_final [OF fx_writer_ok _ d(1) run] d(2) show ?thesis by auto
qed

text \<open>
  C13. Every task of a restore gives exactly one result: when all workers have left, the paths of
  the results are the selected paths, as multisets, also when the run was cancelled.
\<close>

theorem restore_one_result:
  assumes "tasks_ok fm" and "fs_ok (rw_fs w)" and "1 \<le> c"
    and "rwreach nb Z S opts md (startRestore c fm cause w) st" and "rk_exited st"
  shows "mset (map rr_path (rk_results st)) = mset (map fst fm)"
  using rk_results_complete [OF rwreach_inv [OF assms(4) rk_inv_start [OF assms(3)]] assms(5)] .

theorem restore_one_result_witness:
  "mset (map rr_path (rk_results fx_rfinal)) = {#''f''#}"
proof -
  have "tasks_ok fx_tasks"
    by (simp add: tasks_ok_def gm_wf_def fx_tasks_def valid_name_iff restoreTempPrefix_def HasPrefix_def)
  moreover have "fs_ok (rw_fs fx_rw)" by (simp add: fx_rw_def fx_out_def fs_ok_def)
  moreover have "rk_exited fx_rfinal" by (simp add: rk_exited_def fx_rfinal_def)
  ultimately show ?thesis using restore_one_result [OF _ _ _ fx_rreach] by (simp add: fx_tasks_def)
qed

text \<open>
  C14. The workers of a restore never deadlock, no execution is longer than four steps for each
  task, one for each worker and one for a cancellation, and a restore into a directory has an outcome for
  every directory, disk and store: the search for an existing ancestor ends too.
\<close>

theorem restore_terminates:
  "(rk_exited st \<or> (\<exists>st'. rwstep nb Z S opts md st st')) \<and>
   {n. \<exists>st'. ((rrun nb Z S opts md) ^^ n) (startRestore c fm cause w) st'} \<subseteq> {..4 * length fm + nat c + 1} \<and>
   (\<exists>oe w'. restoreToDir nb Z free S opts md fm ds w oe w')"
  using rwstep_progress [of st nb Z S opts md] rrun_bound [of _ nb Z S opts md c fm cause w]
    restoreToDir_returns [of nb Z free S opts md fm ds w] by auto

text \<open>
  C15. The paths and keys that a restore works on are well formed, whatever the stored metadata: paths
  are distinct, every component is a valid name (no separator, not empty, not \<open>.\<close> or \<open>..\<close>), and every
  key is long enough for the slice \<open>fileKey[0:2]\<close>, so that expression never panics.
\<close>

theorem restore_paths_valid:
  assumes "prepareRestore unmarshal mar fuel S ctxErr0 vid opts s = Some (Inr (md, fm, ds), s')"
  shows "distinct (map fst fm) \<and> list_all (\<lambda>(p, k). list_all valid_name (Split CHR ''/'' p) \<and> 2 \<le> length k) fm \<and>
    list_all (\<lambda>d. list_all valid_name (Split CHR ''/'' d)) ds"
  using walk_wf_prepare [OF assms] by (auto simp: walk_wf_def gm_wf_def good_path_def list_all_iff)

theorem restore_paths_valid_witness:
  "valid_name ''f'' \<and> 2 \<le> length fx_key"
  using restore_paths_valid [OF fx_prepareRestore [of "[]"]] by (simp add: fx_tasks_def)

text \<open>
  What \<open>SkipDecryptionErrors\<close> may skip: never a cancellation or a deadline; a failure of the store
  or of the output keeps the class of its cause; any other failure of decoding a part can be skipped
  unless it is a cancellation.
\<close>

theorem skip_classification:
  "isSkippableRestoreError (classifyPartError e srcErr dstErr) \<longleftrightarrow>
     (if dstErr = None \<and> srcErr = None then \<not> errIs e Canceled \<and> \<not> errIs e DeadlineExceeded
      else isSkippableRestoreError e)"
  by (auto simp: classifyPartError_def isSkippableRestoreError_def)

section \<open>Archives and sources\<close>

text \<open>
  C16. \<open>readZipDirectory\<close>, which reads a window at the end of the archive once and computes with \<open>int64\<close>,
  agrees with the reference that scans the whole archive with unbounded numbers: every directory the
  reference accepts is returned with its offsets and its count, and every directory returned is the one
  of the reference, unless its offset and its size add up beyond \<open>int64\<close>.
\<close>

theorem zip_directory_exact:
  assumes "length a < 2 ^ 62"
  shows "(zipDirSpec a = Some (p, off, len, records) \<longrightarrow>
      (\<exists>d. readZipDirectory (bytesReaderAt a) (int (length a)) st = (Some (Inr d), st) \<and>
         zd_eocdOffset d = int p \<and> zd_cdOffset d = int off \<and> zd_cdSize d = int len \<and> zd_records d = word_of_nat records)) \<and>
    (readZipDirectory (bytesReaderAt a) (int (length a)) st = (Some (Inr d), st') \<and> zd_cdOffset d + zd_cdSize d < 2 ^ 63 \<longrightarrow>
      zipDirSpec a = Some (nat (zd_eocdOffset d), nat (zd_cdOffset d), nat (zd_cdSize d), unat (zd_records d)))"
  using zipdir_complete [OF assms, of p off len records st] zipdir_sound [OF assms, of st d st'] by blast

theorem zip_directory_exact_witness:
  "\<exists>d. readZipDirectory (bytesReaderAt (0 # fx_eocd 1 1)) 23 () = (Some (Inr d), ()) \<and> zd_eocdOffset d = 1 \<and> zd_cdOffset d = 1 \<and> zd_records d = 1"
proof -
  have "length (0 # fx_eocd 1 1) < 2 ^ 62" "int (length (0 # fx_eocd 1 1)) = 23" by (simp_all add: fx_eocd_def)
  with conjunct1 [OF zip_directory_exact [of "0 # fx_eocd 1 1" 1 1 0 1 "()"]] fx_spec(2) show ?thesis by auto
qed

text \<open>
  C17. \<open>readZipDirectory\<close> panics on exactly the archives whose zip64 locator names an offset within 56
  bytes of the largest \<open>int64\<close>: the range check wraps around, and the slice after it is out of range.
\<close>

theorem zip_directory_panics:
  assumes "length a < 2 ^ 62"
  shows "fst (readZipDirectory (bytesReaderAt a) (int (length a)) st) = None \<longleftrightarrow>
    (\<exists>p. lastEOCD a = Some p \<and> hasLocator a p \<and> locatorOffset a p < 2 ^ 63 \<and> 2 ^ 63 \<le> locatorOffset a p + 56)"
  using zipdir_panics [OF assms] .

theorem zip_directory_panics_witness:
  "fst (readZipDirectory (bytesReaderAt (fx_locator @ fx_eocd 0 0)) 42 ()) = None"
proof -
  have a: "length (fx_locator @ fx_eocd 0 0) < 2 ^ 62" "int (length (fx_locator @ fx_eocd 0 0)) = 42" by (simp_all add: fx_locator_def fx_eocd_def)
  have "hasLocator (fx_locator @ fx_eocd 0 0) 20" "locatorOffset (fx_locator @ fx_eocd 0 0) 20 = 2 ^ 63 - 1" by (simp_all add: zip_eval)
  then show ?thesis using zip_directory_panics [OF a(1), of "()"] fx_last(3) unfolding a(2) by simp
qed

text \<open>
  C18. The part ranges that \<open>GetZipPartRanges\<close> returns are those of the files of the directory: one range for
  each file that the zip library's \<open>NewReader\<close> finds in the cached archive, as multisets, and their number is
  that of the end record up to 16 bits. Each range starts at its file's header, none is empty, they are in
  order and disjoint, each ends where the next begins, and the last ends where the central directory begins.
\<close>

theorem zip_ranges_tile:
  assumes "GetZipPartRanges NewReader ra sz st = (Some (Inr rs), st')"
  shows "\<exists>d st1 off cache st2 files. readZipDirectory ra sz st = (Some (Inr d), st1) \<and>
    loadCache ra sz d st1 = (Inr (off, cache), st2) \<and>
    NewReader (cachedTailReaderAt ra off (trimCache d off cache)) (zd_eocdOffset d + int eocdLen) st2 = (Inr files, st') \<and>
    mset (map zr_File rs) = mset files \<and> (word_of_nat (length rs) :: 16 word) = ucast (zd_records d) \<and>
    tiles (zd_cdOffset d) rs \<and> sorted_wrt (\<lambda>r q. zr_EndOffset r \<le> zr_StartOffset q) rs \<and>
    list_all (\<lambda>r. zr_StartOffset r = zf_HeaderOffset (zr_File r) \<and> zr_Name r = zf_Name (zr_File r) \<and>
      0 \<le> zr_StartOffset r \<and> zr_EndOffset r \<le> zd_cdOffset d) rs"
proof -
  obtain d st1 off cache st2 files where d: "readZipDirectory ra sz st = (Some (Inr d), st1)"
    "loadCache ra sz d st1 = (Inr (off, cache), st2)"
    "NewReader (cachedTailReaderAt ra off (trimCache d off cache)) (zd_eocdOffset d + int eocdLen) st2 = (Inr files, st')"
    and t: "tiles (zd_cdOffset d) rs" "mset (map zr_File rs) = mset files" "(word_of_nat (length files) :: 16 word) = ucast (zd_records d)"
    "list_all (\<lambda>r. zr_Name r = zf_Name (zr_File r) \<and> zr_StartOffset r = zf_HeaderOffset (zr_File r) \<and> 0 \<le> zr_StartOffset r) rs"
    using assms by (rule GetZipPartRanges_spec)
  have "length rs = length files" using arg_cong [OF t(2), of size] by simp
  with t(3) have n: "(word_of_nat (length rs) :: 16 word) = ucast (zd_records d)" by simp
  have inside: "list_all (\<lambda>r. zr_StartOffset r = zf_HeaderOffset (zr_File r) \<and> zr_Name r = zf_Name (zr_File r) \<and>
      0 \<le> zr_StartOffset r \<and> zr_EndOffset r \<le> zd_cdOffset d) rs"
    using t(4) tiles_disjoint [OF t(1)] by (auto simp: list_all_iff)
  from d t(1,2) n inside tiles_disjoint [OF t(1)] show ?thesis by blast
qed

theorem zip_ranges_tile_witness:
  "tiles (zd_cdOffset fx_dir) [fx_range :: unit ZipPartRange]"
proof -
  have "partRanges fx_dir [fx_file] = Inr [fx_range]"
    by (simp add: partRanges_def fx_dir_fields fx_file_def fx_range_def)
  then have "GetZipPartRanges (\<lambda>_ _ s. (Inr [fx_file], s)) (bytesReaderAt (0 # fx_eocd 1 1)) 23 () = (Some (Inr [fx_range]), ())"
    by (simp add: GetZipPartRanges_def fx_read_dir loadCache_def fx_dir_fields)
  from zip_ranges_tile [OF this] show ?thesis by (auto simp: fx_read_dir)
qed

text \<open>
  C19. \<open>cachedTailReaderAt\<close> is the plain reader of the archive whose end is replaced by the cache: for
  every offset that is not negative and every positive length whose sum stays below \<open>2^63\<close>, also across
  the border, it returns the same bytes and the same error. The cache is not empty.
\<close>

theorem cached_tail_reader:
  assumes "0 \<le> off" and "k \<le> length a" and "cache \<noteq> []" and "0 < n" and "off + int n < 2 ^ 63"
  shows "cachedTailReaderAt (bytesReaderAt a) (int k) cache n off st = bytesReaderAt (take k a @ cache) n off st"
  using assms by (rule cached_reader_exact)

theorem cached_tail_reader_witness:
  "cachedTailReaderAt (bytesReaderAt [1, 2, 3, 4]) 2 [7, 8, 9] 3 1 () = bytesReaderAt [1, 2, 7, 8, 9] 3 1 ()"
  using cached_tail_reader [of 1 2 "[1, 2, 3, 4]" "[7, 8, 9]" 3 "()"] by simp

text \<open>
  C20. An entry of an archive that is streamed to its end without error has the CRC-32 and the size
  that the central directory declares, in whatever pieces it is read.
\<close>

theorem zip_entry_verified:
  assumes "openZipEntryStream inflate pieces S c zipPath pr s = (Inr (b, None), s')"
  shows "word_of_nat (length b) = zf_UncompressedSize64 (zr_File pr) \<and> crc32 b = zf_CRC32 (zr_File pr)"
  using assms by (rule zipEntry_verified)

theorem zip_entry_verified_witness:
  "crc32 [] = zf_CRC32 (zr_File (fx_range :: unit ZipPartRange))"
proof -
  have "openZipEntryStream id (\<lambda>b. [b]) (fx_ostore\<lparr>st_ReadRange := \<lambda>c p off n s. (Inr (fx_lfh, None), s)\<rparr>) CallerCtx ''z'' fx_range s = (Inr ([], None), s)" for s
    by (simp add: openZipEntryStream_def zipEntryBody_def ioReadFull_def fx_lfh_def localFileHeaderLen_def localFileHeaderSig_def fx_range_def fx_file_def
        Uint32_def Uint16_def leUint_def limitReader_def Store_def Deflate_def zesRead_def crc32_update_def Let_def)
  from zip_entry_verified [OF this] show ?thesis by (simp add: fx_range_def fx_file_def)
qed

text \<open>
  A folder of a local storage is a source that a backup to a store on the same file system may use:
  listing it and reading its files change no object of the store, whatever calls fail.
\<close>

theorem folder_source_quiet:
  "source_ok (local_contents (filepathAbs wd r)) local_key (root_ok (filepathAbs wd r)) (FolderSource (NewLocalStorage wd' src) c px)"
  unfolding NewLocalStorage_def by (rule folder_source_ok)

section \<open>Storages\<close>

text \<open>
  C21. \<open>LocalStorage\<close> implements the storage contract, whichever system calls fail: reads change
  nothing, \<open>Write\<close> and the writers' \<open>Close\<close> replace a file completely or not at all, \<open>Abort\<close> commits
  nothing, \<open>Delete\<close> removes one file only, \<open>List\<close> misses no file, and \<open>ErrNotFound\<close> means that the
  path is not there.
\<close>

theorem local_storage_contract:
  "storage (NewLocalStorage wd r) (local_contents (filepathAbs wd r)) local_key
     (root_ok (filepathAbs wd r)) (local_open (filepathAbs wd r))"
  by (rule ls.storage_axioms)

text \<open>
  C22. \<open>ObjectStorage\<close> implements the same contract over every client that keeps the documented laws of
  \<open>ObjectStorageClient\<close>, with buffered writers that switch to a multipart upload, and with failures
  that may strike before or after a request took effect.
\<close>

theorem object_storage_contract:
  "object_client C obj parts nm ok \<Longrightarrow>
   storage (ObjectStorage C bucket px clock) (object_contents obj bucket px) (object_key nm bucket px) ok (object_open parts nm bucket px)"
  by (rule object_store.object_is_storage [OF object_store.intro])

theorem object_storage_contract_witness:
  "object_client bucketClient bw_objs bw_ups any_name (bucket_ok True) \<and>
   storage (ObjectStorage bucketClient ''b'' ''t/'' (\<lambda>_. 0)) (object_contents bw_objs ''b'' ''t/'') (object_key any_name ''b'' ''t/'')
     (bucket_ok True) (object_open bw_ups any_name ''b'' ''t/'')"
  using bc.object_client_axioms object_storage_contract [OF bc.object_client_axioms] by blast

text \<open>
  C23. \<open>partSizeFor\<close> is the doubling schedule: 8 MiB, doubled after every thousand parts, capped at
  5 GiB; the ten thousand parts an upload may have hold 8184000 MiB (about 7.8 TiB), so no object
  below that size runs out of part numbers.
\<close>

theorem partSizeFor_schedule:
  "partSizeFor n = min (initialPartSize * 2 ^ nat (go_quot (n - 1) partSizeStep)) maxPartSize \<and>
   0 < partSizeFor n \<and> partSizeFor n \<le> maxPartSize \<and>
   (\<Sum>i\<in>{0 <.. maxMultipartParts}. partSizeFor i) = 8184000 * 2 ^ 20"
  using partSizeFor_eq partSizeFor_le partSizeFor_pos total_capacity by simp

section \<open>The HTTP client\<close>

text \<open>
  C24. The HTTP client of \<open>http.go\<close> keeps the contract of an \<open>ObjectStorageClient\<close> against every server that
  behaves as S3 documents (\<open>s3_server\<close>), for all names whose URL is unambiguous (\<open>url_name\<close>): through lost
  requests, lost answers and retries, reads return the object, a listing has every key, a part upload records
  exactly its data, \<open>Complete\<close>, \<open>PutObject\<close> and \<open>DeleteObject\<close> change only their own object, and report success only
  when the change is there. The HEAD request of \<open>Complete\<close> is what decides when the upload is gone: completing an
  upload that is not there changes no object and reports success only if there is an object of that name (it
  cannot tell an older one from the uploaded one); and where the answer is a 200 with the error \<open>NoSuchUpload\<close>
  and the HEAD finds the object, \<open>Complete\<close> succeeds. A server that drops an upload otherwise than by completing or
  aborting it is not covered by the contract; after a 404 the code does not ask for the object.
\<close>

theorem http_client_contract:
  assumes "http_client obj parts remaining ok ep net E h"
  shows "object_client (httpClient E h) obj parts url_name ok \<and>
    (\<forall>c b k u etags s oe s'. ok s \<and> url_name b k \<and> parts s b k u = None \<and> Complete (httpClient E h) c b k u etags s = (oe, s') \<longrightarrow>
       obj s' = obj s \<and> (oe = None \<longrightarrow> obj s b k \<noteq> None)) \<and>
    (\<forall>c b k u etags xml s resp data s1 n s2. he_xmlComplete E (sortedParts etags) = Inr xml \<and>
       doRequest E h c ''POST'' (buildURL ep b k (valuesEncode [(''uploadId'', u)])) xml [(''Content-Type'', ''application/xml'')] s = (Inr resp, s1) \<and>
       rp_StatusCode resp = 200 \<and> rp_Body resp = (data, None) \<and> he_xmlError E data = Inr ''NoSuchUpload'' \<and>
       GetObjectSize (httpClient E h) c b k s1 = (Inr n, s2) \<longrightarrow> Complete (httpClient E h) c b k u etags s = (None, s2))"
proof -
  have ops: "Complete (httpClient E h) = httpComplete E h" "GetObjectSize (httpClient E h) = httpGetObjectSize E h"
    by (simp_all add: httpClient_def)
  have gone: "obj s' = obj s \<and> (oe = None \<longrightarrow> obj s b k \<noteq> None)"
    if "ok s \<and> url_name b k \<and> parts s b k u = None \<and> httpComplete E h c b k u etags s = (oe, s')" for c b k u etags s oe s'
    using that http_client.http_complete_gone [OF assms] by metis
  show ?thesis
    unfolding ops by (intro conjI http_client.client_contract [OF assms] allI impI)
      (use gone http_client.http_complete_found [OF assms] in \<open>blast+\<close>)
qed

theorem http_client_contract_witness:
  "object_client (httpClient (refEnv 9) fx_httpClient) bw_objs bw_ups url_name http_ok \<and>
   fst (Complete (httpClient (refEnv 9) fx_httpClient) CallerCtx ''b'' ''new'' ''u0'' [] fx_http) \<noteq> None"
proof -
  let ?C = "httpClient (refEnv 9) fx_httpClient"
  obtain oe s' where run: "Complete ?C CallerCtx ''b'' ''new'' ''u0'' [] fx_http = (oe, s')" by fastforce
  have "url_name ''b'' ''new''" "bw_ups fx_http ''b'' ''new'' ''u0'' = None" "bw_objs fx_http ''b'' ''new'' = None"
    by (simp_all add: url_name_def fx_http_def)
  with http_client_contract [OF fx_http_client [of 9]] fx_http_ok run show ?thesis by (metis fst_conv)
qed

text \<open>
  C25. \<open>GetObjectRange\<close> of the HTTP client returns exactly the requested bytes of the object, or a prefix of
  them that ends with an error, whether the server honours the \<open>Range\<close> header (206) or sends the whole object
  (200); it leaves the store unchanged, and reports "not found" only for an object that is not there. The one
  request excluded is a range whose length overflows \<open>int64\<close>.
\<close>

theorem http_range_exact:
  assumes "http_client obj parts remaining ok ep net E h" and "ok s" and "url_name b k" and "valid_range i j"
  shows "obj (snd (httpGetObjectRange E h c b k i j s)) = obj s \<and>
    (\<forall>body. fst (httpGetObjectRange E h c b k i j s) = Inr body \<longrightarrow> (\<exists>d. obj s b k = Some d \<and> delivers (byteRange i j d) body)) \<and>
    (\<forall>e. fst (httpGetObjectRange E h c b k i j s) = Inl e \<and> errIs e ErrNotFound \<longrightarrow> obj s b k = None)"
  using http_client.range_spec [OF assms(1) surjective_pairing assms(2-4)]
  by (simp add: object_world.same_def object_world.read_ok_def)

theorem http_range_exact_witness:
  "bw_objs (snd (httpGetObjectRange (refEnv 9) fx_httpClient CallerCtx ''b'' ''y z'' 1 5 fx_http)) = bw_objs fx_http \<and>
   (\<exists>body d. fst (httpGetObjectRange (refEnv 9) fx_httpClient CallerCtx ''b'' ''y z'' 1 5 fx_http) = Inr body \<and>
      bw_objs fx_http ''b'' ''y z'' = Some d \<and> delivers (byteRange 1 5 d) body)"
proof -
  have names: "url_name ''b'' ''y z''" "valid_range 1 5" by (simp_all add: url_name_def valid_range_def is_int64_def)
  have "\<not> isl (fst (httpGetObjectRange (refEnv 9) fx_httpClient CallerCtx ''b'' ''y z'' 1 5 fx_http))" by code_simp
  then obtain body where "fst (httpGetObjectRange (refEnv 9) fx_httpClient CallerCtx ''b'' ''y z'' 1 5 fx_http) = Inr body"
    by (cases "fst (httpGetObjectRange (refEnv 9) fx_httpClient CallerCtx ''b'' ''y z'' 1 5 fx_http)") auto
  then show ?thesis using http_range_exact [OF fx_http_client [of 9] fx_http_ok names, of CallerCtx] by blast
qed

text \<open>
  C26. On a conforming server the paging loop of \<open>ListObjects\<close> ends: after at most as many pages as there
  are keys left, plus one, it has returned, with continuation tokens or with markers. What it returns is an
  error of a page request or exactly the server's listing, in order and without repetition, and the store is
  unchanged.
\<close>

theorem http_listing_complete:
  assumes "http_client obj parts remaining ok ep net E h" and "ok s" and "b \<noteq> []" and "CHR ''/'' \<notin> set b"
    and "length (remaining s b px [] []) < fuel"
  shows "\<exists>r s'. listLoop fuel E h c b px [] [] [] s = Some (r, s') \<and> obj s' = obj s \<and>
    (\<forall>os. r = Inr os \<longrightarrow> map oi_Name os = remaining s b px [] [])"
proof -
  have same: "object_world.same obj parts remaining ok s s" using assms(2) by (rule object_world.same_start)
  obtain r s' where r: "listLoop fuel E h c b px [] [] [] s = Some (r, s')"
    using http_client.list_loop_returns [OF assms(1,3,4) same _ assms(5)] by blast
  with http_client.list_loop_spec [OF assms(1,3,4) same _ r] show ?thesis by (auto simp: object_world.same_def)
qed

theorem http_listing_complete_witness:
  "\<exists>r s'. listLoop 4 (refEnv 9) fx_httpClient CallerCtx ''b'' [] [] [] [] fx_http = Some (r, s') \<and>
     (\<forall>os. r = Inr os \<longrightarrow> map oi_Name os = [''x/1'', ''x/2'', ''y z''])"
  using http_listing_complete [OF fx_http_client [of 9] fx_http_ok, of "''b''" "[]" 4 CallerCtx] by (auto simp: fx_remaining)

text \<open>
  C27. The URL of a request determines its target: decoding the path and the query of \<open>buildURL\<close> gives back the
  path segments of bucket and key and the query values, whatever bytes they contain, and two URLs are the same
  exactly if these segments (\<open>segments\<close>: outer slashes dropped) and the query values are the same. So names
  that differ only in outer slashes, such as \<open>a\<close> and \<open>a/\<close>, share their URL; for a bucket of one segment and
  a nonempty key without outer slashes (\<open>url_name\<close>) the URL gives bucket and key. Excluded are a bucket and
  a key that both have nothing but slashes.
\<close>

theorem url_roundtrip:
  assumes "segments b k \<noteq> []"
  shows "urlTarget ep (buildURL ep b k (valuesEncode q)) = Some (segments b k, sort_key fst q) \<and>
    (\<forall>b' k' q'. segments b' k' \<noteq> [] \<longrightarrow>
       (buildURL ep b' k' (valuesEncode q') = buildURL ep b k (valuesEncode q) \<longleftrightarrow>
        segments b' k' = segments b k \<and> sort_key fst q' = sort_key fst q)) \<and>
    (\<forall>b' k' q'. url_name b k \<and> url_name b' k' \<and> buildURL ep b' k' (valuesEncode q') = buildURL ep b k (valuesEncode q) \<longrightarrow>
       b' = b \<and> k' = k)"
proof -
  have target: "urlTarget ep (buildURL ep b k (valuesEncode q)) = Some (segments b k, sort_key fst q)" if "segments b k \<noteq> []" for b k q
    by (simp add: urlTarget_built [OF that] parseQuery_valuesEncode)
  have same: "buildURL ep b' k' (valuesEncode q') = buildURL ep b k (valuesEncode q) \<longleftrightarrow>
      segments b' k' = segments b k \<and> sort_key fst q' = sort_key fst q" if "segments b' k' \<noteq> []" for b' k' q'
  proof
    assume "buildURL ep b' k' (valuesEncode q') = buildURL ep b k (valuesEncode q)"
    with target [OF that, of q'] target [OF assms, of q] show "segments b' k' = segments b k \<and> sort_key fst q' = sort_key fst q" by simp
  qed (simp add: buildURL_segments valuesEncode_def)
  have "b' = b \<and> k' = k"
    if "url_name b k" "url_name b' k'" "buildURL ep b' k' (valuesEncode q') = buildURL ep b k (valuesEncode q)" for b' k' q'
    using same [of b' k' q'] that by (simp add: segments_object) (metis Split_inj)
  with target [OF assms] same show ?thesis by blast
qed

theorem url_roundtrip_witness:
  "urlTarget fx_endpoint (buildURL fx_endpoint ''b'' ''y z/50%?'' (valuesEncode [(''uploadId'', ''a&b'')])) =
     Some ([''b'', ''y z'', ''50%?''], [(''uploadId'', ''a&b'')]) \<and>
   buildURL fx_endpoint ''b'' ''y z/50%?/'' [] = buildURL fx_endpoint ''b'' ''y z/50%?'' []"
proof -
  let ?k = "''y z/50%?''"
  have seg: "segments ''b'' ?k = [''b'', ''y z'', ''50%?'']" by code_simp
  have seg': "segments ''b'' ''y z/50%?/'' = [''b'', ''y z'', ''50%?'']" by code_simp
  have ne: "segments ''b'' ?k \<noteq> []" "segments ''b'' ''y z/50%?/'' \<noteq> []" by (simp_all add: seg seg')
  have "buildURL fx_endpoint ''b'' ''y z/50%?/'' (valuesEncode []) = buildURL fx_endpoint ''b'' ?k (valuesEncode [])"
    using url_roundtrip [OF ne(1), THEN conjunct2, THEN conjunct1, rule_format, OF ne(2)] by (simp add: seg seg')
  moreover have "valuesEncode [] = []" by (simp add: valuesEncode_def)
  moreover have "urlTarget fx_endpoint (buildURL fx_endpoint ''b'' ?k (valuesEncode [(''uploadId'', ''a&b'')])) =
      Some ([''b'', ''y z'', ''50%?''], [(''uploadId'', ''a&b'')])"
    using url_roundtrip [OF ne(1), THEN conjunct1, of fx_endpoint "[(''uploadId'', ''a&b'')]"] unfolding seg by simp
  ultimately show ?thesis by metis
qed

text \<open>
  \<open>parseHeaderAuth\<close> reads back what \<open>HEADER[k1:v1,k2:v2,...]\<close> says, for canonical header names and
  values that may contain commas, as long as no text after a comma reads like a header of its own.
\<close>

theorem header_auth_roundtrip:
  "hs \<noteq> [] \<Longrightarrow> list_all (\<lambda>(k, v). canonical k \<and> plain_value v) hs \<Longrightarrow> distinct (map fst hs) \<Longrightarrow>
   parseHeaderAuth (renderHeaders hs) = Inr hs"
  by (rule parseHeaderAuth_render)

theorem header_auth_roundtrip_witness:
  "parseHeaderAuth ''HEADER[Accept:a/b, c,X-Key:1]'' = Inr [(''Accept'', ''a/b, c''), (''X-Key'', ''1'')]"
  using header_auth_roundtrip [of "[(''Accept'', ''a/b, c''), (''X-Key'', ''1'')]"] fx_canon
  by (simp add: renderHeaders_def)

section \<open>The S3 and OCI clients\<close>

text \<open>
  C28. The S3 client keeps the contract of an \<open>ObjectStorageClient\<close> over every service whose calls behave as the
  AWS documentation says (\<open>sdk_service\<close>; calls may fail before or after they have taken effect), through
  all its retries; and it reads exactly the requested byte range, or a prefix of it that ends with an error,
  and reports "not found" only for an object that is not there. Completing an upload that is gone changes no
  object and reports success only if there is an object of that name; and where the service says that the
  upload is gone and the HEAD finds the object, \<open>Complete\<close> succeeds. The classification of errors, the reading of
  pages and the 32-bit part numbers are those of the code.
\<close>

theorem s3_client_contract:
  assumes "sdk_service obj parts remaining ok (sc_api (s3Sdk attempts pages u)) s3Objects s3Next nm s3_missing s3_gone"
    and "\<And>c s. ctx_ok (attempts c s)"
  shows "object_client (s3Client attempts pages u) obj parts nm ok \<and>
    (\<forall>c b k i j s. ok s \<and> nm b k \<and> valid_range i j \<longrightarrow>
       obj (snd (GetObjectRange (s3Client attempts pages u) c b k i j s)) = obj s \<and>
       (\<forall>body. fst (GetObjectRange (s3Client attempts pages u) c b k i j s) = Inr body \<longrightarrow> (\<exists>d. obj s b k = Some d \<and> delivers (byteRange i j d) body)) \<and>
       (\<forall>e. fst (GetObjectRange (s3Client attempts pages u) c b k i j s) = Inl e \<and> errIs e ErrNotFound \<longrightarrow> obj s b k = None)) \<and>
    (\<forall>c b k v etags s oe s'. ok s \<and> nm b k \<and> parts s b k v = None \<and> Complete (s3Client attempts pages u) c b k v etags s = (oe, s') \<longrightarrow>
       obj s' = obj s \<and> (oe = None \<longrightarrow> obj s b k \<noteq> None)) \<and>
    (\<forall>c b k v etags s e s1 n s2.
       s3_CompleteMultipartUpload (su_client u) c b k v (completedParts (s3Sdk attempts pages u) etags) s = (Inl e, s1) \<and>
       errIs (s3ClassifyError True e) ErrUploadNotFound \<and> GetObjectSize (s3Client attempts pages u) c b k s1 = (Inr n, s2) \<longrightarrow>
       Complete (s3Client attempts pages u) c b k v etags s = (None, s2))"
proof -
  let ?U = "s3Sdk attempts pages u"
  note client = s3_sdk_client [OF assms]
  have ops: "GetObjectRange (s3Client attempts pages u) = sdkGetObjectRange ?U" "Complete (s3Client attempts pages u) = sdkComplete ?U"
    "GetObjectSize (s3Client attempts pages u) = sdkGetObjectSize ?U"
    by (simp_all add: s3Client_def sdkObjectClient_def)
  have found: "sdkComplete ?U c b k v etags s = (None, s2)"
    if "s3_CompleteMultipartUpload (su_client u) c b k v (completedParts ?U etags) s = (Inl e, s1)"
      "errIs (s3ClassifyError True e) ErrUploadNotFound" "sdkGetObjectSize ?U c b k s1 = (Inr n, s2)" for c b k v etags s e s1 n s2
    by (rule sdk_complete_found [OF _ _ that(3)]) (use that(1,2) in \<open>simp_all add: s3Sdk_def Let_def\<close>)
  have gone: "obj s' = obj s \<and> (oe = None \<longrightarrow> obj s b k \<noteq> None)"
    if "ok s \<and> nm b k \<and> parts s b k v = None \<and> sdkComplete ?U c b k v etags s = (oe, s')" for c b k v etags s oe s'
    using that sdk_client.sdk_complete_gone [OF client] by metis
  have range: "object_client (s3Client attempts pages u) obj parts nm ok \<and>
    (\<forall>c b k i j s. ok s \<and> nm b k \<and> valid_range i j \<longrightarrow>
       obj (snd (sdkGetObjectRange ?U c b k i j s)) = obj s \<and>
       (\<forall>body. fst (sdkGetObjectRange ?U c b k i j s) = Inr body \<longrightarrow> (\<exists>d. obj s b k = Some d \<and> delivers (byteRange i j d) body)) \<and>
       (\<forall>e. fst (sdkGetObjectRange ?U c b k i j s) = Inl e \<and> errIs e ErrNotFound \<longrightarrow> obj s b k = None))"
    using sdk_client.sdk_contract [OF client, folded s3Client_def] sdk_client.sdk_range_exact [OF client] by blast
  show ?thesis
    unfolding ops by (intro conjI range [THEN conjunct1] range [THEN conjunct2] allI impI) (use gone found in \<open>blast+\<close>)
qed

theorem s3_client_contract_witness:
  "object_client (s3Client quietCalls 9 refS3Client) bw_objs bw_ups any_name http_ok"
proof -
  have "sdk_service bw_objs bw_ups sdkRemaining http_ok (sc_api (s3Sdk quietCalls 9 refS3Client)) s3Objects s3Next any_name s3_missing s3_gone"
    using s3Types_service by (simp add: s3Sdk_ref refS3Client_def)
  from s3_client_contract [OF this quietCalls_ok] show ?thesis ..
qed

text \<open>
  C29. The OCI client keeps the same contract over every service whose calls behave as the OCI documentation
  says (\<open>sdk_service\<close>, for an authorized caller: a 404 means that the object or the upload is not there, while OCI
  also answers 404 to a caller without authorization). A \<open>Complete\<close> whose answer was lost finds its upload gone
  and asks for the object: completing an upload that is gone changes no object and reports success only if
  there is an object of that name; and where the service says that the upload is gone and the HEAD finds the
  object, \<open>Complete\<close> succeeds.
\<close>

theorem oci_client_contract:
  assumes "sdk_service obj parts remaining ok (sc_api (ociSdk attempts pages u)) ociObjects ociNext nm oci_missing oci_gone"
    and "\<And>c s. ctx_ok (attempts c s)"
  shows "object_client (ociClient attempts pages u) obj parts nm ok \<and>
    (\<forall>c b k v etags s oe s'. ok s \<and> nm b k \<and> parts s b k v = None \<and> Complete (ociClient attempts pages u) c b k v etags s = (oe, s') \<longrightarrow>
       obj s' = obj s \<and> (oe = None \<longrightarrow> obj s b k \<noteq> None)) \<and>
    (\<forall>c b k v etags s e s1 n s2.
       oci_CommitMultipartUpload (ou_client u) c (ou_namespace u) b k v (completedParts (ociSdk attempts pages u) etags) s = (Inl e, s1) \<and>
       oci_gone e \<and> GetObjectSize (ociClient attempts pages u) c b k s1 = (Inr n, s2) \<longrightarrow>
       Complete (ociClient attempts pages u) c b k v etags s = (None, s2))"
proof -
  let ?U = "ociSdk attempts pages u"
  note client = oci_sdk_client [OF assms]
  have ops: "Complete (sdkObjectClient ?U) = sdkComplete ?U" "GetObjectSize (sdkObjectClient ?U) = sdkGetObjectSize ?U"
    by (simp_all add: sdkObjectClient_def)
  have found: "sdkComplete ?U c b k v etags s = (None, s2)"
    if "oci_CommitMultipartUpload (ou_client u) c (ou_namespace u) b k v (completedParts ?U etags) s = (Inl e, s1)"
      "oci_gone e" "sdkGetObjectSize ?U c b k s1 = (Inr n, s2)" for c b k v etags s e s1 n s2
    by (rule sdk_complete_found [OF _ _ that(3)]) (use that(1,2) in \<open>simp_all add: ociSdk_def Let_def ociClassify_gone oci_gone_def\<close>)
  have gone: "obj s' = obj s \<and> (oe = None \<longrightarrow> obj s b k \<noteq> None)"
    if "ok s \<and> nm b k \<and> parts s b k v = None \<and> sdkComplete ?U c b k v etags s = (oe, s')" for c b k v etags s oe s'
    using that sdk_client.sdk_complete_gone [OF client] by metis
  show ?thesis
    unfolding ociClient_sdk ops by (intro conjI sdk_client.sdk_contract [OF client] allI impI) (use gone found in \<open>blast+\<close>)
qed

theorem oci_client_contract_witness:
  "object_client (ociClient quietCalls 9 refOCIClient) bw_objs bw_ups any_name http_ok \<and>
   fst (Complete (ociClient quietCalls 9 refOCIClient) CallerCtx ''b'' ''new'' ''u0'' [] fx_http) \<noteq> None"
proof -
  let ?C = "ociClient quietCalls 9 refOCIClient"
  have "sdk_service bw_objs bw_ups sdkRemaining http_ok (sc_api (ociSdk quietCalls 9 refOCIClient)) ociObjects ociNext any_name oci_missing oci_gone"
    using ociTypes_service by (simp add: ociSdk_ref refOCIClient_def)
  note contract = oci_client_contract [OF this quietCalls_ok]
  obtain oe s' where run: "Complete ?C CallerCtx ''b'' ''new'' ''u0'' [] fx_http = (oe, s')" by fastforce
  have "any_name ''b'' ''new''" "bw_ups fx_http ''b'' ''new'' ''u0'' = None" "bw_objs fx_http ''b'' ''new'' = None"
    by (simp_all add: any_name_def fx_http_def)
  with contract fx_http_ok run show ?thesis by (metis fst_conv)
qed

text \<open>
  C30. The paging loop of \<open>ListObjects\<close> in both SDK clients ends over a service whose tokens advance: after at
  most one page more than there are keys left it has returned an error of a request or exactly the service's
  listing, in order, and nothing has changed. (Unlike the HTTP client, these loops do not check that a token
  advances.)
\<close>

theorem sdk_listing_complete:
  assumes "sdk_client obj parts remaining ok U nm missing gone" and "ok s" and "length (remaining s b px None) < fuel"
  shows "\<exists>r s'. sdkListLoop fuel U c b px None [] s = Some (r, s') \<and> obj s' = obj s \<and>
    (\<forall>os. r = Inr os \<longrightarrow> map oi_Name os = remaining s b px None)"
  using assms by (rule sdk_client.sdk_listing)

theorem sdk_listing_complete_witness:
  "\<exists>r s'. sdkListLoop 4 (s3Sdk quietCalls 9 refS3Client) CallerCtx ''b'' [] None [] fx_http = Some (r, s') \<and>
     (\<forall>os. r = Inr os \<longrightarrow> map oi_Name os = [''x/1'', ''x/2'', ''y z''])"
  using sdk_listing_complete [OF s3r.sdk_client_axioms fx_http_ok, of "''b''" "[]" 4 9 CallerCtx] by (auto simp: sdkRemaining_def fx_remaining)

text \<open>
  C31. An auth string \<open>S3_ACCESS_KEYS[KEY:SECRET:TOKEN];region=R\<close> configures exactly these keys and this region, and every change of region
  afterwards keeps the keys and a client that belongs to its configuration: tuned transport, no overall
  timeout, no retries inside the SDK.
\<close>

theorem s3_keys_configured:
  assumes "key_text key" and "key_text secret" and "key_text token" and "key \<noteq> []" and "secret \<noteq> []" and "plain_option [''region''] (''region'', region)"
  shows "\<exists>u. NewS3Client A (''S3_ACCESS_KEYS['' @ Join [key, secret, token] '':'' @ ''];region='' @ region) = Inr u \<and>
    (\<forall>rs. let v = fold (s3SetRegion A) rs u in s3_configured A v \<and> ac_Region (su_cfg v) = last (region # rs) \<and>
       ac_Credentials (su_cfg v) = Some (aws_StaticCredentials A key secret token))"
proof -
  from NewS3Client_keys [OF assms, of A] obtain u where u: "NewS3Client A (''S3_ACCESS_KEYS['' @ Join [key, secret, token] '':'' @ ''];region='' @ region) = Inr u"
    "ac_Region (su_cfg u) = region" "ac_Credentials (su_cfg u) = Some (aws_StaticCredentials A key secret token)" by blast
  with s3SetRegion_all [OF NewS3Client_configured [OF u(1)]] show ?thesis by (auto simp: Let_def)
qed

theorem s3_keys_configured_witness:
  "\<exists>u. NewS3Client refAWS ''S3_ACCESS_KEYS[AK:SK/1+:];region=eu-west-1'' = Inr u \<and> ac_Credentials (su_cfg u) = Some [''AK'', ''SK/1+'', []] \<and>
     ac_Region (su_cfg (s3SetRegion refAWS ''us-east-1'' u)) = ''us-east-1''"
proof -
  have texts: "key_text ''AK''" "key_text ''SK/1+''" "key_text []" "plain_option [''region''] (''region'', ''eu-west-1'')" by code_simp+
  have cred: "aws_StaticCredentials refAWS k t x = [k, t, x]" for k t x by (simp add: refAWS_def)
  from s3_keys_configured [OF texts(1-3) _ _ texts(4), of refAWS] obtain u where
    "NewS3Client refAWS ''S3_ACCESS_KEYS[AK:SK/1+:];region=eu-west-1'' = Inr u" and
    all: "\<And>rs. let v = fold (s3SetRegion refAWS) rs u in s3_configured refAWS v \<and> ac_Region (su_cfg v) = last (''eu-west-1'' # rs) \<and>
       ac_Credentials (su_cfg v) = Some [''AK'', ''SK/1+'', []]" by (auto simp: cred)
  with all [of "[]"] all [of "[''us-east-1'']"] show ?thesis by (simp add: Let_def)
qed

text \<open>
  C32. \<open>OpenWithHeaderTimeout\<close> with a timer: a body is handed out exactly when \<open>open\<close> answered before the timer,
  live, and every other body is closed with its context cancelled; an expired header phase under a live context
  is \<open>ErrAttemptTimeout\<close>. But the call returns neither a body nor an error exactly when \<open>open\<close> answered, the timer
  had expired, and its goroutine has not yet stored \<open>fired\<close> or the caller's context is done.
\<close>

theorem header_timeout_outcomes:
  assumes "0 < d" and "timer_ok (open True)"
  shows "op_body (OpenWithHeaderTimeout d open) = (if hr_stopped (open True) then hr_body (open True) else None) \<and>
    op_closed (OpenWithHeaderTimeout d open) = (hr_body (open True) \<noteq> None \<and> \<not> hr_stopped (open True)) \<and>
    op_cancelled (OpenWithHeaderTimeout d open) = (op_body (OpenWithHeaderTimeout d open) = None) \<and>
    (hr_fired (open True) \<and> hr_ctx (open True) = None \<longrightarrow> op_err (OpenWithHeaderTimeout d open) = Some (Errorf [Sentinel ErrAttemptTimeout])) \<and>
    (op_body (OpenWithHeaderTimeout d open) = None \<and> op_err (OpenWithHeaderTimeout d open) = None \<longleftrightarrow>
       hr_err (open True) = None \<and> \<not> hr_stopped (open True) \<and> (hr_fired (open True) \<longrightarrow> hr_ctx (open True) \<noteq> None))"
  using OpenWithHeaderTimeout_body [of d "open", OF assms] OpenWithHeaderTimeout_expired(1) [of d "open", OF assms]
    OpenWithHeaderTimeout_nil [of d "open", OF assms] by simp

theorem header_timeout_outcomes_witness:
  "let h = \<lparr>hr_body = Some ([1], None), hr_err = None, hr_stopped = False, hr_fired = False, hr_ctx = None\<rparr>
   in op_body (OpenWithHeaderTimeout 5 (\<lambda>_. h)) = None \<and> op_err (OpenWithHeaderTimeout 5 (\<lambda>_. h)) = None"
proof -
  let ?h = "\<lparr>hr_body = Some ([1], None), hr_err = None, hr_stopped = False, hr_fired = False, hr_ctx = None\<rparr>"
  have "timer_ok ?h" by (simp add: timer_ok_def)
  with header_timeout_outcomes [of 5 "\<lambda>_. ?h"] show ?thesis by (simp add: Let_def)
qed

section \<open>Trees\<close>

text \<open>
  C33. Building the tree of a backup fails exactly when a file path is another file's directory or is
  (a parent of) a listed directory, and then with \<open>ErrPathCollision\<close>.
\<close>

theorem buildTree_collision:
  "(paths_collide dirs files \<longleftrightarrow> (\<exists>e. buildTree dirs files = Inl e)) \<and>
   (\<exists>e. buildTree dirs files = Inl e \<and> \<not> errIs e ErrPathCollision) = False"
proof -
  have "paths_collide dirs files \<longleftrightarrow> (\<exists>e. buildTree dirs files = Inl e)"
    using buildTree_ok_iff [of dirs files] by (cases "buildTree dirs files") auto
  then show ?thesis by (auto dest: buildTree_error)
qed

text \<open>
  C34. Round trip of snapshots: the tree that \<open>buildAndHash\<close> stores for a set of directories and
  files is read back by \<open>walkTree\<close> as exactly those files with their content keys, and exactly the
  directories without anything in them, from any tree map that contains the stored nodes.
\<close>

theorem build_walk_roundtrip:
  assumes "buildTree dirs files = Inr n" and "gm_wf files"
    and "\<And>d. d \<in> set dirs \<Longrightarrow> d \<noteq> [] \<Longrightarrow> list_all valid_name (Split CHR ''/'' d)"
    and "list_all (\<lambda>x. list_all valid_name (Split CHR ''/'' (fst x))) files"
    and "buildAndHash mar n trees = Inr (h, trees')" and "no_collision mar (emittedNodes mar n)"
    and "dn_depth n \<le> fuel" and "\<And>k v. gm_get trees' k = Some v \<Longrightarrow> gm_get trees'' k = Some v"
  shows "\<exists>fs ds. walkTree mar fuel h [] trees'' skip ([], []) = Some (Inr (fs, ds)) \<and>
    gm_get fs = map_option leafKey \<circ> gm_get files \<and> set ds = emptyDirs dirs files"
  using assms by (rule build_walk_in)

theorem build_walk_roundtrip_witness:
  "\<exists>fs ds. walkTree fx_mar 1 fx_hash [] [(fx_hash, fx_node5)] False ([], []) = Some (Inr (fs, ds)) \<and>
    gm_get fs ''f'' = Some fx_part \<and> ds = []"
proof -
  let ?leaf = "\<lparr>fl_Crc32 = 5, fl_UncompressedSize = 3\<rparr>"
  have t: "buildTree [] [(''f'', ?leaf)] = Inr (TempDirNode [(''f'', ?leaf)] [])"
    by (simp add: buildTree_def newTempDirNode_def)
  have b: "buildAndHash fx_mar (TempDirNode [(''f'', ?leaf)] []) [] = Inr (fx_hash, [(fx_hash, fx_node5)])"
    by (simp add: fx_mar_def fx_hash_def fx_node5_def Let_def)
  have "list_all (\<lambda>x. list_all valid_name (Split CHR ''/'' (fst x))) [(''f'', ?leaf)]" "gm_wf [(''f'', ?leaf)]"
    by (simp_all add: valid_name_iff gm_wf_def)
  note walk = build_walk_roundtrip [OF t this(2) _ this(1) b fx_no_collision, of 1 "[(fx_hash, fx_node5)]" False]
  obtain fs ds where "walkTree fx_mar 1 fx_hash [] [(fx_hash, fx_node5)] False ([], []) = Some (Inr (fs, ds))"
    "gm_get fs = map_option leafKey \<circ> gm_get [(''f'', ?leaf)]" "set ds = emptyDirs [] [(''f'', ?leaf)]"
    by (rule walk [THEN exE]) (simp, simp, blast+)
  then show ?thesis
    by (intro exI [of _ fs] exI [of _ ds] conjI) (simp_all only:, simp_all add: leafKey_def fx_fileKey5 fx_part_def emptyDirs_def)
qed

text \<open>
  C35. The root hash of a snapshot does not depend on the order in which the results arrived: two
  listings with the same directories and the same files have the same root hash.
\<close>

theorem root_hash_order:
  assumes "buildTree dirs files = Inr n" and "buildTree dirs' files' = Inr n'"
    and "gm_wf files" and "gm_wf files'" and "set dirs = set dirs'" and "set files = set files'"
    and "buildAndHash mar n [] = Inr (h, trees)"
  shows "\<exists>trees'. buildAndHash mar n' [] = Inr (h, trees')"
proof -
  have "gm_get files = gm_get files'"
    using assms(3,4,6) by (intro map_eq_Some) (simp add: gm_get_in_set)
  then have "gm_get (compFiles files) = gm_get (compFiles files')"
    by (intro map_eq_Some) (simp add: compFiles_Some_iff)
  then have "same_dir n n'"
    using buildTree_fileAt [OF assms(1,3)] buildTree_fileAt [OF assms(2,4)] buildTree_isDirAt [OF assms(1)] buildTree_isDirAt [OF assms(2)]
    by (simp add: same_dir_def assms(5,6))
  then have "rootHash mar n = rootHash mar n'"
    using rootHash_same_dir buildTree_wf assms(1,2) by blast
  then show ?thesis
    using assms(7) by (cases "emitNode mar n'") (auto simp: buildAndHash_emit split: option.splits)
qed

theorem root_hash_order_witness:
  "\<exists>n' trees'. buildTree [''b'', ''a''] [] = Inr n' \<and> buildAndHash fx_mar n' [] = Inr (fx_hash, trees')"
proof -
  have t: "\<exists>n. buildTree ds [] = Inr n" for ds by (simp add: buildTree_ok_iff paths_collide_def)
  obtain n n' where n: "buildTree [''a'', ''b''] [] = Inr n" "buildTree [''b'', ''a''] [] = Inr n'" using t by blast
  then have "\<exists>trees. buildAndHash fx_mar n [] = Inr (fx_hash, trees)"
    by (auto simp: buildTree_def newTempDirNode_def fx_mar_def fx_hash_def Let_def)
  with root_hash_order [OF n] n show ?thesis by (auto simp: gm_wf_def)
qed

text \<open>
  C36. The live set that \<open>DeleteVersion\<close> and \<open>GC\<close> compute is exact: the traversal succeeds exactly
  when every tree reachable from a version is present, hashes to its key, is sorted and has only
  well-formed entries, and then it has marked exactly the reachable trees and exactly their file keys.
\<close>

theorem collectLive_exact_iff:
  "(\<forall>h \<in> live_from trees (roots vs). node_ok mar trees h) \<longleftrightarrow>
   (\<exists>lt lf. collectLive mar vs trees ([], []) = Inr (lt, lf) \<and>
      set lt = live_from trees (roots vs) \<and> set lf = keys_from trees (roots vs))"
proof
  assume "\<forall>h \<in> live_from trees (roots vs). node_ok mar trees h"
  then obtain lv where "collectLive mar vs trees ([], []) = Inr lv" using collectLive_ok by blast
  then show "\<exists>lt lf. collectLive mar vs trees ([], []) = Inr (lt, lf) \<and>
      set lt = live_from trees (roots vs) \<and> set lf = keys_from trees (roots vs)"
    using collectLive_exact by (cases lv) blast
qed (use collectLive_exact in blast)

theorem collectLive_exact_iff_witness:
  "node_ok fx_mar [(fx_hash, fx_node)] fx_hash"
proof -
  have "\<exists>lt lf. collectLive fx_mar [(''8'', fx_version 8)] [(fx_hash, fx_node)] ([], []) = Inr (lt, lf) \<and>
      set lt = live_from [(fx_hash, fx_node)] (roots [(''8'', fx_version 8)]) \<and>
      set lf = keys_from [(fx_hash, fx_node)] (roots [(''8'', fx_version 8)])"
    using fx_live collectLive_exact [OF fx_live] by blast
  moreover have "fx_hash \<in> live_from [(fx_hash, fx_node)] (roots [(''8'', fx_version 8)])"
    by (simp add: live_from_def roots_def fx_version_def reach_refl)
  ultimately show ?thesis using collectLive_exact_iff [of "[(fx_hash, fx_node)]" "[(''8'', fx_version 8)]" fx_mar] by blast
qed

text \<open>
  \<open>walkCollect\<close> always returns, also on a tree map with cycles or shared subtrees: recursion
  never goes deeper than the number of trees.
\<close>

theorem walkCollect_returns:
  "walkCollect mar (Suc (length trees)) h trees lv \<noteq> None"
  using walkCollect_total [of mar trees h lv] by auto

text \<open>
  C37. After a successful \<open>GC\<close> sweep of an object store in which every deletion succeeded, every part
  object that is left is named by a record of the metadata.
\<close>

theorem gc_sweep_complete:
  assumes "object_client C obj parts nm ok" and "store_names nm bucket px" and "ok s"
    and "GC_sweep (ObjectStorage C bucket px clock) c md s = (None, s')"
    and "\<And>q s. ok s \<Longrightarrow> fst (st_Delete (ObjectStorage C bucket px clock) c q s) = None"
    and "rx_match partKeyRegex q" and "object_contents obj bucket px s' q \<noteq> None"
  shows "pathBase q \<in> fst ` set (Files md)"
  using keyed_storage.GC_sweep_complete [OF object_keyed_storage [OF assms(1,2)] assms(3-7)] .

theorem gc_sweep_complete_witness:
  "pathBase ''00/00000000_0'' \<in> fst ` set (Files fx_md)"
proof -
  have "fst (st_Delete (ObjectStorage bucketClient ''b'' ''t/'' (\<lambda>_. 0)) CallerCtx q s) = None" if "bucket_ok True s" for q s
    using that by (auto simp: ObjectStorage_def oDelete_def bucketClient_def faulty_def errOf_def bucket_ok_def)
  moreover have "rx_match partKeyRegex ''00/00000000_0''" by code_simp
  moreover have "object_contents bw_objs ''b'' ''t/'' (fx_bucket [1]) ''00/00000000_0'' \<noteq> None" by (simp add: object_contents_def fx_bucket_def)
  ultimately show ?thesis
    using gc_sweep_complete [OF bc.object_client_axioms store_names_any fx_bucket_ok(1) fx_sweep [unfolded fx_ostore_def]] by blast
qed

section \<open>Paths and keys\<close>

text \<open>
  C38. \<open>safeJoin\<close> never leaves the restore directory: whatever the archive path, an accepted result is
  the cleaned base followed by at least one ordinary path component, never \<open>..\<close>.
\<close>

theorem safeJoin_contained:
  "safeJoin base p = Inr out \<Longrightarrow>
   \<exists>ts. ts \<noteq> [] \<and> list_all plain ts \<and> out = unparse (Rooted base) (cleanComps base @ ts)"
  using safeJoin_below [of base p out] by (simp add: below_def)

theorem safeJoin_contained_witness:
  "safeJoin ''/out'' ''a/../b'' = Inr ''/out/b'' \<and>
   (\<exists>ts. ts \<noteq> [] \<and> list_all plain ts \<and> ''/out/b'' = unparse (Rooted ''/out'') (cleanComps ''/out'' @ ts))"
proof -
  have "safeJoin ''/out'' ''a/../b'' = Inr ''/out/b''" by code_simp
  with safeJoin_contained [OF this] show ?thesis by blast
qed

text \<open>
  The key of a file part is valid for every non-negative size, the scanner
  \<open>isValidFileKey\<close> accepts exactly what the regular expression of \<open>client.go\<close> matches, and
  the key determines the checksum and the size.
\<close>

theorem fileKeyFor_valid_inj:
  "(rx_match fileKeyRegex k \<longleftrightarrow> isValidFileKey k) \<and>
   (isValidFileKey (fileKeyFor crc sz) \<longleftrightarrow> 0 \<le> sz) \<and>
   (fileKeyFor crc sz = fileKeyFor crc' sz' \<longleftrightarrow> crc = crc' \<and> sz = sz')"
  using fileKeyFor_inj by (auto simp: fileKeyRegex_iff isValidFileKey_fileKeyFor)

text \<open>
  The storage path of a part is recognised by the garbage collector's pattern, and
  \<open>path.Base\<close> gives the key back.
\<close>

theorem partKeyFor_roundtrip:
  "isValidFileKey k \<Longrightarrow> rx_match partKeyRegex (partKeyFor k) \<and> pathBase (partKeyFor k) = k"
  by (simp add: partKeyFor_matches pathBase_partKeyFor)

theorem partKeyFor_roundtrip_witness:
  "isValidFileKey ''0a1b2c3d_42'' \<and> pathBase (partKeyFor ''0a1b2c3d_42'') = ''0a1b2c3d_42''"
proof -
  have "isValidFileKey ''0a1b2c3d_42''"
    by (simp add: isValidFileKey_def less_char_def less_eq_char_def)
  with partKeyFor_roundtrip [of "''0a1b2c3d_42''"] show ?thesis by simp
qed

section \<open>Versions and metadata\<close>

text \<open>
  \<open>latestVersion\<close> is the maximum by backup time, then identifier: it is one of the versions,
  no version is later, and it is missing only when there is none. So the order in which the map is
  iterated does not matter.
\<close>

theorem latestVersion_maximum:
  "(latestVersion md = None \<longleftrightarrow> Versions md = []) \<and>
   (latestVersion md = Some l \<longrightarrow> l \<in> snd ` set (Versions md) \<and> (\<forall>v \<in> snd ` set (Versions md). \<not> version_later v l))"
  using latestVersion_None_iff [of md] latestVersion_max [of md l] by blast

theorem latestVersion_maximum_witness:
  "latestVersion fx_md = Some (fx_version 8) \<and> fx_version 8 \<in> snd ` set (Versions fx_md)"
proof -
  have "latestVersion fx_md = Some (fx_version 8)"
    by (simp add: latestVersion_def fx_md_def fx_version_def version_later_def)
  with latestVersion_maximum [of fx_md "fx_version 8"] show ?thesis by blast
qed

text \<open>
  \<open>generateVersionID\<close> returns an identifier that is not zero, is not in use and fits a positive
  \<open>int64\<close>; and it returns as soon as one of the hashed clock and counter values is a free identifier.
\<close>

theorem generateVersionID_sound:
  "(\<forall>vid seq'. generateVersionID existing clock seq = Some (vid, seq') \<longrightarrow> fresh_id existing vid \<and> unat vid < 2 ^ 63) \<and>
   (fresh_id existing (versionCandidate (clock (Suc n)) (seq + of_nat (Suc n))) \<longrightarrow>
      (\<exists>r. generateVersionID existing clock seq = Some r))"
proof -
  have "fresh_id existing vid \<and> unat vid < 2 ^ 63" if "generateVersionID existing clock seq = Some (vid, seq')" for vid seq'
    using generateVersionID_loop_sound [OF that [unfolded generateVersionID_def]] masked_le_MaxInt64 by auto
  moreover have "\<exists>r. generateVersionID existing clock seq = Some r"
    if "fresh_id existing (versionCandidate (clock (Suc n)) (seq + of_nat (Suc n)))"
    using generateVersionID_loop_returns [of existing clock 1 n seq] that by (simp add: generateVersionID_def)
  ultimately show ?thesis by blast
qed

theorem generateVersionID_sound_witness:
  "\<exists>r. generateVersionID [] (\<lambda>_. 0) 0 = Some r"
proof -
  have "FormatInt 0 = ''0''" "FormatUint 1 = ''1''" by code_simp+
  then have "versionCandidate 0 (0 + of_nat (Suc 0)) \<noteq> 0"
    by (simp add: versionCandidate_def hashStringToUint64_def of_char_def id_mask_def)
  then have "fresh_id [] (versionCandidate 0 (0 + of_nat (Suc 0)))" by (simp add: fresh_id_def)
  then show ?thesis using generateVersionID_sound [of "[]" "\<lambda>_. 0" 0 0] by simp
qed

text \<open>
  C39. \<open>RunBackup\<close> drops the label of the store: a successful run into an object store, whatever metadata the store had
  before and over any client that keeps the documented laws, leaves metadata with the new version and without a
  \<open>StoreLabel\<close>. The codec law and a source that leaves the store alone are assumed.
\<close>

theorem backup_drops_store_label:
  assumes "object_client C obj parts nm ok" and "store_names nm bucket px" and "md_codec unmarshal marshal" and "ok s"
    and "source_ok (object_contents obj bucket px) (object_key nm bucket px) ok listSrc" and "gm_wf (bo_PublicKeys opts)"
    and "RunBackup unmarshal marshal mar Z env listSrc (ObjectStorage C bucket px clock) opts s (Inr v) s'"
  shows "\<exists>md'. stored unmarshal (object_contents obj bucket px) s' = Some md' \<and>
    gm_has (Versions md') (FormatUint (SnowflakeId v)) \<and> StoreLabel md' = None"
  using keyed_storage.run_label [OF object_keyed_storage [OF assms(1,2)] assms(3-7)] .

theorem backup_drops_store_label_witness:
  "(\<exists>md. stored (fx_unmarshal fx_md9') (object_contents bw_objs ''b'' ''t/'') (fx_bucket [1]) = Some md \<and> StoreLabel md \<noteq> None) \<and>
   (\<exists>md'. stored (fx_unmarshal fx_md9') (object_contents bw_objs ''b'' ''t/'') (fx_bucket [2]) = Some md' \<and> StoreLabel md' = None)"
proof -
  have "StoreLabel fx_md \<noteq> None" by (simp add: fx_md_def)
  moreover have keys: "gm_wf (bo_PublicKeys (fx_opts 9 False))" by (simp add: gm_wf_def fx_opts_def)
  moreover note run = RunBackup.ran [OF fx_backup0 [unfolded fx_ostore_def, where Z = fx_zip]]
  ultimately show ?thesis
    using fx_bucket_ok(2) [of fx_md9'] backup_drops_store_label [OF bc.object_client_axioms store_names_any fx_codec [OF fx_md9'_wf]
        fx_bucket_ok(1) fx_source0_ok keys run] by blast
qed

section \<open>Retries\<close>

text \<open>
  C40. \<open>RetryPolicy.Do\<close>: every attempt before the last one failed with an error the policy retries
  (the attempt timed out, or the error is retryable and not permanent) while the context was alive and
  attempts were left; the last one was not retried; the delays slept are those of the retried attempts;
  the result is that of the last attempt, with its error still visible in the chain; and there is at
  least one attempt and never more than the policy's limits allow.
\<close>

theorem retry_do:
  "(\<forall>k. 1 \<le> k \<and> k < do_attempts (runDo p timeout env) \<longrightarrow> retried p timeout env k) \<and>
   \<not> retried p timeout env (do_attempts (runDo p timeout env)) \<and>
   do_waits (runDo p timeout env) = map (wait_after p timeout env) [1..<do_attempts (runDo p timeout env)] \<and>
   (case runAttempt timeout (env (do_attempts (runDo p timeout env))) of
      None \<Rightarrow> do_err (runDo p timeout env) = None
    | Some e \<Rightarrow> \<exists>e'. do_err (runDo p timeout env) = Some e' \<and> (\<forall>t. errIs e t \<longrightarrow> errIs e' t)) \<and>
   1 \<le> do_attempts (runDo p timeout env) \<and>
   do_attempts (runDo p timeout env) \<le> nat (max 1 (max (MaxAttempts p) (MaxStatusAttempts p)))"
  using Do_spec [where n = 1 and ws = "[]" and p = p and timeout = timeout and env = env, folded runDo_def]
    runDo_attempts [of p timeout env] unfolding attempt_bound_def by simp

theorem retry_do_witness:
  "do_attempts (runDo DefaultRetryPolicy 0 fx_flaky) = 2 \<and> retried DefaultRetryPolicy 0 fx_flaky 1"
proof -
  have "do_attempts (runDo DefaultRetryPolicy 0 fx_flaky) = 2"
    unfolding runDo_def
    by (subst Do.simps, subst Do.simps)
      (simp add: fx_flaky_def runAttempt_def attemptLimit_def DefaultRetryPolicy_def IsRetryable_def Retryable_def Let_def)
  with retry_do [of DefaultRetryPolicy 0 fx_flaky] show ?thesis by simp
qed

text \<open>
  The timeout of an upload attempt does not overflow for any body below 9223372036 bytes: it is
  one minute plus the time at 256 KiB/s. For every part of a multipart upload it is between 60 s and
  20540 s.
\<close>

theorem upload_timeout_exact:
  "(0 \<le> n \<and> n \<le> 9223372036 \<longrightarrow> UploadAttemptTimeout n = uploadBaseTimeout + n * Second div uploadMinThroughput) \<and>
   uploadBaseTimeout \<le> UploadAttemptTimeout (partSizeFor k) \<and> UploadAttemptTimeout (partSizeFor k) \<le> 20540 * Second"
proof -
  have exact: "UploadAttemptTimeout n = uploadBaseTimeout + n * Second div uploadMinThroughput" if "0 \<le> n" "n \<le> 9223372036" for n
  proof -
    have "n * Second \<le> 9223372036 * 1000000000" using that by (simp add: Second_def Millisecond_def)
    then have "n * Second div uploadMinThroughput \<le> 9223372036 * 1000000000 div uploadMinThroughput"
      by (intro zdiv_mono1) (auto simp: uploadMinThroughput_def)
    then have "is_int64 (uploadBaseTimeout + n * Second div uploadMinThroughput)"
      using that by (simp add: is_int64_def uploadMinThroughput_def uploadBaseTimeout_def Second_def Millisecond_def)
    moreover have "is_int64 (n * Second)" "0 \<le> n * Second" "0 < uploadMinThroughput"
      using that by (simp_all add: is_int64_def Second_def Millisecond_def uploadMinThroughput_def)
    ultimately show ?thesis by (simp add: UploadAttemptTimeout_def go_quot_nonneg)
  qed
  have part: "0 \<le> partSizeFor k" "partSizeFor k \<le> 5 * 1024 * 1024 * 1024"
    using less_imp_le [OF partSizeFor_pos [of k]] partSizeFor_le [of k] by (simp_all add: maxPartSize_def)
  then have "partSizeFor k * Second div uploadMinThroughput \<le> 5 * 1024 * 1024 * 1024 * Second div uploadMinThroughput"
    by (intro zdiv_mono1) (auto simp: uploadMinThroughput_def Second_def Millisecond_def)
  then show ?thesis
    using exact exact [of "partSizeFor k"] part by (auto simp: uploadBaseTimeout_def uploadMinThroughput_def Second_def Millisecond_def)
qed

theorem upload_timeout_exact_witness:
  "UploadAttemptTimeout (8 * 1024 * 1024) = 92 * Second"
  using upload_timeout_exact [of "8 * 1024 * 1024" 1]
  by (simp add: uploadBaseTimeout_def uploadMinThroughput_def Second_def Millisecond_def)

section \<open>Passwords\<close>

text \<open>
  Round trip of the part password: what \<open>EncryptPassword\<close> seals for a key pair, \<open>DecryptPassword\<close>
  opens with its private key, over any box that keeps NaCl's documented law.
\<close>

theorem password_roundtrip:
  assumes "EncryptPassword nb (Inr eph) (Inr nonce) password (fst vm) = Inr (ephPub, enc)"
    and "box_law nb eph vm" and "length nonce = 24" and "length (fst eph) = 32" and "length (snd vm) = 32"
  shows "DecryptPassword nb enc ephPub (snd vm) = Inr password"
  using assms by (rule encrypt_decrypt)

theorem password_roundtrip_witness:
  "\<exists>enc. EncryptPassword \<lparr>nb_Seal = (\<lambda>out m n pk sk. out @ replicate 16 0 @ m), nb_Open = (\<lambda>ct n pk sk. Some (drop 16 ct))\<rparr>
       (Inr (replicate 32 1, replicate 32 2)) (Inr (replicate 24 3)) ''pw'' (replicate 32 4) = Inr (replicate 32 1, enc) \<and>
     DecryptPassword \<lparr>nb_Seal = (\<lambda>out m n pk sk. out @ replicate 16 0 @ m), nb_Open = (\<lambda>ct n pk sk. Some (drop 16 ct))\<rparr>
       enc (replicate 32 1) (replicate 32 5) = Inr ''pw''"
proof -
  let ?nb = "\<lparr>nb_Seal = (\<lambda>out m n pk sk. out @ replicate 16 0 @ m), nb_Open = (\<lambda>ct n pk sk. Some (drop 16 ct))\<rparr>"
  let ?eph = "(replicate 32 1, replicate 32 2)" and ?vm = "(replicate 32 4, replicate 32 (5 :: byte))"
  obtain enc where enc: "EncryptPassword ?nb (Inr ?eph) (Inr (replicate 24 3)) ''pw'' (fst ?vm) = Inr (replicate 32 1, enc)"
    by (simp add: EncryptPassword_def)
  have "box_law ?nb ?eph ?vm" by (simp add: box_law_def)
  from password_roundtrip [OF enc this] enc show ?thesis by auto
qed

end
